(* ===== verification/Prelude.thy ===== *)
theory Prelude
  imports Main "HOL-Library.Word"
begin

section \<open>Shared types, outcomes and automation\<close>

text \<open>
  This theory holds what every component of the development uses: the machine integer types
  of include/turtle/common/config.hpp, the outcomes a C++ function can have other than
  returning (an exception, a failed assertion, termination, undefined behaviour), the two
  sequencing combinators (for pure fallible code and for code that also changes state), and
  generic lemmas on lists and maps that the component theories share.
\<close>

named_theorems res_simps \<open>evaluation rules of the outcome combinators\<close>

type_synonym u8 = "8 word"
type_synonym u32 = "32 word"
type_synonym u64 = "64 word"

text \<open>The identifiers and constants of include/turtle/common/config.hpp.\<close>

type_synonym PageId = u32
type_synonym TableOid = u32
type_synonym FrameId = u32
type_synonym FileId = u32

definition PAGE_SIZE :: nat where "PAGE_SIZE = 4096"

definition INVALID_PAGE_ID :: PageId where "INVALID_PAGE_ID = - 1"

definition INVALID_FRAME_ID :: FrameId where "INVALID_FRAME_ID = - 1"

subsection \<open>Outcomes\<close>

text \<open>
  \<open>ExceptionType\<close> lists the enumerators of include/turtle/common/exceptions.hpp (two of
  them carry a suffix because \<open>DataType\<close> has enumerators of the same name). An
  \<open>error\<close> is every way in which a C++ function can fail to return a value: a thrown
  turtle::Exception, std::runtime_error or std::logic_error, a failed assert, a
  TURTLE_ENSURE that terminates the process, an execution whose behaviour the language does not
  define, or an acquisition of a latch that waits for a holder.
\<close>

datatype ExceptionType =
    INVALID_EXC | OUT_OF_RANGE | CONVERSION | UNKNOWN_TYPE | DECIMAL_EXC | MISMATCH_TYPE
  | DIVIDE_BY_ZERO | INCOMPATIBLE_TYPE | OUT_OF_MEMORY | NOT_IMPLEMENTED | EXECUTION

datatype error =
    Exception ExceptionType string
  | Runtime_error string
  | Logic_error string
  | Assert_failed
  | Terminated string
  | Undefined string
  | Would_block

text \<open>\<open>Exception::ExceptionTypeToString\<close>.\<close>

fun ExceptionTypeToString :: "ExceptionType \<Rightarrow> string" where
  "ExceptionTypeToString INVALID_EXC = ''Invalid''"
| "ExceptionTypeToString OUT_OF_RANGE = ''Out of Range''"
| "ExceptionTypeToString CONVERSION = ''Conversion''"
| "ExceptionTypeToString UNKNOWN_TYPE = ''Unknown Type''"
| "ExceptionTypeToString DECIMAL_EXC = ''Decimal''"
| "ExceptionTypeToString MISMATCH_TYPE = ''Mismatch Type''"
| "ExceptionTypeToString DIVIDE_BY_ZERO = ''Divide by Zero''"
| "ExceptionTypeToString INCOMPATIBLE_TYPE = ''Incompatible type''"
| "ExceptionTypeToString OUT_OF_MEMORY = ''Out of Memory''"
| "ExceptionTypeToString NOT_IMPLEMENTED = ''Not implemented''"
| "ExceptionTypeToString EXECUTION = ''Execution''"

type_synonym 'a res = "error + 'a"

abbreviation throw :: "error \<Rightarrow> 'a res" where "throw \<equiv> Inl"
abbreviation ok :: "'a \<Rightarrow> 'a res" where "ok \<equiv> Inr"

text \<open>The one-argument constructor of turtle::Exception leaves the type at INVALID.\<close>

abbreviation exception_msg :: "string \<Rightarrow> error" where
  "exception_msg \<equiv> Exception INVALID_EXC"

definition res_bind :: "'a res \<Rightarrow> ('a \<Rightarrow> 'b res) \<Rightarrow> 'b res" where
  "res_bind m f = (case m of Inl e \<Rightarrow> Inl e | Inr x \<Rightarrow> f x)"

lemma res_bind_Inl [simp, res_simps]: "res_bind (Inl e) f = Inl e"
  and res_bind_Inr [simp, res_simps]: "res_bind (Inr x) f = f x"
  by (simp_all add: res_bind_def)

lemma res_bind_eq_Inr: "res_bind m f = Inr y \<longleftrightarrow> (\<exists>x. m = Inr x \<and> f x = Inr y)"
  by (cases m) auto

definition assert_that :: "bool \<Rightarrow> unit res" where
  "assert_that b = (if b then ok () else throw Assert_failed)"

lemma assert_that_True [simp, res_simps]: "assert_that True = ok ()"
  and assert_that_False [simp, res_simps]: "assert_that False = throw Assert_failed"
  by (simp_all add: assert_that_def)

fun res_map :: "('a \<Rightarrow> 'b res) \<Rightarrow> 'a list \<Rightarrow> 'b list res" where
  "res_map f [] = ok []"
| "res_map f (x # xs) = res_bind (f x) (\<lambda>y. res_bind (res_map f xs) (\<lambda>ys. ok (y # ys)))"

text \<open>
  Code that changes state returns the new state on every path, the exceptional ones included,
  because an exception does not undo the assignments made before it.
\<close>

type_synonym ('s, 'a) op = "'s \<Rightarrow> 's \<times> 'a res"

definition op_return :: "'a \<Rightarrow> ('s, 'a) op" where
  "op_return x s = (s, ok x)"

definition op_throw :: "error \<Rightarrow> ('s, 'a) op" where
  "op_throw e s = (s, throw e)"

definition op_lift :: "'a res \<Rightarrow> ('s, 'a) op" where
  "op_lift r s = (s, r)"

definition op_modify :: "('s \<Rightarrow> 's) \<Rightarrow> ('s, unit) op" where
  "op_modify f s = (f s, ok ())"

definition op_bind :: "('s, 'a) op \<Rightarrow> ('a \<Rightarrow> ('s, 'b) op) \<Rightarrow> ('s, 'b) op" where
  "op_bind m f s = (case m s of (s', Inl e) \<Rightarrow> (s', Inl e) | (s', Inr x) \<Rightarrow> f x s')"

lemma op_bind_Inl [res_simps]: "m s = (s', Inl e) \<Longrightarrow> op_bind m f s = (s', Inl e)"
  and op_bind_Inr [res_simps]: "m s = (s', Inr x) \<Longrightarrow> op_bind m f s = f x s'"
  by (simp_all add: op_bind_def)

lemmas op_defs = op_return_def op_throw_def op_lift_def op_modify_def

subsection \<open>Lists and maps\<close>

lemma find_index_None_iff: "List.find P xs = None \<longleftrightarrow> (\<forall>x \<in> set xs. \<not> P x)"
  by (auto simp: find_None_iff)

lemma nth_list_update_id: "i < length xs \<Longrightarrow> (xs[i := y]) ! j = (if j = i then y else xs ! j)"
  by auto

lemma map_upd_inj_on:
  assumes "inj_on m (dom m)" and "\<forall>k' \<in> dom m. k' \<noteq> k \<longrightarrow> m k' \<noteq> Some v"
  shows "inj_on (m(k \<mapsto> v)) (dom (m(k \<mapsto> v)))"
  using assms by (auto simp: inj_on_def dom_def split: if_splits)

text \<open>A size_t that is narrowed to uint32_t.\<close>

lemma ucast_count: "(ucast (of_nat k :: u64) :: u32) = of_nat k"
  by (simp add: unsigned_of_nat word_of_nat_eq_iff)

end
