(* ===== verification/LruReplacer.thy ===== *)
theory LruReplacer
  imports Prelude
begin

section \<open>Replacement policies: the Replacer interface and LRUReplacer\<close>

text \<open>
  include/turtle/buffer/replacer.hpp declares the abstract class Replacer (victim, pin, unpin,
  size); src/buffer/lru_replacer.cpp implements it with a list, most recently unpinned frame
  first, and a map from frames to their list nodes. The interface is the locale \<open>replacer\<close>:
  its laws say what each call does to the list of eviction candidates, and the lemmas proved
  inside it hold of every policy that meets them. \<open>lru\<close> interprets it on the model of the code.
\<close>

subsection \<open>The interface\<close>

locale replacer =
  fixes inv :: "'r \<Rightarrow> bool"
    and candidates :: "'r \<Rightarrow> FrameId list"
    and victim :: "'r \<Rightarrow> 'r \<times> FrameId option"
    and pin :: "FrameId \<Rightarrow> 'r \<Rightarrow> 'r"
    and unpin :: "FrameId \<Rightarrow> 'r \<Rightarrow> 'r"
    and size_of :: "'r \<Rightarrow> nat"
  assumes distinct_candidates: "inv r \<Longrightarrow> distinct (candidates r)"
    and victim_None: "inv r \<Longrightarrow> candidates r = [] \<Longrightarrow> victim r = (r, None)"
    and victim_Some: "inv r \<Longrightarrow> candidates r = fs @ [f] \<Longrightarrow>
      \<exists>r'. victim r = (r', Some f) \<and> inv r' \<and> candidates r' = fs"
    and pin_removes: "inv r \<Longrightarrow> inv (pin f r) \<and> candidates (pin f r) = filter (\<lambda>g. g \<noteq> f) (candidates r)"
    and unpin_adds: "inv r \<Longrightarrow> inv (unpin f r) \<and>
      candidates (unpin f r) = (if f \<in> set (candidates r) then candidates r else f # candidates r)"
    and size_counts: "inv r \<Longrightarrow> size_of r = length (candidates r)"
begin

text \<open>The frames that n consecutive calls of victim return.\<close>

primrec drain :: "nat \<Rightarrow> 'r \<Rightarrow> 'r \<times> FrameId list" where
  "drain 0 r = (r, [])"
| "drain (Suc n) r = (case victim r of
     (r', None) \<Rightarrow> (r', [])
   | (r', Some f) \<Rightarrow> (case drain n r' of (r'', fs) \<Rightarrow> (r'', f # fs)))"

lemma victim_is_candidate: "inv r \<Longrightarrow> victim r = (r', Some f) \<Longrightarrow> f \<in> set (candidates r)"
  using victim_Some [of r] victim_None [of r]
  by (cases "candidates r" rule: rev_cases) fastforce+

lemma drain_all:
  "inv r \<Longrightarrow> n = length (candidates r) \<Longrightarrow> snd (drain n r) = rev (candidates r)"
proof (induction n arbitrary: r)
  case (Suc n)
  then obtain fs f where c: "candidates r = fs @ [f]"
    by (metis length_0_conv nat.distinct(1) rev_exhaust)
  then obtain r' where r': "victim r = (r', Some f)" "inv r'" "candidates r' = fs"
    using victim_Some [OF Suc.prems(1) c] by blast
  from Suc.prems(2) c r'(3) have "n = length (candidates r')" by simp
  from Suc.IH [OF r'(2) this] c r' show ?case by (simp add: case_prod_beta)
qed simp

lemma unpin_list:
  "inv r \<Longrightarrow> distinct fs \<Longrightarrow> set fs \<inter> set (candidates r) = {} \<Longrightarrow>
    inv (fold unpin fs r) \<and> candidates (fold unpin fs r) = rev fs @ candidates r"
proof (induction fs arbitrary: r)
  case (Cons f fs)
  then have "inv (unpin f r)" "candidates (unpin f r) = f # candidates r"
    using unpin_adds by auto
  with Cons show ?case by auto
qed simp

text \<open>Frames leave in the order in which they were unpinned.\<close>

lemma victims_in_unpin_order:
  assumes "inv r" and "candidates r = []" and "distinct fs"
  shows "snd (drain (length fs) (fold unpin fs r)) = fs"
proof -
  have "inv (fold unpin fs r)" "candidates (fold unpin fs r) = rev fs"
    using unpin_list [of r fs] assms by auto
  then show ?thesis using drain_all [of "fold unpin fs r"] by simp
qed

text \<open>Frames that are pinned again are taken out, and the rest leave in the same order.\<close>

lemma pin_list:
  "inv r \<Longrightarrow> inv (fold pin gs r) \<and> candidates (fold pin gs r) = filter (\<lambda>f. f \<notin> set gs) (candidates r)"
proof (induction gs arbitrary: r)
  case (Cons g gs)
  then have "inv (pin g r)" "candidates (pin g r) = filter (\<lambda>h. h \<noteq> g) (candidates r)"
    using pin_removes by auto
  with Cons.IH [of "pin g r"] show ?case by (auto intro: filter_cong)
qed simp

lemma victims_after_pins:
  assumes "inv r" and "candidates r = []" and "distinct fs"
  shows "let r' = fold pin gs (fold unpin fs r) in snd (drain (size_of r') r') = filter (\<lambda>f. f \<notin> set gs) fs"
proof -
  have "inv (fold unpin fs r)" "candidates (fold unpin fs r) = rev fs"
    using unpin_list [of r fs] assms by auto
  then have "inv (fold pin gs (fold unpin fs r))"
    "candidates (fold pin gs (fold unpin fs r)) = filter (\<lambda>f. f \<notin> set gs) (rev fs)"
    using pin_list by auto
  then show ?thesis by (simp add: Let_def drain_all size_counts rev_filter)
qed

lemma pinned_not_victim:
  "inv r \<Longrightarrow> victim (pin f r) = (r', Some g) \<Longrightarrow> g \<noteq> f"
  using victim_is_candidate [of "pin f r" r' g] pin_removes [of r f] by auto

end

subsection \<open>LRUReplacer\<close>

text \<open>
  \<open>lru_map\<close> gives the list node of a frame; a node is named by the frame it holds, and
  erasing it removes that element (the list never holds a frame twice, see \<open>lru_inv\<close>).
\<close>

record LRUReplacer =
  lru_list :: "FrameId list"
  lru_map :: "FrameId \<Rightarrow> FrameId option"
  capacity :: nat

definition new_LRUReplacer :: "nat \<Rightarrow> LRUReplacer" where
  "new_LRUReplacer num_pages = \<lparr>lru_list = [], lru_map = Map.empty, capacity = num_pages\<rparr>"

definition lru_victim :: "LRUReplacer \<Rightarrow> LRUReplacer \<times> FrameId option" where
  "lru_victim r = (if lru_list r = [] then (r, None)
     else (let f = last (lru_list r)
           in (r\<lparr>lru_list := butlast (lru_list r), lru_map := (lru_map r)(f := None)\<rparr>, Some f)))"

definition lru_pin :: "FrameId \<Rightarrow> LRUReplacer \<Rightarrow> LRUReplacer" where
  "lru_pin f r = (case lru_map r f of None \<Rightarrow> r
     | Some node \<Rightarrow> r\<lparr>lru_list := remove1 node (lru_list r), lru_map := (lru_map r)(f := None)\<rparr>)"

definition lru_unpin :: "FrameId \<Rightarrow> LRUReplacer \<Rightarrow> LRUReplacer" where
  "lru_unpin f r = (if lru_map r f = None
     then r\<lparr>lru_list := f # lru_list r, lru_map := (lru_map r)(f \<mapsto> f)\<rparr> else r)"

definition lru_size :: "LRUReplacer \<Rightarrow> nat" where
  "lru_size r = length (lru_list r)"

definition lru_inv :: "LRUReplacer \<Rightarrow> bool" where
  "lru_inv r \<longleftrightarrow> distinct (lru_list r) \<and>
     (\<forall>f. lru_map r f = (if f \<in> set (lru_list r) then Some f else None))"

lemma lru_inv_new: "lru_inv (new_LRUReplacer n)"
  by (simp add: lru_inv_def new_LRUReplacer_def)

interpretation lru: replacer lru_inv lru_list lru_victim lru_pin lru_unpin lru_size
proof (unfold_locales, goal_cases)
  case (3 r fs f)
  then show ?case by (auto simp: lru_victim_def lru_inv_def Let_def)
next
  case (4 r f)
  then show ?case
    by (auto simp: lru_pin_def lru_inv_def distinct_remove1_removeAll removeAll_filter_not_eq
        eq_commute [of f] intro!: filter_True [symmetric])
qed (auto simp: lru_inv_def lru_victim_def lru_unpin_def lru_size_def)

text \<open>
  C34. Least recently unpinned first. After distinct frames are unpinned in some order and some frames
  are pinned again, the victims are the frames still unpinned, in the order of their unpinning, and
  there are as many as size reports.
\<close>

theorem lru_evicts_in_unpin_order:
  fixes fs gs :: "FrameId list" and n :: nat
  assumes "distinct fs"
  defines "r \<equiv> fold lru_pin gs (fold lru_unpin fs (new_LRUReplacer n))"
  shows "snd (lru.drain (lru_size r) r) = filter (\<lambda>f. f \<notin> set gs) fs"
  using lru.victims_after_pins [OF lru_inv_new _ assms(1), of n gs]
  by (simp add: r_def Let_def) (simp add: new_LRUReplacer_def)

lemma lru_evicts_in_unpin_order_witness:
  "snd (lru.drain 2 (fold lru_pin [2] (fold lru_unpin [3, 2, 5] (new_LRUReplacer 4)))) = [3, 5]"
proof -
  have "distinct [3, 2, 5 :: FrameId]" "lru_size (fold lru_pin [2] (fold lru_unpin [3, 2, 5] (new_LRUReplacer 4))) = 2"
    by code_simp+
  with lru_evicts_in_unpin_order [of "[3, 2, 5]" "[2]" 4] show ?thesis by simp
qed

end
