(* ===== verification/ArcReplacer.thy ===== *)
theory ArcReplacer
  imports Prelude
begin

section \<open>The adaptive replacement cache policy\<close>

text \<open>
  src/buffer/arc_replacer.cpp. \<open>mru\<close> (T1) and \<open>mfu\<close> (T2) hold the frames that carry a page,
  most recent first; \<open>mru_ghost\<close> (B1) and \<open>mfu_ghost\<close> (B2) remember page ids that were
  evicted from them. A FrameStatus is only ever reachable through one map entry, so the
  shared pointers of the code are plain values here. \<open>curr_size\<close> keeps the width of size_t,
  since the code decrements it; the other two counters are never decremented below zero.
\<close>

datatype ArcStatus = MRU | MFU | MRU_GHOST | MFU_GHOST

record FrameStatus =
  fs_page_id :: PageId
  fs_frame_id :: FrameId
  fs_evictable :: bool
  arc_status :: ArcStatus

record ArcReplacer =
  mru :: "FrameId list"
  mfu :: "FrameId list"
  mru_ghost :: "PageId list"
  mfu_ghost :: "PageId list"
  alive_map :: "FrameId \<Rightarrow> FrameStatus option"
  ghost_map :: "PageId \<Rightarrow> FrameStatus option"
  curr_size :: u64
  mru_target_size :: nat
  replacer_size :: nat

definition new_ArcReplacer :: "nat \<Rightarrow> ArcReplacer" where
  "new_ArcReplacer num_frames = \<lparr>mru = [], mfu = [], mru_ghost = [], mfu_ghost = [],
     alive_map = Map.empty, ghost_map = Map.empty, curr_size = 0, mru_target_size = 0,
     replacer_size = num_frames\<rparr>"

subsection \<open>Eviction\<close>

text \<open>The backward scan of try_evict, on the reversed list; erasing the node it stops at.\<close>

fun scan_victim :: "(FrameId \<Rightarrow> FrameStatus option) \<Rightarrow> FrameId list \<Rightarrow> (FrameId \<times> FrameStatus) option" where
  "scan_victim alive [] = None"
| "scan_victim alive (f # fs) = (case alive f of
     None \<Rightarrow> scan_victim alive fs
   | Some status \<Rightarrow> if fs_evictable status then Some (f, status) else scan_victim alive fs)"

definition erase_last :: "'a \<Rightarrow> 'a list \<Rightarrow> 'a list" where
  "erase_last x xs = rev (remove1 x (rev xs))"

definition try_evict ::
  "ArcReplacer \<Rightarrow> FrameId list \<Rightarrow> PageId list \<Rightarrow> ArcStatus \<Rightarrow>
     (FrameId \<times> FrameId list \<times> PageId list \<times> ArcReplacer) option" where
  "try_evict r live ghost ghost_status = (case scan_victim (alive_map r) (rev live) of
     None \<Rightarrow> None
   | Some (fid, status) \<Rightarrow>
       (let pid = fs_page_id status;
            status' = status\<lparr>arc_status := ghost_status, fs_frame_id := INVALID_FRAME_ID\<rparr>
        in Some (fid, erase_last fid live, pid # ghost,
             r\<lparr>ghost_map := (ghost_map r)(pid \<mapsto> status'),
               alive_map := (alive_map r)(fid := None),
               curr_size := curr_size r - 1\<rparr>)))"

definition evict_mru :: "ArcReplacer \<Rightarrow> (ArcReplacer \<times> FrameId) option" where
  "evict_mru r = map_option (\<lambda>(fid, live, ghost, r'). (r'\<lparr>mru := live, mru_ghost := ghost\<rparr>, fid))
     (try_evict r (mru r) (mru_ghost r) MRU_GHOST)"

definition evict_mfu :: "ArcReplacer \<Rightarrow> (ArcReplacer \<times> FrameId) option" where
  "evict_mfu r = map_option (\<lambda>(fid, live, ghost, r'). (r'\<lparr>mfu := live, mfu_ghost := ghost\<rparr>, fid))
     (try_evict r (mfu r) (mfu_ghost r) MFU_GHOST)"

definition arc_evict :: "ArcReplacer \<Rightarrow> ArcReplacer \<times> FrameId option" where
  "arc_evict r = (if curr_size r = 0 then (r, None)
     else (let (first, second) =
             (if length (mru r) > mru_target_size r then (evict_mru, evict_mfu)
              else (evict_mfu, evict_mru))
           in case first r of
                Some (r', fid) \<Rightarrow> (r', Some fid)
              | None \<Rightarrow> (case second r of
                  Some (r', fid) \<Rightarrow> (r', Some fid)
                | None \<Rightarrow> (r, None))))"

subsection \<open>Accesses\<close>

text \<open>A hit on a live frame.\<close>

definition access_live :: "FrameId \<Rightarrow> FrameStatus \<Rightarrow> ArcReplacer \<Rightarrow> ArcReplacer" where
  "access_live fid status r =
     (let r1 = (if arc_status status = MRU then r\<lparr>mru := removeAll fid (mru r)\<rparr>
                else r\<lparr>mfu := removeAll fid (mfu r)\<rparr>)
      in r1\<lparr>alive_map := (alive_map r1)(fid \<mapsto> status\<lparr>arc_status := MFU\<rparr>), mfu := fid # mfu r1\<rparr>)"

text \<open>A hit on a ghost: the target moves and the page enters MFU.\<close>

definition access_ghost :: "FrameId \<Rightarrow> PageId \<Rightarrow> FrameStatus \<Rightarrow> ArcReplacer \<Rightarrow> ArcReplacer" where
  "access_ghost fid pid status r =
     (let b1 = length (mru_ghost r);
          b2 = length (mfu_ghost r);
          r1 = (if arc_status status = MRU_GHOST
                then (let delta = max 1 (b2 div max b1 1)
                      in r\<lparr>mru_target_size := min (mru_target_size r + delta) (replacer_size r),
                           mru_ghost := removeAll pid (mru_ghost r)\<rparr>)
                else (let delta = max 1 (b1 div max b2 1)
                      in r\<lparr>mru_target_size := (if mru_target_size r > delta
                             then mru_target_size r - delta else 0),
                           mfu_ghost := removeAll pid (mfu_ghost r)\<rparr>))
      in r1\<lparr>ghost_map := (ghost_map r1)(pid := None),
            mfu := fid # mfu r1,
            alive_map := (alive_map r1)(fid \<mapsto>
              status\<lparr>fs_frame_id := fid, fs_page_id := pid, arc_status := MFU, fs_evictable := False\<rparr>)\<rparr>)"

text \<open>A miss: ghost metadata is trimmed, then the frame enters MRU.\<close>

definition trim_ghosts :: "ArcReplacer \<Rightarrow> ArcReplacer" where
  "trim_ghosts r =
     (let t1 = length (mru r);
          b1 = length (mru_ghost r)
      in if t1 + b1 = replacer_size r
         then (if b1 > 0
               then (let dropped = last (mru_ghost r)
                     in r\<lparr>mru_ghost := butlast (mru_ghost r), ghost_map := (ghost_map r)(dropped := None)\<rparr>)
               else r)
         else (let total = t1 + length (mfu r) + b1 + length (mfu_ghost r)
               in if t1 + b1 < replacer_size r \<and> total \<ge> 2 * replacer_size r \<and> mfu_ghost r \<noteq> []
                  then (let dropped = last (mfu_ghost r)
                        in r\<lparr>mfu_ghost := butlast (mfu_ghost r), ghost_map := (ghost_map r)(dropped := None)\<rparr>)
                  else r))"

definition access_miss :: "FrameId \<Rightarrow> PageId \<Rightarrow> ArcReplacer \<Rightarrow> ArcReplacer" where
  "access_miss fid pid r =
     (let r1 = trim_ghosts r
      in r1\<lparr>mru := fid # mru r1, alive_map := (alive_map r1)(fid \<mapsto>
           \<lparr>fs_page_id = pid, fs_frame_id = fid, fs_evictable = False, arc_status = MRU\<rparr>)\<rparr>)"

definition arc_record_access :: "FrameId \<Rightarrow> PageId \<Rightarrow> ArcReplacer \<Rightarrow> ArcReplacer" where
  "arc_record_access fid pid r = (case alive_map r fid of
     Some status \<Rightarrow> access_live fid status r
   | None \<Rightarrow> (case ghost_map r pid of
       Some status \<Rightarrow> access_ghost fid pid status r
     | None \<Rightarrow> access_miss fid pid r))"

subsection \<open>The remaining operations\<close>

definition arc_set_evictable :: "FrameId \<Rightarrow> bool \<Rightarrow> ArcReplacer \<Rightarrow> ArcReplacer" where
  "arc_set_evictable fid b r = (case alive_map r fid of
     None \<Rightarrow> r
   | Some status \<Rightarrow> if fs_evictable status = b then r
       else r\<lparr>alive_map := (alive_map r)(fid \<mapsto> status\<lparr>fs_evictable := b\<rparr>),
              curr_size := (if b then curr_size r + 1 else curr_size r - 1)\<rparr>)"

definition arc_remove :: "FrameId \<Rightarrow> ArcReplacer \<Rightarrow> ArcReplacer \<times> unit res" where
  "arc_remove fid r = (case alive_map r fid of
     None \<Rightarrow> (r, ok ())
   | Some status \<Rightarrow>
       if \<not> fs_evictable status
       then (r, throw (Terminated ''ArcReplacer::remove called on a non-evictable frame.''))
       else (let r1 = (if arc_status status = MRU then r\<lparr>mru := removeAll fid (mru r)\<rparr>
                       else r\<lparr>mfu := removeAll fid (mfu r)\<rparr>)
             in (r1\<lparr>alive_map := (alive_map r1)(fid := None), curr_size := curr_size r1 - 1\<rparr>, ok ())))"

definition arc_size :: "ArcReplacer \<Rightarrow> nat" where
  "arc_size r = replacer_size r"

end
