(* ===== verification/ArcReplacer_Contract.thy ===== *)
theory ArcReplacer_Contract
  imports ArcReplacer
begin

section \<open>The contract of the ARC replacer\<close>

text \<open>
  The invariant of ArcReplacer, its preservation by every operation, and the interface that a
  cache relies on: the locale \<open>eviction_policy\<close> speaks of the tracked and the evictable frames
  only, and its interpretation \<open>arc\<close> shows that the code's policy meets it.
\<close>

subsection \<open>The interface\<close>

locale eviction_policy =
  fixes inv :: "'r \<Rightarrow> bool"
    and frames :: "'r \<Rightarrow> nat"
    and tracked :: "'r \<Rightarrow> FrameId set"
    and evictables :: "'r \<Rightarrow> FrameId set"
    and evict :: "'r \<Rightarrow> 'r \<times> FrameId option"
    and access :: "FrameId \<Rightarrow> PageId \<Rightarrow> 'r \<Rightarrow> 'r"
    and set_evict :: "FrameId \<Rightarrow> bool \<Rightarrow> 'r \<Rightarrow> 'r"
    and remove :: "FrameId \<Rightarrow> 'r \<Rightarrow> 'r \<times> unit res"
  assumes evictables_tracked: "inv r \<Longrightarrow> evictables r \<subseteq> tracked r"
    and evict_None: "inv r \<Longrightarrow> evictables r = {} \<Longrightarrow> evict r = (r, None)"
    and evict_Some: "inv r \<Longrightarrow> evictables r \<noteq> {} \<Longrightarrow>
      \<exists>r' f. evict r = (r', Some f) \<and> f \<in> evictables r \<and> inv r' \<and> frames r' = frames r
        \<and> tracked r' = tracked r - {f} \<and> evictables r' = evictables r - {f}"
    and access_ok: "inv r \<Longrightarrow> unat f < frames r \<Longrightarrow>
      inv (access f p r) \<and> frames (access f p r) = frames r
        \<and> tracked (access f p r) = insert f (tracked r) \<and> evictables (access f p r) = evictables r"
    and set_evict_ok: "inv r \<Longrightarrow>
      inv (set_evict f b r) \<and> frames (set_evict f b r) = frames r \<and> tracked (set_evict f b r) = tracked r
        \<and> evictables (set_evict f b r) =
            (if b \<and> f \<in> tracked r then insert f (evictables r)
             else if b then evictables r else evictables r - {f})"
    and remove_ok: "inv r \<Longrightarrow> f \<in> evictables r \<Longrightarrow>
      \<exists>r'. remove f r = (r', ok ()) \<and> inv r' \<and> frames r' = frames r
        \<and> tracked r' = tracked r - {f} \<and> evictables r' = evictables r - {f}"
begin

text \<open>The pair of calls with which a cache pins a frame.\<close>

definition pin_frame :: "FrameId \<Rightarrow> PageId \<Rightarrow> 'r \<Rightarrow> 'r" where
  "pin_frame f p r = set_evict f False (access f p r)"

lemma pin_frame_ok:
  assumes "inv r" and "unat f < frames r"
  shows "inv (pin_frame f p r)" and "frames (pin_frame f p r) = frames r"
    and "tracked (pin_frame f p r) = insert f (tracked r)"
    and "evictables (pin_frame f p r) = evictables r - {f}"
  using access_ok [OF assms, of p] set_evict_ok [of "access f p r" f False]
  by (auto simp: pin_frame_def)

lemma evict_cases:
  assumes "inv r"
  obtains (none) "evictables r = {}" "evict r = (r, None)"
  | (victim) r' f where "evict r = (r', Some f)" "f \<in> evictables r" "inv r'"
      "frames r' = frames r" "tracked r' = tracked r - {f}" "evictables r' = evictables r - {f}"
  using evict_None [OF assms] evict_Some [OF assms] by blast

lemma pinned_not_evicted:
  assumes "inv r" and "unat f < frames r" and "evict (pin_frame f p r) = (r', Some g)"
  shows "g \<noteq> f"
  using evict_cases [OF pin_frame_ok(1) [OF assms(1,2), of p]] pin_frame_ok(4) [OF assms(1,2), of p] assms(3)
  by (metis DiffE Pair_inject insertI1 option.distinct(1) option.inject)

text \<open>Evicting until nothing is left returns every evictable frame, each once.\<close>

primrec evict_all :: "nat \<Rightarrow> 'r \<Rightarrow> FrameId list" where
  "evict_all 0 r = []"
| "evict_all (Suc n) r = (case evict r of (r', None) \<Rightarrow> [] | (r', Some f) \<Rightarrow> f # evict_all n r')"

lemma evict_all_evictables:
  "inv r \<Longrightarrow> finite (evictables r) \<Longrightarrow> card (evictables r) \<le> n \<Longrightarrow>
    set (evict_all n r) = evictables r \<and> distinct (evict_all n r)"
proof (induction n arbitrary: r)
  case (Suc n)
  from \<open>inv r\<close> show ?case
  proof (cases rule: evict_cases)
    case (victim r' f)
    then have "card (evictables r') \<le> n" "finite (evictables r')"
      using Suc.prems by auto
    with Suc.IH [OF victim(3)] victim show ?thesis by auto
  qed simp
qed simp

end

subsection \<open>The invariant\<close>

definition arc_tracked :: "ArcReplacer \<Rightarrow> FrameId set" where
  "arc_tracked r = dom (alive_map r)"

definition arc_evictables :: "ArcReplacer \<Rightarrow> FrameId set" where
  "arc_evictables r = {f. \<exists>st. alive_map r f = Some st \<and> fs_evictable st}"

definition arc_lists_ok :: "ArcReplacer \<Rightarrow> bool" where
  "arc_lists_ok r \<longleftrightarrow> distinct (mru r) \<and> distinct (mfu r) \<and>
     (\<forall>f. f \<in> set (mru r) \<longleftrightarrow> (\<exists>st. alive_map r f = Some st \<and> arc_status st = MRU)) \<and>
     (\<forall>f. f \<in> set (mfu r) \<longleftrightarrow> (\<exists>st. alive_map r f = Some st \<and> arc_status st = MFU)) \<and>
     (\<forall>f st. alive_map r f = Some st \<longrightarrow>
        arc_status st \<in> {MRU, MFU} \<and> fs_frame_id st = f \<and> unat f < replacer_size r)"

definition arc_ghosts_ok :: "ArcReplacer \<Rightarrow> bool" where
  "arc_ghosts_ok r \<longleftrightarrow> (\<forall>p st. ghost_map r p = Some st \<longrightarrow>
     (arc_status st = MRU_GHOST \<and> p \<in> set (mru_ghost r) \<or>
      arc_status st = MFU_GHOST \<and> p \<in> set (mfu_ghost r)) \<and> fs_page_id st = p)"

definition arc_sizes_ok :: "ArcReplacer \<Rightarrow> bool" where
  "arc_sizes_ok r \<longleftrightarrow> mru_target_size r \<le> replacer_size r \<and>
     length (mru r) + length (mru_ghost r) \<le> replacer_size r \<and>
     length (mru r) + length (mfu r) + length (mru_ghost r) + length (mfu_ghost r) \<le> 2 * replacer_size r"

definition arc_inv :: "ArcReplacer \<Rightarrow> bool" where
  "arc_inv r \<longleftrightarrow> arc_lists_ok r \<and> arc_ghosts_ok r \<and> arc_sizes_ok r \<and>
     curr_size r = of_nat (card (arc_evictables r))"

lemma arc_inv_new: "arc_inv (new_ArcReplacer n)"
  by (simp add: arc_inv_def arc_lists_ok_def arc_ghosts_ok_def arc_sizes_ok_def arc_evictables_def
      new_ArcReplacer_def)

lemma arc_tracked_lists: "arc_lists_ok r \<Longrightarrow> arc_tracked r = set (mru r) \<union> set (mfu r)"
  unfolding arc_lists_ok_def arc_tracked_def dom_def by blast

lemma arc_finite [simp]: "finite (arc_evictables r)"
  by (rule finite)

lemma arc_live_count:
  assumes "arc_lists_ok r"
  shows "length (mru r) + length (mfu r) = card (arc_tracked r)"
    and "arc_tracked r \<subseteq> {f. unat f < replacer_size r}"
proof -
  have "set (mru r) \<inter> set (mfu r) = {}" using assms by (auto simp: arc_lists_ok_def)
  then show "length (mru r) + length (mfu r) = card (arc_tracked r)"
    using assms by (simp add: arc_tracked_lists card_Un_disjoint distinct_card arc_lists_ok_def)
  show "arc_tracked r \<subseteq> {f. unat f < replacer_size r}"
    using assms by (auto simp: arc_lists_ok_def arc_tracked_def)
qed

lemma card_frames_below: "card {f :: FrameId. unat f < n} \<le> n"
proof -
  have "inj_on unat {f :: FrameId. unat f < n}" by (intro inj_onI) (simp add: word_unat_eq_iff)
  then have "card {f :: FrameId. unat f < n} = card (unat ` {f :: FrameId. unat f < n})"
    by (simp add: card_image)
  also have "\<dots> \<le> card {..<n}" by (rule card_mono) auto
  finally show ?thesis by simp
qed

lemma arc_live_le:
  assumes "arc_lists_ok r"
  shows "length (mru r) + length (mfu r) \<le> replacer_size r"
  using arc_live_count [OF assms] card_mono [OF finite, of "arc_tracked r" "{f. unat f < replacer_size r}"]
    card_frames_below [of "replacer_size r"] by simp

lemma arc_room:
  assumes "arc_lists_ok r" and "f \<notin> arc_tracked r" and "unat f < replacer_size r"
  shows "length (mru r) + length (mfu r) < replacer_size r"
proof -
  have "card (insert f (arc_tracked r)) \<le> card {f :: FrameId. unat f < replacer_size r}"
    using assms arc_live_count(2) [OF assms(1)] by (intro card_mono) auto
  then show ?thesis
    using assms arc_live_count(1) [OF assms(1)] card_frames_below [of "replacer_size r"] by simp
qed

lemma card_frames_bound: "card (A :: FrameId set) < 2 ^ 64"
proof -
  have "card A \<le> card (UNIV :: FrameId set)" by (rule card_mono) auto
  then show ?thesis by (simp add: card_word)
qed

lemma curr_size_zero: "arc_inv r \<Longrightarrow> curr_size r = 0 \<longleftrightarrow> arc_evictables r = {}"
proof -
  assume "arc_inv r"
  have "(of_nat (card (arc_evictables r)) :: u64) = 0 \<longleftrightarrow> card (arc_evictables r) = 0"
    using card_frames_bound [of "arc_evictables r"]
    by (auto simp: word_of_nat_eq_0_iff dest!: dvd_imp_le)
  then show ?thesis using \<open>arc_inv r\<close> by (simp add: arc_inv_def)
qed

subsection \<open>Eviction\<close>

lemma scan_victim_None:
  "scan_victim alive fs = None \<longleftrightarrow> (\<forall>f \<in> set fs. \<forall>st. alive f = Some st \<longrightarrow> \<not> fs_evictable st)"
  by (induction fs) (auto split: option.splits)

lemma scan_victim_Some:
  "scan_victim alive fs = Some (f, st) \<Longrightarrow> f \<in> set fs \<and> alive f = Some st \<and> fs_evictable st"
  by (induction fs) (auto split: option.splits if_splits)

lemma set_erase_last: "distinct xs \<Longrightarrow> set (erase_last x xs) = set xs - {x}"
  and distinct_erase_last: "distinct xs \<Longrightarrow> distinct (erase_last x xs)"
  by (simp_all add: erase_last_def)

lemma length_erase_last: "x \<in> set xs \<Longrightarrow> length xs = Suc (length (erase_last x xs))"
  by (cases xs) (auto simp: erase_last_def length_remove1)

lemma evictables_delete:
  "arc_evictables (r\<lparr>alive_map := (alive_map r)(f := None)\<rparr>) = arc_evictables r - {f}"
  by (auto simp: arc_evictables_def)

lemma evictables_cong: "alive_map r = alive_map r' \<Longrightarrow> arc_evictables r = arc_evictables r'"
  and tracked_cong: "alive_map r = alive_map r' \<Longrightarrow> arc_tracked r = arc_tracked r'"
  by (simp_all add: arc_evictables_def arc_tracked_def)

lemma card_minus_one:
  assumes "f \<in> A"
  shows "(of_nat (card (A - {f :: FrameId})) :: u64) = of_nat (card A) - 1"
proof -
  have "of_nat (card A) = (of_nat (Suc (card (A - {f}))) :: u64)"
    using card_Suc_Diff1 [OF finite assms] by simp
  then show ?thesis by (simp del: card_Diff_insert)
qed

definition evicted :: "ArcReplacer \<Rightarrow> FrameId \<Rightarrow> ArcReplacer \<Rightarrow> bool" where
  "evicted r f r' \<longleftrightarrow> f \<in> arc_evictables r \<and> arc_inv r' \<and> replacer_size r' = replacer_size r
     \<and> arc_tracked r' = arc_tracked r - {f} \<and> arc_evictables r' = arc_evictables r - {f}"

lemma evict_mru_Some:
  assumes "evict_mru r = Some (r', f)"
  obtains st where "scan_victim (alive_map r) (rev (mru r)) = Some (f, st)"
    and "r' = r\<lparr>ghost_map := (ghost_map r)(fs_page_id st \<mapsto> st\<lparr>arc_status := MRU_GHOST, fs_frame_id := INVALID_FRAME_ID\<rparr>),
        alive_map := (alive_map r)(f := None), curr_size := curr_size r - 1,
        mru := erase_last f (mru r), mru_ghost := fs_page_id st # mru_ghost r\<rparr>"
proof (cases "scan_victim (alive_map r) (rev (mru r))")
  case (Some v)
  obtain g st where v: "v = (g, st)" by (cases v)
  have "g = f" using assms by (simp add: evict_mru_def try_evict_def Let_def Some v)
  then show ?thesis
    using that [of st] assms by (simp add: evict_mru_def try_evict_def Let_def Some v)
qed (use assms in \<open>simp add: evict_mru_def try_evict_def\<close>)

lemma evict_mfu_Some:
  assumes "evict_mfu r = Some (r', f)"
  obtains st where "scan_victim (alive_map r) (rev (mfu r)) = Some (f, st)"
    and "r' = r\<lparr>ghost_map := (ghost_map r)(fs_page_id st \<mapsto> st\<lparr>arc_status := MFU_GHOST, fs_frame_id := INVALID_FRAME_ID\<rparr>),
        alive_map := (alive_map r)(f := None), curr_size := curr_size r - 1,
        mfu := erase_last f (mfu r), mfu_ghost := fs_page_id st # mfu_ghost r\<rparr>"
proof (cases "scan_victim (alive_map r) (rev (mfu r))")
  case (Some v)
  obtain g st where v: "v = (g, st)" by (cases v)
  have "g = f" using assms by (simp add: evict_mfu_def try_evict_def Let_def Some v)
  then show ?thesis
    using that [of st] assms by (simp add: evict_mfu_def try_evict_def Let_def Some v)
qed (use assms in \<open>simp add: evict_mfu_def try_evict_def\<close>)

lemma evict_mru_ok:
  assumes inv: "arc_inv r" and ev: "evict_mru r = Some (r', f)"
  shows "evicted r f r'"
proof -
  obtain st where sc: "scan_victim (alive_map r) (rev (mru r)) = Some (f, st)"
    and r': "r' = r\<lparr>ghost_map := (ghost_map r)(fs_page_id st \<mapsto> st\<lparr>arc_status := MRU_GHOST, fs_frame_id := INVALID_FRAME_ID\<rparr>),
        alive_map := (alive_map r)(f := None), curr_size := curr_size r - 1,
        mru := erase_last f (mru r), mru_ghost := fs_page_id st # mru_ghost r\<rparr>"
    using evict_mru_Some [OF ev] .
  from scan_victim_Some [OF sc] have f: "f \<in> set (mru r)" "alive_map r f = Some st" "fs_evictable st"
    by auto
  then have fe: "f \<in> arc_evictables r" by (simp add: arc_evictables_def)
  have e: "arc_evictables r' = arc_evictables r - {f}" "arc_tracked r' = arc_tracked r - {f}"
    by (auto simp: r' arc_evictables_def arc_tracked_def)
  have d: "distinct (mru r)" using inv by (simp add: arc_inv_def arc_lists_ok_def)
  have lists: "arc_lists_ok r'"
    using inv f by (auto simp: arc_inv_def arc_lists_ok_def r' set_erase_last distinct_erase_last)
  have ghosts: "arc_ghosts_ok r'"
    using inv by (auto simp: arc_inv_def arc_ghosts_ok_def r')
  have sizes: "arc_sizes_ok r'"
    using inv length_erase_last [OF f(1)]
    by (simp add: arc_inv_def arc_sizes_ok_def r')
  have "curr_size r' = of_nat (card (arc_evictables r'))"
    using inv card_minus_one [OF fe] unfolding e by (simp add: arc_inv_def r')
  with lists ghosts sizes fe e show ?thesis by (simp add: evicted_def arc_inv_def r')
qed

lemma evict_mfu_ok:
  assumes inv: "arc_inv r" and ev: "evict_mfu r = Some (r', f)"
  shows "evicted r f r'"
proof -
  obtain st where sc: "scan_victim (alive_map r) (rev (mfu r)) = Some (f, st)"
    and r': "r' = r\<lparr>ghost_map := (ghost_map r)(fs_page_id st \<mapsto> st\<lparr>arc_status := MFU_GHOST, fs_frame_id := INVALID_FRAME_ID\<rparr>),
        alive_map := (alive_map r)(f := None), curr_size := curr_size r - 1,
        mfu := erase_last f (mfu r), mfu_ghost := fs_page_id st # mfu_ghost r\<rparr>"
    using evict_mfu_Some [OF ev] .
  from scan_victim_Some [OF sc] have f: "f \<in> set (mfu r)" "alive_map r f = Some st" "fs_evictable st"
    by auto
  then have fe: "f \<in> arc_evictables r" by (simp add: arc_evictables_def)
  have e: "arc_evictables r' = arc_evictables r - {f}" "arc_tracked r' = arc_tracked r - {f}"
    by (auto simp: r' arc_evictables_def arc_tracked_def)
  have lists: "arc_lists_ok r'"
    using inv f by (auto simp: arc_inv_def arc_lists_ok_def r' set_erase_last distinct_erase_last)
  have ghosts: "arc_ghosts_ok r'"
    using inv by (auto simp: arc_inv_def arc_ghosts_ok_def r')
  have sizes: "arc_sizes_ok r'"
    using inv length_erase_last [OF f(1)]
    by (simp add: arc_inv_def arc_sizes_ok_def r')
  have "curr_size r' = of_nat (card (arc_evictables r'))"
    using inv card_minus_one [OF fe] unfolding e by (simp add: arc_inv_def r')
  with lists ghosts sizes fe e show ?thesis by (simp add: evicted_def arc_inv_def r')
qed

lemma evict_mru_None: "evict_mru r = None \<longleftrightarrow> arc_evictables r \<inter> set (mru r) = {}"
  and evict_mfu_None: "evict_mfu r = None \<longleftrightarrow> arc_evictables r \<inter> set (mfu r) = {}"
  by (force simp: evict_mru_def evict_mfu_def try_evict_def Let_def scan_victim_None arc_evictables_def
      split: option.splits dest: scan_victim_Some)+

lemma arc_evict_ok:
  assumes inv: "arc_inv r" and ne: "arc_evictables r \<noteq> {}"
  shows "\<exists>r' f. arc_evict r = (r', Some f) \<and> evicted r f r'"
proof -
  have "arc_evictables r \<subseteq> set (mru r) \<union> set (mfu r)"
    using inv arc_tracked_lists [of r] by (auto simp: arc_inv_def arc_evictables_def arc_tracked_def)
  then have some: "evict_mru r \<noteq> None \<or> evict_mfu r \<noteq> None"
    using ne unfolding evict_mru_None evict_mfu_None by blast
  have "curr_size r \<noteq> 0" using curr_size_zero [OF inv] ne by simp
  with some evict_mru_ok [OF inv] evict_mfu_ok [OF inv] show ?thesis
    by (auto simp: arc_evict_def split: option.splits)
qed

lemma arc_evict_none: "arc_inv r \<Longrightarrow> arc_evictables r = {} \<Longrightarrow> arc_evict r = (r, None)"
  by (simp add: arc_evict_def curr_size_zero)

subsection \<open>Accesses\<close>

lemma arc_inv_pieces:
  assumes "arc_inv r"
  shows arc_inv_lists: "arc_lists_ok r" and arc_inv_ghosts: "arc_ghosts_ok r"
    and arc_inv_sizes: "arc_sizes_ok r" and arc_inv_count: "curr_size r = of_nat (card (arc_evictables r))"
  using assms by (simp_all add: arc_inv_def)

lemma arc_listsD:
  assumes "arc_lists_ok r"
  shows "distinct (mru r)" and "distinct (mfu r)"
    and "f \<in> set (mru r) \<longleftrightarrow> (\<exists>st. alive_map r f = Some st \<and> arc_status st = MRU)"
    and "f \<in> set (mfu r) \<longleftrightarrow> (\<exists>st. alive_map r f = Some st \<and> arc_status st = MFU)"
    and "alive_map r f = Some st \<Longrightarrow> arc_status st = MRU \<or> arc_status st = MFU"
    and "alive_map r f = Some st \<Longrightarrow> fs_frame_id st = f"
    and "alive_map r f = Some st \<Longrightarrow> unat f < replacer_size r"
  using assms by (auto simp: arc_lists_ok_def)

text \<open>What a step that leaves the evictable frames alone must establish.\<close>

definition accessed :: "ArcReplacer \<Rightarrow> FrameId \<Rightarrow> ArcReplacer \<Rightarrow> bool" where
  "accessed r f r' \<longleftrightarrow> arc_inv r' \<and> replacer_size r' = replacer_size r \<and>
     arc_tracked r' = insert f (arc_tracked r) \<and> arc_evictables r' = arc_evictables r"

lemma length_removeAll_distinct:
  "distinct xs \<Longrightarrow> x \<in> set xs \<Longrightarrow> length xs = Suc (length (removeAll x xs))"
  using length_pos_if_in_set [of x xs]
  by (simp add: length_remove1 flip: distinct_remove1_removeAll)

lemma length_removeAll_in: "x \<in> set xs \<Longrightarrow> Suc (length (removeAll x xs)) \<le> length xs"
  using length_removeAll_less [of x xs] by simp

lemma access_live_ok:
  assumes inv: "arc_inv r" and al: "alive_map r f = Some st"
  shows "accessed r f (access_live f st r)"
proof -
  let ?r = "access_live f st r"
  note L = arc_inv_lists [OF inv]
  have alive: "alive_map ?r = (alive_map r)(f \<mapsto> st\<lparr>arc_status := MFU\<rparr>)"
    by (simp add: access_live_def Let_def)
  have ev: "arc_evictables ?r = arc_evictables r"
    using al by (auto simp: arc_evictables_def alive)
  have tr: "arc_tracked ?r = insert f (arc_tracked r)" by (simp add: arc_tracked_def alive)
  have lists: "arc_lists_ok ?r"
    using L al by (auto simp: arc_lists_ok_def access_live_def Let_def distinct_removeAll)
  have ghosts: "arc_ghosts_ok ?r"
    using inv by (auto simp: arc_inv_def arc_ghosts_ok_def access_live_def Let_def)
  have "length (mru ?r) \<le> length (mru r) \<and> length (mru ?r) + length (mfu ?r) = length (mru r) + length (mfu r)"
  proof (cases "arc_status st = MRU")
    case True
    then have "f \<in> set (mru r)" using arc_listsD(3) [OF L] al by simp
    then show ?thesis
      using True length_removeAll_distinct [OF arc_listsD(1) [OF L]] by (simp add: access_live_def Let_def)
  next
    case False
    then have "f \<in> set (mfu r)" using arc_listsD(4,5) [OF L] al by blast
    then show ?thesis
      using False length_removeAll_distinct [OF arc_listsD(2) [OF L]] by (simp add: access_live_def Let_def)
  qed
  then have sizes: "arc_sizes_ok ?r"
    using inv by (auto simp: arc_inv_def arc_sizes_ok_def access_live_def Let_def)
  have "curr_size ?r = curr_size r" "replacer_size ?r = replacer_size r"
    by (simp_all add: access_live_def Let_def)
  with lists ghosts sizes ev tr arc_inv_count [OF inv] show ?thesis
    by (simp add: accessed_def arc_inv_def)
qed

lemma access_ghost_ok:
  assumes inv: "arc_inv r" and al: "alive_map r f = None" and gh: "ghost_map r p = Some st"
    and f: "unat f < replacer_size r"
  shows "accessed r f (access_ghost f p st r)"
proof -
  let ?r = "access_ghost f p st r"
  note L = arc_inv_lists [OF inv]
  have nt: "f \<notin> arc_tracked r" using al by (auto simp: arc_tracked_def)
  have alive: "alive_map ?r = (alive_map r)(f \<mapsto>
      st\<lparr>fs_frame_id := f, fs_page_id := p, arc_status := MFU, fs_evictable := False\<rparr>)"
    and other: "mru ?r = mru r" "mfu ?r = f # mfu r" "curr_size ?r = curr_size r"
      "replacer_size ?r = replacer_size r"
    by (simp_all add: access_ghost_def Let_def)
  have ev: "arc_evictables ?r = arc_evictables r"
    using al by (auto simp: arc_evictables_def alive)
  have tr: "arc_tracked ?r = insert f (arc_tracked r)" by (simp add: arc_tracked_def alive)
  have nm: "f \<notin> set (mru r)" "f \<notin> set (mfu r)" using arc_tracked_lists [OF L] nt by auto
  then have lists: "arc_lists_ok ?r"
    using L f by (auto simp: arc_lists_ok_def alive other)
  have g: "arc_status st = MRU_GHOST \<and> p \<in> set (mru_ghost r) \<or>
      arc_status st = MFU_GHOST \<and> p \<in> set (mfu_ghost r)"
    using arc_inv_ghosts [OF inv] gh by (auto simp: arc_ghosts_ok_def)
  have ghosts: "arc_ghosts_ok ?r"
    using arc_inv_ghosts [OF inv] by (auto simp: arc_ghosts_ok_def access_ghost_def Let_def)
  have "arc_sizes_ok ?r"
    using arc_inv_sizes [OF inv] g length_removeAll_in [of p "mru_ghost r"] length_removeAll_in [of p "mfu_ghost r"]
    by (auto simp: arc_sizes_ok_def access_ghost_def Let_def)
  with lists ghosts ev tr arc_inv_count [OF inv] show ?thesis
    by (simp add: accessed_def arc_inv_def other)
qed

lemma trim_ghosts_ok:
  assumes inv: "arc_inv r" and room: "length (mru r) + length (mfu r) < replacer_size r"
  shows "alive_map (trim_ghosts r) = alive_map r" and "mru (trim_ghosts r) = mru r"
    and "mfu (trim_ghosts r) = mfu r" and "curr_size (trim_ghosts r) = curr_size r"
    and "replacer_size (trim_ghosts r) = replacer_size r"
    and "mru_target_size (trim_ghosts r) = mru_target_size r"
    and "arc_ghosts_ok (trim_ghosts r)"
    and "length (mru r) + length (mru_ghost (trim_ghosts r)) < replacer_size r"
    and "length (mru r) + length (mfu r) + length (mru_ghost (trim_ghosts r))
      + length (mfu_ghost (trim_ghosts r)) < 2 * replacer_size r"
proof -
  have last_in: "x \<in> set xs \<Longrightarrow> x \<noteq> last xs \<Longrightarrow> x \<in> set (butlast xs)" for x and xs :: "PageId list"
    by (cases xs rule: rev_cases) auto
  show "arc_ghosts_ok (trim_ghosts r)"
    using arc_inv_ghosts [OF inv] last_in by (auto simp: arc_ghosts_ok_def trim_ghosts_def Let_def)
  show "length (mru r) + length (mru_ghost (trim_ghosts r)) < replacer_size r"
    using room arc_inv_sizes [OF inv]
    by (cases "mru_ghost r") (auto simp: trim_ghosts_def Let_def arc_sizes_ok_def)
  show "length (mru r) + length (mfu r) + length (mru_ghost (trim_ghosts r))
      + length (mfu_ghost (trim_ghosts r)) < 2 * replacer_size r"
    using room arc_inv_sizes [OF inv]
    by (cases "mru_ghost r"; cases "mfu_ghost r") (auto simp: trim_ghosts_def Let_def arc_sizes_ok_def)
qed (auto simp: trim_ghosts_def Let_def)

lemma access_miss_ok:
  assumes inv: "arc_inv r" and al: "alive_map r f = None" and f: "unat f < replacer_size r"
  shows "accessed r f (access_miss f p r)"
proof -
  let ?r = "access_miss f p r"
  note L = arc_inv_lists [OF inv]
  have nt: "f \<notin> arc_tracked r" using al by (auto simp: arc_tracked_def)
  note T = trim_ghosts_ok [OF inv arc_room [OF L nt f]]
  have alive: "alive_map ?r = (alive_map r)(f \<mapsto>
      \<lparr>fs_page_id = p, fs_frame_id = f, fs_evictable = False, arc_status = MRU\<rparr>)"
    and other: "mru ?r = f # mru r" "mfu ?r = mfu r" "curr_size ?r = curr_size r"
      "replacer_size ?r = replacer_size r" "mru_target_size ?r = mru_target_size r"
      "mru_ghost ?r = mru_ghost (trim_ghosts r)" "mfu_ghost ?r = mfu_ghost (trim_ghosts r)"
      "ghost_map ?r = ghost_map (trim_ghosts r)"
    using T by (simp_all add: access_miss_def Let_def)
  have ev: "arc_evictables ?r = arc_evictables r"
    using al by (auto simp: arc_evictables_def alive)
  have tr: "arc_tracked ?r = insert f (arc_tracked r)" by (simp add: arc_tracked_def alive)
  have nm: "f \<notin> set (mru r)" "f \<notin> set (mfu r)" using arc_tracked_lists [OF L] nt by auto
  then have lists: "arc_lists_ok ?r"
    using L f by (auto simp: arc_lists_ok_def alive other)
  have ghosts: "arc_ghosts_ok ?r" using T(7) by (simp add: arc_ghosts_ok_def other)
  have "arc_sizes_ok ?r"
    using arc_inv_sizes [OF inv] T(8,9) by (simp add: arc_sizes_ok_def other)
  with lists ghosts ev tr arc_inv_count [OF inv] show ?thesis
    by (simp add: accessed_def arc_inv_def other)
qed

lemma arc_record_access_ok:
  assumes "arc_inv r" and "unat f < replacer_size r"
  shows "accessed r f (arc_record_access f p r)"
  using assms access_live_ok access_ghost_ok access_miss_ok
  by (auto simp: arc_record_access_def split: option.split)

subsection \<open>Marking and removing\<close>

lemma arc_set_evictable_ok:
  assumes inv: "arc_inv r"
  shows "arc_inv (arc_set_evictable f b r)"
    and "replacer_size (arc_set_evictable f b r) = replacer_size r"
    and "arc_tracked (arc_set_evictable f b r) = arc_tracked r"
    and "arc_evictables (arc_set_evictable f b r) =
      (if b \<and> f \<in> arc_tracked r then insert f (arc_evictables r)
       else if b then arc_evictables r else arc_evictables r - {f})"
proof -
  let ?r = "arc_set_evictable f b r"
  show sz: "replacer_size ?r = replacer_size r" and tr: "arc_tracked ?r = arc_tracked r"
    by (auto simp: arc_set_evictable_def arc_tracked_def split: option.split)
  show ev: "arc_evictables ?r =
      (if b \<and> f \<in> arc_tracked r then insert f (arc_evictables r)
       else if b then arc_evictables r else arc_evictables r - {f})"
    by (auto simp: arc_set_evictable_def arc_tracked_def arc_evictables_def split: option.splits)
  show "arc_inv ?r"
  proof (cases "alive_map r f")
    case None
    then show ?thesis using inv by (simp add: arc_set_evictable_def)
  next
    case (Some st)
    have "arc_lists_ok ?r" "arc_ghosts_ok ?r" "arc_sizes_ok ?r"
      using inv Some by (auto simp: arc_inv_def arc_lists_ok_def arc_ghosts_ok_def arc_sizes_ok_def
          arc_set_evictable_def)
    moreover have mem: "f \<in> arc_tracked r" "f \<in> arc_evictables r \<longleftrightarrow> fs_evictable st"
      using Some by (auto simp: arc_tracked_def arc_evictables_def)
    then have "curr_size ?r = of_nat (card (arc_evictables ?r))"
      using arc_inv_count [OF inv] card_minus_one [of f "arc_evictables r"]
      unfolding ev by (auto simp: arc_set_evictable_def Some insert_absorb)
    ultimately show ?thesis by (simp add: arc_inv_def)
  qed
qed

lemma arc_remove_ok:
  assumes inv: "arc_inv r" and f: "f \<in> arc_evictables r"
  shows "\<exists>r'. arc_remove f r = (r', ok ()) \<and> evicted r f r'"
proof -
  note L = arc_inv_lists [OF inv]
  obtain st where st: "alive_map r f = Some st" "fs_evictable st"
    using f by (auto simp: arc_evictables_def)
  let ?r1 = "if arc_status st = MRU then r\<lparr>mru := removeAll f (mru r)\<rparr> else r\<lparr>mfu := removeAll f (mfu r)\<rparr>"
  let ?r = "?r1\<lparr>alive_map := (alive_map ?r1)(f := None), curr_size := curr_size ?r1 - 1\<rparr>"
  have rem: "arc_remove f r = (?r, ok ())"
    using st by (simp add: arc_remove_def Let_def)
  have e: "arc_evictables ?r = arc_evictables r - {f}" "arc_tracked ?r = arc_tracked r - {f}"
    by (auto simp: arc_evictables_def arc_tracked_def)
  have lists: "arc_lists_ok ?r"
    using L st by (auto simp: arc_lists_ok_def distinct_removeAll)
  have ghosts: "arc_ghosts_ok ?r" using inv by (simp add: arc_inv_def arc_ghosts_ok_def)
  have sizes: "arc_sizes_ok ?r"
    using arc_inv_sizes [OF inv] length_removeAll_less_eq [of f "mru r"] length_removeAll_less_eq [of f "mfu r"]
    by (auto simp: arc_sizes_ok_def simp del: length_removeAll_less_eq)
  have "curr_size ?r = curr_size r - 1" by simp
  then have "curr_size ?r = of_nat (card (arc_evictables ?r))"
    unfolding e card_minus_one [OF f] using arc_inv_count [OF inv] by simp
  with lists ghosts sizes e f have "evicted r f ?r" by (simp add: evicted_def arc_inv_def)
  with rem show ?thesis by blast
qed

lemma arc_remove_untracked: "f \<notin> arc_tracked r \<Longrightarrow> arc_remove f r = (r, ok ())"
  by (auto simp: arc_remove_def arc_tracked_def split: option.split)

lemma arc_remove_pinned: "f \<in> arc_tracked r - arc_evictables r \<Longrightarrow>
    \<exists>msg. arc_remove f r = (r, throw (Terminated msg))"
  by (auto simp: arc_remove_def arc_tracked_def arc_evictables_def)

interpretation arc: eviction_policy arc_inv replacer_size arc_tracked arc_evictables
  arc_evict arc_record_access arc_set_evictable arc_remove
proof (unfold_locales, goal_cases)
  case (1 r)
  show ?case by (auto simp: arc_evictables_def arc_tracked_def)
next
  case (2 r)
  then show ?case by (rule arc_evict_none)
next
  case (3 r)
  then show ?case using arc_evict_ok [of r] by (auto simp: evicted_def)
next
  case (4 r f p)
  then show ?case using arc_record_access_ok [of r f p] by (simp add: accessed_def)
next
  case (5 r f b)
  then show ?case using arc_set_evictable_ok [of r f b] by simp
next
  case (6 r f)
  then show ?case using arc_remove_ok [of r f] by (auto simp: evicted_def)
qed

subsection \<open>Reachable states\<close>

inductive arc_step :: "ArcReplacer \<Rightarrow> ArcReplacer \<Rightarrow> bool" where
  step_evict: "arc_evict r = (r', v) \<Longrightarrow> arc_step r r'"
| step_access: "unat f < replacer_size r \<Longrightarrow> arc_step r (arc_record_access f p r)"
| step_mark: "arc_step r (arc_set_evictable f b r)"
| step_remove: "arc_remove f r = (r', out) \<Longrightarrow> arc_step r r'"

inductive arc_reachable :: "nat \<Rightarrow> ArcReplacer \<Rightarrow> bool" for n where
  start: "arc_reachable n (new_ArcReplacer n)"
| step: "arc_reachable n r \<Longrightarrow> arc_step r r' \<Longrightarrow> arc_reachable n r'"

inductive_cases arc_stepE: "arc_step r r'"

lemma arc_step_inv:
  assumes "arc_inv r" and "arc_step r r'"
  shows "arc_inv r' \<and> replacer_size r' = replacer_size r"
  using assms(2)
proof (rule arc_stepE)
  fix v assume "arc_evict r = (r', v)"
  then show ?thesis using arc.evict_cases [OF assms(1)] assms(1)
    by (metis Pair_inject)
next
  fix f p assume "r' = arc_record_access f p r" "unat f < replacer_size r"
  then show ?thesis using arc.access_ok [OF assms(1)] by simp
next
  fix f b assume "r' = arc_set_evictable f b r"
  then show ?thesis using arc.set_evict_ok [OF assms(1)] by simp
next
  fix f out assume e: "arc_remove f r = (r', out)"
  consider "f \<notin> arc_tracked r" | "f \<in> arc_tracked r - arc_evictables r" | "f \<in> arc_evictables r"
    by blast
  then show ?thesis
    using arc_remove_untracked [of f r] arc_remove_pinned [of f r] arc.remove_ok [OF assms(1), of f] e assms(1)
    by cases auto
qed

lemma arc_reachable_inv: "arc_reachable n r \<Longrightarrow> arc_inv r \<and> replacer_size r = n"
  by (induction rule: arc_reachable.induct) (use arc_inv_new arc_step_inv in \<open>auto simp: new_ArcReplacer_def\<close>)

subsection \<open>Properties\<close>

text \<open>The last element of a list that lies in a set, as a backward scan finds it.\<close>

definition lru_end :: "FrameId set \<Rightarrow> FrameId list \<Rightarrow> FrameId \<Rightarrow> bool" where
  "lru_end E xs f \<longleftrightarrow> f \<in> E \<and> (\<exists>ys zs. xs = ys @ f # zs \<and> set zs \<inter> E = {})"

lemma scan_victim_first:
  "scan_victim alive xs = Some (f, st) \<Longrightarrow> \<exists>ys zs. xs = zs @ f # ys \<and> alive f = Some st \<and> fs_evictable st
     \<and> (\<forall>g \<in> set zs. \<forall>st'. alive g = Some st' \<longrightarrow> \<not> fs_evictable st')"
proof (induction xs)
  case (Cons x xs)
  show ?case
  proof (cases "\<exists>st'. alive x = Some st' \<and> fs_evictable st'")
    case True
    with Cons.prems have "x = f" "alive f = Some st" "fs_evictable st" by auto
    then show ?thesis by (intro exI [of _ xs] exI [of _ "[]"]) simp
  next
    case False
    with Cons.prems have "scan_victim alive xs = Some (f, st)" by (auto split: option.splits if_splits)
    then obtain ys zs where "xs = zs @ f # ys" "alive f = Some st" "fs_evictable st"
      "\<forall>g \<in> set zs. \<forall>st'. alive g = Some st' \<longrightarrow> \<not> fs_evictable st'"
      using Cons.IH by blast
    with False show ?thesis by (intro exI [of _ ys] exI [of _ "x # zs"]) auto
  qed
qed simp

lemma scan_victim_lru_end:
  assumes "scan_victim (alive_map r) (rev xs) = Some (f, st)"
  shows "lru_end (arc_evictables r) xs f"
proof -
  obtain ys zs where "rev xs = zs @ f # ys" "alive_map r f = Some st" "fs_evictable st"
    "\<forall>g \<in> set zs. \<forall>st'. alive_map r g = Some st' \<longrightarrow> \<not> fs_evictable st'"
    using scan_victim_first [OF assms] by blast
  moreover from this(1) have "xs = rev ys @ f # rev zs"
    by (metis append.assoc append_Cons append_Nil rev.simps(2) rev_append rev_rev_ident)
  ultimately show ?thesis
    unfolding lru_end_def
    by (intro conjI exI [of _ "rev ys"] exI [of _ "rev zs"]) (auto simp: arc_evictables_def)
qed

lemma evict_mru_lru_end: "evict_mru r = Some (r', f) \<Longrightarrow> lru_end (arc_evictables r) (mru r) f"
  and evict_mfu_lru_end: "evict_mfu r = Some (r', f) \<Longrightarrow> lru_end (arc_evictables r) (mfu r) f"
  by (auto elim!: evict_mru_Some evict_mfu_Some intro: scan_victim_lru_end)

text \<open>
  C18. In every state that the replacer can reach from an empty one by evictions, accesses to
  frames below the capacity, (un)markings and removals, the live lists hold at most n frames,
  the recency lists (T1 and B1) at most n entries, all four lists at most 2n, the target never
  exceeds n, no frame is in two places, and curr_size is the number of evictable frames.
\<close>

theorem arc_capacity_bounds:
  assumes "arc_reachable n r"
  shows "length (mru r) + length (mfu r) \<le> n \<and> length (mru r) + length (mru_ghost r) \<le> n \<and>
    length (mru r) + length (mfu r) + length (mru_ghost r) + length (mfu_ghost r) \<le> 2 * n \<and>
    mru_target_size r \<le> n \<and> distinct (mru r @ mfu r) \<and> unat (curr_size r) = card (arc_evictables r)"
proof -
  have inv: "arc_inv r" "replacer_size r = n" using arc_reachable_inv [OF assms] by auto
  have "distinct (mru r @ mfu r)"
    using arc_inv_lists [OF inv(1)] by (auto simp: arc_lists_ok_def)
  moreover have "unat (of_nat (card (arc_evictables r)) :: u64) = card (arc_evictables r)"
    using card_frames_bound [of "arc_evictables r"] by (simp add: unat_of_nat)
  ultimately show ?thesis
    using inv arc_live_le [OF arc_inv_lists [OF inv(1)]] arc_inv_sizes [OF inv(1)] arc_inv_count [OF inv(1)]
    by (simp add: arc_sizes_ok_def)
qed

definition arc_example :: ArcReplacer where
  "arc_example = arc_set_evictable 1 True (arc_record_access 1 11
     (arc_set_evictable 0 True (arc_record_access 0 10 (new_ArcReplacer 2))))"

lemma arc_example_reachable: "arc_reachable 2 arc_example"
proof -
  have "arc_reachable 2 (arc_record_access 0 10 (new_ArcReplacer 2))"
    by (rule arc_reachable.step [OF arc_reachable.start step_access]) (simp add: new_ArcReplacer_def)
  then have s: "arc_reachable 2 (arc_set_evictable 0 True (arc_record_access 0 10 (new_ArcReplacer 2)))"
    (is "arc_reachable 2 ?s") by (rule arc_reachable.step [OF _ step_mark])
  then have "arc_reachable 2 (arc_record_access 1 11 ?s)"
    by (rule arc_reachable.step [OF _ step_access]) (use arc_reachable_inv [OF s] in simp)
  then show ?thesis unfolding arc_example_def by (rule arc_reachable.step [OF _ step_mark])
qed

lemma arc_capacity_bounds_witness:
  "length (mru arc_example) + length (mfu arc_example) \<le> 2 \<and> mru arc_example = [1, 0]"
proof
  show "length (mru arc_example) + length (mfu arc_example) \<le> 2"
    using arc_capacity_bounds [OF arc_example_reachable] by simp
  show "mru arc_example = [1, 0]" by code_simp
qed

lemma arc_evict_which:
  assumes "arc_evict r = (r', Some f)"
  shows "if length (mru r) > mru_target_size r
    then evict_mru r = Some (r', f) \<or> evict_mru r = None \<and> evict_mfu r = Some (r', f)
    else evict_mfu r = Some (r', f) \<or> evict_mfu r = None \<and> evict_mru r = Some (r', f)"
  using assms by (cases "evict_mru r"; cases "evict_mfu r"; cases "curr_size r = 0")
    (auto simp: arc_evict_def split: if_splits)

text \<open>
  C19. Eviction returns a frame exactly when some tracked frame is evictable. The frame is the
  least recent evictable one of T1 when T1 is larger than its target, and of T2 otherwise; when
  that list is fully pinned, of the other list. The frame leaves the replacer, no other frame
  does, and a call that returns nothing changes nothing.
\<close>

theorem arc_evict_policy:
  assumes "arc_inv r"
  shows "case arc_evict r of
      (r', None) \<Rightarrow> r' = r \<and> arc_evictables r = {}
    | (r', Some f) \<Rightarrow>
        (let (first, second) = (if length (mru r) > mru_target_size r then (mru r, mfu r) else (mfu r, mru r))
         in lru_end (arc_evictables r) first f \<or>
            set first \<inter> arc_evictables r = {} \<and> lru_end (arc_evictables r) second f) \<and>
        arc_inv r' \<and> arc_tracked r' = arc_tracked r - {f}"
  using assms
proof (cases rule: arc.evict_cases)
  case none
  then show ?thesis by simp
next
  case (victim r' f)
  let ?E = "arc_evictables r"
  have "if length (mru r) > mru_target_size r
      then lru_end ?E (mru r) f \<or> set (mru r) \<inter> ?E = {} \<and> lru_end ?E (mfu r) f
      else lru_end ?E (mfu r) f \<or> set (mfu r) \<inter> ?E = {} \<and> lru_end ?E (mru r) f"
    using arc_evict_which [OF victim(1)] evict_mru_lru_end [of r r' f] evict_mfu_lru_end [of r r' f]
    by (simp add: evict_mru_None evict_mfu_None Int_commute split: if_splits) blast+
  with victim show ?thesis by simp
qed

lemma arc_evict_policy_witness: "snd (arc_evict arc_example) = Some 0 \<and> arc_inv (fst (arc_evict arc_example))"
proof -
  have s: "snd (arc_evict arc_example) = Some 0" by code_simp
  have inv: "arc_inv arc_example" using arc_reachable_inv [OF arc_example_reachable] by simp
  from arc_evict_policy [OF inv] s show ?thesis by (cases "arc_evict arc_example") auto
qed

text \<open>
  C33. Adaptation. When a page comes back whose eviction is remembered, its frame goes to the
  front of T2, pinned, and the memory of it is gone. If it had been evicted from T1 the target
  of T1 grows (strictly, below the capacity), if from T2 the target shrinks (strictly, above 0).
\<close>

theorem arc_ghost_hit_adapts:
  assumes "arc_inv r" and "f \<notin> arc_tracked r" and "ghost_map r p = Some st"
  defines "r' \<equiv> arc_record_access f p r"
  shows "mfu r' = f # mfu r \<and> f \<in> arc_tracked r' - arc_evictables r' \<and> ghost_map r' p = None \<and>
    (if arc_status st = MRU_GHOST
     then p \<notin> set (mru_ghost r') \<and> (mru_target_size r < replacer_size r \<longrightarrow> mru_target_size r < mru_target_size r')
     else p \<notin> set (mfu_ghost r') \<and> (0 < mru_target_size r \<longrightarrow> mru_target_size r' < mru_target_size r))"
proof -
  have "alive_map r f = None" using assms(2) by (auto simp: arc_tracked_def)
  then have r': "r' = access_ghost f p st r"
    using assms(3) by (simp add: r'_def arc_record_access_def)
  show ?thesis
    by (auto simp: r' access_ghost_def Let_def arc_tracked_def arc_evictables_def)
qed

lemma arc_ghost_hit_adapts_witness:
  "mfu (arc_record_access 0 10 (fst (arc_evict arc_example))) = [0]"
proof -
  have inv: "arc_inv (fst (arc_evict arc_example))"
    using arc_step_inv [OF _ step_evict] arc_reachable_inv [OF arc_example_reachable]
    by (metis prod.collapse)
  have nt: "0 \<notin> arc_tracked (fst (arc_evict arc_example))"
    unfolding arc_tracked_def domIff not_not by code_simp
  obtain st where gh: "ghost_map (fst (arc_evict arc_example)) 10 = Some st"
    by (atomize_elim, unfold not_None_eq [symmetric]) code_simp
  have "mfu (fst (arc_evict arc_example)) = []" by code_simp
  with arc_ghost_hit_adapts [OF inv nt gh] show ?thesis by simp
qed

end
