(* ===== verification/Bytes.thy ===== *)
theory Bytes
  imports Prelude
begin

section \<open>Byte buffers and little-endian integers\<close>

text \<open>
  The program lays integers out in raw memory through reinterpret_cast and memcpy (page
  headers, slot arrays, tuple payloads, catalog files) on a little-endian machine. A buffer is
  a list of bytes; \<open>le_bytes n x\<close> is the n-byte image of x and \<open>le_nat\<close> reads one
  back. \<open>write_at\<close> overwrites a range of a buffer. The lemmas are the read-over-write
  facts that the page and tuple proofs use.
\<close>

named_theorems buf_simps \<open>read-over-write rules for byte buffers\<close>

fun le_bytes :: "nat \<Rightarrow> nat \<Rightarrow> u8 list" where
  "le_bytes 0 x = []"
| "le_bytes (Suc n) x = word_of_nat (x mod 256) # le_bytes n (x div 256)"

fun le_nat :: "u8 list \<Rightarrow> nat" where
  "le_nat [] = 0"
| "le_nat (b # bs) = unat b + 256 * le_nat bs"

definition read_at :: "nat \<Rightarrow> nat \<Rightarrow> u8 list \<Rightarrow> u8 list" where
  "read_at off n m = take n (drop off m)"

definition write_at :: "nat \<Rightarrow> u8 list \<Rightarrow> u8 list \<Rightarrow> u8 list" where
  "write_at off bs m = take off m @ bs @ drop (off + length bs) m"

definition get_u32 :: "u8 list \<Rightarrow> nat \<Rightarrow> u32" where
  "get_u32 m off = word_of_nat (le_nat (read_at off 4 m))"

definition put_u32 :: "nat \<Rightarrow> u32 \<Rightarrow> u8 list \<Rightarrow> u8 list" where
  "put_u32 off w m = write_at off (le_bytes 4 (unat w)) m"

lemma length_le_bytes [simp]: "length (le_bytes n x) = n"
  by (induction n arbitrary: x) auto

lemma unat_byte: "unat (word_of_nat (x mod 256) :: u8) = x mod 256"
  by (simp add: unat_of_nat)

lemma le_nat_le_bytes: "le_nat (le_bytes n x) = x mod 256 ^ n"
proof (induction n arbitrary: x)
  case 0
  show ?case by simp
next
  case (Suc n)
  have "x mod (256 * 256 ^ n) = 256 * (x div 256 mod 256 ^ n) + x mod 256"
    by (rule mod_mult2_eq)
  with Suc show ?case by (simp add: unat_byte)
qed

lemma le_nat_bound: "le_nat bs < 256 ^ length bs"
proof (induction bs)
  case (Cons b bs)
  have "unat b < 256" using unsigned_less [of b] by simp
  moreover have "le_nat bs + 1 \<le> 256 ^ length bs" using Cons by simp
  ultimately have "unat b + 256 * le_nat bs < 256 * (le_nat bs + 1)" by simp
  also have "\<dots> \<le> 256 * 256 ^ length bs" using Cons by simp
  finally show ?case by simp
qed simp

lemma le_bytes_le_nat: "le_bytes (length bs) (le_nat bs) = bs"
proof (induction bs)
  case (Cons b bs)
  have "unat b < 256" using unsigned_less [of b] by simp
  with Cons show ?case by simp
qed simp

lemma unat_u8: "unat (w :: u8) < 256"
  and unat_u32: "unat (w' :: u32) < 4294967296"
  using unsigned_less [of w] unsigned_less [of w'] by simp_all

subsection \<open>Ranges of a buffer\<close>

lemma length_read_at [simp]: "off + n \<le> length m \<Longrightarrow> length (read_at off n m) = n"
  by (simp add: read_at_def)

lemma length_write_at [simp]:
  "off + length bs \<le> length m \<Longrightarrow> length (write_at off bs m) = length m"
  by (simp add: write_at_def)

lemma length_put_u32 [simp]: "off + 4 \<le> length m \<Longrightarrow> length (put_u32 off w m) = length m"
  by (simp add: put_u32_def)

lemma read_write_same [buf_simps]:
  "off + length bs \<le> length m \<Longrightarrow> read_at off (length bs) (write_at off bs m) = bs"
  by (simp add: read_at_def write_at_def)

lemma nth_write_at:
  assumes "off + length bs \<le> length m" and "i < length m"
  shows "write_at off bs m ! i
    = (if off \<le> i \<and> i < off + length bs then bs ! (i - off) else m ! i)"
  using assms by (auto simp: write_at_def nth_append min_def)

lemma read_write_disjoint [buf_simps]:
  assumes "off + length bs \<le> length m" and "o' + n \<le> length m"
    and "o' + n \<le> off \<or> off + length bs \<le> o'"
  shows "read_at o' n (write_at off bs m) = read_at o' n m"
proof (rule nth_equalityI)
  show "length (read_at o' n (write_at off bs m)) = length (read_at o' n m)"
    using assms by simp
next
  fix i assume "i < length (read_at o' n (write_at off bs m))"
  then have "i < n" using assms by simp
  then show "read_at o' n (write_at off bs m) ! i = read_at o' n m ! i"
    using assms by (auto simp: read_at_def nth_write_at)
qed

lemma read_at_whole: "length m = n \<Longrightarrow> read_at 0 n m = m"
  by (simp add: read_at_def)

lemma get_put_same [buf_simps]: "off + 4 \<le> length m \<Longrightarrow> get_u32 (put_u32 off w m) off = w"
  using read_write_same [of off "le_bytes 4 (unat w)" m] unat_u32 [of w]
  by (simp add: get_u32_def put_u32_def le_nat_le_bytes)

lemma get_put_disjoint [buf_simps]:
  "off + 4 \<le> length m \<Longrightarrow> o' + 4 \<le> length m \<Longrightarrow> o' + 4 \<le> off \<or> off + 4 \<le> o' \<Longrightarrow>
   get_u32 (put_u32 off w m) o' = get_u32 m o'"
  by (simp add: get_u32_def put_u32_def read_write_disjoint)

lemma get_write_disjoint [buf_simps]:
  "off + length bs \<le> length m \<Longrightarrow> o' + 4 \<le> length m \<Longrightarrow>
   o' + 4 \<le> off \<or> off + length bs \<le> o' \<Longrightarrow>
   get_u32 (write_at off bs m) o' = get_u32 m o'"
  by (simp add: get_u32_def read_write_disjoint)

lemma read_put_disjoint [buf_simps]:
  "off + 4 \<le> length m \<Longrightarrow> o' + n \<le> length m \<Longrightarrow> o' + n \<le> off \<or> off + 4 \<le> o' \<Longrightarrow>
   read_at o' n (put_u32 off w m) = read_at o' n m"
  by (simp add: put_u32_def read_write_disjoint)

lemma read_at_read_at:
  "off \<le> i \<Longrightarrow> i + n \<le> off + k \<Longrightarrow> read_at (i - off) n (read_at off k m) = read_at i n m"
  by (simp add: read_at_def drop_take min_def)

lemma read_write_inside:
  assumes "off + length bs \<le> length m" and "off \<le> i" and "i + n \<le> off + length bs"
  shows "read_at i n (write_at off bs m) = read_at (i - off) n bs"
proof -
  have "read_at (i - off) n (read_at off (length bs) (write_at off bs m))
    = read_at i n (write_at off bs m)"
    using assms by (intro read_at_read_at) auto
  then show ?thesis using read_write_same [OF assms(1)] by simp
qed

end
