(* ===== verification/DiskManager.thy ===== *)
theory DiskManager
  imports Bytes "HOL-Library.AList"
begin

section \<open>The disk manager\<close>

text \<open>
  src/storage/disk/disk_manager.cpp. The state holds the file system as far as the program can
  see it (the bytes of each path, and which paths the operating system lets it create or open),
  the open streams by file id, and the path table. A std::fstream is its path and one failure
  bit: a read that meets the end of file sets eofbit and failbit together, seekg clears eofbit
  only, and nothing but clear() resets failbit. Each write is flushed before the call returns,
  so a stream holds no unwritten bytes between calls.
\<close>

record FileStream =
  stream_path :: string
  stream_failed :: bool

record DiskManager =
  file_system :: "string \<Rightarrow> u8 list option"
  os_permits :: "string \<Rightarrow> bool"
  files :: "FileId \<Rightarrow> FileStream option"
  path_to_file_id :: "(string \<times> FileId) list"
  next_file_id :: FileId

definition new_DiskManager :: "(string \<Rightarrow> u8 list option) \<Rightarrow> (string \<Rightarrow> bool) \<Rightarrow> DiskManager" where
  "new_DiskManager fs permits = \<lparr>file_system = fs, os_permits = permits, files = Map.empty,
     path_to_file_id = [], next_file_id = 0\<rparr>"

subsection \<open>Files\<close>

text \<open>\<open>is_open\<close> of a stream opened for reading and writing: the file must exist.\<close>

definition can_open :: "DiskManager \<Rightarrow> string \<Rightarrow> bool" where
  "can_open d path \<longleftrightarrow> os_permits d path \<and> file_system d path \<noteq> None"

definition append_create :: "string \<Rightarrow> DiskManager \<Rightarrow> DiskManager" where
  "append_create path d = (if os_permits d path \<and> file_system d path = None
     then d\<lparr>file_system := (file_system d)(path \<mapsto> [])\<rparr> else d)"

definition create_file :: "string \<Rightarrow> DiskManager \<Rightarrow> DiskManager \<times> FileId res" where
  "create_file path d =
     (let d1 = append_create path d;
          file_id = next_file_id d1;
          d2 = d1\<lparr>next_file_id := file_id + 1,
                  path_to_file_id := AList.update path file_id (path_to_file_id d1)\<rparr>
      in if \<not> can_open d2 path
         then (d2, throw (Runtime_error (''Failed to open file: '' @ path)))
         else (d2\<lparr>files := (files d2)(file_id \<mapsto> \<lparr>stream_path = path, stream_failed = False\<rparr>)\<rparr>,
               ok file_id))"

definition open_file :: "string \<Rightarrow> DiskManager \<Rightarrow> DiskManager \<times> FileId res" where
  "open_file path d = (case map_of (path_to_file_id d) path of
     Some file_id \<Rightarrow> (d, ok file_id)
   | None \<Rightarrow>
       (let new_id = word_of_nat (length (path_to_file_id d) + 1);
            d1 = d\<lparr>path_to_file_id := AList.update path new_id (path_to_file_id d)\<rparr>
        in if \<not> can_open d1 path
           then (d1, throw (Runtime_error (''Failed to open file: '' @ path)))
           else (d1, ok new_id)))"

subsection \<open>Pages\<close>

definition page_offset :: "PageId \<Rightarrow> nat" where
  "page_offset page_id = unat page_id * PAGE_SIZE"

definition zero_page :: "u8 list" where
  "zero_page = replicate PAGE_SIZE 0"

definition contents :: "DiskManager \<Rightarrow> FileStream \<Rightarrow> u8 list" where
  "contents d s = (case file_system d (stream_path s) of Some bs \<Rightarrow> bs | None \<Rightarrow> [])"

definition set_failed :: "FileId \<Rightarrow> FileStream \<Rightarrow> bool \<Rightarrow> DiskManager \<Rightarrow> DiskManager" where
  "set_failed file_id s b d = d\<lparr>files := (files d)(file_id \<mapsto> s\<lparr>stream_failed := b\<rparr>)\<rparr>"

text \<open>The value is what the page buffer holds after the call.\<close>

definition read_page :: "FileId \<Rightarrow> PageId \<Rightarrow> DiskManager \<Rightarrow> DiskManager \<times> u8 list res" where
  "read_page file_id page_id d = (case files d file_id of
     None \<Rightarrow> (d, throw (Runtime_error ''Invalid file id in read_page''))
   | Some s \<Rightarrow>
       if stream_failed s then (set_failed file_id s False d, ok zero_page)
       else (let page_data = read_at (page_offset page_id) PAGE_SIZE (contents d s);
                 ready_bytes = length page_data
             in if ready_bytes < PAGE_SIZE
                then (set_failed file_id s True d, ok (page_data @ replicate (PAGE_SIZE - ready_bytes) 0))
                else (d, ok page_data)))"

text \<open>Writing past the end of a file fills the gap with zeros.\<close>

definition file_write :: "nat \<Rightarrow> u8 list \<Rightarrow> u8 list \<Rightarrow> u8 list" where
  "file_write off bs m = write_at off bs (m @ replicate (off - length m) 0)"

definition stream_write :: "string \<Rightarrow> FileStream \<Rightarrow> PageId \<Rightarrow> u8 list \<Rightarrow> DiskManager \<Rightarrow> DiskManager \<times> unit res" where
  "stream_write msg s page_id page_data d =
     (if stream_failed s then (d, throw (Runtime_error msg))
      else (d\<lparr>file_system := (file_system d)(stream_path s \<mapsto>
                file_write (page_offset page_id) page_data (contents d s))\<rparr>, ok ()))"

definition write_page :: "FileId \<Rightarrow> PageId \<Rightarrow> u8 list \<Rightarrow> DiskManager \<Rightarrow> DiskManager \<times> unit res" where
  "write_page file_id page_id page_data d = (case files d file_id of
     None \<Rightarrow> (d, throw (Runtime_error ''Invalid file id in write_page''))
   | Some s \<Rightarrow> stream_write ''Disk write failed'' s page_id page_data d)"

definition delete_page :: "FileId \<Rightarrow> PageId \<Rightarrow> DiskManager \<Rightarrow> DiskManager \<times> unit res" where
  "delete_page file_id page_id d = (case files d file_id of
     None \<Rightarrow> (d, throw (Runtime_error ''Invalid file id in delete_page''))
   | Some s \<Rightarrow> stream_write ''Disk delete (zero-fill) failed'' s page_id zero_page d)"

subsection \<open>The contract of a block device\<close>

locale block_device =
  fixes inv :: "'d \<Rightarrow> bool"
    and open_files :: "'d \<Rightarrow> FileId set"
    and page :: "'d \<Rightarrow> FileId \<Rightarrow> PageId \<Rightarrow> u8 list option"
    and get :: "FileId \<Rightarrow> PageId \<Rightarrow> 'd \<Rightarrow> 'd \<times> u8 list res"
    and put :: "FileId \<Rightarrow> PageId \<Rightarrow> u8 list \<Rightarrow> 'd \<Rightarrow> 'd \<times> unit res"
  assumes page_open: "page d f p = Some bs \<Longrightarrow> f \<in> open_files d \<and> length bs = PAGE_SIZE"
    and read_ok: "inv d \<Longrightarrow> page d f p = Some bs \<Longrightarrow> get f p d = (d, ok bs)"
    and write_ok: "inv d \<Longrightarrow> f \<in> open_files d \<Longrightarrow> length bs = PAGE_SIZE \<Longrightarrow>
      \<exists>d'. put f p bs d = (d', ok ()) \<and> inv d' \<and> open_files d' = open_files d \<and> page d' f p = Some bs \<and>
        (\<forall>g q x. (g, q) \<noteq> (f, p) \<longrightarrow> page d g q = Some x \<longrightarrow> page d' g q = Some x)"
begin

lemma writeE:
  assumes "inv d" and "f \<in> open_files d" and "length bs = PAGE_SIZE"
  obtains d' where "put f p bs d = (d', ok ())" "inv d'" "open_files d' = open_files d"
    "page d' f p = Some bs" "\<And>g q x. (g, q) \<noteq> (f, p) \<Longrightarrow> page d g q = Some x \<Longrightarrow> page d' g q = Some x"
  using write_ok [OF assms, of p] by blast

primrec write_all :: "(FileId \<times> PageId \<times> u8 list) list \<Rightarrow> 'd \<Rightarrow> 'd" where
  "write_all [] d = d"
| "write_all (w # ws) d = (case w of (f, p, bs) \<Rightarrow> write_all ws (fst (put f p bs d)))"

definition last_written :: "(FileId \<times> PageId \<times> u8 list) list \<Rightarrow> FileId \<Rightarrow> PageId \<Rightarrow> u8 list option" where
  "last_written ws f p = map_of (rev (map (\<lambda>(f, p, bs). ((f, p), bs)) ws)) (f, p)"

lemma write_all_page:
  assumes "inv d" and "\<forall>(f, p, bs) \<in> set ws. f \<in> open_files d \<and> length bs = PAGE_SIZE"
  shows "inv (write_all ws d) \<and>
    (\<forall>f p bs. (case last_written ws f p of None \<Rightarrow> page d f p | Some b \<Rightarrow> Some b) = Some bs \<longrightarrow>
      page (write_all ws d) f p = Some bs)"
  using assms
proof (induction ws arbitrary: d)
  case (Cons w ws)
  obtain f p bs where w: "w = (f, p, bs)" by (cases w)
  then obtain d' where d': "put f p bs d = (d', ok ())" "inv d'" "open_files d' = open_files d"
    "page d' f p = Some bs" "\<And>g q x. (g, q) \<noteq> (f, p) \<Longrightarrow> page d g q = Some x \<Longrightarrow> page d' g q = Some x"
    using Cons.prems writeE [of d f bs p] by auto
  have IH: "inv (write_all ws d') \<and>
    (\<forall>f p bs. (case last_written ws f p of None \<Rightarrow> page d' f p | Some b \<Rightarrow> Some b) = Some bs \<longrightarrow>
      page (write_all ws d') f p = Some bs)"
    using Cons.IH [OF d'(2)] Cons.prems d'(3) by auto
  then show ?case
    using d' by (auto simp: w last_written_def map_add_def split: option.splits)
qed (simp add: last_written_def)

lemma last_write_wins:
  assumes "inv d" and "\<forall>(f, p, bs) \<in> set ws. f \<in> open_files d \<and> length bs = PAGE_SIZE"
    and "last_written ws f p = Some bs"
  shows "snd (get f p (write_all ws d)) = ok bs"
proof -
  have "inv (write_all ws d)" "page (write_all ws d) f p = Some bs"
    using write_all_page [OF assms(1,2)] assms(3) by auto
  from read_ok [OF this] show ?thesis by simp
qed

end

subsection \<open>The disk manager is a block device\<close>

definition disk_open_files :: "DiskManager \<Rightarrow> FileId set" where
  "disk_open_files d = dom (files d)"

text \<open>The pages that are on disk in full.\<close>

definition disk_page :: "DiskManager \<Rightarrow> FileId \<Rightarrow> PageId \<Rightarrow> u8 list option" where
  "disk_page d file_id page_id = (case files d file_id of
     None \<Rightarrow> None
   | Some s \<Rightarrow> if page_offset page_id + PAGE_SIZE \<le> length (contents d s)
       then Some (read_at (page_offset page_id) PAGE_SIZE (contents d s)) else None)"

text \<open>No stream is in a failed state, and no two file ids share a path.\<close>

definition disk_inv :: "DiskManager \<Rightarrow> bool" where
  "disk_inv d \<longleftrightarrow> (\<forall>f s. files d f = Some s \<longrightarrow> \<not> stream_failed s) \<and>
     (\<forall>f g s t. files d f = Some s \<longrightarrow> files d g = Some t \<longrightarrow> stream_path s = stream_path t \<longrightarrow> f = g)"

lemma page_offset_apart:
  "p \<noteq> q \<Longrightarrow> page_offset p + PAGE_SIZE \<le> page_offset q \<or> page_offset q + PAGE_SIZE \<le> page_offset p"
proof -
  assume "p \<noteq> q"
  then have "unat p < unat q \<or> unat q < unat p" unfolding word_unat_eq_iff by linarith
  then have "Suc (unat p) * PAGE_SIZE \<le> unat q * PAGE_SIZE \<or> Suc (unat q) * PAGE_SIZE \<le> unat p * PAGE_SIZE"
    by (meson Suc_leI mult_le_mono1)
  then show ?thesis by (auto simp: page_offset_def)
qed

lemma length_file_write: "length (file_write off bs m) = max (length m) (off + length bs)"
  by (simp add: file_write_def write_at_def)

lemma read_file_write_same: "read_at off (length bs) (file_write off bs m) = bs"
  by (simp add: file_write_def write_at_def read_at_def)

lemma read_file_write_other:
  assumes "q + n \<le> off \<or> off + length bs \<le> q" and "q + n \<le> length m"
  shows "read_at q n (file_write off bs m) = read_at q n m"
proof -
  have "i < n \<Longrightarrow> file_write off bs m ! (q + i) = m ! (q + i)" for i
    using assms by (auto simp: file_write_def write_at_def nth_append min_def)
  then show ?thesis
    using assms(2) length_file_write [of off bs m]
    by (intro nth_equalityI) (auto simp: read_at_def)
qed

lemma contents_upd:
  "contents (d\<lparr>file_system := (file_system d)(path \<mapsto> bs)\<rparr>) s =
     (if stream_path s = path then bs else contents d s)"
  by (simp add: contents_def)

lemma disk_page_write:
  fixes p :: PageId
  assumes inv: "disk_inv d" and s: "files d f = Some s" and len: "length bs = PAGE_SIZE"
  defines "d' \<equiv> d\<lparr>file_system := (file_system d)(stream_path s \<mapsto> file_write (page_offset p) bs (contents d s))\<rparr>"
  shows "disk_page d' f p = Some bs"
    and "(g, q) \<noteq> (f, p) \<Longrightarrow> disk_page d g q = Some x \<Longrightarrow> disk_page d' g q = Some x"
proof -
  show "disk_page d' f p = Some bs"
    using read_file_write_same [of "page_offset p" bs] len
    by (simp add: disk_page_def d'_def s contents_upd length_file_write)
  assume ne: "(g, q) \<noteq> (f, p)" and x: "disk_page d g q = Some x"
  then obtain t where t: "files d g = Some t" and in_range: "page_offset q + PAGE_SIZE \<le> length (contents d t)"
    and x': "x = read_at (page_offset q) PAGE_SIZE (contents d t)"
    by (auto simp: disk_page_def split: option.splits if_splits)
  show "disk_page d' g q = Some x"
  proof (cases "stream_path t = stream_path s")
    case True
    then have "g = f" using inv s t by (auto simp: disk_inv_def)
    with s t have "t = s" by simp
    from ne \<open>g = f\<close> have "q \<noteq> p" by simp
    from page_offset_apart [OF this]
    have "read_at (page_offset q) PAGE_SIZE (file_write (page_offset p) bs (contents d s)) = x"
      using in_range len unfolding x' \<open>t = s\<close> by (intro read_file_write_other) auto
    then show ?thesis
      using in_range t by (simp add: disk_page_def d'_def contents_upd \<open>t = s\<close> length_file_write)
  next
    case False
    then show ?thesis using in_range t x' by (simp add: disk_page_def d'_def contents_upd)
  qed
qed

interpretation disk: block_device disk_inv disk_open_files disk_page read_page write_page
proof (unfold_locales, goal_cases)
  case (1 d f p bs)
  then show ?case by (auto simp: disk_page_def disk_open_files_def split: option.splits if_splits)
next
  case (2 d f p bs)
  then show ?case
    by (auto simp: disk_page_def disk_inv_def read_page_def Let_def split: option.splits if_splits)
next
  case (3 d f bs p)
  then obtain s where s: "files d f = Some s" by (auto simp: disk_open_files_def)
  let ?d = "d\<lparr>file_system := (file_system d)(stream_path s \<mapsto> file_write (page_offset p) bs (contents d s))\<rparr>"
  have "write_page f p bs d = (?d, ok ())"
    using 3 s by (auto simp: write_page_def stream_write_def disk_inv_def)
  moreover have "disk_inv ?d" "disk_open_files ?d = disk_open_files d"
    using 3(1) by (simp_all add: disk_inv_def disk_open_files_def)
  ultimately show ?case using disk_page_write [OF 3(1) s 3(3), where p = p] by blast
qed

subsection \<open>Further operations\<close>

lemma delete_page_is_write:
  "files d f \<noteq> None \<Longrightarrow> disk_inv d \<Longrightarrow> delete_page f p d = write_page f p zero_page d"
  by (auto simp: delete_page_def write_page_def stream_write_def disk_inv_def)

lemma create_file_ok:
  assumes inv: "disk_inv d" and permits: "os_permits d path"
    and fresh: "\<forall>f s. files d f = Some s \<longrightarrow> stream_path s \<noteq> path" "files d (next_file_id d) = None"
  shows "\<exists>d'. create_file path d = (d', ok (next_file_id d)) \<and> disk_inv d' \<and>
    disk_open_files d' = insert (next_file_id d) (disk_open_files d) \<and>
    (\<forall>f p bs. disk_page d f p = Some bs \<longrightarrow> disk_page d' f p = Some bs)"
proof -
  let ?d = "(append_create path d)\<lparr>next_file_id := next_file_id d + 1,
      path_to_file_id := AList.update path (next_file_id d) (path_to_file_id d),
      files := (files d)(next_file_id d \<mapsto> \<lparr>stream_path = path, stream_failed = False\<rparr>)\<rparr>"
  have "create_file path d = (?d, ok (next_file_id d))"
    using permits by (auto simp: create_file_def Let_def append_create_def can_open_def)
  moreover have "disk_inv ?d" "disk_open_files ?d = insert (next_file_id d) (disk_open_files d)"
    using inv fresh by (auto simp: disk_inv_def disk_open_files_def append_create_def)
  moreover have "disk_page ?d f p = Some bs" if "disk_page d f p = Some bs" for f p bs
    using that fresh by (auto simp: disk_page_def append_create_def contents_def split: option.splits if_splits)
  ultimately show ?thesis by blast
qed

subsection \<open>Properties\<close>

text \<open>
  C21. Read after write. Start from a state in which no stream has failed and no two file ids share
  a path, and write any sequence of pages to open files: reading a page then gives the last
  bytes that were written to it, or, if the sequence does not write it, the page it held.
\<close>

theorem disk_read_last_write:
  assumes "disk_inv d" and "\<forall>(f, p, bs) \<in> set ws. f \<in> disk_open_files d \<and> length bs = PAGE_SIZE"
    and "(case disk.last_written ws f p of None \<Rightarrow> disk_page d f p | Some b \<Rightarrow> Some b) = Some bs"
  shows "snd (read_page f p (disk.write_all ws d)) = ok bs"
proof -
  have "disk_inv (disk.write_all ws d)" "disk_page (disk.write_all ws d) f p = Some bs"
    using disk.write_all_page [OF assms(1,2)] assms(3) by auto
  from disk.read_ok [OF this] show ?thesis by simp
qed

definition disk_example :: DiskManager where
  "disk_example = fst (create_file ''a.db'' (new_DiskManager Map.empty (\<lambda>_. True)))"

definition page_of :: "u8 \<Rightarrow> u8 list" where
  "page_of b = replicate PAGE_SIZE b"

lemma disk_example_inv: "disk_inv disk_example" "disk_open_files disk_example = {0}"
  by (auto simp: disk_example_def create_file_def new_DiskManager_def Let_def append_create_def
      can_open_def disk_inv_def disk_open_files_def)

lemma disk_read_last_write_witness:
  "snd (read_page 0 1 (disk.write_all [(0, 1, page_of 7), (0, 2, page_of 8), (0, 1, page_of 9)] disk_example))
     = ok (page_of 9)"
  by (rule disk_read_last_write)
    (simp_all add: disk_example_inv page_of_def disk.last_written_def map_add_def)

text \<open>
  A read past the end of a file disturbs later calls. Reading a page that the file does not
  hold in full gives zeros for the missing bytes and leaves the stream failed: the next write
  through the same file id throws and stores nothing, and the next read of any page, also of
  one that is on disk, returns a page of zeros before the stream works again.
\<close>

theorem disk_short_read_poisons:
  assumes "files d f = Some s" and "\<not> stream_failed s"
    and "length (contents d s) < page_offset p + PAGE_SIZE"
  shows "\<exists>d' bs. read_page f p d = (d', ok bs) \<and> length bs = PAGE_SIZE \<and>
    (\<forall>q data. write_page f q data d' = (d', throw (Runtime_error ''Disk write failed''))) \<and>
    (\<forall>q. read_page f q d' = (d, ok zero_page))"
proof -
  let ?bs = "read_at (page_offset p) PAGE_SIZE (contents d s)"
  have short: "length ?bs < PAGE_SIZE" using assms(3) by (simp add: read_at_def PAGE_SIZE_def)
  have "set_failed f (s\<lparr>stream_failed := True\<rparr>) False (set_failed f s True d) = d"
    using assms(1,2) by (simp add: set_failed_def fun_upd_idem)
  with short assms show ?thesis
    by (intro exI [of _ "set_failed f s True d"] exI [of _ "?bs @ replicate (PAGE_SIZE - length ?bs) 0"])
      (auto simp: read_page_def Let_def write_page_def stream_write_def, auto simp: set_failed_def stream_write_def)
qed

lemma disk_short_read_poisons_witness:
  "\<exists>d' bs. read_page 0 5 (fst (write_page 0 0 (page_of 7) disk_example)) = (d', ok bs) \<and>
     (\<forall>q. snd (read_page 0 q d') = ok zero_page)"
proof -
  let ?d = "fst (write_page 0 0 (page_of 7) disk_example)"
  have s: "files ?d 0 = Some \<lparr>stream_path = ''a.db'', stream_failed = False\<rparr>"
    by (simp add: disk_example_def create_file_def new_DiskManager_def Let_def append_create_def
        can_open_def write_page_def stream_write_def)
  have "length (contents ?d \<lparr>stream_path = ''a.db'', stream_failed = False\<rparr>) < page_offset 5 + PAGE_SIZE"
    by (simp add: disk_example_def create_file_def new_DiskManager_def Let_def append_create_def
        can_open_def write_page_def stream_write_def contents_def length_file_write page_of_def
        page_offset_def PAGE_SIZE_def)
  from disk_short_read_poisons [OF s _ this] show ?thesis by auto
qed

text \<open>
  A file that is opened by path without having been created in the same run cannot be used.
  open_file answers with the size of the path table plus one, but stores no stream, so reads
  through that id fail, unless create_file hands the same id to another file.
\<close>

theorem open_file_not_readable:
  assumes "map_of (path_to_file_id d) path = None" and "open_file path d = (d', ok f)"
  shows "files d' = files d \<and> f = word_of_nat (length (path_to_file_id d) + 1) \<and>
    (files d f = None \<longrightarrow>
      snd (read_page f p d') = throw (Runtime_error ''Invalid file id in read_page'') \<and>
      snd (write_page f p bs d') = throw (Runtime_error ''Invalid file id in write_page''))"
  using assms by (auto simp: open_file_def Let_def read_page_def write_page_def split: if_splits)

lemma open_file_not_readable_witness:
  "\<exists>d' f. open_file ''b.db'' (new_DiskManager [''b.db'' \<mapsto> page_of 1] (\<lambda>_. True)) = (d', ok f) \<and>
     snd (read_page f 0 d') = throw (Runtime_error ''Invalid file id in read_page'')"
proof -
  let ?d = "new_DiskManager [''b.db'' \<mapsto> page_of 1] (\<lambda>_. True)"
  obtain d' f where o: "open_file ''b.db'' ?d = (d', ok f)"
    by (simp add: open_file_def new_DiskManager_def Let_def can_open_def)
  have "map_of (path_to_file_id ?d) ''b.db'' = None" "files ?d f = None"
    by (simp_all add: new_DiskManager_def)
  with open_file_not_readable [OF this(1) o] o show ?thesis by blast
qed

end
