(* ===== verification/BufferPool.thy ===== *)
theory BufferPool
  imports ArcReplacer_Contract DiskManager
begin

section \<open>The buffer pool manager and the page guards\<close>

text \<open>
  src/buffer/buffer_pool_manager.cpp, src/storage/page/read_page_guard.cpp and
  write_page_guard.cpp, include/turtle/storage/page/page.hpp. A frame is named by its index in
  the array pages_; frames from pool_size on do not exist, and no operation reaches them
  (\<open>frames_ok\<close> in the contract theory). The disk manager, which the code reaches through a
  pointer, is a field of the state. Every operation holds bpm_latch_ from start to end, so each
  is one atomic step; the page latch of a guard is taken and released in steps of its own.
\<close>

datatype Latch = Free | Shared nat | Exclusive

record Page =
  rw_latch :: Latch
  page_data :: "u8 list"
  pg_file_id :: FileId
  pg_page_id :: PageId
  pin_count :: int
  is_dirty :: bool

type_synonym PageKey = "FileId \<times> PageId"

record BufferPoolManager =
  pool_size :: nat
  pages :: "FrameId \<Rightarrow> Page"
  page_table :: "PageKey \<Rightarrow> FrameId option"
  free_frames :: "FrameId list"
  replacer :: ArcReplacer
  disk_manager :: DiskManager
  next_page_id :: PageId

text \<open>
  A frame starts with the default member initialisers of Page. Its bytes come from new char[]
  and are indeterminate; no operation reads them before they are overwritten, and zeros stand
  for them.
\<close>

definition new_Page :: Page where
  "new_Page = \<lparr>rw_latch = Free, page_data = zero_page, pg_file_id = 0, pg_page_id = INVALID_PAGE_ID,
     pin_count = 0, is_dirty = False\<rparr>"

definition new_BufferPoolManager :: "nat \<Rightarrow> DiskManager \<Rightarrow> BufferPoolManager" where
  "new_BufferPoolManager n d = \<lparr>pool_size = n, pages = (\<lambda>_. new_Page), page_table = Map.empty,
     free_frames = map word_of_nat [0..<n], replacer = new_ArcReplacer n, disk_manager = d,
     next_page_id = 0\<rparr>"

definition upd_page :: "FrameId \<Rightarrow> (Page \<Rightarrow> Page) \<Rightarrow> BufferPoolManager \<Rightarrow> BufferPoolManager" where
  "upd_page f g b = b\<lparr>pages := (pages b)(f := g (pages b f))\<rparr>"

definition upd_replacer :: "(ArcReplacer \<Rightarrow> ArcReplacer) \<Rightarrow> BufferPoolManager \<Rightarrow> BufferPoolManager" where
  "upd_replacer g b = b\<lparr>replacer := g (replacer b)\<rparr>"

definition on_disk :: "(DiskManager, 'a) op \<Rightarrow> (BufferPoolManager, 'a) op" where
  "on_disk m b = (case m (disk_manager b) of (d, out) \<Rightarrow> (b\<lparr>disk_manager := d\<rparr>, out))"

definition key_of :: "Page \<Rightarrow> PageKey" where
  "key_of p = (pg_file_id p, pg_page_id p)"

text \<open>\<open>disk_manager_->write_page(frame.file_id(), frame.page_id(), frame.data())\<close>.\<close>

definition write_frame :: "FrameId \<Rightarrow> (BufferPoolManager, unit) op" where
  "write_frame f b = on_disk (write_page (pg_file_id (pages b f)) (pg_page_id (pages b f))
     (page_data (pages b f))) b"

subsection \<open>Obtaining a frame\<close>

text \<open>A free frame if there is one, else a victim of the replacer; None is the nullptr return.\<close>

definition acquire_frame :: "(BufferPoolManager, FrameId option) op" where
  "acquire_frame b = (case free_frames b of
     f # fs \<Rightarrow> (b\<lparr>free_frames := fs\<rparr>, ok (Some f))
   | [] \<Rightarrow> (case arc_evict (replacer b) of (r, victim) \<Rightarrow> (b\<lparr>replacer := r\<rparr>, ok victim)))"

text \<open>A page that the frame still holds is written back if dirty and leaves the page table.\<close>

definition vacate_frame :: "FrameId \<Rightarrow> (BufferPoolManager, unit) op" where
  "vacate_frame f b =
     (if pg_page_id (pages b f) \<noteq> INVALID_PAGE_ID
      then op_bind (if is_dirty (pages b f) then write_frame f else op_return ())
        (\<lambda>_. op_modify (\<lambda>b. b\<lparr>page_table := (page_table b)(key_of (pages b f) := None)\<rparr>)) b
      else (b, ok ()))"

definition install_page :: "FrameId \<Rightarrow> PageKey \<Rightarrow> BufferPoolManager \<Rightarrow> BufferPoolManager" where
  "install_page f key b =
     (let b1 = upd_page f (\<lambda>p. p\<lparr>pg_file_id := fst key, pg_page_id := snd key, pin_count := 1, is_dirty := False\<rparr>) b
      in b1\<lparr>page_table := (page_table b1)(key \<mapsto> f)\<rparr>)"

definition pin_in_replacer :: "FrameId \<Rightarrow> PageId \<Rightarrow> BufferPoolManager \<Rightarrow> BufferPoolManager" where
  "pin_in_replacer f p b =
     upd_replacer (arc_set_evictable f False) (upd_replacer (arc_record_access f p) b)"

subsection \<open>Operations\<close>

definition fetch_page :: "FileId \<Rightarrow> PageId \<Rightarrow> (BufferPoolManager, FrameId option) op" where
  "fetch_page file_id page_id b = (case page_table b (file_id, page_id) of
     Some f \<Rightarrow>
       (pin_in_replacer f page_id (upd_page f (\<lambda>p. p\<lparr>pin_count := pin_count p + 1\<rparr>) b), ok (Some f))
   | None \<Rightarrow>
       op_bind acquire_frame (\<lambda>v. case v of
         None \<Rightarrow> op_return None
       | Some f \<Rightarrow>
           op_bind (vacate_frame f) (\<lambda>_.
           op_bind (on_disk (read_page file_id page_id)) (\<lambda>bs.
           op_bind (op_modify (upd_page f (\<lambda>p. p\<lparr>page_data := bs\<rparr>))) (\<lambda>_.
           op_bind (op_modify (install_page f (file_id, page_id))) (\<lambda>_.
           op_bind (op_modify (pin_in_replacer f page_id)) (\<lambda>_.
           op_return (Some f))))))) b)"

definition unpin_page :: "FileId \<Rightarrow> PageId \<Rightarrow> bool \<Rightarrow> BufferPoolManager \<Rightarrow> BufferPoolManager \<times> bool" where
  "unpin_page file_id page_id dirty b = (case page_table b (file_id, page_id) of
     None \<Rightarrow> (b, False)
   | Some f \<Rightarrow>
       if pin_count (pages b f) \<le> 0 then (b, False)
       else (let b1 = upd_page f (\<lambda>p. p\<lparr>pin_count := pin_count p - 1\<rparr>) b;
                 b2 = (if dirty then upd_page f (\<lambda>p. p\<lparr>is_dirty := True\<rparr>) b1 else b1);
                 b3 = (if pin_count (pages b2 f) = 0 then upd_replacer (arc_set_evictable f True) b2 else b2)
             in (b3, True)))"

definition flush_page :: "FileId \<Rightarrow> PageId \<Rightarrow> (BufferPoolManager, bool) op" where
  "flush_page file_id page_id b = (case page_table b (file_id, page_id) of
     None \<Rightarrow> (b, ok False)
   | Some f \<Rightarrow> op_bind (write_frame f) (\<lambda>_.
       op_bind (op_modify (upd_page f (\<lambda>p. p\<lparr>is_dirty := False\<rparr>))) (\<lambda>_.
       op_return True)) b)"

text \<open>The loop of flush_all_pages over the frame numbers.\<close>

fun flush_frames :: "FrameId list \<Rightarrow> (BufferPoolManager, unit) op" where
  "flush_frames [] b = (b, ok ())"
| "flush_frames (f # fs) b =
     op_bind (if pg_page_id (pages b f) \<noteq> INVALID_PAGE_ID \<and> is_dirty (pages b f)
              then op_bind (write_frame f) (\<lambda>_. op_modify (upd_page f (\<lambda>p. p\<lparr>is_dirty := False\<rparr>)))
              else op_return ())
       (\<lambda>_. flush_frames fs) b"

definition flush_all_pages :: "(BufferPoolManager, unit) op" where
  "flush_all_pages b = flush_frames (map word_of_nat [0..<pool_size b]) b"

text \<open>The page number that new_page stores through its pointer is part of the result.\<close>

definition new_page :: "FileId \<Rightarrow> (BufferPoolManager, (FrameId \<times> PageId) option) op" where
  "new_page file_id =
     op_bind acquire_frame (\<lambda>v. case v of
       None \<Rightarrow> op_return None
     | Some f \<Rightarrow>
         op_bind (vacate_frame f) (\<lambda>_ b.
           (let page_id = next_page_id b;
                b1 = b\<lparr>next_page_id := page_id + 1\<rparr>;
                b2 = upd_page f (\<lambda>p. p\<lparr>page_data := zero_page\<rparr>) b1;
                b3 = pin_in_replacer f page_id (install_page f (file_id, page_id) b2)
            in op_bind (on_disk (write_page file_id page_id (page_data (pages b3 f)))) (\<lambda>_.
                 op_return (Some (f, page_id))) b3)))"

definition bpm_delete_page :: "FileId \<Rightarrow> PageId \<Rightarrow> (BufferPoolManager, bool) op" where
  "bpm_delete_page file_id page_id b = (case page_table b (file_id, page_id) of
     None \<Rightarrow> (b, ok True)
   | Some f \<Rightarrow>
       if pin_count (pages b f) > 0 then (b, ok False)
       else (let b1 = b\<lparr>page_table := (page_table b)((file_id, page_id) := None)\<rparr>
             in case arc_remove f (replacer b1) of
                  (r, Inl e) \<Rightarrow> (b1\<lparr>replacer := r\<rparr>, throw e)
                | (r, Inr _) \<Rightarrow>
                    (upd_page f (\<lambda>p. p\<lparr>page_data := zero_page, pg_page_id := INVALID_PAGE_ID, pg_file_id := 0,
                        pin_count := 0, is_dirty := False\<rparr>)
                      (b1\<lparr>replacer := r, free_frames := free_frames b1 @ [f]\<rparr>), ok True)))"

subsection \<open>Page guards\<close>

text \<open>
  lock and lock_shared return once the latch is available; \<open>Would_block\<close> is a call that has to
  wait in the current state.
\<close>

definition lock_shared :: "FrameId \<Rightarrow> (BufferPoolManager, unit) op" where
  "lock_shared f b = (case rw_latch (pages b f) of
     Free \<Rightarrow> (upd_page f (\<lambda>p. p\<lparr>rw_latch := Shared 1\<rparr>) b, ok ())
   | Shared n \<Rightarrow> (upd_page f (\<lambda>p. p\<lparr>rw_latch := Shared (n + 1)\<rparr>) b, ok ())
   | Exclusive \<Rightarrow> (b, throw Would_block))"

definition lock :: "FrameId \<Rightarrow> (BufferPoolManager, unit) op" where
  "lock f b = (case rw_latch (pages b f) of
     Free \<Rightarrow> (upd_page f (\<lambda>p. p\<lparr>rw_latch := Exclusive\<rparr>) b, ok ())
   | _ \<Rightarrow> (b, throw Would_block))"

definition unlock_shared :: "FrameId \<Rightarrow> BufferPoolManager \<Rightarrow> BufferPoolManager" where
  "unlock_shared f b = upd_page f (\<lambda>p. p\<lparr>rw_latch := (case rw_latch p of
     Shared n \<Rightarrow> (if n \<le> 1 then Free else Shared (n - 1)) | l \<Rightarrow> l)\<rparr>) b"

definition unlock :: "FrameId \<Rightarrow> BufferPoolManager \<Rightarrow> BufferPoolManager" where
  "unlock f b = upd_page f (\<lambda>p. p\<lparr>rw_latch := Free\<rparr>) b"

text \<open>A guard is the frame it refers to, or None for a guard without page (moved from, dropped).\<close>

type_synonym guard = "FrameId option"

definition bpm_read_page :: "FileId \<Rightarrow> PageId \<Rightarrow> (BufferPoolManager, guard) op" where
  "bpm_read_page file_id page_id = op_bind (fetch_page file_id page_id) (\<lambda>v. case v of
     None \<Rightarrow> op_return None
   | Some f \<Rightarrow> op_bind (lock_shared f) (\<lambda>_. op_return (Some f)))"

definition bpm_write_page :: "FileId \<Rightarrow> PageId \<Rightarrow> (BufferPoolManager, guard) op" where
  "bpm_write_page file_id page_id = op_bind (fetch_page file_id page_id) (\<lambda>v. case v of
     None \<Rightarrow> op_return None
   | Some f \<Rightarrow> op_bind (lock f) (\<lambda>_. op_return (Some f)))"

definition unpin_frame :: "FrameId \<Rightarrow> bool \<Rightarrow> BufferPoolManager \<Rightarrow> BufferPoolManager" where
  "unpin_frame f dirty b = fst (unpin_page (pg_file_id (pages b f)) (pg_page_id (pages b f)) dirty b)"

definition read_guard_drop :: "guard \<Rightarrow> BufferPoolManager \<Rightarrow> BufferPoolManager \<times> guard" where
  "read_guard_drop g b = (case g of
     Some f \<Rightarrow> (unpin_frame f False (unlock_shared f b), None) | None \<Rightarrow> (b, None))"

definition write_guard_drop :: "guard \<Rightarrow> BufferPoolManager \<Rightarrow> BufferPoolManager \<times> guard" where
  "write_guard_drop g b = (case g of
     Some f \<Rightarrow> (unpin_frame f True (unlock f b), None) | None \<Rightarrow> (b, None))"

text \<open>Move assignment: the old page is dropped, the other guard gives up its own.\<close>

definition write_guard_move :: "guard \<Rightarrow> guard \<Rightarrow> BufferPoolManager \<Rightarrow> BufferPoolManager \<times> guard \<times> guard" where
  "write_guard_move this other b = (case write_guard_drop this b of (b', _) \<Rightarrow> (b', other, None))"

definition read_guard_move :: "guard \<Rightarrow> guard \<Rightarrow> BufferPoolManager \<Rightarrow> BufferPoolManager \<times> guard \<times> guard" where
  "read_guard_move this other b = (case read_guard_drop this b of (b', _) \<Rightarrow> (b', other, None))"

definition write_guard_flush :: "guard \<Rightarrow> (BufferPoolManager, unit) op" where
  "write_guard_flush g b = (case g of
     Some f \<Rightarrow> op_bind (flush_page (pg_file_id (pages b f)) (pg_page_id (pages b f))) (\<lambda>_. op_return ()) b
   | None \<Rightarrow> (b, ok ()))"

text \<open>The bytes of a guarded page, and a change to them through a write guard.\<close>

definition guard_data :: "FrameId \<Rightarrow> BufferPoolManager \<Rightarrow> u8 list" where
  "guard_data f b = page_data (pages b f)"

definition guard_write :: "FrameId \<Rightarrow> (u8 list \<Rightarrow> u8 list) \<Rightarrow> BufferPoolManager \<Rightarrow> BufferPoolManager" where
  "guard_write f g = upd_page f (\<lambda>p. p\<lparr>page_data := g (page_data p)\<rparr>)"

end
