(* ===== verification/BufferPool_Contract.thy ===== *)
theory BufferPool_Contract
  imports BufferPool
begin

section \<open>The contract of the buffer pool\<close>

text \<open>
  Threads hold handles: a pin without latch, a page latched for reading or for writing, or a page
  that was latched for writing and is about to be unpinned as dirty. \<open>pool_step\<close> interleaves
  the atomic steps of any number of handles with flushes, deletions and new pages. \<open>pool_inv\<close>
  is the invariant; \<open>bpm_view\<close> is the page contents that a client of the pool observes, cached or
  not, and the lemmas show that caching, eviction and flushing never change it.
\<close>

declare split_paired_All [simp del] split_paired_Ex [simp del]

subsection \<open>Handles and the invariant\<close>

datatype handle = Pinned | Reading | Writing | Written

type_synonym handles = "(handle \<times> FrameId) list"

definition pins :: "FrameId \<Rightarrow> handles \<Rightarrow> nat" where
  "pins f hs = length (filter (\<lambda>h. snd h = f) hs)"

definition modifying :: "FrameId \<Rightarrow> handles \<Rightarrow> bool" where
  "modifying f hs \<longleftrightarrow> (Writing, f) \<in> set hs \<or> (Written, f) \<in> set hs"

abbreviation tracked :: "BufferPoolManager \<Rightarrow> FrameId set" where
  "tracked b \<equiv> arc_tracked (replacer b)"

text \<open>\<open>H\<close> is the set of frames that an operation has taken out of the pool and not yet filled.\<close>

definition frames_ok :: "FrameId set \<Rightarrow> BufferPoolManager \<Rightarrow> bool" where
  "frames_ok H b \<longleftrightarrow> pool_size b < 2 ^ 32 \<and> arc_inv (replacer b) \<and> replacer_size (replacer b) = pool_size b \<and>
     distinct (free_frames b) \<and> set (free_frames b) \<inter> tracked b = {} \<and>
     H \<inter> (set (free_frames b) \<union> tracked b) = {} \<and>
     {f. unat f < pool_size b} = H \<union> set (free_frames b) \<union> tracked b \<and>
     (\<forall>f \<in> set (free_frames b). pg_page_id (pages b f) = INVALID_PAGE_ID)"

definition table_ok :: "BufferPoolManager \<Rightarrow> bool" where
  "table_ok b \<longleftrightarrow> (\<forall>key f. page_table b key = Some f \<longleftrightarrow> f \<in> tracked b \<and> key_of (pages b f) = key) \<and>
     (\<forall>f \<in> tracked b. pg_page_id (pages b f) \<noteq> INVALID_PAGE_ID)"

definition pins_ok :: "BufferPoolManager \<Rightarrow> handles \<Rightarrow> bool" where
  "pins_ok b hs \<longleftrightarrow> (\<forall>f. pin_count (pages b f) = int (pins f hs)) \<and>
     arc_evictables (replacer b) = {f \<in> tracked b. pins f hs = 0} \<and> (\<forall>h \<in> set hs. snd h \<in> tracked b)"

text \<open>The latch of a page against the numbers of its readers and writers.\<close>

fun latch_matches :: "Latch \<Rightarrow> nat \<Rightarrow> nat \<Rightarrow> bool" where
  "latch_matches Free r w \<longleftrightarrow> r = 0 \<and> w = 0"
| "latch_matches (Shared n) r w \<longleftrightarrow> n > 0 \<and> r = n \<and> w = 0"
| "latch_matches Exclusive r w \<longleftrightarrow> r = 0 \<and> w = 1"

definition latch_ok :: "BufferPoolManager \<Rightarrow> handles \<Rightarrow> bool" where
  "latch_ok b hs \<longleftrightarrow> (\<forall>f. latch_matches (rw_latch (pages b f))
     (count_list hs (Reading, f)) (count_list hs (Writing, f)))"

definition page_at :: "BufferPoolManager \<Rightarrow> PageKey \<Rightarrow> u8 list option" where
  "page_at b key = disk_page (disk_manager b) (fst key) (snd key)"

definition content_ok :: "BufferPoolManager \<Rightarrow> handles \<Rightarrow> bool" where
  "content_ok b hs \<longleftrightarrow> disk_inv (disk_manager b) \<and> (\<forall>f \<in> tracked b.
     length (page_data (pages b f)) = PAGE_SIZE \<and> page_at b (key_of (pages b f)) \<noteq> None \<and>
     (\<not> is_dirty (pages b f) \<longrightarrow> \<not> modifying f hs \<longrightarrow> page_at b (key_of (pages b f)) = Some (page_data (pages b f))))"

definition pool_inv :: "FrameId set \<Rightarrow> BufferPoolManager \<Rightarrow> handles \<Rightarrow> bool" where
  "pool_inv H b hs \<longleftrightarrow> frames_ok H b \<and> table_ok b \<and> pins_ok b hs \<and> latch_ok b hs \<and> content_ok b hs"

text \<open>What a client observes.\<close>

definition bpm_view :: "BufferPoolManager \<Rightarrow> PageKey \<Rightarrow> u8 list option" where
  "bpm_view b key = (case page_table b key of
     Some f \<Rightarrow> Some (page_data (pages b f)) | None \<Rightarrow> page_at b key)"

definition view_kept :: "BufferPoolManager \<Rightarrow> BufferPoolManager \<Rightarrow> bool" where
  "view_kept b b' \<longleftrightarrow> (\<forall>key x. bpm_view b key = Some x \<longrightarrow> bpm_view b' key = Some x)"

lemma view_keptD: "view_kept b b' \<Longrightarrow> bpm_view b key = Some x \<Longrightarrow> bpm_view b' key = Some x"
  by (simp add: view_kept_def)

lemma view_kept_refl [simp]: "view_kept b b"
  and view_kept_trans: "view_kept b b' \<Longrightarrow> view_kept b' b'' \<Longrightarrow> view_kept b b''"
  by (simp_all add: view_kept_def)

subsection \<open>Field updates\<close>

lemma upd_page_simps [simp]:
  "pages (upd_page f g b) = (pages b)(f := g (pages b f))"
  "page_table (upd_page f g b) = page_table b" "free_frames (upd_page f g b) = free_frames b"
  "replacer (upd_page f g b) = replacer b" "disk_manager (upd_page f g b) = disk_manager b"
  "next_page_id (upd_page f g b) = next_page_id b" "pool_size (upd_page f g b) = pool_size b"
  by (simp_all add: upd_page_def)

lemma upd_replacer_simps [simp]:
  "replacer (upd_replacer g b) = g (replacer b)" "pages (upd_replacer g b) = pages b"
  "page_table (upd_replacer g b) = page_table b" "free_frames (upd_replacer g b) = free_frames b"
  "disk_manager (upd_replacer g b) = disk_manager b" "next_page_id (upd_replacer g b) = next_page_id b"
  "pool_size (upd_replacer g b) = pool_size b"
  by (simp_all add: upd_replacer_def)

lemma pin_in_replacer_simps [simp]:
  "replacer (pin_in_replacer f p b) = arc.pin_frame f p (replacer b)"
  "pages (pin_in_replacer f p b) = pages b"
  "page_table (pin_in_replacer f p b) = page_table b" "free_frames (pin_in_replacer f p b) = free_frames b"
  "disk_manager (pin_in_replacer f p b) = disk_manager b" "next_page_id (pin_in_replacer f p b) = next_page_id b"
  "pool_size (pin_in_replacer f p b) = pool_size b"
  by (simp_all add: pin_in_replacer_def arc.pin_frame_def)

lemma install_page_simps [simp]:
  "replacer (install_page f key b) = replacer b"
  "pages (install_page f key b) = (pages b)(f := (pages b f)\<lparr>pg_file_id := fst key, pg_page_id := snd key,
     pin_count := 1, is_dirty := False\<rparr>)"
  "page_table (install_page f key b) = (page_table b)(key \<mapsto> f)"
  "free_frames (install_page f key b) = free_frames b" "disk_manager (install_page f key b) = disk_manager b"
  "next_page_id (install_page f key b) = next_page_id b" "pool_size (install_page f key b) = pool_size b"
  by (simp_all add: install_page_def Let_def)

lemma pins_simps [simp]:
  "pins f [] = 0" "pins f (h # hs) = (if snd h = f then 1 else 0) + pins f hs"
  by (simp_all add: pins_def)

lemma pins_eq_0: "pins f hs = 0 \<longleftrightarrow> (\<forall>h \<in> set hs. snd h \<noteq> f)"
  by (simp add: pins_def filter_empty_conv)

lemma pins_pos: "(h, f) \<in> set hs \<Longrightarrow> 0 < pins f hs"
  using pins_eq_0 [of f hs] by fastforce

lemma pins_0_not_modifying: "pins f hs = 0 \<Longrightarrow> \<not> modifying f hs"
  by (auto simp: pins_eq_0 modifying_def)

lemma tableD: "table_ok b \<Longrightarrow> page_table b key = Some f \<longleftrightarrow> f \<in> tracked b \<and> key_of (pages b f) = key"
  by (simp add: table_ok_def)

lemma frames_okD:
  assumes "frames_ok H b"
  shows "arc_inv (replacer b)" and "replacer_size (replacer b) = pool_size b"
    and "f \<in> tracked b \<Longrightarrow> unat f < replacer_size (replacer b)"
    and "f \<in> set (free_frames b) \<Longrightarrow> unat f < replacer_size (replacer b)"
    and "f \<in> H \<Longrightarrow> unat f < replacer_size (replacer b)"
  using assms by (auto simp: frames_ok_def)

lemma pool_invD:
  assumes "pool_inv H b hs"
  shows "frames_ok H b" and "table_ok b" and "pins_ok b hs" and "latch_ok b hs" and "content_ok b hs"
  using assms by (simp_all add: pool_inv_def)

lemma pool_inv_new:
  assumes "disk_inv d" and "n < 2 ^ 32"
  shows "pool_inv {} (new_BufferPoolManager n d) []"
proof -
  have "{f :: FrameId. unat f < n} = word_of_nat ` {0..<n}"
  proof (intro set_eqI iffI)
    fix f :: FrameId assume "f \<in> {f. unat f < n}"
    then show "f \<in> word_of_nat ` {0..<n}" by (intro image_eqI [of _ _ "unat f"]) auto
  qed (use assms(2) in \<open>auto simp: unat_of_nat\<close>)
  moreover have "inj_on (word_of_nat :: nat \<Rightarrow> FrameId) {0..<n}"
  proof (rule inj_onI)
    fix x y assume "x \<in> {0..<n}" "y \<in> {0..<n}" and eq: "(word_of_nat x :: FrameId) = word_of_nat y"
    moreover have "unat (word_of_nat z :: FrameId) = z" if "z < n" for z
      using assms(2) that by (simp add: unat_of_nat)
    ultimately show "x = y" by (metis atLeastLessThan_iff)
  qed
  ultimately show ?thesis
    using assms arc_inv_new [of n]
    by (auto simp: pool_inv_def frames_ok_def table_ok_def pins_ok_def latch_ok_def content_ok_def
        new_BufferPoolManager_def new_ArcReplacer_def arc_tracked_def arc_evictables_def new_Page_def distinct_map)
qed

subsection \<open>Obtaining a frame\<close>

lemma view_kept_disk:
  assumes "page_table b' = page_table b" and "\<And>key f. page_table b key = Some f \<Longrightarrow> page_data (pages b' f) = page_data (pages b f)"
    and "\<And>key x. page_at b key = Some x \<Longrightarrow> page_at b' key = Some x"
  shows "view_kept b b'"
  using assms by (auto simp: view_kept_def bpm_view_def split: option.splits)

text \<open>Writing a cached frame back: the disk then holds its bytes.\<close>

lemma write_frame_ok:
  assumes c: "content_ok b hs" and f: "f \<in> tracked b"
  shows "\<exists>d. write_frame f b = (b\<lparr>disk_manager := d\<rparr>, ok ()) \<and> disk_inv d \<and>
    page_at (b\<lparr>disk_manager := d\<rparr>) (key_of (pages b f)) = Some (page_data (pages b f)) \<and>
    (\<forall>key x. key \<noteq> key_of (pages b f) \<longrightarrow> page_at b key = Some x \<longrightarrow> page_at (b\<lparr>disk_manager := d\<rparr>) key = Some x)"
proof -
  let ?k = "key_of (pages b f)"
  obtain x where x: "page_at b ?k = Some x" using c f by (auto simp: content_ok_def)
  have len: "length (page_data (pages b f)) = PAGE_SIZE" using c f by (simp add: content_ok_def)
  have inv: "disk_inv (disk_manager b)" using c by (simp add: content_ok_def)
  have "fst ?k \<in> disk_open_files (disk_manager b)"
    using disk.page_open x unfolding page_at_def by blast
  from disk.write_ok [OF inv this len, of "snd ?k"] obtain d where
    d: "write_page (fst ?k) (snd ?k) (page_data (pages b f)) (disk_manager b) = (d, ok ())" "disk_inv d"
    "disk_page d (fst ?k) (snd ?k) = Some (page_data (pages b f))"
    and other: "\<forall>g q x. (g, q) \<noteq> (fst ?k, snd ?k) \<longrightarrow> disk_page (disk_manager b) g q = Some x \<longrightarrow> disk_page d g q = Some x"
    by (elim exE conjE) (rule that)
  have "page_at (b\<lparr>disk_manager := d\<rparr>) key = Some x" if "key \<noteq> ?k" "page_at b key = Some x" for key x
    using other that by (simp add: page_at_def)
  with d show ?thesis
    by (intro exI [of _ d]) (simp add: write_frame_def on_disk_def page_at_def key_of_def)
qed

lemma page_at_cong: "disk_manager b = disk_manager b' \<Longrightarrow> page_at b = page_at b'"
  by (simp add: page_at_def fun_eq_iff)

lemma page_at_upd [simp]: "page_at (upd_page f g b) = page_at b"
  and page_at_updates [simp]: "page_at (b\<lparr>replacer := r\<rparr>) = page_at b"
  "page_at (b\<lparr>page_table := t\<rparr>) = page_at b" "page_at (b\<lparr>free_frames := fs\<rparr>) = page_at b"
  by (rule page_at_cong, simp)+

lemma key_inj: "table_ok b \<Longrightarrow> f \<in> tracked b \<Longrightarrow> g \<in> tracked b \<Longrightarrow> key_of (pages b f) = key_of (pages b g) \<Longrightarrow> f = g"
  by (metis option.inject tableD)

lemma detach:
  assumes inv: "pool_inv {} b hs" and f: "f \<in> arc_evictables (replacer b)"
    and r: "arc_inv r" "replacer_size r = replacer_size (replacer b)" "arc_tracked r = tracked b - {f}"
      "arc_evictables r = arc_evictables (replacer b) - {f}"
    and d: "disk_inv d" "page_at (b\<lparr>disk_manager := d\<rparr>) (key_of (pages b f)) = Some (page_data (pages b f))"
    and other: "\<And>key x. key \<noteq> key_of (pages b f) \<Longrightarrow> page_at b key = Some x \<Longrightarrow> page_at (b\<lparr>disk_manager := d\<rparr>) key = Some x"
  defines "b' \<equiv> b\<lparr>replacer := r, disk_manager := d, page_table := (page_table b)(key_of (pages b f) := None)\<rparr>"
  shows "pool_inv {f} b' hs" and "view_kept b b'"
proof -
  note P = pool_invD [OF inv]
  have ft: "f \<in> tracked b" and f0: "pins f hs = 0" using P(3) f by (auto simp: pins_ok_def)
  have pa: "page_at b' = page_at (b\<lparr>disk_manager := d\<rparr>)" by (rule page_at_cong) (simp add: b'_def)
  have keys: "key_of (pages b g) \<noteq> key_of (pages b f)" if "g \<in> tracked b" "g \<noteq> f" for g
    using key_inj [OF P(2) that(1) ft] that(2) by blast
  have "frames_ok {f} b'"
    using P(1) r ft by (auto simp: frames_ok_def b'_def)
  moreover have "table_ok b'"
    using P(2) keys by (auto simp: table_ok_def b'_def r)
  moreover have "pins_ok b' hs"
    using P(3) f0 by (auto simp: pins_ok_def b'_def r pins_eq_0)
  moreover have "latch_ok b' hs" using P(4) by (simp add: latch_ok_def b'_def)
  moreover have "content_ok b' hs"
  proof -
    have "page_at b' (key_of (pages b g)) \<noteq> None \<and>
        (page_at b (key_of (pages b g)) = Some x \<longrightarrow> page_at b' (key_of (pages b g)) = Some x)"
      if "g \<in> tracked b" "g \<noteq> f" for g x
      using other [OF keys [OF that]] P(5) that(1) unfolding pa content_ok_def by blast
    then show ?thesis
      using P(5) d(1) by (auto simp: content_ok_def r b'_def)
  qed
  ultimately show "pool_inv {f} b' hs" by (simp add: pool_inv_def)
  have pt: "page_table b (key_of (pages b f)) = Some f" using tableD [OF P(2)] ft by simp
  have "bpm_view b' key = Some x" if x: "bpm_view b key = Some x" for key x
  proof (cases "key = key_of (pages b f)")
    case True
    with x d(2) show ?thesis by (simp add: bpm_view_def pt b'_def page_at_def)
  next
    case False
    with x other [OF False] show ?thesis
      by (auto simp: bpm_view_def b'_def page_at_def split: option.splits)
  qed
  then show "view_kept b b'" by (simp add: view_kept_def)
qed

lemma acquire_none:
  "free_frames b = [] \<Longrightarrow> arc_inv (replacer b) \<Longrightarrow> arc_evictables (replacer b) = {} \<Longrightarrow> acquire_frame b = (b, ok None)"
  using arc.evict_None [of "replacer b"] by (simp add: acquire_frame_def)

text \<open>The frame that acquire_frame and vacate_frame deliver, and what they leave behind.\<close>

definition vacated :: "BufferPoolManager \<Rightarrow> handles \<Rightarrow> FrameId \<Rightarrow> BufferPoolManager \<Rightarrow> bool" where
  "vacated b hs f b' \<longleftrightarrow> pool_inv {f} b' hs \<and> view_kept b b' \<and> next_page_id b' = next_page_id b \<and>
     pool_size b' = pool_size b \<and> files (disk_manager b') = files (disk_manager b) \<and>
     (\<forall>key. page_table b key = None \<longrightarrow> page_table b' key = None)"

lemma acquire_vacate:
  assumes inv: "pool_inv {} b hs"
  shows "acquire_frame b = (b, ok None) \<and> free_frames b = [] \<and> arc_evictables (replacer b) = {} \<or>
    (\<exists>f b1 b2. acquire_frame b = (b1, ok (Some f)) \<and> vacate_frame f b1 = (b2, ok ()) \<and> vacated b hs f b2)"
proof (cases "free_frames b")
  case (Cons f fs)
  let ?b = "b\<lparr>free_frames := fs\<rparr>"
  note P = pool_invD [OF inv]
  have "pg_page_id (pages b f) = INVALID_PAGE_ID" using P(1) Cons by (simp add: frames_ok_def)
  then have v: "vacate_frame f ?b = (?b, ok ())" by (simp add: vacate_frame_def)
  have "frames_ok {f} ?b" using P(1) Cons by (auto simp: frames_ok_def)
  moreover have "table_ok ?b" "pins_ok ?b hs" "latch_ok ?b hs" "content_ok ?b hs"
    using P by (simp_all add: table_ok_def pins_ok_def latch_ok_def content_ok_def)
  moreover have "view_kept b ?b" by (simp add: view_kept_def bpm_view_def split: option.split)
  ultimately have "vacated b hs f ?b" by (simp add: vacated_def pool_inv_def)
  with v Cons show ?thesis by (auto simp: acquire_frame_def)
next
  case Nil
  note P = pool_invD [OF inv]
  have ai: "arc_inv (replacer b)" using P(1) by (simp add: frames_ok_def)
  then show ?thesis
  proof (cases rule: arc.evict_cases)
    case none
    with Nil show ?thesis by (simp add: acquire_frame_def)
  next
    case (victim r f)
    let ?b1 = "b\<lparr>replacer := r\<rparr>" and ?k = "key_of (pages b f)"
    have ft: "f \<in> tracked b" and f0: "\<not> modifying f hs"
      using P(3) victim(2) pins_0_not_modifying by (auto simp: pins_ok_def)
    have pid: "pg_page_id (pages b f) \<noteq> INVALID_PAGE_ID" using P(2) ft by (simp add: table_ok_def)
    note ev = victim(2-6)
    have "\<exists>d. vacate_frame f ?b1 = (b\<lparr>replacer := r, disk_manager := d, page_table := (page_table b)(?k := None)\<rparr>, ok ()) \<and>
        disk_inv d \<and> files d = files (disk_manager b) \<and> page_at (b\<lparr>disk_manager := d\<rparr>) ?k = Some (page_data (pages b f)) \<and>
        (\<forall>key x. key \<noteq> ?k \<longrightarrow> page_at b key = Some x \<longrightarrow> page_at (b\<lparr>disk_manager := d\<rparr>) key = Some x)"
    proof (cases "is_dirty (pages b f)")
      case True
      from write_frame_ok [OF P(5) ft] obtain d where d: "write_frame f b = (b\<lparr>disk_manager := d\<rparr>, ok ())"
        "disk_inv d" "page_at (b\<lparr>disk_manager := d\<rparr>) ?k = Some (page_data (pages b f))"
        "\<forall>key x. key \<noteq> ?k \<longrightarrow> page_at b key = Some x \<longrightarrow> page_at (b\<lparr>disk_manager := d\<rparr>) key = Some x"
        by blast
      from d(1) have w: "write_frame f ?b1 = (?b1\<lparr>disk_manager := d\<rparr>, ok ())"
        by (auto simp: write_frame_def on_disk_def split: prod.splits dest!: arg_cong [where f = disk_manager])
      from d(1) have "files d = files (disk_manager b)"
        by (auto simp: write_frame_def on_disk_def write_page_def stream_write_def
            split: prod.splits option.splits if_splits dest!: arg_cong [where f = disk_manager])
      with d w pid True show ?thesis
        by (intro exI [of _ d]) (simp add: vacate_frame_def op_bind_def op_defs)
    next
      case False
      have "page_at b ?k = Some (page_data (pages b f))"
        using P(5) ft f0 False by (simp add: content_ok_def)
      moreover have "page_at (b\<lparr>disk_manager := disk_manager b\<rparr>) = page_at b" by (rule page_at_cong) simp
      moreover have "disk_inv (disk_manager b)" using P(5) by (simp add: content_ok_def)
      ultimately show ?thesis using pid False
        by (intro exI [of _ "disk_manager b"]) (simp add: vacate_frame_def op_bind_def op_defs)
    qed
    then obtain d where d: "vacate_frame f ?b1 = (b\<lparr>replacer := r, disk_manager := d, page_table := (page_table b)(?k := None)\<rparr>, ok ())"
      "disk_inv d" "files d = files (disk_manager b)" "page_at (b\<lparr>disk_manager := d\<rparr>) ?k = Some (page_data (pages b f))"
      "\<And>key x. key \<noteq> ?k \<Longrightarrow> page_at b key = Some x \<Longrightarrow> page_at (b\<lparr>disk_manager := d\<rparr>) key = Some x"
      by blast
    have "vacated b hs f (b\<lparr>replacer := r, disk_manager := d, page_table := (page_table b)(?k := None)\<rparr>)"
      using detach [OF inv ev(1) ev(2) ev(3) ev(4) ev(5) d(2) d(4) d(5)] d(3) by (simp add: vacated_def)
    with d(1) victim(1) Nil show ?thesis by (auto simp: acquire_frame_def)
  qed
qed

subsection \<open>Filling a frame\<close>

lemma count_list_pins: "count_list hs (h, f) \<le> pins f hs"
  by (induction hs) auto

lemma install_ok:
  assumes inv: "pool_inv {f} b hs" and key: "page_table b key = None" "snd key \<noteq> INVALID_PAGE_ID"
    and data: "page_at b key = Some (page_data (pages b f))"
  defines "b' \<equiv> pin_in_replacer f (snd key) (install_page f key b)"
  shows "pool_inv {} b' ((Pinned, f) # hs)" and "view_kept b b'" and "page_table b' key = Some f"
    and "page_data (pages b' f) = page_data (pages b f)"
proof -
  note P = pool_invD [OF inv]
  have fr: "unat f < replacer_size (replacer b)" "f \<notin> tracked b" "f \<notin> set (free_frames b)"
    using P(1) frames_okD(5) [OF P(1)] by (auto simp: frames_ok_def)
  note R = arc.pin_frame_ok [OF frames_okD(1) [OF P(1)] fr(1), of "snd key"]
  have f0: "pins f hs = 0" using P(3) fr(2) by (auto simp: pins_ok_def pins_eq_0)
  have nokey: "key_of (pages b g) \<noteq> key" if "g \<in> tracked b" for g
    using tableD [OF P(2), of key g] key(1) that by auto
  have len: "length (page_data (pages b f)) = PAGE_SIZE"
    using disk.page_open data unfolding page_at_def by blast
  have pa: "page_at b' = page_at b" by (rule page_at_cong) (simp add: b'_def)
  have "frames_ok {} b'"
    using P(1) R fr by (auto simp: frames_ok_def b'_def)
  moreover have "table_ok b'"
    using P(2) R(3) key nokey fr(2) by (auto simp: table_ok_def b'_def key_of_def)
  moreover have "pins_ok b' ((Pinned, f) # hs)"
    using P(3) R(3,4) f0 fr(2) by (auto simp: pins_ok_def b'_def)
  moreover have "latch_ok b' ((Pinned, f) # hs)"
    using P(4) by (simp add: latch_ok_def b'_def)
  moreover have "content_ok b' ((Pinned, f) # hs)"
    using P(5) R(3) data len fr(2) unfolding content_ok_def pa
    by (auto simp: b'_def key_of_def modifying_def)
  ultimately show "pool_inv {} b' ((Pinned, f) # hs)" by (simp add: pool_inv_def)
  show "page_table b' key = Some f" and "page_data (pages b' f) = page_data (pages b f)"
    by (simp_all add: b'_def)
  have nf: "page_table b k \<noteq> Some f" for k using tableD [OF P(2)] fr(2) by blast
  have "bpm_view b' k = Some x" if "bpm_view b k = Some x" for k x
    using that data key(1) nf [of k]
    by (cases "k = key"; cases "page_table b k") (auto simp: bpm_view_def b'_def page_at_def)
  then show "view_kept b b'" by (simp add: view_kept_def)
qed

lemma set_data_hole:
  assumes "pool_inv {f} b hs"
  shows "pool_inv {f} (upd_page f (\<lambda>p. p\<lparr>page_data := bs\<rparr>) b) hs"
    and "view_kept b (upd_page f (\<lambda>p. p\<lparr>page_data := bs\<rparr>) b)"
proof -
  note P = pool_invD [OF assms]
  have nt: "f \<notin> tracked b" using P(1) by (auto simp: frames_ok_def)
  then have "page_table b k \<noteq> Some f" for k using tableD [OF P(2)] by blast
  then show "view_kept b (upd_page f (\<lambda>p. p\<lparr>page_data := bs\<rparr>) b)"
    by (auto simp: view_kept_def bpm_view_def split: option.splits)
  show "pool_inv {f} (upd_page f (\<lambda>p. p\<lparr>page_data := bs\<rparr>) b) hs"
    using P nt
    by (auto simp: pool_inv_def frames_ok_def table_ok_def pins_ok_def latch_ok_def content_ok_def key_of_def)
qed

subsection \<open>Fetching a page\<close>

lemma fetch_hit_ok:
  assumes inv: "pool_inv {} b hs" and t: "page_table b (p, q) = Some f"
  defines "b' \<equiv> pin_in_replacer f q (upd_page f (\<lambda>p. p\<lparr>pin_count := pin_count p + 1\<rparr>) b)"
  shows "pool_inv {} b' ((Pinned, f) # hs)" and "view_kept b b'"
proof -
  note P = pool_invD [OF inv]
  have ft: "f \<in> tracked b" using tableD [OF P(2)] t by simp
  note R = arc.pin_frame_ok [OF frames_okD(1) [OF P(1)] frames_okD(3) [OF P(1) ft], of q]
  have pa: "page_at b' = page_at b" by (rule page_at_cong) (simp add: b'_def)
  have "frames_ok {} b'" using P(1) R ft by (auto simp: frames_ok_def b'_def)
  moreover have "table_ok b'" using P(2) R(3) ft by (auto simp: table_ok_def b'_def key_of_def)
  moreover have "pins_ok b' ((Pinned, f) # hs)" using P(3) R(3,4) ft by (auto simp: pins_ok_def b'_def)
  moreover have "latch_ok b' ((Pinned, f) # hs)"
    using P(4) by (simp add: latch_ok_def b'_def)
  moreover have "content_ok b' ((Pinned, f) # hs)"
    using P(5) R(3) ft unfolding content_ok_def pa by (auto simp: b'_def key_of_def modifying_def)
  ultimately show "pool_inv {} b' ((Pinned, f) # hs)" by (simp add: pool_inv_def)
  show "view_kept b b'" by (auto simp: view_kept_def bpm_view_def b'_def page_at_def split: option.splits)
qed

text \<open>
  A fetch of a page that the client can see returns a frame that holds its bytes, or nothing when
  every frame is pinned; what clients see stays the same.
\<close>

lemma fetch_page_ok:
  assumes inv: "pool_inv {} b hs" and x: "bpm_view b (p, q) = Some x" and q: "q \<noteq> INVALID_PAGE_ID"
  shows "fetch_page p q b = (b, ok None) \<and> free_frames b = [] \<and> arc_evictables (replacer b) = {} \<or>
    (\<exists>b' f. fetch_page p q b = (b', ok (Some f)) \<and> pool_inv {} b' ((Pinned, f) # hs) \<and> view_kept b b' \<and>
       page_table b' (p, q) = Some f \<and> page_data (pages b' f) = x \<and>
       (case page_table b (p, q) of None \<Rightarrow> pins f hs = 0 | Some g \<Rightarrow> g = f))"
proof (cases "page_table b (p, q)")
  case (Some f)
  with fetch_hit_ok [OF inv Some] x show ?thesis
    by (auto simp: fetch_page_def bpm_view_def)
next
  case None
  have hole: "pins f hs = 0" if "pool_inv {f} b2 hs" for f b2
    using pool_invD(1,3) [OF that] by (auto simp: frames_ok_def pins_ok_def pins_eq_0)
  from acquire_vacate [OF inv] show ?thesis
  proof (elim disjE conjE exE)
    assume "acquire_frame b = (b, ok None)" "free_frames b = []" "arc_evictables (replacer b) = {}"
    with None show ?thesis by (simp add: fetch_page_def op_bind_def op_defs)
  next
    fix f b1 b2
    assume a: "acquire_frame b = (b1, ok (Some f))" "vacate_frame f b1 = (b2, ok ())" "vacated b hs f b2"
    then have i2: "pool_inv {f} b2 hs" and v2: "view_kept b b2" and n2: "page_table b2 (p, q) = None"
      using None by (simp_all add: vacated_def)
    have x2: "page_at b2 (p, q) = Some x" using view_keptD [OF v2 x] n2 by (simp add: bpm_view_def)
    have "disk_inv (disk_manager b2)" using pool_invD(5) [OF i2] by (simp add: content_ok_def)
    from disk.read_ok [OF this] x2 have rd: "on_disk (read_page p q) b2 = (b2, ok x)"
      by (simp add: on_disk_def page_at_def)
    let ?b3 = "upd_page f (\<lambda>p. p\<lparr>page_data := x\<rparr>) b2"
    have x3: "page_at ?b3 (p, q) = Some (page_data (pages ?b3 f))" using x2 by simp
    note I = install_ok [OF set_data_hole(1) [OF i2, of x] _ _ x3]
    have "fetch_page p q b = (pin_in_replacer f q (install_page f (p, q) ?b3), ok (Some f))"
      by (simp add: fetch_page_def None op_bind_def op_defs a(1,2) rd)
    with I n2 q view_kept_trans [OF v2 view_kept_trans [OF set_data_hole(2) [OF i2]]] hole [OF i2] None show ?thesis
      by auto
  qed
qed

subsection \<open>Creating a page\<close>

lemma on_disk_write:
  assumes "content_ok b hs" and "fst key \<in> disk_open_files (disk_manager b)" and "length bs = PAGE_SIZE"
  obtains d where "on_disk (write_page (fst key) (snd key) bs) b = (b\<lparr>disk_manager := d\<rparr>, ok ())" "disk_inv d"
    "page_at (b\<lparr>disk_manager := d\<rparr>) key = Some bs" "files d = files (disk_manager b)"
    "\<forall>k x. k \<noteq> key \<longrightarrow> page_at b k = Some x \<longrightarrow> page_at (b\<lparr>disk_manager := d\<rparr>) k = Some x"
proof -
  have inv: "disk_inv (disk_manager b)" using assms(1) by (simp add: content_ok_def)
  from disk.write_ok [OF inv assms(2,3), of "snd key"] obtain d where
    d: "write_page (fst key) (snd key) bs (disk_manager b) = (d, ok ())" "disk_inv d"
    "disk_page d (fst key) (snd key) = Some bs"
    and other: "\<forall>g q x. (g, q) \<noteq> (fst key, snd key) \<longrightarrow> disk_page (disk_manager b) g q = Some x \<longrightarrow> disk_page d g q = Some x"
    by (elim exE conjE) (rule that)
  have "files d = files (disk_manager b)"
    using d(1) by (auto simp: write_page_def stream_write_def split: option.splits if_splits)
  with d other that [of d] show thesis by (simp add: on_disk_def page_at_def)
qed

lemma set_disk_ok:
  assumes inv: "pool_inv H b hs" and d: "disk_inv d"
    and key: "page_table b key = None"
    and other: "\<forall>k x. k \<noteq> key \<longrightarrow> page_at b k = Some x \<longrightarrow> page_at (b\<lparr>disk_manager := d\<rparr>) k = Some x"
  shows "pool_inv H (b\<lparr>disk_manager := d\<rparr>) hs"
    and "k \<noteq> key \<Longrightarrow> bpm_view b k = Some x \<Longrightarrow> bpm_view (b\<lparr>disk_manager := d\<rparr>) k = Some x"
proof -
  note P = pool_invD [OF inv]
  have nokey: "key_of (pages b f) \<noteq> key" if "f \<in> tracked b" for f
    using tableD [OF P(2), of key f] that key by auto
  show "pool_inv H (b\<lparr>disk_manager := d\<rparr>) hs"
    using P d other nokey
    by (fastforce simp: pool_inv_def frames_ok_def table_ok_def pins_ok_def latch_ok_def content_ok_def)
  show "k \<noteq> key \<Longrightarrow> bpm_view b k = Some x \<Longrightarrow> bpm_view (b\<lparr>disk_manager := d\<rparr>) k = Some x"
    using other by (auto simp: bpm_view_def split: option.splits)
qed

lemma pin_install_disk:
  "pin_in_replacer f q (install_page f key b)\<lparr>disk_manager := d\<rparr> =
     pin_in_replacer f q (install_page f key (b\<lparr>disk_manager := d\<rparr>))"
  by (simp add: pin_in_replacer_def install_page_def Let_def upd_page_def upd_replacer_def)

lemma set_next_ok:
  "pool_inv H b hs \<Longrightarrow> pool_inv H (b\<lparr>next_page_id := n\<rparr>) hs"
  "bpm_view (b\<lparr>next_page_id := n\<rparr>) = bpm_view b"
  by (simp_all add: pool_inv_def frames_ok_def table_ok_def pins_ok_def latch_ok_def content_ok_def page_at_def
      bpm_view_def fun_eq_iff cong: option.case_cong)

text \<open>
  A new page gets the next number, reads as zeros, is on disk and is pinned, provided that the pool
  does not cache a page under that number already (page numbers restart at 0 in every run).
\<close>

lemma new_page_ok:
  assumes inv: "pool_inv {} b hs" and fopen: "p \<in> disk_open_files (disk_manager b)"
    and fresh: "page_table b (p, next_page_id b) = None" and ne: "next_page_id b \<noteq> INVALID_PAGE_ID"
  shows "new_page p b = (b, ok None) \<and> free_frames b = [] \<and> arc_evictables (replacer b) = {} \<or>
    (\<exists>b' f. new_page p b = (b', ok (Some (f, next_page_id b))) \<and> pool_inv {} b' ((Pinned, f) # hs) \<and>
       next_page_id b' = next_page_id b + 1 \<and>
       page_table b' (p, next_page_id b) = Some f \<and> bpm_view b' (p, next_page_id b) = Some zero_page \<and>
       (\<forall>key x. key \<noteq> (p, next_page_id b) \<longrightarrow> bpm_view b key = Some x \<longrightarrow> bpm_view b' key = Some x))"
  using acquire_vacate [OF inv]
proof (elim disjE conjE exE)
  assume "acquire_frame b = (b, ok None)" "free_frames b = []" "arc_evictables (replacer b) = {}"
  then show ?thesis by (simp add: new_page_def op_bind_def op_defs)
next
  fix f b1 b2
  let ?q = "next_page_id b" and ?k = "(p, next_page_id b)"
  assume a: "acquire_frame b = (b1, ok (Some f))" "vacate_frame f b1 = (b2, ok ())" "vacated b hs f b2"
  then have i2: "pool_inv {f} b2 hs" and v2: "view_kept b b2" and n2: "page_table b2 ?k = None"
    and q2: "next_page_id b2 = ?q" and f2: "files (disk_manager b2) = files (disk_manager b)"
    using fresh by (simp_all add: vacated_def)
  let ?b4 = "upd_page f (\<lambda>p. p\<lparr>page_data := zero_page\<rparr>) (b2\<lparr>next_page_id := ?q + 1\<rparr>)"
  have i4: "pool_inv {f} ?b4 hs" by (intro set_data_hole(1) set_next_ok(1) i2)
  have "view_kept b2 (b2\<lparr>next_page_id := ?q + 1\<rparr>)" by (simp add: view_kept_def set_next_ok(2))
  from view_kept_trans [OF v2 view_kept_trans [OF this set_data_hole(2) [OF set_next_ok(1) [OF i2]]]]
  have v4: "view_kept b ?b4" .
  have "fst ?k \<in> disk_open_files (disk_manager ?b4)" using fopen f2 by (simp add: disk_open_files_def)
  moreover have "length zero_page = PAGE_SIZE" by (simp add: zero_page_def)
  ultimately obtain d where d: "on_disk (write_page (fst ?k) (snd ?k) zero_page) ?b4 = (?b4\<lparr>disk_manager := d\<rparr>, ok ())"
    "disk_inv d" "page_at (?b4\<lparr>disk_manager := d\<rparr>) ?k = Some zero_page" "files d = files (disk_manager ?b4)"
    "\<forall>k x. k \<noteq> ?k \<longrightarrow> page_at ?b4 k = Some x \<longrightarrow> page_at (?b4\<lparr>disk_manager := d\<rparr>) k = Some x"
    by (rule on_disk_write [OF pool_invD(5) [OF i4]]) (rule that)
  let ?b5 = "?b4\<lparr>disk_manager := d\<rparr>"
  have n4: "page_table ?b4 ?k = None" using n2 by simp
  note S = set_disk_ok [OF i4 d(2) n4 d(5)]
  have n5: "page_table ?b5 ?k = None" "snd ?k \<noteq> INVALID_PAGE_ID" using n2 ne by simp_all
  have "page_at ?b5 ?k = Some (page_data (pages ?b5 f))" using d(3) by simp
  note I = install_ok [OF S(1) n5 this]
  let ?b' = "pin_in_replacer f ?q (install_page f ?k ?b5)"
  have wd: "write_page p ?q zero_page (disk_manager b2) = (d, ok ())"
    using d(1) by (auto simp: on_disk_def split: prod.splits dest!: arg_cong [where f = disk_manager])
  have "new_page p b = (?b', ok (Some (f, ?q)))"
    by (simp add: new_page_def op_bind_def op_defs a(1,2) Let_def q2 on_disk_def wd pin_install_disk)
  moreover have "bpm_view ?b' ?k = Some zero_page" using I(3,4) by (simp add: bpm_view_def)
  moreover have "bpm_view ?b' key = Some x" if "key \<noteq> ?k" "bpm_view b key = Some x" for key x
    using view_keptD [OF I(2) S(2) [OF that(1) view_keptD [OF v4 that(2)]]] by simp
  moreover have "next_page_id ?b' = ?q + 1" by simp
  ultimately show ?thesis using I(1,3) by auto
qed

subsection \<open>Releasing a page\<close>

lemma pins_remove1: "h \<in> set hs \<Longrightarrow> pins g hs = pins g (remove1 h hs) + (if snd h = g then 1 else 0)"
  by (induction hs) auto

lemma count_list_remove1:
  "h \<in> set hs \<Longrightarrow> count_list hs x = count_list (remove1 h hs) x + (if h = x then 1 else 0)"
  by (induction hs) auto

lemma modifying_remove1:
  "modifying f (remove1 h hs) \<Longrightarrow> modifying f hs"
  "h \<noteq> (Writing, f) \<Longrightarrow> h \<noteq> (Written, f) \<Longrightarrow> modifying f (remove1 h hs) = modifying f hs"
  by (auto simp: modifying_def dest: set_remove1_subset [THEN subsetD] notin_set_remove1)

lemma handle_tracked: "pool_inv H b hs \<Longrightarrow> (h, f) \<in> set hs \<Longrightarrow> f \<in> tracked b"
  by (auto simp: pool_inv_def pins_ok_def)

lemma unpin_frame_ok:
  assumes inv: "pool_inv {} b hs" and h: "(h, f) \<in> set hs"
    and kind: "h = Pinned \<or> h = Written \<and> dirty"
  shows "pool_inv {} (unpin_frame f dirty b) (remove1 (h, f) hs)" and "view_kept b (unpin_frame f dirty b)"
    and "snd (unpin_page (pg_file_id (pages b f)) (pg_page_id (pages b f)) dirty b)"
proof -
  note P = pool_invD [OF inv]
  let ?hs = "remove1 (h, f) hs" and ?b = "unpin_frame f dirty b"
  have ft: "f \<in> tracked b" using handle_tracked [OF inv h] .
  then have pt: "page_table b (pg_file_id (pages b f), pg_page_id (pages b f)) = Some f"
    using tableD [OF P(2)] by (simp add: key_of_def)
  have pos: "0 < pin_count (pages b f)" using P(3) pins_pos [OF h] by (simp add: pins_ok_def)
  then show "snd (unpin_page (pg_file_id (pages b f)) (pg_page_id (pages b f)) dirty b)"
    by (simp add: unpin_page_def pt Let_def)
  have pg: "pages ?b = (pages b)(f := (pages b f)\<lparr>pin_count := pin_count (pages b f) - 1,
      is_dirty := (dirty \<or> is_dirty (pages b f))\<rparr>)"
    and rp: "replacer ?b = (if pin_count (pages b f) = 1 then arc_set_evictable f True (replacer b) else replacer b)"
    and rest: "page_table ?b = page_table b" "free_frames ?b = free_frames b" "pool_size ?b = pool_size b"
      "disk_manager ?b = disk_manager b"
    using pos by (auto simp: unpin_frame_def unpin_page_def pt Let_def)
  note R = arc.set_evict_ok [OF frames_okD(1) [OF P(1)], of f True]
  have tr: "tracked ?b = tracked b" using R by (simp add: rp)
  have ev: "arc_evictables (replacer ?b) =
      (if pin_count (pages b f) = 1 then insert f (arc_evictables (replacer b)) else arc_evictables (replacer b))"
    using R ft by (simp add: rp)
  have pa: "page_at ?b = page_at b" by (rule page_at_cong) (simp add: rest)
  have pn: "pins g hs = pins g ?hs + (if f = g then 1 else 0)" for g using pins_remove1 [OF h, of g] by simp
  have "frames_ok {} ?b" using P(1) R by (auto simp: frames_ok_def rp rest pg)
  moreover have "table_ok ?b" using P(2) by (auto simp: table_ok_def tr rest pg key_of_def)
  moreover have "pins_ok ?b ?hs"
  proof -
    have "pin_count (pages ?b g) = int (pins g ?hs)" for g
      using P(3) pn [of g] by (cases "g = f") (auto simp: pins_ok_def pg)
    moreover have "arc_evictables (replacer ?b) = {g \<in> tracked b. pins g ?hs = 0}"
      using P(3) ft pn unfolding ev pins_ok_def by (auto split: if_splits)
    moreover have "\<forall>h \<in> set ?hs. snd h \<in> tracked b"
      using P(3) by (auto simp: pins_ok_def dest: set_remove1_subset [THEN subsetD])
    ultimately show ?thesis by (simp add: pins_ok_def tr)
  qed
  moreover have "latch_ok ?b ?hs"
  proof -
    have "count_list ?hs (Reading, g) = count_list hs (Reading, g)"
      "count_list ?hs (Writing, g) = count_list hs (Writing, g)" for g
      using kind count_list_remove1 [OF h, of "(Reading, g)"] count_list_remove1 [OF h, of "(Writing, g)"] by auto
    then show ?thesis using P(4) by (simp add: latch_ok_def pg)
  qed
  moreover have "content_ok ?b ?hs"
  proof -
    have "modifying g ?hs = modifying g hs" if "\<not> dirty \<or> g \<noteq> f" for g
      using modifying_remove1(2) [of "(h, f)" g hs] kind that by auto
    then show ?thesis using P(5) unfolding content_ok_def tr pa by (auto simp: rest pg key_of_def)
  qed
  ultimately show "pool_inv {} ?b ?hs" by (simp add: pool_inv_def)
  show "view_kept b ?b" by (auto simp: view_kept_def bpm_view_def pa rest pg split: option.splits)
qed

subsection \<open>Flushing\<close>

lemma flush_frame_ok:
  assumes inv: "pool_inv {} b hs" and ft: "f \<in> tracked b"
  shows "\<exists>b'. op_bind (write_frame f) (\<lambda>_. op_modify (upd_page f (\<lambda>p. p\<lparr>is_dirty := False\<rparr>))) b = (b', ok ()) \<and>
    pool_inv {} b' hs \<and> view_kept b b' \<and> page_at b' (key_of (pages b f)) = Some (page_data (pages b f)) \<and>
    (\<exists>d. b' = (upd_page f (\<lambda>p. p\<lparr>is_dirty := False\<rparr>) b)\<lparr>disk_manager := d\<rparr>)"
proof -
  note P = pool_invD [OF inv]
  let ?k = "key_of (pages b f)"
  from write_frame_ok [OF P(5) ft] obtain d where d: "write_frame f b = (b\<lparr>disk_manager := d\<rparr>, ok ())"
    "disk_inv d" "page_at (b\<lparr>disk_manager := d\<rparr>) ?k = Some (page_data (pages b f))"
    "\<forall>key x. key \<noteq> ?k \<longrightarrow> page_at b key = Some x \<longrightarrow> page_at (b\<lparr>disk_manager := d\<rparr>) key = Some x"
    by blast
  let ?b = "upd_page f (\<lambda>p. p\<lparr>is_dirty := False\<rparr>) (b\<lparr>disk_manager := d\<rparr>)"
  have run: "op_bind (write_frame f) (\<lambda>_. op_modify (upd_page f (\<lambda>p. p\<lparr>is_dirty := False\<rparr>))) b = (?b, ok ())"
    by (simp add: op_bind_def d(1) op_defs)
  have eq: "?b = (upd_page f (\<lambda>p. p\<lparr>is_dirty := False\<rparr>) b)\<lparr>disk_manager := d\<rparr>"
    by (simp add: upd_page_def)
  have pa: "page_at ?b = page_at (b\<lparr>disk_manager := d\<rparr>)" by simp
  have kept: "page_at ?b key \<noteq> None" if "page_at b key \<noteq> None" for key
    using d(3,4) that unfolding pa by (cases "key = ?k") auto
  have "frames_ok {} ?b" using P(1) by (auto simp: frames_ok_def)
  moreover have "table_ok ?b" using P(2) by (auto simp: table_ok_def key_of_def)
  moreover have "pins_ok ?b hs" using P(3) by (auto simp: pins_ok_def)
  moreover have "latch_ok ?b hs" using P(4) by (auto simp: latch_ok_def)
  moreover have "content_ok ?b hs"
  proof -
    have "page_at ?b (key_of (pages b g)) = Some (page_data (pages b g))"
      if "g \<in> tracked b" "g \<noteq> f" "page_at b (key_of (pages b g)) = Some (page_data (pages b g))" for g
      using d(4) key_inj [OF P(2) that(1) ft] that(2,3) unfolding pa by auto
    then show ?thesis
      using P(5) d(2,3) kept unfolding content_ok_def by (auto simp: key_of_def)
  qed
  ultimately have "pool_inv {} ?b hs" by (simp add: pool_inv_def)
  moreover have "bpm_view ?b key = Some x" if "bpm_view b key = Some x" for key x
  proof (cases "page_table b key")
    case None
    then have "key \<noteq> ?k" using tableD [OF P(2), of key f] ft by auto
    then show ?thesis using d(4) that None unfolding bpm_view_def pa by simp
  qed (use that in \<open>auto simp: bpm_view_def\<close>)
  moreover have "page_at ?b ?k = Some (page_data (pages b f))" using d(3) by simp
  ultimately show ?thesis using run eq unfolding view_kept_def by blast
qed

lemma flush_page_ok:
  assumes inv: "pool_inv {} b hs"
  shows "\<exists>b' r. flush_page p q b = (b', ok r) \<and> pool_inv {} b' hs \<and> view_kept b b' \<and>
    (r \<longrightarrow> bpm_view b (p, q) = page_at b' (p, q)) \<and> (r \<longleftrightarrow> page_table b (p, q) \<noteq> None)"
proof (cases "page_table b (p, q)")
  case None
  then show ?thesis using inv by (auto simp: flush_page_def)
next
  case (Some f)
  then have ft: "f \<in> tracked b" and k: "key_of (pages b f) = (p, q)"
    using tableD [OF pool_invD(2) [OF inv]] by auto
  from flush_frame_ok [OF inv ft] obtain b' where
    b': "op_bind (write_frame f) (\<lambda>_. op_modify (upd_page f (\<lambda>p. p\<lparr>is_dirty := False\<rparr>))) b = (b', ok ())"
    "pool_inv {} b' hs" "view_kept b b'" "page_at b' (p, q) = Some (page_data (pages b f))"
    unfolding k by blast
  have "flush_page p q b = (b', ok True)"
    using b'(1) by (auto simp: flush_page_def Some op_bind_def op_defs split: prod.splits sum.splits)
  with b' Some show ?thesis by (auto simp: bpm_view_def)
qed

lemma flush_frames_ok:
  assumes "pool_inv {} b hs" and "\<forall>f \<in> set fs. unat f < pool_size b"
  shows "\<exists>b'. flush_frames fs b = (b', ok ()) \<and> pool_inv {} b' hs \<and> view_kept b b' \<and> pool_size b' = pool_size b \<and>
    page_table b' = page_table b \<and> tracked b' = tracked b \<and> (\<forall>f. is_dirty (pages b' f) = (is_dirty (pages b f) \<and> \<not> (f \<in> set fs \<and> f \<in> tracked b)))"
  using assms
proof (induction fs arbitrary: b)
  case (Cons f fs)
  note P = pool_invD [OF Cons.prems(1)]
  show ?case
  proof (cases "pg_page_id (pages b f) \<noteq> INVALID_PAGE_ID \<and> is_dirty (pages b f)")
    case True
    have "unat f < pool_size b" using Cons.prems(2) by simp
    then have "f \<in> set (free_frames b) \<union> tracked b" using P(1) by (auto simp: frames_ok_def)
    moreover have "f \<notin> set (free_frames b)" using P(1) True by (auto simp: frames_ok_def)
    ultimately have ft: "f \<in> tracked b" by simp
    from flush_frame_ok [OF Cons.prems(1) ft] obtain b1 d where
      b1: "op_bind (write_frame f) (\<lambda>_. op_modify (upd_page f (\<lambda>p. p\<lparr>is_dirty := False\<rparr>))) b = (b1, ok ())"
      "pool_inv {} b1 hs" "view_kept b b1" "b1 = (upd_page f (\<lambda>p. p\<lparr>is_dirty := False\<rparr>) b)\<lparr>disk_manager := d\<rparr>"
      by blast
    have "\<forall>f \<in> set fs. unat f < pool_size b1" using Cons.prems(2) b1(4) by simp
    from Cons.IH [OF b1(2) this] obtain b2 where b2: "flush_frames fs b1 = (b2, ok ())" "pool_inv {} b2 hs"
      "view_kept b1 b2" "pool_size b2 = pool_size b1" "page_table b2 = page_table b1" "tracked b2 = tracked b1"
      "\<forall>g. is_dirty (pages b2 g) = (is_dirty (pages b1 g) \<and> \<not> (g \<in> set fs \<and> g \<in> tracked b1))"
      by blast
    have "flush_frames (f # fs) b = (b2, ok ())"
      using True b1(1) b2(1) by (simp add: op_bind_def [of "op_bind _ _"])
    with b2 b1(4) ft view_kept_trans [OF b1(3) b2(3)] show ?thesis by auto
  next
    case False
    have "\<forall>f \<in> set fs. unat f < pool_size b" using Cons.prems(2) by simp
    from Cons.IH [OF Cons.prems(1) this] obtain b2 where b2: "flush_frames fs b = (b2, ok ())" "pool_inv {} b2 hs"
      "view_kept b b2" "pool_size b2 = pool_size b" "page_table b2 = page_table b" "tracked b2 = tracked b"
      "\<forall>g. is_dirty (pages b2 g) = (is_dirty (pages b g) \<and> \<not> (g \<in> set fs \<and> g \<in> tracked b))"
      by blast
    have "f \<in> tracked b \<Longrightarrow> \<not> is_dirty (pages b f)" using P(2) False by (auto simp: table_ok_def)
    with b2 False show ?thesis by (auto simp: op_bind_def op_defs)
  qed
qed simp

lemma flush_all_pages_ok:
  assumes inv: "pool_inv {} b hs"
  shows "\<exists>b'. flush_all_pages b = (b', ok ()) \<and> pool_inv {} b' hs \<and> view_kept b b' \<and> tracked b' = tracked b \<and>
    page_table b' = page_table b \<and> (\<forall>f \<in> tracked b. \<not> is_dirty (pages b' f))"
proof -
  note P = pool_invD [OF inv]
  let ?fs = "map word_of_nat [0..<pool_size b] :: FrameId list"
  have n: "pool_size b < 2 ^ 32" using P(1) by (simp add: frames_ok_def)
  have "\<forall>f \<in> set ?fs. unat f < pool_size b" using n by (auto simp: unat_of_nat)
  from flush_frames_ok [OF inv this] obtain b' where b': "flush_frames ?fs b = (b', ok ())" "pool_inv {} b' hs"
    "view_kept b b'" "tracked b' = tracked b" "page_table b' = page_table b"
    "\<forall>f. is_dirty (pages b' f) = (is_dirty (pages b f) \<and> \<not> (f \<in> set ?fs \<and> f \<in> tracked b))"
    by blast
  have "f \<in> set ?fs" if "f \<in> tracked b" for f
  proof -
    have "unat f < pool_size b" using frames_okD(2,3) [OF P(1)] that by simp
    then show ?thesis by (auto intro!: image_eqI [of _ _ "unat f"])
  qed
  with b' show ?thesis by (auto simp: flush_all_pages_def)
qed

subsection \<open>Deleting a page\<close>

lemma bpm_delete_page_ok:
  assumes inv: "pool_inv {} b hs"
  shows "\<exists>b' r. bpm_delete_page p q b = (b', ok r) \<and> pool_inv {} b' hs \<and>
    (\<forall>key x. key \<noteq> (p, q) \<longrightarrow> bpm_view b key = Some x \<longrightarrow> bpm_view b' key = Some x) \<and>
    (if r then bpm_view b' (p, q) = page_at b (p, q) \<and> page_table b' (p, q) = None
     else b' = b \<and> (\<exists>f. page_table b (p, q) = Some f \<and> 0 < pins f hs))"
proof (cases "page_table b (p, q)")
  case None
  then show ?thesis using inv
    by (intro exI [of _ b] exI [of _ True]) (simp add: bpm_delete_page_def bpm_view_def)
next
  case (Some f)
  note P = pool_invD [OF inv]
  have ft: "f \<in> tracked b" and k: "key_of (pages b f) = (p, q)" using tableD [OF P(2)] Some by auto
  have pc: "pin_count (pages b f) = int (pins f hs)" using P(3) by (simp add: pins_ok_def)
  show ?thesis
  proof (cases "pins f hs = 0")
    case False
    with Some inv pc show ?thesis
      by (intro exI [of _ b] exI [of _ False]) (simp add: bpm_delete_page_def)
  next
    case True
    then have "f \<in> arc_evictables (replacer b)" using P(3) ft by (simp add: pins_ok_def)
    from arc.remove_ok [OF frames_okD(1) [OF P(1)] this] obtain r where
      r: "arc_remove f (replacer b) = (r, ok ())" "arc_inv r" "replacer_size r = replacer_size (replacer b)"
      "arc_tracked r = tracked b - {f}" "arc_evictables r = arc_evictables (replacer b) - {f}" by blast
    let ?b = "upd_page f (\<lambda>p. p\<lparr>page_data := zero_page, pg_page_id := INVALID_PAGE_ID, pg_file_id := 0,
        pin_count := 0, is_dirty := False\<rparr>)
      (b\<lparr>page_table := (page_table b)((p, q) := None), replacer := r, free_frames := free_frames b @ [f]\<rparr>)"
    have run: "bpm_delete_page p q b = (?b, ok True)"
      using True pc by (simp add: bpm_delete_page_def Some r(1) Let_def)
    have pa: "page_at ?b = page_at b" by (rule page_at_cong) simp
    have keys: "key_of (pages b g) \<noteq> (p, q)" if "g \<in> tracked b" "g \<noteq> f" for g
      using key_inj [OF P(2) that(1) ft] that(2) k by auto
    have "frames_ok {} ?b" using P(1) r ft by (auto simp: frames_ok_def)
    moreover have "table_ok ?b" using P(2) keys k by (auto simp: table_ok_def r)
    moreover have "pins_ok ?b hs" using P(3) True by (auto simp: pins_ok_def r pins_eq_0)
    moreover have "latch_ok ?b hs" using P(4) by (simp add: latch_ok_def)
    moreover have "content_ok ?b hs" using P(5) unfolding content_ok_def pa by (auto simp: r)
    ultimately have "pool_inv {} ?b hs" by (simp add: pool_inv_def)
    moreover have "bpm_view ?b key = Some x" if "key \<noteq> (p, q)" "bpm_view b key = Some x" for key x
    proof -
      have "page_table b key \<noteq> Some f" using tableD [OF P(2), of key f] k that(1) by auto
      with that show ?thesis by (auto simp: bpm_view_def page_at_def split: option.splits)
    qed
    moreover have "bpm_view ?b (p, q) = page_at b (p, q)" by (simp add: bpm_view_def page_at_def)
    moreover have "page_table ?b (p, q) = None" by simp
    ultimately show ?thesis using run by (intro exI [of _ ?b] exI [of _ True]) simp
  qed
qed

subsection \<open>Latches and page contents\<close>

lemma same_frames:
  assumes inv: "pool_inv {} b hs" and "\<forall>g. pins g hs' = pins g hs" and "\<forall>h \<in> set hs'. \<exists>h' \<in> set hs. snd h' = snd h"
    and "\<forall>g. modifying g hs \<longrightarrow> modifying g hs'"
    and "latch_ok (upd_page f (\<lambda>p. p\<lparr>rw_latch := l\<rparr>) b) hs'"
  shows "pool_inv {} (upd_page f (\<lambda>p. p\<lparr>rw_latch := l\<rparr>) b) hs'"
    and "view_kept b (upd_page f (\<lambda>p. p\<lparr>rw_latch := l\<rparr>) b)"
proof -
  let ?b = "upd_page f (\<lambda>p. p\<lparr>rw_latch := l\<rparr>) b"
  note P = pool_invD [OF inv]
  have "frames_ok {} ?b" using P(1) by (auto simp: frames_ok_def)
  moreover have "table_ok ?b" using P(2) by (auto simp: table_ok_def key_of_def)
  moreover have "\<forall>h \<in> set hs'. snd h \<in> tracked b" using P(3) assms(3) unfolding pins_ok_def by metis
  then have "pins_ok ?b hs'" using P(3) assms(2) by (auto simp: pins_ok_def)
  moreover have "content_ok ?b hs'" using P(5) assms(4) by (auto simp: content_ok_def key_of_def)
  ultimately show "pool_inv {} ?b hs'" using assms(5) by (simp add: pool_inv_def)
  show "view_kept b ?b" by (auto simp: view_kept_def bpm_view_def split: option.splits)
qed

text \<open>Replacing one handle on a frame by another handle on it.\<close>

definition turn :: "FrameId \<Rightarrow> handle \<Rightarrow> handle \<Rightarrow> handles \<Rightarrow> handles" where
  "turn f h h' hs = (h', f) # remove1 (h, f) hs"

lemma turn_pins: "(h, f) \<in> set hs \<Longrightarrow> pins g (turn f h h' hs) = pins g hs"
  using pins_remove1 [of "(h, f)" hs g] by (simp add: turn_def)

lemma turn_frames: "(h, f) \<in> set hs \<Longrightarrow> \<forall>x \<in> set (turn f h h' hs). \<exists>y \<in> set hs. snd y = snd x"
  by (force simp: turn_def dest: set_remove1_subset [THEN subsetD])

lemma turn_modifying:
  "h' = Writing \<or> h' = Written \<or> h = Pinned \<or> h = Reading \<Longrightarrow> modifying g hs \<Longrightarrow> modifying g (turn f h h' hs)"
  by (auto simp: turn_def modifying_def) (metis Pair_inject handle.distinct in_set_remove1)+

lemma turn_count:
  "(h, f) \<in> set hs \<Longrightarrow> count_list (turn f h h' hs) x =
     count_list hs x - (if x = (h, f) then 1 else 0) + (if x = (h', f) then 1 else 0)"
  using count_list_remove1 [of "(h, f)" hs x] by (auto simp: turn_def)

lemma latch_okD: "latch_ok b hs \<Longrightarrow> latch_matches (rw_latch (pages b f)) (count_list hs (Reading, f)) (count_list hs (Writing, f))"
  by (simp add: latch_ok_def)

lemma count_list_pos: "x \<in> set xs \<Longrightarrow> 0 < count_list xs x"
  by (simp add: count_list_0_iff zero_less_iff_neq_zero)

lemma lock_shared_ok:
  assumes inv: "pool_inv {} b hs" and h: "(Pinned, f) \<in> set hs" and l: "lock_shared f b = (b', ok ())"
  shows "pool_inv {} b' (turn f Pinned Reading hs)" and "view_kept b b'"
proof -
  obtain l' where b': "b' = upd_page f (\<lambda>p. p\<lparr>rw_latch := l'\<rparr>) b"
    and "l' = Shared 1 \<and> rw_latch (pages b f) = Free \<or> (\<exists>n. l' = Shared (n + 1) \<and> rw_latch (pages b f) = Shared n)"
    using l by (auto simp: lock_shared_def split: Latch.splits)
  then have l': "l' = Shared (count_list hs (Reading, f) + 1)" "count_list hs (Writing, f) = 0"
    using latch_okD [OF pool_invD(4) [OF inv], of f] by auto
  have "latch_ok b' (turn f Pinned Reading hs)"
    using l' pool_invD(4) [OF inv] by (auto simp: latch_ok_def b' turn_count [OF h])
  then show "pool_inv {} b' (turn f Pinned Reading hs)" "view_kept b b'"
    using same_frames [OF inv, of "turn f Pinned Reading hs" f l'] turn_pins [OF h] turn_frames [OF h] turn_modifying [of Reading Pinned]
    unfolding b' by blast+
qed

lemma lock_ok:
  assumes inv: "pool_inv {} b hs" and h: "(Pinned, f) \<in> set hs" and l: "lock f b = (b', ok ())"
  shows "pool_inv {} b' (turn f Pinned Writing hs)" and "view_kept b b'"
proof -
  have b': "b' = upd_page f (\<lambda>p. p\<lparr>rw_latch := Exclusive\<rparr>) b" and free: "rw_latch (pages b f) = Free"
    using l by (auto simp: lock_def split: Latch.splits)
  have "count_list hs (Reading, f) = 0" "count_list hs (Writing, f) = 0"
    using free latch_okD [OF pool_invD(4) [OF inv], of f] by auto
  then have "latch_ok b' (turn f Pinned Writing hs)"
    using pool_invD(4) [OF inv] by (auto simp: latch_ok_def b' turn_count [OF h])
  then show "pool_inv {} b' (turn f Pinned Writing hs)" "view_kept b b'"
    using same_frames [OF inv, of "turn f Pinned Writing hs" f Exclusive] turn_pins [OF h] turn_frames [OF h] turn_modifying [of Writing Pinned]
    unfolding b' by blast+
qed

lemma unlock_shared_ok:
  assumes inv: "pool_inv {} b hs" and h: "(Reading, f) \<in> set hs"
  shows "pool_inv {} (unlock_shared f b) (turn f Reading Pinned hs)" and "view_kept b (unlock_shared f b)"
proof -
  note M = latch_okD [OF pool_invD(4) [OF inv], of f]
  obtain n where n: "rw_latch (pages b f) = Shared n" "n > 0" "count_list hs (Reading, f) = n" "count_list hs (Writing, f) = 0"
    using M count_list_pos [OF h] by (cases "rw_latch (pages b f)") auto
  let ?l = "if n \<le> 1 then Free else Shared (n - 1)"
  have b': "unlock_shared f b = upd_page f (\<lambda>p. p\<lparr>rw_latch := ?l\<rparr>) b"
    by (simp add: unlock_shared_def upd_page_def n(1))
  have "latch_ok (unlock_shared f b) (turn f Reading Pinned hs)"
    using n pool_invD(4) [OF inv] by (auto simp: latch_ok_def b' turn_count [OF h])
  then show "pool_inv {} (unlock_shared f b) (turn f Reading Pinned hs)" "view_kept b (unlock_shared f b)"
    using same_frames [OF inv, of "turn f Reading Pinned hs" f ?l] turn_pins [OF h] turn_frames [OF h] turn_modifying [of Pinned Reading]
    unfolding b' by blast+
qed

lemma unlock_ok:
  assumes inv: "pool_inv {} b hs" and h: "(Writing, f) \<in> set hs"
  shows "pool_inv {} (unlock f b) (turn f Writing Written hs)" and "view_kept b (unlock f b)"
proof -
  note M = latch_okD [OF pool_invD(4) [OF inv], of f]
  have n: "count_list hs (Reading, f) = 0" "count_list hs (Writing, f) = 1"
    using M count_list_pos [OF h] by (cases "rw_latch (pages b f)"; simp)+
  have "latch_ok (unlock f b) (turn f Writing Written hs)"
    using n pool_invD(4) [OF inv] by (auto simp: latch_ok_def unlock_def turn_count [OF h])
  then show "pool_inv {} (unlock f b) (turn f Writing Written hs)" "view_kept b (unlock f b)"
    using same_frames [OF inv, of "turn f Writing Written hs" f Free] turn_pins [OF h] turn_frames [OF h] turn_modifying [of Written Writing]
    unfolding unlock_def by blast+
qed

lemma guard_write_ok:
  assumes inv: "pool_inv {} b hs" and h: "(Writing, f) \<in> set hs" and len: "\<And>bs. length (g bs) = length bs"
  shows "pool_inv {} (guard_write f g b) hs"
    and "bpm_view (guard_write f g b) key =
      (if key = key_of (pages b f) then map_option g (bpm_view b key) else bpm_view b key)"
proof -
  note P = pool_invD [OF inv]
  have ft: "f \<in> tracked b" using handle_tracked [OF inv h] .
  have m: "modifying f hs" using h by (simp add: modifying_def)
  have "frames_ok {} (guard_write f g b)" using P(1) by (auto simp: frames_ok_def guard_write_def)
  moreover have "table_ok (guard_write f g b)" using P(2) by (auto simp: table_ok_def key_of_def guard_write_def)
  moreover have "pins_ok (guard_write f g b) hs" using P(3) by (auto simp: pins_ok_def guard_write_def)
  moreover have "latch_ok (guard_write f g b) hs" using P(4) by (auto simp: latch_ok_def guard_write_def)
  moreover have "content_ok (guard_write f g b) hs"
    using P(5) m len by (auto simp: content_ok_def key_of_def guard_write_def)
  ultimately show "pool_inv {} (guard_write f g b) hs" by (simp add: pool_inv_def)
  have "page_table b key = Some f \<longleftrightarrow> key = key_of (pages b f)" using tableD [OF P(2), of key f] ft by auto
  then show "bpm_view (guard_write f g b) key =
      (if key = key_of (pages b f) then map_option g (bpm_view b key) else bpm_view b key)"
    by (auto simp: bpm_view_def guard_write_def split: option.splits)
qed

end
