(* ===== verification/BufferPool_Steps.thy ===== *)
theory BufferPool_Steps
  imports BufferPool_Contract
begin

section \<open>Interleaved executions of the buffer pool\<close>

text \<open>
  \<open>pool_step\<close> is one atomic action of one thread on the pool; the list of handles says which
  thread-held pins and latches exist. The label is the page whose contents the action is meant
  to change, if any. Properties of single operations and of all executions follow.
\<close>

subsection \<open>The step relation\<close>

type_synonym pool = "BufferPoolManager \<times> handles"

text \<open>The handles after a call that returns a pinned frame or a null pointer.\<close>

fun add_pin :: "FrameId option res \<Rightarrow> handles \<Rightarrow> handles" where
  "add_pin (Inr (Some f)) hs = (Pinned, f) # hs"
| "add_pin _ hs = hs"

inductive pool_step :: "pool \<Rightarrow> PageKey option \<Rightarrow> pool \<Rightarrow> bool" where
  fetch: "bpm_view b (p, q) \<noteq> None \<Longrightarrow> q \<noteq> INVALID_PAGE_ID \<Longrightarrow> fetch_page p q b = (b', out) \<Longrightarrow>
    pool_step (b, hs) None (b', add_pin out hs)"
| new: "p \<in> disk_open_files (disk_manager b) \<Longrightarrow> page_table b (p, next_page_id b) = None \<Longrightarrow>
    next_page_id b \<noteq> INVALID_PAGE_ID \<Longrightarrow> new_page p b = (b', out) \<Longrightarrow>
    pool_step (b, hs) (Some (p, next_page_id b)) (b', add_pin (map_sum id (map_option fst) out) hs)"
| lock_read: "(Pinned, f) \<in> set hs \<Longrightarrow> lock_shared f b = (b', ok ()) \<Longrightarrow>
    pool_step (b, hs) None (b', turn f Pinned Reading hs)"
| lock_write: "(Pinned, f) \<in> set hs \<Longrightarrow> lock f b = (b', ok ()) \<Longrightarrow>
    pool_step (b, hs) None (b', turn f Pinned Writing hs)"
| modify: "(Writing, f) \<in> set hs \<Longrightarrow> (\<And>bs. length (g bs) = length bs) \<Longrightarrow>
    pool_step (b, hs) (Some (key_of (pages b f))) (guard_write f g b, hs)"
| unlock_read: "(Reading, f) \<in> set hs \<Longrightarrow>
    pool_step (b, hs) None (unlock_shared f b, turn f Reading Pinned hs)"
| unlock_write: "(Writing, f) \<in> set hs \<Longrightarrow>
    pool_step (b, hs) None (unlock f b, turn f Writing Written hs)"
| unpin: "(Pinned, f) \<in> set hs \<Longrightarrow>
    pool_step (b, hs) None (unpin_frame f dirty b, remove1 (Pinned, f) hs)"
| unpin_written: "(Written, f) \<in> set hs \<Longrightarrow>
    pool_step (b, hs) None (unpin_frame f True b, remove1 (Written, f) hs)"
| flush: "flush_page p q b = (b', out) \<Longrightarrow> pool_step (b, hs) None (b', hs)"
| flush_all: "flush_all_pages b = (b', out) \<Longrightarrow> pool_step (b, hs) None (b', hs)"
| delete: "bpm_delete_page p q b = (b', out) \<Longrightarrow> pool_step (b, hs) (Some (p, q)) (b', hs)"

text \<open>Executions and the pages they change.\<close>

inductive pool_steps :: "pool \<Rightarrow> PageKey set \<Rightarrow> pool \<Rightarrow> bool" where
  refl: "pool_steps s {} s"
| step: "pool_steps s K t \<Longrightarrow> pool_step t k u \<Longrightarrow> pool_steps s (K \<union> set_option k) u"

inductive_cases pool_stepE: "pool_step (b, hs) k s'"

text \<open>What every step guarantees.\<close>

definition good_step :: "BufferPoolManager \<Rightarrow> PageKey option \<Rightarrow> pool \<Rightarrow> bool" where
  "good_step b k s' \<longleftrightarrow> pool_inv {} (fst s') (snd s') \<and>
     (\<forall>key x. Some key \<noteq> k \<longrightarrow> bpm_view b key = Some x \<longrightarrow> bpm_view (fst s') key = Some x)"

lemma good_step_kept: "pool_inv {} b' hs' \<Longrightarrow> view_kept b b' \<Longrightarrow> good_step b k (b', hs')"
  by (simp add: good_step_def view_kept_def)

lemma pool_step_good:
  assumes inv: "pool_inv {} b hs" and st: "pool_step (b, hs) k s'"
  shows "good_step b k s'"
  using st
proof (rule pool_stepE)
  fix p q b' out x assume s': "s' = (b', add_pin out hs)" "bpm_view b (p, q) = Some x" "q \<noteq> INVALID_PAGE_ID"
    "fetch_page p q b = (b', out)"
  from fetch_page_ok [OF inv s'(2,3)] s' inv show ?thesis
    by (auto intro!: good_step_kept)
next
  fix p b' out assume a: "k = Some (p, next_page_id b)" "s' = (b', add_pin (map_sum id (map_option fst) out) hs)"
    "p \<in> disk_open_files (disk_manager b)" "page_table b (p, next_page_id b) = None"
    "next_page_id b \<noteq> INVALID_PAGE_ID" "new_page p b = (b', out)"
  from new_page_ok [OF inv a(3-5)] a inv show ?thesis
    by (auto simp: good_step_def)
next
  fix p q b' out assume a: "k = Some (p, q)" "s' = (b', hs)" "bpm_delete_page p q b = (b', out)"
  from bpm_delete_page_ok [OF inv, of p q] a show ?thesis by (auto simp: good_step_def)
next
  fix f g assume a: "k = Some (key_of (pages b f))" "s' = (guard_write f g b, hs)" "(Writing, f) \<in> set hs"
    "\<And>bs. length (g bs) = length bs"
  from guard_write_ok [OF inv a(3,4)] a(1,2) show ?thesis by (simp add: good_step_def)
next
  fix p q b' out assume a: "s' = (b', hs)" "flush_page p q b = (b', out)"
  with flush_page_ok [OF inv, of p q] show ?thesis by (auto intro!: good_step_kept)
next
  fix b' out assume a: "s' = (b', hs)" "flush_all_pages b = (b', out)"
  with flush_all_pages_ok [OF inv] show ?thesis by (auto intro!: good_step_kept)
next
  fix f b' assume "s' = (b', turn f Pinned Reading hs)" "(Pinned, f) \<in> set hs" "lock_shared f b = (b', ok ())"
  then show ?thesis using lock_shared_ok [OF inv] good_step_kept by blast
next
  fix f b' assume "s' = (b', turn f Pinned Writing hs)" "(Pinned, f) \<in> set hs" "lock f b = (b', ok ())"
  then show ?thesis using lock_ok [OF inv] good_step_kept by blast
qed (auto intro!: good_step_kept unlock_shared_ok [OF inv] unlock_ok [OF inv] unpin_frame_ok(1,2) [OF inv])

lemma pool_steps_good:
  assumes "pool_steps (b, hs) K s'" and "pool_inv {} b hs"
  shows "pool_inv {} (fst s') (snd s') \<and>
    (\<forall>key x. key \<notin> K \<longrightarrow> bpm_view b key = Some x \<longrightarrow> bpm_view (fst s') key = Some x)"
  using assms
proof (induction "(b, hs)" K s' rule: pool_steps.induct)
  case (step K t k u)
  obtain b1 hs1 where t: "t = (b1, hs1)" by (cases t)
  from step have "good_step b1 k u" by (auto simp: t intro: pool_step_good)
  with step show ?case by (fastforce simp: good_step_def t)
qed simp

lemma pool_reachable_inv:
  "disk_inv d \<Longrightarrow> n < 2 ^ 32 \<Longrightarrow> pool_steps (new_BufferPoolManager n d, []) K (b, hs) \<Longrightarrow> pool_inv {} b hs"
  using pool_steps_good [of "new_BufferPoolManager n d" "[]" K "(b, hs)"] pool_inv_new [of d n] by simp

subsection \<open>Properties\<close>

text \<open>A pool of one frame over one file, and an execution that writes a page and reuses its frame.\<close>

definition pool_example :: BufferPoolManager where
  "pool_example = new_BufferPoolManager 1 disk_example"

lemma pool_example_inv: "pool_inv {} pool_example []"
  unfolding pool_example_def by (rule pool_inv_new) (simp_all add: disk_example_inv)

lemma pool_example_new:
  obtains b f where "new_page 0 pool_example = (b, ok (Some (f, 0)))" "pool_inv {} b [(Pinned, f)]"
    "page_table b (0, 0) = Some f" "bpm_view b (0, 0) = Some zero_page" "next_page_id b = 1"
    "pool_steps (pool_example, []) {(0, 0)} (b, [(Pinned, f)])"
proof -
  have pre: "0 \<in> disk_open_files (disk_manager pool_example)" "page_table pool_example (0, next_page_id pool_example) = None"
    "next_page_id pool_example \<noteq> INVALID_PAGE_ID" "next_page_id pool_example = 0" "free_frames pool_example \<noteq> []"
    by (simp_all add: pool_example_def new_BufferPoolManager_def disk_example_inv INVALID_PAGE_ID_def)
  from new_page_ok [OF pool_example_inv pre(1-3)] pre(4,5) obtain b f where
    b: "new_page 0 pool_example = (b, ok (Some (f, 0)))" "pool_inv {} b [(Pinned, f)]"
    "page_table b (0, 0) = Some f" "bpm_view b (0, 0) = Some zero_page" "next_page_id b = 1"
    by auto
  have "pool_step (pool_example, []) (Some (0, next_page_id pool_example))
      (b, add_pin (map_sum id (map_option fst) (ok (Some (f, 0 :: PageId)))) [])"
    by (rule pool_step.new [OF pre(1-3) b(1)])
  from pool_steps.step [OF pool_steps.refl this] pre(4)
  have "pool_steps (pool_example, []) {(0, 0)} (b, [(Pinned, f)])" by simp
  with b that show thesis by blast
qed





text \<open>
  A guarded update. On a page that is visible and not latched, taking a write guard, changing
  the bytes through it and dropping it either finds every frame pinned and changes nothing, or
  leaves the pool without the guard's pin and latch, the page with the new bytes, and every other
  page as it was.
\<close>

theorem guarded_update:
  assumes inv: "pool_inv {} b hs" and x: "bpm_view b (p, q) = Some x" and q: "q \<noteq> INVALID_PAGE_ID"
    and free: "\<forall>f. page_table b (p, q) = Some f \<longrightarrow> rw_latch (pages b f) = Free"
    and len: "\<And>bs. length (g bs) = length bs"
  shows "case bpm_write_page p q b of
      (b1, Inr None) \<Rightarrow> b1 = b
    | (b1, Inr (Some f)) \<Rightarrow> guard_data f b1 = x \<and>
        (let (b2, guard) = write_guard_drop (Some f) (guard_write f g b1)
         in pool_inv {} b2 hs \<and> guard = None \<and> bpm_view b2 (p, q) = Some (g x) \<and>
            (\<forall>key y. key \<noteq> (p, q) \<longrightarrow> bpm_view b key = Some y \<longrightarrow> bpm_view b2 key = Some y))
    | (b1, Inl e) \<Rightarrow> False"
  using fetch_page_ok [OF inv x q]
proof (elim disjE conjE exE)
  assume "fetch_page p q b = (b, ok None)"
  then show ?thesis by (simp add: bpm_write_page_def op_bind_def op_defs)
next
  fix b' f
  assume f: "fetch_page p q b = (b', ok (Some f))" "pool_inv {} b' ((Pinned, f) # hs)" "view_kept b b'"
    "page_table b' (p, q) = Some f" "page_data (pages b' f) = x"
    "case page_table b (p, q) of None \<Rightarrow> pins f hs = 0 | Some g \<Rightarrow> g = f"
  let ?hs1 = "[(Writing, f)] @ hs" and ?g = "guard_write f g (upd_page f (\<lambda>p. p\<lparr>rw_latch := Exclusive\<rparr>) b')"
  have "count_list hs (Reading, f) = 0 \<and> count_list hs (Writing, f) = 0"
  proof (cases "page_table b (p, q)")
    case None
    with f(6) show ?thesis using count_list_pins [of hs Reading f] count_list_pins [of hs Writing f] by simp
  next
    case (Some g)
    with f(6) have "rw_latch (pages b f) = Free" using free by simp
    then show ?thesis using latch_okD [OF pool_invD(4) [OF inv], of f] by simp
  qed
  then have "rw_latch (pages b' f) = Free"
    using latch_okD [OF pool_invD(4) [OF f(2)], of f] by (cases "rw_latch (pages b' f)") auto
  then have lk: "lock f b' = (upd_page f (\<lambda>p. p\<lparr>rw_latch := Exclusive\<rparr>) b', ok ())" by (simp add: lock_def)
  have run: "bpm_write_page p q b = (upd_page f (\<lambda>p. p\<lparr>rw_latch := Exclusive\<rparr>) b', ok (Some f))"
    by (simp add: bpm_write_page_def op_bind_def op_defs f(1) lk)
  let ?b1 = "upd_page f (\<lambda>p. p\<lparr>rw_latch := Exclusive\<rparr>) b'"
  have L: "pool_inv {} ?b1 ((Writing, f) # hs)" "view_kept b' ?b1"
    using lock_ok [OF f(2) _ lk] by (simp_all add: turn_def)
  have k: "key_of (pages ?b1 f) = (p, q)"
    using tableD [OF pool_invD(2) [OF L(1)], of "(p, q)" f] f(4) by simp
  note W = guard_write_ok [OF L(1), of f g, OF _ len]
  have U: "pool_inv {} (unlock f ?g) ((Written, f) # hs)" "view_kept ?g (unlock f ?g)"
    using unlock_ok [OF W(1), of f] by (simp_all add: turn_def)
  have D: "pool_inv {} (unpin_frame f True (unlock f ?g)) hs" "view_kept (unlock f ?g) (unpin_frame f True (unlock f ?g))"
    using unpin_frame_ok(1,2) [OF U(1), of Written f True] by simp_all
  note end_view = view_keptD [OF view_kept_trans [OF U(2) D(2)]]
  have x1: "bpm_view ?b1 (p, q) = Some x" using f(4,5) by (simp add: bpm_view_def)
  then have "bpm_view ?g (p, q) = Some (g x)" using W(2) [of "(p, q)"] k by simp
  note mine = end_view [OF this]
  have other: "bpm_view (unpin_frame f True (unlock f ?g)) key = Some y"
    if "key \<noteq> (p, q)" "bpm_view b key = Some y" for key y
  proof (rule end_view)
    show "bpm_view ?g key = Some y"
      using W(2) [of key] k that view_keptD [OF view_kept_trans [OF f(3) L(2)] that(2)] by simp
  qed
  show ?thesis
    unfolding run prod.case sum.case option.case write_guard_drop_def Let_def
    using D(1) mine other f(5) by (simp add: guard_data_def)
qed

lemma guarded_update_witness:
  "\<exists>b f. pool_steps (pool_example, []) {(0, 0)} (b, [(Pinned, f)]) \<and>
     (\<exists>b'. bpm_view b' (0, 0) = Some (map (\<lambda>_. 5) zero_page))"
proof -
  obtain b f where b: "pool_inv {} b [(Pinned, f)]" "page_table b (0, 0) = Some f" "bpm_view b (0, 0) = Some zero_page"
    "pool_steps (pool_example, []) {(0, 0)} (b, [(Pinned, f)])"
    by (rule pool_example_new)
  have "rw_latch (pages b f) = Free"
    using latch_okD [OF pool_invD(4) [OF b(1)], of f] by (cases "rw_latch (pages b f)") auto
  then have free: "\<forall>f. page_table b (0, 0) = Some f \<longrightarrow> rw_latch (pages b f) = Free" using b(2) by simp
  let ?g = "map (\<lambda>_. 5) :: u8 list \<Rightarrow> u8 list"
  have len: "length (?g bs) = length bs" for bs by simp
  have ne: "0 \<noteq> INVALID_PAGE_ID" by (simp add: INVALID_PAGE_ID_def)
  obtain b1 where w: "bpm_write_page 0 0 b = (b1, ok (Some f))"
    using \<open>rw_latch (pages b f) = Free\<close> b(2)
    by (simp add: bpm_write_page_def fetch_page_def op_bind_def op_defs lock_def)
  from guarded_update [OF b(1,3) ne free, of ?g, OF len] b(4) show ?thesis
    unfolding w by (auto simp: write_guard_drop_def)
qed




definition restart_example :: BufferPoolManager where
  "restart_example = new_BufferPoolManager 1 (fst (write_page 0 0 (page_of 7) disk_example))"


end
