(* ===== verification/SlottedPage.thy ===== *)
theory SlottedPage
  imports Bytes
begin

section \<open>Slotted pages\<close>

text \<open>
  The model of include/turtle/storage/page/slotted_page.hpp and
  src/storage/page/slotted_page.cpp. A page is its 4096 raw bytes; the program reads them
  through a Header (six uint32_t: page_id_, next_page_id_, slot_count_, tuple_count_,
  free_space_pointer_, dead_space_) followed by an array of Slot (offset_, length_), with the
  payloads packed downwards from the end of the page. Every operation below works on the bytes,
  with uint32_t arithmetic; a memory access outside the page is \<open>Undefined\<close>.

  The contract of the operations (the layout invariant and the view of a page as a partial function from
  slot numbers to payloads) is in theory SlottedPage_Contract.
\<close>

type_synonym pagebuf = "u8 list"

record RecordId =
  page_id :: PageId
  slot_num :: u32

definition default_RecordId :: RecordId where
  "default_RecordId = \<lparr>page_id = INVALID_PAGE_ID, slot_num = 0\<rparr>"

subsection \<open>Header and slots\<close>

definition sp_page_id :: "pagebuf \<Rightarrow> PageId" where "sp_page_id m = get_u32 m 0"
definition get_next_page_id :: "pagebuf \<Rightarrow> PageId" where "get_next_page_id m = get_u32 m 4"
definition slot_count :: "pagebuf \<Rightarrow> u32" where "slot_count m = get_u32 m 8"
definition tuple_count :: "pagebuf \<Rightarrow> u32" where "tuple_count m = get_u32 m 12"
definition free_space_pointer :: "pagebuf \<Rightarrow> u32" where "free_space_pointer m = get_u32 m 16"
definition dead_space :: "pagebuf \<Rightarrow> u32" where "dead_space m = get_u32 m 20"

definition set_next_page_id :: "PageId \<Rightarrow> pagebuf \<Rightarrow> pagebuf" where
  "set_next_page_id pid m = put_u32 4 pid m"

definition slot_offset :: "pagebuf \<Rightarrow> nat \<Rightarrow> u32" where
  "slot_offset m i = get_u32 m (24 + 8 * i)"

definition slot_length :: "pagebuf \<Rightarrow> nat \<Rightarrow> u32" where
  "slot_length m i = get_u32 m (28 + 8 * i)"

text \<open>\<open>slots()[i]\<close>: the access is defined while the slot lies in the page.\<close>

definition slot_at :: "pagebuf \<Rightarrow> nat \<Rightarrow> (u32 \<times> u32) res" where
  "slot_at m i = (if 32 + 8 * i \<le> length m then ok (slot_offset m i, slot_length m i)
     else throw (Undefined ''slot outside the page''))"

definition sp_init :: "PageId \<Rightarrow> pagebuf \<Rightarrow> pagebuf" where
  "sp_init pid m =
     (let m1 = put_u32 0 pid m;
          m2 = put_u32 4 INVALID_PAGE_ID m1;
          m3 = put_u32 8 0 m2;
          m4 = put_u32 12 0 m3
      in put_u32 16 4096 m4)"

definition free_space_remaining :: "pagebuf \<Rightarrow> u32" where
  "free_space_remaining m = free_space_pointer m - (24 + slot_count m * 8)"

definition usable_space :: "pagebuf \<Rightarrow> u32" where
  "usable_space m = free_space_remaining m + dead_space m"

definition is_slot_occupied :: "pagebuf \<Rightarrow> u32 \<Rightarrow> bool res" where
  "is_slot_occupied m i =
     (if slot_count m \<le> i then ok False
      else res_bind (slot_at m (unat i)) (\<lambda>(off, len). ok (len \<noteq> 0)))"

definition validate_record_id :: "pagebuf \<Rightarrow> RecordId \<Rightarrow> unit res" where
  "validate_record_id m rid =
     (if page_id rid \<noteq> sp_page_id m \<or> slot_count m \<le> slot_num rid
      then throw (Runtime_error ''Invalid RID for this page'') else ok ())"

subsection \<open>Operations\<close>

definition delete_tuple :: "pagebuf \<Rightarrow> RecordId \<Rightarrow> pagebuf res" where
  "delete_tuple m rid =
     res_bind (validate_record_id m rid) (\<lambda>_.
     res_bind (slot_at m (unat (slot_num rid))) (\<lambda>(off, len).
       if 0 < len then
         (let m1 = put_u32 20 (dead_space m + len) m;
              m2 = put_u32 (28 + 8 * unat (slot_num rid)) 0 m1
          in ok (put_u32 12 (tuple_count m - 1) m2))
       else ok m))"

text \<open>
  \<open>SlottedPage::tuple\<close> hands the payload's address and length to
  \<open>deserialize_from\<close>, which copies that range.
\<close>

definition sp_tuple :: "pagebuf \<Rightarrow> RecordId \<Rightarrow> u8 list res" where
  "sp_tuple m rid =
     res_bind (validate_record_id m rid) (\<lambda>_.
     res_bind (slot_at m (unat (slot_num rid))) (\<lambda>(off, len).
       if len = 0 then throw (Runtime_error ''Slot is empty (deleted tuple)'')
       else if unat off + unat len \<le> length m then ok (read_at (unat off) (unat len) m)
       else throw (Undefined ''payload outside the page'')))"

text \<open>
  \<open>compact\<close>: the loop over the slots packs the live payloads at the end of
  \<open>temp_data\<close> and stores each new offset in the slot array, then the packed region is
  copied back. \<open>compact_loop i k\<close> is the loop at slot i with k slots to go.
\<close>

fun compact_loop :: "nat \<Rightarrow> nat \<Rightarrow> pagebuf \<Rightarrow> u8 list \<Rightarrow> u32 \<Rightarrow>
    (pagebuf \<times> u8 list \<times> u32) res" where
  "compact_loop i 0 m temp ptr = ok (m, temp, ptr)"
| "compact_loop i (Suc k) m temp ptr =
     res_bind (slot_at m i) (\<lambda>(off, len).
       if 0 < len then
         (let ptr' = ptr - len
          in if unat ptr' + unat len \<le> PAGE_SIZE \<and> unat off + unat len \<le> length m then
               compact_loop (Suc i) k (put_u32 (24 + 8 * i) ptr' m)
                 (write_at (unat ptr') (read_at (unat off) (unat len) m) temp) ptr'
             else throw (Undefined ''memcpy outside the page''))
       else compact_loop (Suc i) k m temp ptr)"

definition compact :: "pagebuf \<Rightarrow> pagebuf res" where
  "compact m =
     (if dead_space m = 0 then ok m
      else res_bind (compact_loop 0 (unat (slot_count m)) m (replicate PAGE_SIZE 0) 4096)
        (\<lambda>(m1, temp, ptr).
          let packed_bytes = 4096 - ptr;
              m2 = (if 0 < packed_bytes
                    then write_at (unat ptr) (read_at (unat ptr) (unat packed_bytes) temp) m1
                    else m1);
              m3 = put_u32 16 ptr m2
          in ok (put_u32 20 0 m3)))"

text \<open>The search for a slot to reuse: the first one whose length is 0.\<close>

fun scan_slots :: "pagebuf \<Rightarrow> nat \<Rightarrow> nat \<Rightarrow> nat option res" where
  "scan_slots m i 0 = ok None"
| "scan_slots m i (Suc k) =
     res_bind (slot_at m i) (\<lambda>(off, len). if len = 0 then ok (Some i) else scan_slots m (Suc i) k)"

text \<open>The part of \<open>insert_tuple\<close> after the space check.\<close>

definition place_tuple :: "pagebuf \<Rightarrow> nat option \<Rightarrow> u8 list \<Rightarrow> (pagebuf \<times> RecordId) res" where
  "place_tuple m reuse payload =
     (let size = word_of_nat (length payload) :: u32;
          slot_id = (case reuse of Some i \<Rightarrow> word_of_nat i | None \<Rightarrow> slot_count m);
          m1 = (case reuse of Some i \<Rightarrow> m | None \<Rightarrow> put_u32 8 (slot_count m + 1) m);
          off = free_space_pointer m1 - size;
          m2 = put_u32 16 off m1
      in if unat off + length payload \<le> length m \<and> 32 + 8 * unat slot_id \<le> length m then
           (let m3 = write_at (unat off) payload m2;
                m4 = put_u32 (24 + 8 * unat slot_id) off m3;
                m5 = put_u32 (28 + 8 * unat slot_id) size m4;
                m6 = put_u32 12 (tuple_count m5 + 1) m5
            in ok (m6, \<lparr>page_id = sp_page_id m6, slot_num = slot_id\<rparr>))
         else throw (Undefined ''payload outside the page''))"

text \<open>\<open>insert_tuple\<close>: None is the return value false.\<close>

definition insert_tuple :: "pagebuf \<Rightarrow> u8 list \<Rightarrow> (pagebuf \<times> RecordId option) res" where
  "insert_tuple m payload =
     res_bind (scan_slots m 0 (unat (slot_count m))) (\<lambda>reuse.
       let size = word_of_nat (length payload) :: u32;
           space_needed = size + (if reuse = None then 8 else 0)
       in if free_space_remaining m < space_needed then
            if space_needed \<le> usable_space m then
              res_bind (compact m) (\<lambda>m'.
              res_bind (place_tuple m' reuse payload) (\<lambda>(m'', rid). ok (m'', Some rid)))
            else ok (m, None)
          else res_bind (place_tuple m reuse payload) (\<lambda>(m'', rid). ok (m'', Some rid)))"

end
