(* ===== verification/SlottedPage_Contract.thy ===== *)
theory SlottedPage_Contract
  imports SlottedPage
begin

section \<open>The contract of slotted pages\<close>

text \<open>
  The layout invariant \<open>sp_inv\<close>, the abstraction \<open>sp_view\<close> to a partial function from
  slot numbers to payloads, and one lemma per page operation that says what it does to the view.
  The counts and offsets of the header are read as natural numbers here; the lemmas of the first
  subsection justify that no uint32_t operation wraps on a page that satisfies the invariant. A page has at
  most 452 slots, because a slot is added only when all slots hold payloads, of a byte at least: (4096 - 24) / 9.
\<close>

named_theorems sp_unat \<open>uint32_t arithmetic of a well-formed page, as naturals\<close>

abbreviation nslots :: "pagebuf \<Rightarrow> nat" where "nslots m \<equiv> unat (slot_count m)"
abbreviation soff :: "pagebuf \<Rightarrow> nat \<Rightarrow> nat" where "soff m i \<equiv> unat (slot_offset m i)"
abbreviation slen :: "pagebuf \<Rightarrow> nat \<Rightarrow> nat" where "slen m i \<equiv> unat (slot_length m i)"
abbreviation fsp :: "pagebuf \<Rightarrow> nat" where "fsp m \<equiv> unat (free_space_pointer m)"

definition live_bytes :: "pagebuf \<Rightarrow> nat" where
  "live_bytes m = (\<Sum>i<nslots m. slen m i)"

definition payload_ranges_ok :: "pagebuf \<Rightarrow> bool" where
  "payload_ranges_ok m \<longleftrightarrow>
     (\<forall>i<nslots m. 0 < slen m i \<longrightarrow> fsp m \<le> soff m i \<and> soff m i + slen m i \<le> PAGE_SIZE) \<and>
     (\<forall>i<nslots m. \<forall>j<nslots m. i \<noteq> j \<longrightarrow> 0 < slen m i \<longrightarrow> 0 < slen m j \<longrightarrow>
        soff m i + slen m i \<le> soff m j \<or> soff m j + slen m j \<le> soff m i)"

definition sp_inv :: "pagebuf \<Rightarrow> bool" where
  "sp_inv m \<longleftrightarrow> length m = PAGE_SIZE \<and> nslots m \<le> 452 \<and> 24 + 8 * nslots m \<le> fsp m \<and>
     fsp m + unat (dead_space m) + live_bytes m = PAGE_SIZE \<and>
     payload_ranges_ok m \<and>
     unat (tuple_count m) = card {i. i < nslots m \<and> 0 < slen m i}"

definition sp_view :: "pagebuf \<Rightarrow> nat \<Rightarrow> u8 list option" where
  "sp_view m i = (if i < nslots m \<and> 0 < slen m i then Some (read_at (soff m i) (slen m i) m)
     else None)"

lemmas header_defs = sp_page_id_def get_next_page_id_def slot_count_def tuple_count_def
  free_space_pointer_def dead_space_def slot_offset_def slot_length_def

lemma sp_invD:
  assumes "sp_inv m"
  shows "length m = 4096" and "24 + 8 * nslots m \<le> fsp m"
    and "fsp m + unat (dead_space m) + live_bytes m = 4096"
    and "payload_ranges_ok m"
    and "unat (tuple_count m) = card {i. i < nslots m \<and> 0 < slen m i}"
  using assms by (simp_all add: sp_inv_def PAGE_SIZE_def)

lemma slot_in_range:
  assumes "sp_inv m" and "i < nslots m" and "0 < slen m i"
  shows "fsp m \<le> soff m i" and "soff m i + slen m i \<le> 4096"
  using assms by (auto simp: sp_inv_def payload_ranges_ok_def PAGE_SIZE_def)

lemma slots_disjoint:
  assumes "sp_inv m" and "i < nslots m" and "j < nslots m" and "i \<noteq> j"
    and "0 < slen m i" and "0 < slen m j"
  shows "soff m i + slen m i \<le> soff m j \<or> soff m j + slen m j \<le> soff m i"
  using assms unfolding sp_inv_def payload_ranges_ok_def by blast

lemma nslots_few: "sp_inv m \<Longrightarrow> nslots m \<le> 452"
  by (simp add: sp_inv_def)

lemma nslots_bound: "sp_inv m \<Longrightarrow> nslots m \<le> 509"
  using sp_invD [of m] by linarith

lemma slot_at_ok: "sp_inv m \<Longrightarrow> i < nslots m \<Longrightarrow> slot_at m i = ok (slot_offset m i, slot_length m i)"
  using sp_invD(1,2,3) [of m] by (simp add: slot_at_def)

subsection \<open>No wrap-around\<close>

lemma unat_free_space [sp_unat]:
  assumes "sp_inv m"
  shows "unat (free_space_remaining m) = fsp m - (24 + 8 * nslots m)"
proof -
  have b: "nslots m \<le> 509" by (rule nslots_bound [OF assms])
  have "unat (slot_count m * 8) = 8 * nslots m"
    using b by (simp add: unat_word_ariths)
  then have e: "unat (24 + slot_count m * 8) = 24 + 8 * nslots m"
    using b by (simp add: unat_word_ariths)
  have "24 + slot_count m * 8 \<le> free_space_pointer m"
    using sp_invD(2) [OF assms] e by (simp add: word_le_nat_alt)
  then show ?thesis by (simp add: free_space_remaining_def unat_sub e)
qed

lemma unat_usable [sp_unat]:
  assumes "sp_inv m"
  shows "unat (usable_space m) = 4096 - (24 + 8 * nslots m) - live_bytes m"
proof -
  have "unat (free_space_remaining m) + unat (dead_space m) < 2 ^ 32"
    using sp_invD(3) [OF assms] by (simp add: unat_free_space [OF assms])
  then show ?thesis
    using sp_invD(2,3) [OF assms]
    by (simp add: usable_space_def unat_word_ariths unat_free_space [OF assms])
qed

lemma find_first_empty:
  assumes "sp_inv m"
  shows "i + k \<le> nslots m \<Longrightarrow>
    scan_slots m i k = ok (List.find (\<lambda>j. slot_length m j = 0) [i..<i+k])"
proof (induction k arbitrary: i)
  case (Suc k)
  moreover have "[i..<i + Suc k] = i # [Suc i..<Suc i + k]"
    by (simp add: upt_conv_Cons del: upt_Suc)
  ultimately show ?case
    using slot_at_ok [OF assms, of i] by (simp del: upt_Suc)
qed simp

lemma scan_slots_inv:
  assumes "sp_inv m"
  shows "scan_slots m 0 (nslots m) = ok (List.find (\<lambda>j. slot_length m j = 0) [0..<nslots m])"
  using find_first_empty [OF assms, of 0 "nslots m"] by simp

lemma find_slotD:
  "List.find (\<lambda>j. slot_length m j = 0) [0..<nslots m] = Some i \<Longrightarrow>
    i < nslots m \<and> slot_length m i = 0 \<and> (\<forall>j<i. slot_length m j \<noteq> 0)"
  by (auto simp: find_Some_iff)

lemma find_slot_None:
  "List.find (\<lambda>j. slot_length m j = 0) [0..<nslots m] = None \<Longrightarrow> i < nslots m \<Longrightarrow> 0 < slen m i"
  by (auto simp: find_None_iff unat_gt_0)

subsection \<open>Reading a page after one store\<close>

lemma slot_put_header [buf_simps]:
  "k + 4 \<le> 24 \<Longrightarrow> 32 + 8 * i \<le> length m \<Longrightarrow> slot_offset (put_u32 k w m) i = slot_offset m i"
  "k + 4 \<le> 24 \<Longrightarrow> 32 + 8 * i \<le> length m \<Longrightarrow> slot_length (put_u32 k w m) i = slot_length m i"
  by (simp_all add: header_defs buf_simps)

lemma slot_put_slot [buf_simps]:
  assumes "32 + 8 * i \<le> length m" and "32 + 8 * j \<le> length m"
  shows "slot_offset (put_u32 (24 + 8 * j) w m) i = (if i = j then w else slot_offset m i)"
    and "slot_length (put_u32 (28 + 8 * j) w m) i = (if i = j then w else slot_length m i)"
    and "slot_offset (put_u32 (28 + 8 * j) w m) i = slot_offset m i"
    and "slot_length (put_u32 (24 + 8 * j) w m) i = slot_length m i"
proof -
  consider "i = j" | "i < j" | "j < i" by linarith
  then show "slot_offset (put_u32 (24 + 8 * j) w m) i = (if i = j then w else slot_offset m i)"
    by cases (use assms in \<open>auto simp: header_defs intro!: get_put_same get_put_disjoint\<close>)
  consider "i = j" | "i < j" | "j < i" by linarith
  then show "slot_length (put_u32 (28 + 8 * j) w m) i = (if i = j then w else slot_length m i)"
    by cases (use assms in \<open>auto simp: header_defs intro!: get_put_same get_put_disjoint\<close>)
  show "slot_offset (put_u32 (28 + 8 * j) w m) i = slot_offset m i"
    and "slot_length (put_u32 (24 + 8 * j) w m) i = slot_length m i"
    using assms by (auto simp: header_defs intro!: get_put_disjoint)
qed

lemma header_put_slot [buf_simps]:
  assumes "24 \<le> k" and "k + 4 \<le> length m"
  shows "sp_page_id (put_u32 k w m) = sp_page_id m"
    and "get_next_page_id (put_u32 k w m) = get_next_page_id m"
    and "slot_count (put_u32 k w m) = slot_count m"
    and "tuple_count (put_u32 k w m) = tuple_count m"
    and "free_space_pointer (put_u32 k w m) = free_space_pointer m"
    and "dead_space (put_u32 k w m) = dead_space m"
  using assms by (simp_all add: header_defs buf_simps)

lemma header_put_header [buf_simps]:
  assumes "24 \<le> length m" and "k \<in> {0,4,8,12,16,20}"
  shows "sp_page_id (put_u32 k w m) = (if k = 0 then w else sp_page_id m)"
    and "get_next_page_id (put_u32 k w m) = (if k = 4 then w else get_next_page_id m)"
    and "slot_count (put_u32 k w m) = (if k = 8 then w else slot_count m)"
    and "tuple_count (put_u32 k w m) = (if k = 12 then w else tuple_count m)"
    and "free_space_pointer (put_u32 k w m) = (if k = 16 then w else free_space_pointer m)"
    and "dead_space (put_u32 k w m) = (if k = 20 then w else dead_space m)"
  using assms by (auto simp: header_defs buf_simps)

lemma header_write [buf_simps]:
  assumes "24 \<le> off" and "off + length bs \<le> length m"
  shows "sp_page_id (write_at off bs m) = sp_page_id m"
    and "get_next_page_id (write_at off bs m) = get_next_page_id m"
    and "slot_count (write_at off bs m) = slot_count m"
    and "tuple_count (write_at off bs m) = tuple_count m"
    and "free_space_pointer (write_at off bs m) = free_space_pointer m"
    and "dead_space (write_at off bs m) = dead_space m"
  using assms by (simp_all add: header_defs buf_simps)

lemma slot_write [buf_simps]:
  assumes "32 + 8 * i \<le> off" and "off + length bs \<le> length m"
  shows "slot_offset (write_at off bs m) i = slot_offset m i"
    and "slot_length (write_at off bs m) i = slot_length m i"
  using assms by (simp_all add: header_defs buf_simps)

subsection \<open>Initialisation and lookup\<close>

lemma sp_init_inv:
  assumes "length m = PAGE_SIZE" and "dead_space m = 0"
  shows "sp_inv (sp_init pid m)" and "sp_view (sp_init pid m) = (\<lambda>_. None)"
    and "sp_page_id (sp_init pid m) = pid" and "get_next_page_id (sp_init pid m) = INVALID_PAGE_ID"
  using assms
  by (auto simp: sp_init_def sp_inv_def live_bytes_def payload_ranges_ok_def sp_view_def
      PAGE_SIZE_def buf_simps Let_def)

lemma slot_word_less: "slot_count m \<le> w \<longleftrightarrow> nslots m \<le> unat w"
  by (simp add: word_le_nat_alt)

lemma sp_view_Some_iff:
  "sp_view m i = Some bs \<longleftrightarrow> i < nslots m \<and> 0 < slen m i \<and> bs = read_at (soff m i) (slen m i) m"
  by (auto simp: sp_view_def)

lemma sp_tuple_view:
  assumes inv: "sp_inv m" and pid: "page_id rid = sp_page_id m"
  shows "sp_tuple m rid =
    (if nslots m \<le> unat (slot_num rid) then throw (Runtime_error ''Invalid RID for this page'')
     else case sp_view m (unat (slot_num rid)) of
       None \<Rightarrow> throw (Runtime_error ''Slot is empty (deleted tuple)'')
     | Some bs \<Rightarrow> ok bs)"
proof (cases "nslots m \<le> unat (slot_num rid)")
  case True
  then show ?thesis by (simp add: sp_tuple_def validate_record_id_def slot_word_less)
next
  case False
  let ?i = "unat (slot_num rid)"
  have "0 < slen m ?i \<Longrightarrow> soff m ?i + slen m ?i \<le> length m"
    using slot_in_range(2) [OF inv, of ?i] False sp_invD(1) [OF inv] by simp
  with False pid slot_at_ok [OF inv, of ?i] show ?thesis
    by (auto simp: sp_tuple_def validate_record_id_def slot_word_less sp_view_def unat_gt_0)
qed

lemma sp_tuple_wrong_page:
  "page_id rid \<noteq> sp_page_id m \<Longrightarrow> sp_tuple m rid = throw (Runtime_error ''Invalid RID for this page'')"
  by (simp add: sp_tuple_def validate_record_id_def)

lemma is_slot_occupied_view:
  "sp_inv m \<Longrightarrow> is_slot_occupied m i = ok (sp_view m (unat i) \<noteq> None)"
  using slot_at_ok [of m "unat i"]
  by (auto simp: is_slot_occupied_def sp_view_def slot_word_less unat_gt_0)

subsection \<open>Deletion\<close>

lemma live_slots_upd:
  assumes "i < n" and "\<And>j. j < n \<Longrightarrow> j \<noteq> i \<Longrightarrow> f j = g j"
  shows "(\<Sum>j<(n::nat). f j) + g i = (\<Sum>j<n. g j) + (f i :: nat)"
proof -
  have "(\<Sum>j\<in>{..<n} - {i}. f j) = (\<Sum>j\<in>{..<n} - {i}. g j)"
    using assms by (intro sum.cong) auto
  with assms(1) show ?thesis by (simp add: sum.remove [of "{..<n}" i])
qed

lemma delete_tuple_ok:
  assumes inv: "sp_inv m" and pid: "page_id rid = sp_page_id m"
    and slot: "unat (slot_num rid) < nslots m"
  shows "\<exists>m'. delete_tuple m rid = ok m' \<and> sp_inv m' \<and>
    sp_view m' = (sp_view m)(unat (slot_num rid) := None) \<and>
    sp_page_id m' = sp_page_id m \<and> get_next_page_id m' = get_next_page_id m \<and>
    slot_count m' = slot_count m \<and> live_bytes m' + slen m (unat (slot_num rid)) = live_bytes m"
proof -
  let ?i = "unat (slot_num rid)"
  note D = sp_invD [OF inv]
  have valid: "validate_record_id m rid = ok ()"
    using pid slot by (simp add: validate_record_id_def slot_word_less)
  show ?thesis
  proof (cases "0 < slen m ?i")
    case False
    then have "sp_view m ?i = None" by (simp add: sp_view_def)
    moreover have "delete_tuple m rid = ok m"
      using False valid slot_at_ok [OF inv slot] by (simp add: delete_tuple_def word_less_nat_alt)
    ultimately show ?thesis using inv False by auto
  next
    case True
    define m1 where "m1 = put_u32 20 (dead_space m + slot_length m ?i) m"
    define m2 where "m2 = put_u32 (28 + 8 * ?i) 0 m1"
    define m' where "m' = put_u32 12 (tuple_count m - 1) m2"
    have len [simp]: "length m = 4096" "length m1 = 4096" "length m2 = 4096" "length m' = 4096"
      using D(1,2,3) slot by (simp_all add: m1_def m2_def m'_def)
    have op: "delete_tuple m rid = ok m'"
      using True valid slot_at_ok [OF inv slot]
      by (simp add: delete_tuple_def word_less_nat_alt m1_def m2_def m'_def)
    have n: "slot_count m' = slot_count m" and f: "free_space_pointer m' = free_space_pointer m"
      and ids: "sp_page_id m' = sp_page_id m" "get_next_page_id m' = get_next_page_id m"
      and dead: "dead_space m' = dead_space m + slot_length m ?i"
      and tc: "tuple_count m' = tuple_count m - 1"
      using D(1,2,3) slot by (simp_all add: m1_def m2_def m'_def buf_simps)
    have so: "slot_offset m' j = slot_offset m j"
      and sl: "slot_length m' j = (if j = ?i then 0 else slot_length m j)" if "j < nslots m" for j
      using D(1,2,3) slot that by (simp_all add: m1_def m2_def m'_def buf_simps)
    have pay: "read_at k l m' = read_at k l m" if "fsp m \<le> k" "k + l \<le> 4096" for k l
      using that D(2) slot by (simp add: m1_def m2_def m'_def buf_simps)
    have "live_bytes m' + slen m ?i = live_bytes m + 0"
      unfolding live_bytes_def n
      using live_slots_upd [OF slot, of "slen m'" "slen m"] sl slot by simp
    then have live: "live_bytes m' + slen m ?i = live_bytes m" by simp
    have deadn: "unat (dead_space m') = unat (dead_space m) + slen m ?i"
      using D(3) live by (simp add: dead unat_word_ariths)
    have "{j. j < nslots m \<and> 0 < slen m j} = insert ?i {j. j < nslots m' \<and> 0 < slen m' j}"
      using slot True sl by (auto simp: n split: if_splits)
    moreover have "?i \<notin> {j. j < nslots m' \<and> 0 < slen m' j}" using sl [OF slot] by simp
    ultimately have cnt: "unat (tuple_count m) = Suc (card {j. j < nslots m' \<and> 0 < slen m' j})"
      using D(5) by simp
    then have "1 \<le> tuple_count m" by (simp add: word_le_nat_alt)
    then have "unat (tuple_count m') = card {j. j < nslots m' \<and> 0 < slen m' j}"
      using cnt by (simp add: tc unat_sub)
    moreover have "payload_ranges_ok m'"
      using D(4) so sl by (auto simp: payload_ranges_ok_def n f split: if_splits)
    ultimately have "sp_inv m'"
      using D(2,3) live deadn nslots_few [OF inv] by (simp add: sp_inv_def PAGE_SIZE_def n f)
    moreover have "sp_view m' = (sp_view m)(?i := None)"
      using so sl slot_in_range [OF inv] pay by (auto simp: sp_view_def n fun_eq_iff)
    ultimately show ?thesis using op ids n live by blast
  qed
qed

subsection \<open>Compaction\<close>

definition same_header :: "pagebuf \<Rightarrow> pagebuf \<Rightarrow> bool" where
  "same_header m' m \<longleftrightarrow> sp_page_id m' = sp_page_id m \<and> get_next_page_id m' = get_next_page_id m \<and>
     slot_count m' = slot_count m \<and> tuple_count m' = tuple_count m"

text \<open>
  The state of the packing loop at slot i: m is the page with the offsets of the slots below i
  replaced, and the payloads of those slots are in temp, from ptr upwards.
\<close>

definition packed_upto :: "pagebuf \<Rightarrow> nat \<Rightarrow> pagebuf \<Rightarrow> u8 list \<Rightarrow> u32 \<Rightarrow> bool" where
  "packed_upto m0 i m temp ptr \<longleftrightarrow>
     length m = 4096 \<and> length temp = 4096 \<and> same_header m m0 \<and>
     (\<forall>j<nslots m0. slot_length m j = slot_length m0 j) \<and>
     (\<forall>j<nslots m0. i \<le> j \<longrightarrow> slot_offset m j = slot_offset m0 j) \<and>
     (\<forall>k l. fsp m0 \<le> k \<and> k + l \<le> 4096 \<longrightarrow> read_at k l m = read_at k l m0) \<and>
     unat ptr + (\<Sum>j<i. slen m0 j) = 4096 \<and>
     (\<forall>j<i. 0 < slen m0 j \<longrightarrow> unat ptr \<le> soff m j \<and> soff m j + slen m0 j \<le> 4096 \<and>
        read_at (soff m j) (slen m0 j) temp = read_at (soff m0 j) (slen m0 j) m0) \<and>
     (\<forall>j<i. \<forall>j'<i. j \<noteq> j' \<longrightarrow> 0 < slen m0 j \<longrightarrow> 0 < slen m0 j' \<longrightarrow>
        soff m j + slen m0 j \<le> soff m j' \<or> soff m j' + slen m0 j' \<le> soff m j)"

lemma live_prefix:
  assumes "sp_inv m" and "i \<le> nslots m"
  shows "(\<Sum>j<i. slen m j) + fsp m + unat (dead_space m) \<le> 4096"
proof -
  have "(\<Sum>j<i. slen m j) \<le> live_bytes m"
    unfolding live_bytes_def using assms(2) by (intro sum_mono2) auto
  then show ?thesis using sp_invD(3) [OF assms(1)] by simp
qed

lemma packed_step_dead:
  "packed_upto m0 i m temp ptr \<Longrightarrow> slen m0 i = 0 \<Longrightarrow> packed_upto m0 (Suc i) m temp ptr"
  by (auto simp: packed_upto_def less_Suc_eq)

lemma packed_step_live:
  assumes inv: "sp_inv m0" and p: "packed_upto m0 i m temp ptr"
    and i: "i < nslots m0" and l: "0 < slen m0 i"
  defines "ptr' \<equiv> ptr - slot_length m0 i"
  shows "unat ptr' + slen m0 i = unat ptr"
    and "packed_upto m0 (Suc i) (put_u32 (24 + 8 * i) ptr' m)
      (write_at (unat ptr') (read_at (soff m0 i) (slen m0 i) m) temp) ptr'"
proof -
  have sum: "(\<Sum>j<Suc i. slen m0 j) \<le> 4096"
    using live_prefix [OF inv, of "Suc i"] i by simp
  have ptr: "unat ptr + (\<Sum>j<i. slen m0 j) = 4096" using p by (simp add: packed_upto_def)
  have "slot_length m0 i \<le> ptr" using sum ptr by (simp add: word_le_nat_alt)
  then show eq: "unat ptr' + slen m0 i = unat ptr"
    by (simp add: ptr'_def unat_sub word_le_nat_alt)
  let ?bs = "read_at (soff m0 i) (slen m0 i) m"
  let ?m = "put_u32 (24 + 8 * i) ptr' m" and ?t = "write_at (unat ptr') ?bs temp"
  have L: "length m = 4096" "length temp = 4096" using p by (simp_all add: packed_upto_def)
  have n: "32 + 8 * j \<le> 4096" if "j < nslots m0" for j using that nslots_bound [OF inv] by simp
  have bs: "?bs = read_at (soff m0 i) (slen m0 i) m0"
    using p slot_in_range [OF inv i l] by (simp add: packed_upto_def)
  have lbs: "length ?bs = slen m0 i"
    using slot_in_range(2) [OF inv i l] L by simp
  have pb: "unat ptr' + slen m0 i \<le> 4096" using eq ptr by simp
  have so: "slot_offset ?m j = (if j = i then ptr' else slot_offset m j)"
    and sl: "slot_length ?m j = slot_length m j" if "j < nslots m0" for j
    using n [OF that] n [OF i] L by (simp_all add: buf_simps)
  have self: "read_at (unat ptr') (slen m0 i) ?t = read_at (soff m0 i) (slen m0 i) m0"
    using read_write_same [of "unat ptr'" ?bs temp] pb L bs lbs by simp
  have other: "read_at k len ?t = read_at k len temp" if "unat ptr \<le> k" "k + len \<le> 4096" for k len
    using that eq pb L lbs by (intro read_write_disjoint) auto
  have pay: "read_at k len ?m = read_at k len m" if "fsp m0 \<le> k" "k + len \<le> 4096" for k len
    using that L i sp_invD(2) [OF inv] by (intro read_put_disjoint) auto
  have hdr: "same_header ?m m0"
    using p n [OF i] L by (simp add: packed_upto_def same_header_def buf_simps)
  have lens: "length ?m = 4096" "length ?t = 4096"
    using L n [OF i] pb lbs by simp_all
  have sumeq: "unat ptr' + (\<Sum>j<Suc i. slen m0 j) = 4096" using eq ptr by simp
  show "packed_upto m0 (Suc i) ?m ?t ptr'"
    unfolding packed_upto_def
  proof (intro conjI)
    show "\<forall>j<nslots m0. slot_length ?m j = slot_length m0 j"
      using p sl by (simp add: packed_upto_def)
    show "\<forall>j<nslots m0. Suc i \<le> j \<longrightarrow> slot_offset ?m j = slot_offset m0 j"
      using p so by (simp add: packed_upto_def)
    show "\<forall>k l. fsp m0 \<le> k \<and> k + l \<le> 4096 \<longrightarrow> read_at k l ?m = read_at k l m0"
      using p pay by (simp add: packed_upto_def)
    show "\<forall>j<Suc i. 0 < slen m0 j \<longrightarrow> unat ptr' \<le> soff ?m j \<and> soff ?m j + slen m0 j \<le> 4096 \<and>
        read_at (soff ?m j) (slen m0 j) ?t = read_at (soff m0 j) (slen m0 j) m0"
    proof (intro allI impI)
      fix j assume j: "j < Suc i" "0 < slen m0 j"
      show "unat ptr' \<le> soff ?m j \<and> soff ?m j + slen m0 j \<le> 4096 \<and>
        read_at (soff ?m j) (slen m0 j) ?t = read_at (soff m0 j) (slen m0 j) m0"
      proof (cases "j = i")
        case True
        then show ?thesis using so [OF i] self pb by simp
      next
        case False
        then have "j < i" "j < nslots m0" using j i by auto
        with p j have q: "unat ptr \<le> soff m j" "soff m j + slen m0 j \<le> 4096"
          "read_at (soff m j) (slen m0 j) temp = read_at (soff m0 j) (slen m0 j) m0"
          by (simp_all add: packed_upto_def)
        then show ?thesis using so [OF \<open>j < nslots m0\<close>] False eq other by simp
      qed
    qed
    show "\<forall>j<Suc i. \<forall>j'<Suc i. j \<noteq> j' \<longrightarrow> 0 < slen m0 j \<longrightarrow> 0 < slen m0 j' \<longrightarrow>
        soff ?m j + slen m0 j \<le> soff ?m j' \<or> soff ?m j' + slen m0 j' \<le> soff ?m j"
      using p so i eq by (auto simp: packed_upto_def less_Suc_eq)
  qed (use hdr lens sumeq in auto)
qed

lemma compact_loop_packs:
  assumes inv: "sp_inv m0"
  shows "i + k = nslots m0 \<Longrightarrow> packed_upto m0 i m temp ptr \<Longrightarrow>
    \<exists>m' temp' ptr'. compact_loop i k m temp ptr = ok (m', temp', ptr') \<and>
      packed_upto m0 (nslots m0) m' temp' ptr'"
proof (induction k arbitrary: i m temp ptr)
  case (Suc k)
  then have i: "i < nslots m0" by simp
  have p: "length m = 4096" "slot_length m i = slot_length m0 i" "slot_offset m i = slot_offset m0 i"
    using Suc.prems(2) i by (simp_all add: packed_upto_def)
  have at: "slot_at m i = ok (slot_offset m0 i, slot_length m0 i)"
    using p i nslots_bound [OF inv] by (simp add: slot_at_def)
  show ?case
  proof (cases "slen m0 i = 0")
    case True
    then show ?thesis
      using Suc.IH [OF _ packed_step_dead [OF Suc.prems(2) True]] Suc.prems(1) at
      by (simp add: word_less_nat_alt)
  next
    case False
    note st = packed_step_live [OF inv Suc.prems(2) i] False
    have "unat (ptr - slot_length m0 i) + slen m0 i \<le> 4096"
      using st Suc.prems(2) by (simp add: packed_upto_def)
    moreover have "soff m0 i + slen m0 i \<le> 4096" using slot_in_range [OF inv i] False by simp
    ultimately show ?thesis
      using Suc.IH [OF _ st(2)] Suc.prems(1) at p False
      by (simp add: word_less_nat_alt Let_def PAGE_SIZE_def)
  qed
qed simp

lemma compact_ok:
  assumes inv: "sp_inv m"
  shows "\<exists>m'. compact m = ok m' \<and> sp_inv m' \<and> sp_view m' = sp_view m \<and> same_header m' m \<and>
    (\<forall>i<nslots m. slot_length m' i = slot_length m i) \<and> dead_space m' = 0 \<and>
    live_bytes m' = live_bytes m"
proof (cases "dead_space m = 0")
  case True
  then show ?thesis using inv by (simp add: compact_def same_header_def)
next
  case False
  note D = sp_invD [OF inv]
  have start: "packed_upto m 0 m (replicate PAGE_SIZE 0) 4096"
    using D(1) by (simp add: packed_upto_def same_header_def PAGE_SIZE_def)
  then obtain m1 temp ptr where
    loop: "compact_loop 0 (nslots m) m (replicate PAGE_SIZE 0) 4096 = ok (m1, temp, ptr)"
    and p: "packed_upto m (nslots m) m1 temp ptr"
    using compact_loop_packs [OF inv _ start, of "nslots m"] by auto
  have P: "length m1 = 4096" "length temp = 4096" "same_header m1 m"
    "\<And>j. j < nslots m \<Longrightarrow> slot_length m1 j = slot_length m j"
    "unat ptr + live_bytes m = 4096"
    "\<And>j. j < nslots m \<Longrightarrow> 0 < slen m j \<Longrightarrow> unat ptr \<le> soff m1 j \<and> soff m1 j + slen m j \<le> 4096 \<and>
      read_at (soff m1 j) (slen m j) temp = read_at (soff m j) (slen m j) m"
    "\<And>j j'. j < nslots m \<Longrightarrow> j' < nslots m \<Longrightarrow> j \<noteq> j' \<Longrightarrow> 0 < slen m j \<Longrightarrow> 0 < slen m j' \<Longrightarrow>
        soff m1 j + slen m j \<le> soff m1 j' \<or> soff m1 j' + slen m j' \<le> soff m1 j"
    using p by (auto simp: packed_upto_def live_bytes_def)
  define m2 where "m2 = write_at (unat ptr) (read_at (unat ptr) (4096 - unat ptr) temp) m1"
  define m' where "m' = put_u32 20 0 (put_u32 16 ptr m2)"
  have pb: "unat ptr \<le> 4096" and hi: "24 + 8 * nslots m \<le> unat ptr"
    using P(5) D(2,3) by simp_all
  have packed: "unat (4096 - ptr) = 4096 - unat ptr"
    using pb by (simp add: unat_sub word_le_nat_alt)
  have "4096 - ptr = 0 \<Longrightarrow> m2 = m1"
    using packed P(1) by (simp add: m2_def write_at_def read_at_def)
  then have op: "compact m = ok m'"
    using False loop packed
    by (auto simp: compact_def m2_def m'_def Let_def word_gt_0)
  have n: "nslots m \<le> 509" by (rule nslots_bound [OF inv])
  have L2: "length m2 = 4096" and L': "length m' = 4096"
    using P(1,2) pb by (simp_all add: m2_def m'_def)
  have hdr: "same_header m' m" and f: "free_space_pointer m' = ptr" and d: "dead_space m' = 0"
    using P(1,2,3) hi pb
    by (simp_all add: m'_def m2_def same_header_def buf_simps)
  have sl: "slot_length m' j = slot_length m j" and so: "slot_offset m' j = slot_offset m1 j"
    if "j < nslots m" for j
    using that P(1,2,4) hi pb n by (simp_all add: m'_def m2_def buf_simps)
  have "read_at k l m' = read_at k l temp" if "unat ptr \<le> k" "k + l \<le> 4096" for k l
  proof -
    have "read_at k l m' = read_at k l m2"
      using that hi L2 by (simp add: m'_def buf_simps)
    also have "\<dots> = read_at (k - unat ptr) l (read_at (unat ptr) (4096 - unat ptr) temp)"
      unfolding m2_def using that P(1,2) pb by (intro read_write_inside) auto
    also have "\<dots> = read_at k l temp"
      using that by (intro read_at_read_at) auto
    finally show ?thesis .
  qed
  then have pay: "read_at (soff m' j) (slen m j) m' = read_at (soff m j) (slen m j) m"
    if "j < nslots m" "0 < slen m j" for j
    using P(6) [OF that] so [OF that(1)] by simp
  have ns: "slot_count m' = slot_count m" and tc: "tuple_count m' = tuple_count m"
    using hdr by (simp_all add: same_header_def)
  have live: "live_bytes m' = live_bytes m" using sl by (simp add: live_bytes_def ns)
  have cnt: "{i. i < nslots m' \<and> 0 < slen m' i} = {i. i < nslots m \<and> 0 < slen m i}"
    using sl by (auto simp: ns)
  have "payload_ranges_ok m'"
    unfolding payload_ranges_ok_def ns f
    using P(6,7) sl so by (simp add: PAGE_SIZE_def)
  then have "sp_inv m'"
    using L' hi P(5) D(5) live cnt nslots_few [OF inv] by (simp add: sp_inv_def PAGE_SIZE_def ns f d tc)
  moreover have "sp_view m' = sp_view m"
    using sl pay by (auto simp: sp_view_def ns fun_eq_iff)
  ultimately show ?thesis using op hdr sl d live by blast
qed

subsection \<open>Insertion\<close>

definition slot_free :: "pagebuf \<Rightarrow> nat option \<Rightarrow> bool" where
  "slot_free m reuse \<longleftrightarrow> (case reuse of None \<Rightarrow> \<forall>i<nslots m. slot_length m i \<noteq> 0 | Some i \<Rightarrow> i < nslots m \<and> slot_length m i = 0)"

definition target_slot :: "pagebuf \<Rightarrow> nat option \<Rightarrow> nat" where
  "target_slot m reuse = (case reuse of None \<Rightarrow> nslots m | Some i \<Rightarrow> i)"

definition slot_cost :: "nat option \<Rightarrow> nat" where
  "slot_cost reuse = (if reuse = None then 8 else 0)"

lemma live_bytes_snoc:
  assumes "nslots m' = (if i = nslots m then Suc (nslots m) else nslots m)" and "i \<le> nslots m"
    and "\<And>j. j < nslots m' \<Longrightarrow> slen m' j = (if j = i then s else slen m j)"
    and "i < nslots m \<Longrightarrow> slen m i = 0"
  shows "live_bytes m' = live_bytes m + s"
proof (cases "i = nslots m")
  case True
  have "(\<Sum>j<nslots m. slen m' j) = (\<Sum>j<nslots m. slen m j)"
    using assms(1,3) True by (intro sum.cong) auto
  then show ?thesis using True assms(1,3) by (simp add: live_bytes_def)
next
  case False
  then show ?thesis
    using assms live_slots_upd [of i "nslots m" "slen m'" "slen m"] by (simp add: live_bytes_def)
qed

lemma place_tuple_ok:
  assumes inv: "sp_inv m" and free: "slot_free m reuse" and ne: "payload \<noteq> []"
    and fits: "length payload + slot_cost reuse \<le> unat (free_space_remaining m)"
  shows "\<exists>m' rid. place_tuple m reuse payload = ok (m', rid) \<and> sp_inv m' \<and>
    sp_view m' = (sp_view m)(target_slot m reuse := Some payload) \<and>
    rid = \<lparr>page_id = sp_page_id m, slot_num = word_of_nat (target_slot m reuse)\<rparr> \<and>
    sp_page_id m' = sp_page_id m \<and> get_next_page_id m' = get_next_page_id m \<and>
    nslots m' = max (nslots m) (Suc (target_slot m reuse)) \<and>
    live_bytes m' = live_bytes m + length payload"
proof -
  note D = sp_invD [OF inv]
  have n509: "nslots m \<le> 509" by (rule nslots_bound [OF inv])
  define i where "i = target_slot m reuse"
  define size where "size = (word_of_nat (length payload) :: u32)"
  have room: "24 + 8 * nslots m + length payload + slot_cost reuse \<le> fsp m"
    using fits D(2) by (simp add: unat_free_space [OF inv])
  have fsp4096: "fsp m \<le> 4096" using D(3) by simp
  have usize: "unat size = length payload"
    using room fsp4096 by (simp add: size_def unat_of_nat)
  have i_le: "i \<le> nslots m" and new: "i = nslots m \<longleftrightarrow> reuse = None"
    using free by (auto simp: i_def target_slot_def slot_free_def split: option.splits)
  define sid where "sid = (word_of_nat i :: u32)"
  have usid: "unat sid = i" using i_le n509 by (simp add: sid_def unat_of_nat)
  have slot_id: "(case reuse of Some i \<Rightarrow> word_of_nat i | None \<Rightarrow> slot_count m) = sid"
    by (simp add: sid_def i_def target_slot_def split: option.splits)
  define m1 where "m1 = (case reuse of Some i \<Rightarrow> m | None \<Rightarrow> put_u32 8 (slot_count m + 1) m)"
  have L1: "length m1 = 4096" using D(1) by (simp add: m1_def split: option.splits)
  have h1: "sp_page_id m1 = sp_page_id m" "get_next_page_id m1 = get_next_page_id m"
    "tuple_count m1 = tuple_count m" "free_space_pointer m1 = free_space_pointer m"
    "dead_space m1 = dead_space m"
    "slot_count m1 = (if reuse = None then slot_count m + 1 else slot_count m)"
    using D(1) by (auto simp: m1_def buf_simps split: option.splits)
  have s1: "slot_offset m1 j = slot_offset m j" "slot_length m1 j = slot_length m j"
    if "32 + 8 * j \<le> 4096" for j
    using that D(1) by (auto simp: m1_def buf_simps split: option.splits)
  have n1: "nslots m1 = (if i = nslots m then Suc (nslots m) else nslots m)"
    using n509 new by (simp add: h1 unat_word_ariths)
  define off where "off = free_space_pointer m1 - size"
  have uoff: "unat off + length payload = fsp m"
    using room by (simp add: off_def h1 unat_sub word_le_nat_alt usize)
  define m3 where "m3 = write_at (unat off) payload (put_u32 16 off m1)"
  have L3: "length m3 = 4096" using L1 uoff fsp4096 by (simp add: m3_def)
  have islot: "32 + 8 * i \<le> unat off"
    using uoff room new i_le by (auto simp: slot_cost_def split: if_splits)
  define m5 where "m5 = put_u32 (28 + 8 * i) size (put_u32 (24 + 8 * i) off m3)"
  have i4096: "32 + 8 * i \<le> 4096" using islot uoff fsp4096 by simp
  have L5: "length m5 = 4096" using L3 i4096 by (simp add: m5_def)
  define m' where "m' = put_u32 12 (tuple_count m5 + 1) m5"
  have L': "length m' = 4096" using L5 by (simp add: m'_def)
  have off24: "24 \<le> unat off" using islot by simp
  have w: "unat off + length payload \<le> length (put_u32 16 off m1)"
    using L1 uoff fsp4096 by simp
  have hdr: "sp_page_id m' = sp_page_id m" "get_next_page_id m' = get_next_page_id m"
    "slot_count m' = slot_count m1" "free_space_pointer m' = off"
    "dead_space m' = dead_space m" "tuple_count m' = tuple_count m + 1"
    using L1 L3 L5 i4096 off24 w h1 by (simp_all add: m'_def m5_def m3_def buf_simps)
  have so: "slot_offset m' j = (if j = i then off else slot_offset m j)"
    and sl: "slot_length m' j = (if j = i then size else slot_length m j)"
    if "j < nslots m'" for j
  proof -
    have j: "32 + 8 * j \<le> 4096" "32 + 8 * j \<le> unat off"
      using that n509 islot i_le uoff room new i4096
      by (auto simp: hdr n1 slot_cost_def split: if_splits)
    show "slot_offset m' j = (if j = i then off else slot_offset m j)"
      and "slot_length m' j = (if j = i then size else slot_length m j)"
      using j L1 L3 L5 i4096 w s1 by (simp_all add: m'_def m5_def m3_def buf_simps)
  qed
  have pay: "read_at k l m' = read_at k l m" if "fsp m \<le> k" "k + l \<le> 4096" for k l
  proof -
    have "read_at k l m' = read_at k l m3"
      using that L3 L5 i4096 islot uoff by (simp add: m'_def m5_def buf_simps)
    also have "\<dots> = read_at k l m1"
      unfolding m3_def using that w L1 uoff D(2) by (simp add: buf_simps)
    also have "\<dots> = read_at k l m"
      using that D(1,2) by (auto simp: m1_def buf_simps split: option.splits)
    finally show ?thesis .
  qed
  have mine: "read_at (unat off) (length payload) m' = payload"
  proof -
    have "read_at (unat off) (length payload) m' = read_at (unat off) (length payload) m3"
      using L3 L5 i4096 islot uoff fsp4096 by (simp add: m'_def m5_def buf_simps)
    then show ?thesis using read_write_same [OF w] by (simp add: m3_def)
  qed
  have nfree: "slen m i = 0" if "i < nslots m"
    using that free by (auto simp: i_def target_slot_def slot_free_def split: option.splits)
  have ns': "nslots m' = (if i = nslots m then Suc (nslots m) else nslots m)"
    using n1 by (simp add: hdr)
  have op: "place_tuple m reuse payload = ok (m', \<lparr>page_id = sp_page_id m, slot_num = sid\<rparr>)"
    using w L1 i4096 D(1) hdr(1)
    by (simp add: place_tuple_def slot_id usid Let_def size_def [symmetric] m1_def [symmetric]
        off_def [symmetric] m3_def [symmetric] m5_def [symmetric] m'_def [symmetric])
  have live: "live_bytes m' = live_bytes m + length payload"
    using live_bytes_snoc [OF ns' i_le, of "length payload"] sl nfree usize by simp
  have cset: "{j. j < nslots m' \<and> 0 < slen m' j} = insert i {j. j < nslots m \<and> 0 < slen m j}"
    using sl i_le nfree ne usize by (auto simp: ns' split: if_splits)
  have "i \<notin> {j. j < nslots m \<and> 0 < slen m j}" using nfree by auto
  then have card: "card {j. j < nslots m' \<and> 0 < slen m' j} = Suc (unat (tuple_count m))"
    using D(5) by (simp add: cset)
  have "card {j. j < nslots m \<and> 0 < slen m j} \<le> card {..<nslots m}"
    by (intro card_mono) auto
  then have "unat (tuple_count m + 1) = Suc (unat (tuple_count m))"
    using D(5) n509 by (simp add: unat_word_ariths)
  then have tc: "unat (tuple_count m') = card {j. j < nslots m' \<and> 0 < slen m' j}"
    using card by (simp add: hdr)
  have old: "fsp m \<le> soff m j" "soff m j + slen m j \<le> 4096" if "j < nslots m" "0 < slen m j" for j
    using slot_in_range [OF inv that] by simp_all
  have lt: "j < nslots m' \<Longrightarrow> j \<noteq> i \<Longrightarrow> j < nslots m" for j
    using i_le by (auto simp: ns' split: if_splits)
  have few: "nslots m' \<le> 452"
  proof (cases reuse)
    case None
    then have "\<forall>j<nslots m. 1 \<le> slen m j" using free by (simp add: slot_free_def Suc_le_eq unat_gt_0)
    then have "(\<Sum>j<nslots m. 1) \<le> live_bytes m" unfolding live_bytes_def by (intro sum_mono) simp
    moreover have "1 \<le> length payload" using ne by (cases payload) simp_all
    moreover have "24 + 8 * nslots m + length payload + 8 \<le> fsp m" using room None by (simp add: slot_cost_def)
    ultimately have "9 * nslots m + 33 \<le> 4096" using D(3) by simp
    then show ?thesis by (simp add: ns')
  next
    case Some
    then show ?thesis using new nslots_few [OF inv] by (simp add: ns')
  qed
  have "payload_ranges_ok m'"
    unfolding payload_ranges_ok_def hdr(4)
  proof (intro conjI allI impI)
    fix j assume j: "j < nslots m'" "0 < slen m' j"
    show "unat off \<le> soff m' j" and "soff m' j + slen m' j \<le> PAGE_SIZE"
      using j so [OF j(1)] sl [OF j(1)] old [OF lt [OF j(1)]] uoff usize fsp4096
      by (auto simp: PAGE_SIZE_def split: if_splits)
  next
    fix j k
    assume jk: "j < nslots m'" "k < nslots m'" "j \<noteq> k" "0 < slen m' j" "0 < slen m' k"
    show "soff m' j + slen m' j \<le> soff m' k \<or> soff m' k + slen m' k \<le> soff m' j"
      using jk so [OF jk(1)] so [OF jk(2)] sl [OF jk(1)] sl [OF jk(2)]
        old [OF lt [OF jk(1)]] old [OF lt [OF jk(2)]] lt [OF jk(1)] lt [OF jk(2)]
        slots_disjoint [OF inv, of j k] uoff usize
      by (cases "j = i"; cases "k = i") auto
  qed
  moreover have "24 + 8 * nslots m' \<le> unat off"
    using uoff room new by (auto simp: ns' slot_cost_def)
  ultimately have "sp_inv m'"
    using L' uoff D(3) live tc few by (simp add: sp_inv_def PAGE_SIZE_def hdr)
  moreover have "sp_view m' = (sp_view m)(i := Some payload)"
  proof
    fix j
    show "sp_view m' j = ((sp_view m)(i := Some payload)) j"
    proof (cases "j = i")
      case True
      have "i < nslots m'" using i_le by (simp add: ns')
      then show ?thesis
        using True so [OF \<open>i < nslots m'\<close>] sl [OF \<open>i < nslots m'\<close>] mine ne usize
        by (simp add: sp_view_def)
    next
      case False
      have "j < nslots m' \<longleftrightarrow> j < nslots m" using False i_le by (auto simp: ns')
      then show ?thesis
        using False so [of j] sl [of j] old [of j] pay by (auto simp: sp_view_def)
    qed
  qed
  moreover have "nslots m' = max (nslots m) (Suc i)" using i_le by (auto simp: ns')
  ultimately show ?thesis using op hdr(1,2) live by (auto simp: i_def sid_def)
qed

definition empty_slot :: "pagebuf \<Rightarrow> nat option" where
  "empty_slot m = List.find (\<lambda>j. slot_length m j = 0) [0..<nslots m]"

definition space_needed :: "pagebuf \<Rightarrow> u8 list \<Rightarrow> nat" where
  "space_needed m payload = length payload + slot_cost (empty_slot m)"

lemma empty_slot_free: "slot_free m (empty_slot m)"
  unfolding slot_free_def empty_slot_def by (auto split: option.split dest!: find_slotD find_slot_None)

lemma target_slot_empty: "sp_view m (target_slot m (empty_slot m)) = None"
  unfolding target_slot_def empty_slot_def by (auto simp: sp_view_def split: option.split dest!: find_slotD)

lemma insert_tuple_cases:
  assumes inv: "sp_inv m" and ne: "payload \<noteq> []" and small: "length payload < 2 ^ 32 - 8"
  shows "space_needed m payload \<le> unat (usable_space m) \<Longrightarrow>
      \<exists>m' rid. insert_tuple m payload = ok (m', Some rid) \<and> sp_inv m' \<and>
        rid = \<lparr>page_id = sp_page_id m, slot_num = word_of_nat (target_slot m (empty_slot m))\<rparr> \<and>
        sp_view m' = (sp_view m)(target_slot m (empty_slot m) := Some payload) \<and>
        sp_page_id m' = sp_page_id m \<and> get_next_page_id m' = get_next_page_id m"
    and "unat (usable_space m) < space_needed m payload \<Longrightarrow> insert_tuple m payload = ok (m, None)"
proof -
  define reuse where "reuse = empty_slot m"
  define needed where
    "needed = (word_of_nat (length payload) :: u32) + (if reuse = None then 8 else 0)"
  have un: "unat needed = space_needed m payload"
  proof -
    have l: "unat (word_of_nat (length payload) :: u32) = length payload"
      using small by (simp add: unat_of_nat)
    then have "unat (word_of_nat (length payload) + 8 :: u32) = length payload + 8"
      using small by (subst unat_word_ariths(1)) (simp add: l)
    with l show ?thesis
      by (cases reuse) (simp_all add: needed_def space_needed_def slot_cost_def reuse_def [symmetric])
  qed
  have scan: "scan_slots m 0 (nslots m) = ok reuse"
    using scan_slots_inv [OF inv] by (simp add: reuse_def empty_slot_def)
  have free: "slot_free m reuse" by (simp add: reuse_def empty_slot_free)
  have ins: "insert_tuple m payload =
    (if free_space_remaining m < needed then
       if needed \<le> usable_space m then
         res_bind (compact m) (\<lambda>m'.
         res_bind (place_tuple m' reuse payload) (\<lambda>(m'', rid). ok (m'', Some rid)))
       else ok (m, None)
     else res_bind (place_tuple m reuse payload) (\<lambda>(m'', rid). ok (m'', Some rid)))"
    by (simp only: insert_tuple_def scan res_bind_Inr Let_def needed_def)
  have le: "unat (free_space_remaining m) \<le> unat (usable_space m)"
    using sp_invD(2,3) [OF inv] by (simp add: unat_free_space [OF inv] unat_usable [OF inv])
  show "insert_tuple m payload = ok (m, None)"
    if "unat (usable_space m) < space_needed m payload"
    using that le un by (simp add: ins word_less_nat_alt word_le_nat_alt)
  assume fits: "space_needed m payload \<le> unat (usable_space m)"
  show "\<exists>m' rid. insert_tuple m payload = ok (m', Some rid) \<and> sp_inv m' \<and>
        rid = \<lparr>page_id = sp_page_id m, slot_num = word_of_nat (target_slot m (empty_slot m))\<rparr> \<and>
        sp_view m' = (sp_view m)(target_slot m (empty_slot m) := Some payload) \<and>
        sp_page_id m' = sp_page_id m \<and> get_next_page_id m' = get_next_page_id m"
  proof (cases "free_space_remaining m < needed")
    case False
    then have "length payload + slot_cost reuse \<le> unat (free_space_remaining m)"
      using un by (simp add: word_less_nat_alt space_needed_def reuse_def)
    from place_tuple_ok [OF inv free ne this] False show ?thesis
      by (auto simp: ins reuse_def)
  next
    case True
    obtain m1 where c: "compact m = ok m1" and inv1: "sp_inv m1" and v1: "sp_view m1 = sp_view m"
      and h1: "same_header m1 m" and sl1: "\<forall>i<nslots m. slot_length m1 i = slot_length m i"
      and d1: "dead_space m1 = 0" and lb1: "live_bytes m1 = live_bytes m"
      using compact_ok [OF inv] by auto
    have n1: "slot_count m1 = slot_count m" using h1 by (simp add: same_header_def)
    have free1: "slot_free m1 reuse" and t1: "target_slot m1 reuse = target_slot m reuse"
      using free sl1 n1 by (auto simp: slot_free_def target_slot_def split: option.splits)
    have "length payload + slot_cost reuse \<le> unat (free_space_remaining m1)"
      using fits sp_invD(3) [OF inv1] sp_invD(3) [OF inv] lb1 d1 n1
      by (simp add: space_needed_def reuse_def unat_usable [OF inv] unat_free_space [OF inv1])
    moreover have "needed \<le> usable_space m" using fits un by (simp add: word_le_nat_alt)
    ultimately show ?thesis
      using place_tuple_ok [OF inv1 free1 ne] True c v1 t1 h1
      by (auto simp: ins reuse_def same_header_def)
  qed
qed

end
