(* ===== verification/SlottedPage_Store.thy ===== *)
theory SlottedPage_Store
  imports SlottedPage_Contract
begin

section \<open>The slotted page as a store of payloads\<close>

text \<open>
  What the table code relies on: the locale \<open>slot_store\<close> speaks of payloads by slot number
  only. Its client lemmas cover sequences of insertions; the interpretation \<open>page\<close> shows that the
  byte-level operations meet the contract. The properties of slotted pages follow.
\<close>

subsection \<open>The interface\<close>

definition storable :: "u8 list \<Rightarrow> bool" where
  "storable bs \<longleftrightarrow> bs \<noteq> [] \<and> length bs < 2 ^ 32 - 8"

locale slot_store =
  fixes inv :: "'m \<Rightarrow> bool"
    and pid :: "'m \<Rightarrow> PageId"
    and view :: "'m \<Rightarrow> nat \<Rightarrow> u8 list option"
    and insert :: "'m \<Rightarrow> u8 list \<Rightarrow> ('m \<times> RecordId option) res"
    and fetch :: "'m \<Rightarrow> RecordId \<Rightarrow> u8 list res"
    and delete :: "'m \<Rightarrow> RecordId \<Rightarrow> 'm res"
  assumes insert_law: "inv m \<Longrightarrow> storable bs \<Longrightarrow>
      insert m bs = ok (m, None) \<or>
      (\<exists>m' rid. insert m bs = ok (m', Some rid) \<and> inv m' \<and> pid m' = pid m \<and> page_id rid = pid m \<and>
         view m (unat (slot_num rid)) = None \<and> view m' = (view m)(unat (slot_num rid) \<mapsto> bs))"
    and fetch_law: "inv m \<Longrightarrow> page_id rid = pid m \<Longrightarrow>
      (case view m (unat (slot_num rid)) of Some bs \<Rightarrow> fetch m rid = ok bs | None \<Rightarrow> \<exists>e. fetch m rid = throw e)"
    and delete_law: "inv m \<Longrightarrow> page_id rid = pid m \<Longrightarrow> view m (unat (slot_num rid)) \<noteq> None \<Longrightarrow>
      \<exists>m'. delete m rid = ok m' \<and> inv m' \<and> pid m' = pid m \<and>
         view m' = (view m)(unat (slot_num rid) := None)"
begin

lemma fetch_view: "inv m \<Longrightarrow> page_id rid = pid m \<Longrightarrow> view m (unat (slot_num rid)) = Some bs \<Longrightarrow> fetch m rid = ok bs"
  using fetch_law [of m rid] by simp

text \<open>Insertions in sequence: the final page and the record ids of the accepted payloads.\<close>

fun insert_all :: "'m \<Rightarrow> u8 list list \<Rightarrow> ('m \<times> (RecordId \<times> u8 list) list) res" where
  "insert_all m [] = ok (m, [])"
| "insert_all m (bs # bss) = res_bind (insert m bs) (\<lambda>(m', r).
     res_bind (insert_all m' bss) (\<lambda>(m'', rs). ok (m'', (case r of None \<Rightarrow> rs | Some rid \<Rightarrow> (rid, bs) # rs))))"

lemma insert_all_ok:
  assumes "inv m" and "\<forall>bs \<in> set bss. storable bs"
  shows "\<exists>m' rs. insert_all m bss = ok (m', rs) \<and> inv m' \<and> pid m' = pid m \<and>
    (\<forall>i bs. view m i = Some bs \<longrightarrow> view m' i = Some bs) \<and>
    (\<forall>(rid, bs) \<in> set rs. page_id rid = pid m \<and> view m (unat (slot_num rid)) = None \<and>
       view m' (unat (slot_num rid)) = Some bs) \<and> distinct (map fst rs)"
  using assms
proof (induction bss arbitrary: m)
  case (Cons bs bss)
  have bs: "storable bs" using Cons.prems(2) by simp
  from insert_law [OF Cons.prems(1) bs] show ?case
  proof (elim disjE exE conjE)
    assume "insert m bs = ok (m, None)"
    with Cons.IH [OF Cons.prems(1)] Cons.prems(2) show ?thesis by auto
  next
    fix m1 rid assume i: "insert m bs = ok (m1, Some rid)" "inv m1" "pid m1 = pid m" "page_id rid = pid m"
      "view m (unat (slot_num rid)) = None" "view m1 = (view m)(unat (slot_num rid) \<mapsto> bs)"
    from Cons.IH [OF i(2)] Cons.prems(2) obtain m' rs where
      r: "insert_all m1 bss = ok (m', rs)" "inv m'" "pid m' = pid m1"
        "\<forall>i bs. view m1 i = Some bs \<longrightarrow> view m' i = Some bs"
        "\<forall>(rid, bs) \<in> set rs. page_id rid = pid m1 \<and> view m1 (unat (slot_num rid)) = None \<and>
           view m' (unat (slot_num rid)) = Some bs" "distinct (map fst rs)"
      by auto
    let ?s = "unat (slot_num rid)"
    have fresh: "view m (unat (slot_num r)) = None \<and> unat (slot_num r) \<noteq> ?s" if "view m1 (unat (slot_num r)) = None" for r
      using that i(6) by (auto split: if_splits)
    have run: "insert_all m (bs # bss) = ok (m', (rid, bs) # rs)" by (simp add: i(1) r(1))
    have mono: "view m' i = Some x" if "view m i = Some x" for i x
      using r(4) i(5,6) that by (cases "i = ?s") simp_all
    have mine: "view m' ?s = Some bs" using r(4) i(6) by simp
    have rest: "page_id r' = pid m \<and> view m (unat (slot_num r')) = None \<and> view m' (unat (slot_num r')) = Some x \<and> r' \<noteq> rid"
      if "(r', x) \<in> set rs" for r' x
      using r(5) that fresh [of r'] i(3) by auto
    have "rid \<notin> fst ` set rs" using rest by (metis imageE prod.collapse)
    then have "distinct (map fst ((rid, bs) # rs))" using r(6) by simp
    with rest mine i(4,5) have "(\<forall>(r', x) \<in> set ((rid, bs) # rs). page_id r' = pid m \<and>
        view m (unat (slot_num r')) = None \<and> view m' (unat (slot_num r')) = Some x) \<and>
        distinct (map fst ((rid, bs) # rs))"
      by auto
    with run mono r(2,3) i(3) show ?thesis by auto
  qed
qed simp

lemma insert_all_fetch:
  assumes "inv m" and "\<forall>bs \<in> set bss. storable bs" and "insert_all m bss = ok (m', rs)"
  shows "distinct (map fst rs) \<and> (\<forall>(rid, bs) \<in> set rs. fetch m' rid = ok bs)"
    and "page_id r = pid m \<Longrightarrow> fetch m r = ok bs \<Longrightarrow> fetch m' r = ok bs"
proof -
  from insert_all_ok [OF assms(1,2)] assms(3) have
    i: "inv m'" "pid m' = pid m" "\<forall>i bs. view m i = Some bs \<longrightarrow> view m' i = Some bs"
      "\<forall>(rid, bs) \<in> set rs. page_id rid = pid m \<and> view m (unat (slot_num rid)) = None \<and>
         view m' (unat (slot_num rid)) = Some bs" "distinct (map fst rs)" by auto
  show "distinct (map fst rs) \<and> (\<forall>(rid, bs) \<in> set rs. fetch m' rid = ok bs)"
    using i fetch_view [OF i(1)] by (auto simp: i(2))
  assume r: "page_id r = pid m" "fetch m r = ok bs"
  with fetch_law [OF assms(1) r(1)] have "view m (unat (slot_num r)) = Some bs" by (auto split: option.splits)
  with i r(1) show "fetch m' r = ok bs" by (simp add: fetch_view)
qed

end

subsection \<open>The interpretation\<close>

lemma storable_slot: "sp_inv m \<Longrightarrow> target_slot m (empty_slot m) < 2 ^ 32"
  using nslots_bound [of m] unfolding target_slot_def empty_slot_def
  by (auto split: option.split dest!: find_slotD)

interpretation page: slot_store sp_inv sp_page_id sp_view insert_tuple sp_tuple delete_tuple
proof (unfold_locales, goal_cases)
  case (1 m bs)
  then have bs: "bs \<noteq> []" "length bs < 2 ^ 32 - 8" by (simp_all add: storable_def)
  let ?t = "target_slot m (empty_slot m)"
  have t: "unat (word_of_nat ?t :: u32) = ?t" using storable_slot [OF 1(1)] by (simp add: unat_of_nat)
  show ?case
  proof (cases "space_needed m bs \<le> unat (usable_space m)")
    case True
    from insert_tuple_cases(1) [OF 1(1) bs this] target_slot_empty [of m] t show ?thesis by fastforce
  next
    case False
    with insert_tuple_cases(2) [OF 1(1) bs] show ?thesis by simp
  qed
next
  case (2 m rid)
  then show ?case using sp_tuple_view [OF 2]
    by (auto simp: sp_view_def split: option.splits)
next
  case (3 m rid)
  then have "unat (slot_num rid) < nslots m" by (auto simp: sp_view_def split: if_splits)
  with 3 show ?case using delete_tuple_ok [of m rid] by auto
qed

subsection \<open>Properties\<close>

text \<open>A fresh page.\<close>

definition example_page :: pagebuf where
  "example_page = sp_init 3 (replicate PAGE_SIZE 0)"

lemma example_page_ok:
  "sp_inv example_page" "sp_page_id example_page = 3" "sp_view example_page = (\<lambda>_. None)"
  "slot_count example_page = 0" "get_next_page_id example_page = INVALID_PAGE_ID"
proof -
  have l: "length (replicate PAGE_SIZE (0 :: u8)) = PAGE_SIZE" by simp
  have "read_at 20 4 (replicate PAGE_SIZE (0 :: u8)) = [0, 0, 0, 0]"
    by (simp add: read_at_def PAGE_SIZE_def numeral_eq_Suc)
  then have d: "dead_space (replicate PAGE_SIZE 0) = 0" by (simp add: dead_space_def get_u32_def)
  show "sp_inv example_page" "sp_page_id example_page = 3" "sp_view example_page = (\<lambda>_. None)"
    "get_next_page_id example_page = INVALID_PAGE_ID"
    unfolding example_page_def by (rule sp_init_inv [OF l d])+
  show "slot_count example_page = 0"
    by (simp add: example_page_def sp_init_def Let_def buf_simps PAGE_SIZE_def)
qed



text \<open>
  C28. When insertion succeeds. A payload is accepted exactly when it and, if no deleted slot can be
  reused, its slot fit into the 4096 bytes beside the header, the slot array and the live payloads,
  however fragmented the page is; it goes to the lowest empty slot. A refused payload leaves the
  page as it was. No step of an insertion leaves the page or wraps around.
\<close>

theorem slotted_page_insert_iff_fits:
  assumes "sp_inv m" and "storable bs"
  shows "if 24 + 8 * nslots m + live_bytes m + space_needed m bs \<le> PAGE_SIZE
    then \<exists>m' rid. insert_tuple m bs = ok (m', Some rid) \<and> sp_inv m' \<and> page_id rid = sp_page_id m \<and>
      unat (slot_num rid) = (case empty_slot m of Some i \<Rightarrow> i | None \<Rightarrow> nslots m) \<and>
      sp_view m' = (sp_view m)(unat (slot_num rid) \<mapsto> bs)
    else insert_tuple m bs = ok (m, None)"
proof -
  have bs: "bs \<noteq> []" "length bs < 2 ^ 32 - 8" using assms(2) by (simp_all add: storable_def)
  have fit: "24 + 8 * nslots m + live_bytes m + space_needed m bs \<le> PAGE_SIZE \<longleftrightarrow>
      space_needed m bs \<le> unat (usable_space m)"
    using sp_invD(2,3) [OF assms(1)] by (auto simp: unat_usable [OF assms(1)] PAGE_SIZE_def)
  have t: "unat (word_of_nat (target_slot m (empty_slot m)) :: u32) = target_slot m (empty_slot m)"
    using storable_slot [OF assms(1)] by (simp add: unat_of_nat)
  show ?thesis
  proof (cases "space_needed m bs \<le> unat (usable_space m)")
    case True
    then show ?thesis
      using insert_tuple_cases(1) [OF assms(1) bs] t unfolding fit target_slot_def by (auto split: option.splits)
  next
    case False
    then show ?thesis using insert_tuple_cases(2) [OF assms(1) bs] unfolding fit by simp
  qed
qed

lemma slotted_page_insert_iff_fits_witness:
  "\<exists>m' rid. insert_tuple example_page [7, 8] = ok (m', Some rid) \<and> slot_num rid = 0"
proof -
  have "nslots example_page = 0" "live_bytes example_page = 0" "empty_slot example_page = None"
    by (simp_all add: example_page_ok live_bytes_def empty_slot_def)
  then have "24 + 8 * nslots example_page + live_bytes example_page + space_needed example_page [7, 8] \<le> PAGE_SIZE"
    by (simp add: space_needed_def slot_cost_def PAGE_SIZE_def)
  with slotted_page_insert_iff_fits [OF example_page_ok(1), of "[7, 8]"] \<open>nslots example_page = 0\<close>
    \<open>empty_slot example_page = None\<close>
  show ?thesis by (auto simp: storable_def unat_eq_0)
qed

text \<open>
  Deletion. Deleting a live tuple removes it and nothing else, keeps the page chain, and makes
  its space usable again: a payload that is no longer than the deleted one is accepted at once.
\<close>

theorem slotted_page_delete_reclaims:
  assumes "sp_inv m" and "page_id rid = sp_page_id m" and "sp_view m (unat (slot_num rid)) = Some old"
    and "storable bs" and "length bs \<le> length old"
  shows "\<exists>m' m'' rid'. delete_tuple m rid = ok m' \<and> sp_view m' = (sp_view m)(unat (slot_num rid) := None) \<and>
    get_next_page_id m' = get_next_page_id m \<and> is_slot_occupied m' (slot_num rid) = ok False \<and>
    insert_tuple m' bs = ok (m'', Some rid')"
proof -
  let ?i = "unat (slot_num rid)"
  have i: "?i < nslots m" "0 < slen m ?i" "length old = slen m ?i"
    using assms(3) slot_in_range(2) [OF assms(1), of ?i] sp_invD(1) [OF assms(1)]
    by (auto simp: sp_view_Some_iff)
  obtain m' where d: "delete_tuple m rid = ok m'" "sp_inv m'" "sp_view m' = (sp_view m)(?i := None)"
    "get_next_page_id m' = get_next_page_id m" "slot_count m' = slot_count m"
    "live_bytes m' + slen m ?i = live_bytes m" using delete_tuple_ok [OF assms(1,2) i(1)] by blast
  have empty: "sp_view m' ?i = None" using d(3) by simp
  then have "slot_length m' ?i = 0" using i(1) d(5) by (auto simp: sp_view_def unat_gt_0 split: if_splits)
  then have "empty_slot m' \<noteq> None" using i(1) d(5) by (auto simp: empty_slot_def find_None_iff)
  then have "space_needed m' bs = length bs" by (simp add: space_needed_def slot_cost_def)
  moreover have bs: "bs \<noteq> []" "length bs < 2 ^ 32 - 8" using assms(4) by (simp_all add: storable_def)
  moreover have "length bs \<le> unat (usable_space m')"
    using assms(5) i(3) d(5,6) sp_invD(2,3) [OF assms(1)] by (simp add: unat_usable [OF d(2)])
  ultimately show ?thesis
    using insert_tuple_cases(1) [OF d(2) bs] d(1,3,4) is_slot_occupied_view [OF d(2)] empty by auto
qed

lemma slotted_page_delete_reclaims_witness:
  "\<exists>m rid m' m'' rid'. insert_tuple example_page [7, 8] = ok (m, Some rid) \<and> delete_tuple m rid = ok m' \<and>
     insert_tuple m' [9] = ok (m'', Some rid')"
proof -
  have s: "storable [7, 8]" "storable [9]" by (simp_all add: storable_def)
  have "nslots example_page = 0" "live_bytes example_page = 0" "empty_slot example_page = None"
    by (simp_all add: example_page_ok live_bytes_def empty_slot_def)
  then have "space_needed example_page [7, 8] \<le> unat (usable_space example_page)"
    by (simp add: space_needed_def slot_cost_def unat_usable [OF example_page_ok(1)])
  from insert_tuple_cases(1) [OF example_page_ok(1) _ _ this] obtain m rid where
    m: "insert_tuple example_page [7, 8] = ok (m, Some rid)" "sp_inv m" "page_id rid = sp_page_id m"
      "unat (slot_num rid) = 0" "sp_view m 0 = Some [7, 8]"
    using \<open>nslots example_page = 0\<close> \<open>empty_slot example_page = None\<close> by (auto simp: target_slot_def)
  from slotted_page_delete_reclaims [OF m(2,3) _ s(2), of "[7, 8]"] m show ?thesis by auto
qed

text \<open>
  Compaction. It moves payloads only: every tuple, the page id, the chain and the counters stay,
  and all dead bytes become part of the contiguous free space.
\<close>

theorem slotted_page_compact_preserves:
  assumes "sp_inv m"
  shows "\<exists>m'. compact m = ok m' \<and> sp_inv m' \<and> (\<forall>rid. sp_tuple m' rid = sp_tuple m rid) \<and>
    get_next_page_id m' = get_next_page_id m \<and> tuple_count m' = tuple_count m \<and> dead_space m' = 0 \<and>
    unat (free_space_remaining m') = unat (free_space_remaining m) + unat (dead_space m)"
proof -
  from compact_ok [OF assms] obtain m' where m': "compact m = ok m'" "sp_inv m'" "sp_view m' = sp_view m"
    "same_header m' m" "dead_space m' = 0" "live_bytes m' = live_bytes m" by blast
  have h: "sp_page_id m' = sp_page_id m" "slot_count m' = slot_count m" "tuple_count m' = tuple_count m"
    "get_next_page_id m' = get_next_page_id m" using m'(4) by (simp_all add: same_header_def)
  have "sp_tuple m' rid = sp_tuple m rid" for rid
    by (cases "page_id rid = sp_page_id m")
      (simp_all add: sp_tuple_view [OF assms] sp_tuple_view [OF m'(2)] sp_tuple_wrong_page h m'(3))
  moreover have "unat (free_space_remaining m') = unat (free_space_remaining m) + unat (dead_space m)"
    using sp_invD(2,3) [OF assms] sp_invD(2,3) [OF m'(2)] m'(5,6) h(2)
    by (simp add: unat_free_space [OF assms] unat_free_space [OF m'(2)])
  ultimately show ?thesis using m'(1,2,5) h by blast
qed

lemma slotted_page_compact_preserves_witness:
  "\<exists>m'. compact example_page = ok m' \<and> tuple_count m' = tuple_count example_page"
  using slotted_page_compact_preserves [OF example_page_ok(1)] by blast

text \<open>
  init leaves the dead-space counter of the frame as it finds it. On a page image whose counter is
  not zero, usable_space of the empty page promises more bytes than there are.
\<close>

theorem slotted_page_init_keeps_dead_space:
  assumes "length m = PAGE_SIZE"
  shows "dead_space (sp_init pid m) = dead_space m \<and>
    free_space_remaining (sp_init pid m) = 4072 \<and> usable_space (sp_init pid m) = 4072 + dead_space m"
  using assms
  by (simp add: sp_init_def Let_def buf_simps PAGE_SIZE_def free_space_remaining_def usable_space_def)

lemma slotted_page_init_keeps_dead_space_witness:
  "usable_space (sp_init 1 (put_u32 20 100 (replicate PAGE_SIZE 0))) = 4172"
proof -
  have "length (put_u32 20 100 (replicate PAGE_SIZE 0)) = PAGE_SIZE" by (simp add: PAGE_SIZE_def buf_simps)
  from slotted_page_init_keeps_dead_space [OF this, of 1] show ?thesis by (simp add: buf_simps PAGE_SIZE_def)
qed

end
