(* ===== verification/Binary64.thy ===== *)
theory Binary64
  imports Prelude
begin

section \<open>Double precision arithmetic\<close>

text \<open>
  DECIMAL columns hold C++ doubles, IEEE 754 binary64 numbers on every platform the program
  builds for. A double is its 64 bits; an operation decodes its arguments, computes exactly on
  integers and rounds once, to nearest with ties to even. A NaN result is the canonical quiet NaN.
  The functions follow the standard's definitions of +, -, *, /, sqrt, trunc, the comparisons, the
  conversions from and to integers, and printf's %f.
\<close>

type_synonym dbl = u64

text \<open>A finite double is (-1)^s * m * 2^e.\<close>

datatype fp = NaN | Infinite bool | Finite bool int int

definition fp_decode :: "dbl \<Rightarrow> fp" where
  "fp_decode w =
     (let s = bit w 63;
          x = uint (take_bit 11 (drop_bit 52 w));
          f = uint (take_bit 52 w)
      in if x = 2047 then (if f = 0 then Infinite s else NaN)
         else if x = 0 then Finite s f (-1074)
         else Finite s (2 ^ 52 + f) (x - 1075))"

function bit_length :: "int \<Rightarrow> int" where
  "bit_length n = (if n \<le> 0 then 0 else 1 + bit_length (n div 2))"
  by auto
termination by (relation "measure nat") auto

declare bit_length.simps [simp del]

definition fp_pack :: "bool \<Rightarrow> int \<Rightarrow> int \<Rightarrow> dbl" where
  "fp_pack s x f = word_of_int ((if s then 2 ^ 63 else 0) + x * 2 ^ 52 + f)"

definition fp_nan :: dbl where "fp_nan = fp_pack False 2047 (2 ^ 51)"

text \<open>
  Rounding of (m + t) * 2^e, where t is 0 or, if \<open>sticky\<close>, some number between 0 and 1 (then m has
  at least 55 bits).
\<close>

definition fp_round :: "bool \<Rightarrow> int \<Rightarrow> int \<Rightarrow> bool \<Rightarrow> dbl" where
  "fp_round s m e sticky =
     (if m = 0 then fp_pack s 0 0
      else (let lsb = max (e + bit_length m - 53) (-1074);
                shift = lsb - e;
                m1 = (if shift \<le> 0 then m * 2 ^ nat (- shift)
                      else (let q = m div 2 ^ nat shift;
                                r = m mod 2 ^ nat shift;
                                half = 2 ^ (nat shift - 1)
                            in if r > half \<or> (r = half \<and> (sticky \<or> odd q)) then q + 1 else q));
                (m2, e2) = (if m1 = 2 ^ 53 then (2 ^ 52, lsb + 1) else (m1, lsb))
            in if m2 < 2 ^ 52 then fp_pack s 0 m2
               else if e2 > 971 then fp_pack s 2047 0
               else fp_pack s (e2 + 1075) (m2 - 2 ^ 52)))"

definition fp_of_int :: "int \<Rightarrow> dbl" where
  "fp_of_int i = fp_round (i < 0) \<bar>i\<bar> 0 False"

definition fp_neg :: "dbl \<Rightarrow> dbl" where
  "fp_neg w = flip_bit 63 w"

definition fp_add :: "dbl \<Rightarrow> dbl \<Rightarrow> dbl" where
  "fp_add x y = (case (fp_decode x, fp_decode y) of
     (NaN, _) \<Rightarrow> fp_nan
   | (_, NaN) \<Rightarrow> fp_nan
   | (Infinite s, Infinite t) \<Rightarrow> (if s = t then x else fp_nan)
   | (Infinite s, Finite _ _ _) \<Rightarrow> x
   | (Finite _ _ _, Infinite t) \<Rightarrow> y
   | (Finite s m e, Finite t n k) \<Rightarrow>
       (let g = min e k;
            a = (if s then - 1 else 1) * m * 2 ^ nat (e - g) + (if t then - 1 else 1) * n * 2 ^ nat (k - g)
        in if a = 0 then fp_pack (s \<and> t \<and> m = 0 \<and> n = 0) 0 0
           else fp_round (a < 0) \<bar>a\<bar> g False))"

definition fp_sub :: "dbl \<Rightarrow> dbl \<Rightarrow> dbl" where
  "fp_sub x y = (if fp_decode y = NaN then fp_nan else fp_add x (fp_neg y))"

definition fp_mul :: "dbl \<Rightarrow> dbl \<Rightarrow> dbl" where
  "fp_mul x y = (case (fp_decode x, fp_decode y) of
     (NaN, _) \<Rightarrow> fp_nan
   | (_, NaN) \<Rightarrow> fp_nan
   | (Infinite s, Infinite t) \<Rightarrow> fp_pack (s \<noteq> t) 2047 0
   | (Infinite s, Finite t n _) \<Rightarrow> (if n = 0 then fp_nan else fp_pack (s \<noteq> t) 2047 0)
   | (Finite s m _, Infinite t) \<Rightarrow> (if m = 0 then fp_nan else fp_pack (s \<noteq> t) 2047 0)
   | (Finite s m e, Finite t n k) \<Rightarrow> fp_round (s \<noteq> t) (m * n) (e + k) False)"

definition fp_div :: "dbl \<Rightarrow> dbl \<Rightarrow> dbl" where
  "fp_div x y = (case (fp_decode x, fp_decode y) of
     (NaN, _) \<Rightarrow> fp_nan
   | (_, NaN) \<Rightarrow> fp_nan
   | (Infinite s, Infinite t) \<Rightarrow> fp_nan
   | (Infinite s, Finite t _ _) \<Rightarrow> fp_pack (s \<noteq> t) 2047 0
   | (Finite s _ _, Infinite t) \<Rightarrow> fp_pack (s \<noteq> t) 0 0
   | (Finite s m e, Finite t n k) \<Rightarrow>
       (if n = 0 then (if m = 0 then fp_nan else fp_pack (s \<noteq> t) 2047 0)
        else (let p = 56 + bit_length n
              in fp_round (s \<noteq> t) (m * 2 ^ nat p div n) (e - k - p) (m * 2 ^ nat p mod n \<noteq> 0))))"

function isqrt :: "int \<Rightarrow> int" where
  "isqrt n = (if n \<le> 0 then 0 else (let r = 2 * isqrt (n div 4) in if (r + 1) * (r + 1) \<le> n then r + 1 else r))"
  by auto
termination by (relation "measure nat") auto

declare isqrt.simps [simp del]

definition fp_sqrt :: "dbl \<Rightarrow> dbl" where
  "fp_sqrt x = (case fp_decode x of
     NaN \<Rightarrow> fp_nan
   | Infinite s \<Rightarrow> (if s then fp_nan else x)
   | Finite s m e \<Rightarrow>
       (if m = 0 then x else if s then fp_nan
        else (let p = (if even e then 110 else 111);
                  n = m * 2 ^ nat p;
                  r = isqrt n
              in fp_round False r ((e - p) div 2) (r * r \<noteq> n))))"

definition fp_trunc :: "dbl \<Rightarrow> dbl" where
  "fp_trunc x = (case fp_decode x of
     NaN \<Rightarrow> fp_nan
   | Infinite s \<Rightarrow> x
   | Finite s m e \<Rightarrow> (if e \<ge> 0 then x else fp_round s (m div 2 ^ nat (- e)) 0 False))"

text \<open>The exact integer part, if there is one.\<close>

definition fp_to_int :: "dbl \<Rightarrow> int option" where
  "fp_to_int x = (case fp_decode x of
     Finite s m e \<Rightarrow> Some ((if s then - 1 else 1) *
       (if e \<ge> 0 then m * 2 ^ nat e else m div 2 ^ nat (- e)))
   | _ \<Rightarrow> None)"

text \<open>Comparison: None when an argument is a NaN, else the sign of x - y.\<close>

definition fp_compare :: "dbl \<Rightarrow> dbl \<Rightarrow> int option" where
  "fp_compare x y = (case (fp_decode x, fp_decode y) of
     (NaN, _) \<Rightarrow> None
   | (_, NaN) \<Rightarrow> None
   | (Infinite s, Infinite t) \<Rightarrow> Some ((if s then - 1 else 1) - (if t then - 1 else 1))
   | (Infinite s, Finite _ _ _) \<Rightarrow> Some (if s then - 1 else 1)
   | (Finite _ _ _, Infinite t) \<Rightarrow> Some (if t then 1 else - 1)
   | (Finite s m e, Finite t n k) \<Rightarrow>
       (let g = min e k
        in Some (sgn ((if s then - 1 else 1) * m * 2 ^ nat (e - g) - (if t then - 1 else 1) * n * 2 ^ nat (k - g)))))"

definition fp_eq :: "dbl \<Rightarrow> dbl \<Rightarrow> bool" where "fp_eq x y \<longleftrightarrow> fp_compare x y = Some 0"
definition fp_less :: "dbl \<Rightarrow> dbl \<Rightarrow> bool" where
  "fp_less x y = (case fp_compare x y of Some c \<Rightarrow> c < 0 | None \<Rightarrow> False)"
definition fp_less_eq :: "dbl \<Rightarrow> dbl \<Rightarrow> bool" where
  "fp_less_eq x y = (case fp_compare x y of Some c \<Rightarrow> c \<le> 0 | None \<Rightarrow> False)"

subsection \<open>Decimal output\<close>

definition digit_char :: "int \<Rightarrow> char" where
  "digit_char d = char_of (48 + d)"

text \<open>The decimal digits of a number that is not negative.\<close>

function digits :: "int \<Rightarrow> string" where
  "digits n = (if n < 10 then [digit_char n] else digits (n div 10) @ [digit_char (n mod 10)])"
  by auto
termination by (relation "measure nat") auto

declare digits.simps [simp del]

text \<open>std::to_string of an integer, and %0kd of a natural number.\<close>

definition int_to_string :: "int \<Rightarrow> string" where
  "int_to_string i = (if i < 0 then ''-'' else []) @ digits \<bar>i\<bar>"

definition zero_padded :: "nat \<Rightarrow> int \<Rightarrow> string" where
  "zero_padded k n = replicate (k - length (digits n)) CHR ''0'' @ digits n"

text \<open>Six digits after the point, rounded half to even from the exact value.\<close>

definition fp_to_string :: "dbl \<Rightarrow> string" where
  "fp_to_string x = (case fp_decode x of
     NaN \<Rightarrow> ''nan''
   | Infinite s \<Rightarrow> (if s then ''-inf'' else ''inf'')
   | Finite s m e \<Rightarrow>
       (let n = m * 10 ^ 6;
            u = (if e \<ge> 0 then n * 2 ^ nat e
                 else (let q = n div 2 ^ nat (- e);
                           r = n mod 2 ^ nat (- e);
                           half = 2 ^ (nat (- e) - 1)
                       in if r > half \<or> (r = half \<and> odd q) then q + 1 else q))
        in (if s then ''-'' else []) @ digits (u div 10 ^ 6) @ ''.'' @ zero_padded 6 (u mod 10 ^ 6)))"

end
