(* ===== verification/Values.thy ===== *)
theory Values
  imports Bytes Binary64
begin

section \<open>Values\<close>

text \<open>
  include/turtle/datatype/data_types.hpp, limits.hpp, value.hpp and src/datatype/value.cpp. A Value
  is a type tag, the length field whose value UINT_MAX means NULL, and a union of eight bytes.
  Each constructor writes one member of the union; \<open>init\<close> is the number of low bytes that hold a
  value, and reading a member beyond them reads indeterminate bytes (\<open>Undefined\<close>). For a VARCHAR
  the union holds a pointer; \<open>varlen\<close> is the allocation it points to, from the pointer on.
\<close>

datatype DataType = INVALID | BOOLEAN | INTEGER | TINYINT | SMALLINT | BIGINT | DECIMAL | VARCHAR | TIMESTAMP

datatype CmpBool = CmpFalse | CmpTrue | CmpNull

subsection \<open>Limits\<close>

definition TURTLE_VALUE_NULL :: u32 where "TURTLE_VALUE_NULL = - 1"

definition int_null :: "nat \<Rightarrow> int" where "int_null n = - (2 ^ (8 * n - 1))"
definition int_min :: "nat \<Rightarrow> int" where "int_min n = - (2 ^ (8 * n - 1)) + 1"
definition int_max :: "nat \<Rightarrow> int" where "int_max n = 2 ^ (8 * n - 1) - 1"

text \<open>\<open>std::numeric_limits<double>::lowest()\<close>.\<close>

definition TURTLE_DECIMAL_NULL :: dbl where "TURTLE_DECIMAL_NULL = fp_pack True 2046 (2 ^ 52 - 1)"

definition TURTLE_TIMESTAMP_NULL :: u64 where "TURTLE_TIMESTAMP_NULL = - 1"

subsection \<open>Value\<close>

record Value =
  data_type :: DataType
  len :: u32
  raw :: u64
  init :: nat
  varlen :: "u8 list"

definition is_null :: "Value \<Rightarrow> bool" where
  "is_null v \<longleftrightarrow> len v = TURTLE_VALUE_NULL"

text \<open>\<open>Value(DataType)\<close>: NULL, with nothing in the union.\<close>

definition Value_null :: "DataType \<Rightarrow> Value" where
  "Value_null t = \<lparr>data_type = t, len = TURTLE_VALUE_NULL, raw = 0, init = 0, varlen = []\<rparr>"

text \<open>The constructors from int8_t, int16_t, int32_t and int64_t; n is the size in bytes.\<close>

definition Value_int :: "nat \<Rightarrow> DataType \<Rightarrow> int \<Rightarrow> Value" where
  "Value_int n t i = \<lparr>data_type = t, len = (if i = int_null n then TURTLE_VALUE_NULL else 0),
     raw = word_of_int (take_bit (8 * n) i), init = n, varlen = []\<rparr>"

definition Value_int8 :: "DataType \<Rightarrow> int \<Rightarrow> Value" where "Value_int8 = Value_int 1"
definition Value_int16 :: "DataType \<Rightarrow> int \<Rightarrow> Value" where "Value_int16 = Value_int 2"
definition Value_int32 :: "DataType \<Rightarrow> int \<Rightarrow> Value" where "Value_int32 = Value_int 4"
definition Value_int64 :: "DataType \<Rightarrow> int \<Rightarrow> Value" where "Value_int64 = Value_int 8"

definition Value_double :: "DataType \<Rightarrow> dbl \<Rightarrow> Value" where
  "Value_double t d = \<lparr>data_type = t, len = (if fp_eq d TURTLE_DECIMAL_NULL then TURTLE_VALUE_NULL else 0),
     raw = d, init = 8, varlen = []\<rparr>"

definition Value_uint64 :: "DataType \<Rightarrow> u64 \<Rightarrow> Value" where
  "Value_uint64 t w = \<lparr>data_type = t, len = (if w = TURTLE_TIMESTAMP_NULL then TURTLE_VALUE_NULL else 0),
     raw = w, init = 8, varlen = []\<rparr>"

text \<open>
  The character array constructor: None is a null pointer, Some the memory from the pointer on. With
  manage_data the bytes are copied to an allocation of their own, which reads all of them.
\<close>

definition Value_chars :: "DataType \<Rightarrow> u8 list option \<Rightarrow> u32 \<Rightarrow> bool \<Rightarrow> Value res" where
  "Value_chars t data n manage = (case data of
     None \<Rightarrow> ok (Value_null t)
   | Some bs \<Rightarrow>
       if manage \<and> length bs < unat n then throw (Undefined ''read past the end of the array'')
       else ok \<lparr>data_type = t, len = n, raw = 0, init = 0, varlen = (if manage then take (unat n) bs else bs)\<rparr>)"

definition Value_string :: "DataType \<Rightarrow> u8 list \<Rightarrow> Value" where
  "Value_string t s = \<lparr>data_type = t, len = word_of_nat (length s), raw = 0, init = 0, varlen = s @ [0]\<rparr>"

text \<open>\<open>get_as<T>\<close> for the integer types of n bytes, for double and for uint64_t.\<close>

definition get_as_int :: "nat \<Rightarrow> Value \<Rightarrow> int res" where
  "get_as_int n v = (if init v < n then throw (Undefined ''indeterminate bytes'')
     else ok (signed_take_bit (8 * n - 1) (uint (raw v))))"

definition get_as_double :: "Value \<Rightarrow> dbl res" where
  "get_as_double v = (if init v < 8 then throw (Undefined ''indeterminate bytes'') else ok (raw v))"

definition get_as_uint64 :: "Value \<Rightarrow> u64 res" where
  "get_as_uint64 v = (if init v < 8 then throw (Undefined ''indeterminate bytes'') else ok (raw v))"

definition check_integer :: "Value \<Rightarrow> bool" where
  "check_integer v \<longleftrightarrow> data_type v = TINYINT \<or> data_type v = SMALLINT \<or> data_type v = INTEGER \<or> data_type v = BIGINT"

definition check_comparable :: "Value \<Rightarrow> Value \<Rightarrow> bool" where
  "check_comparable v o' \<longleftrightarrow> data_type v = data_type o' \<or> check_integer v \<and> check_integer o'"

definition get_cmp_bool :: "bool \<Rightarrow> CmpBool" where
  "get_cmp_bool state = (if state then CmpTrue else CmpFalse)"

subsection \<open>Operators\<close>

text \<open>The operator tokens that the macros of the type classes are instantiated with.\<close>

datatype cmp_op = EQ | NE | LT | LE | GT | GE
datatype arith_op = Plus | Minus | Times | Divided | Modulo

fun cmp_linorder :: "cmp_op \<Rightarrow> 'a :: linorder \<Rightarrow> 'a \<Rightarrow> bool" where
  "cmp_linorder EQ x y \<longleftrightarrow> x = y"
| "cmp_linorder NE x y \<longleftrightarrow> x \<noteq> y"
| "cmp_linorder LT x y \<longleftrightarrow> x < y"
| "cmp_linorder LE x y \<longleftrightarrow> x \<le> y"
| "cmp_linorder GT x y \<longleftrightarrow> x > y"
| "cmp_linorder GE x y \<longleftrightarrow> x \<ge> y"

fun cmp_double :: "cmp_op \<Rightarrow> dbl \<Rightarrow> dbl \<Rightarrow> bool" where
  "cmp_double EQ x y \<longleftrightarrow> fp_eq x y"
| "cmp_double NE x y \<longleftrightarrow> \<not> fp_eq x y"
| "cmp_double LT x y \<longleftrightarrow> fp_less x y"
| "cmp_double LE x y \<longleftrightarrow> fp_less_eq x y"
| "cmp_double GT x y \<longleftrightarrow> fp_less y x"
| "cmp_double GE x y \<longleftrightarrow> fp_less_eq y x"

text \<open>\<open>NumericType::val_mod\<close>.\<close>

definition val_mod :: "dbl \<Rightarrow> dbl \<Rightarrow> dbl" where
  "val_mod x y = fp_sub x (fp_mul (fp_trunc (fp_div x y)) y)"

fun arith_double :: "arith_op \<Rightarrow> dbl \<Rightarrow> dbl \<Rightarrow> dbl" where
  "arith_double Plus x y = fp_add x y"
| "arith_double Minus x y = fp_sub x y"
| "arith_double Times x y = fp_mul x y"
| "arith_double Divided x y = fp_div x y"
| "arith_double Modulo x y = val_mod x y"

subsection \<open>Facts\<close>

lemma data_type_ctors [simp]:
  "data_type (Value_null t) = t" "data_type (Value_int n t i) = t" "data_type (Value_double t d) = t"
  "data_type (Value_uint64 t w) = t" "data_type (Value_string t s) = t"
  by (simp_all add: Value_null_def Value_int_def Value_double_def Value_uint64_def Value_string_def)

lemma init_ctors [simp]: "init (Value_int n t i) = n" "init (Value_double t d) = 8" "init (Value_uint64 t w) = 8"
  by (simp_all add: Value_int_def Value_double_def Value_uint64_def)

lemma is_null_ctors [simp]:
  "is_null (Value_null t)" "is_null (Value_int n t i) \<longleftrightarrow> i = int_null n"
  "is_null (Value_double t d) \<longleftrightarrow> fp_eq d TURTLE_DECIMAL_NULL"
  "is_null (Value_uint64 t w) \<longleftrightarrow> w = TURTLE_TIMESTAMP_NULL"
  by (simp_all add: is_null_def Value_null_def Value_int_def Value_double_def Value_uint64_def TURTLE_VALUE_NULL_def)

lemma get_as_int_ctor:
  assumes "n \<in> {1, 2, 4, 8}" and "int_null n \<le> i" and "i \<le> int_max n"
  shows "get_as_int n (Value_int n t i) = ok i"
proof -
  have "signed_take_bit (8 * n - 1) (uint (word_of_int (take_bit (8 * n) i) :: u64)) = signed_take_bit (8 * n - 1) i"
    using assms(1) by (auto simp: uint_word_of_int_eq signed_take_bit_take_bit)
  also have "\<dots> = i"
    using assms(1) assms(2,3) by (auto simp: int_null_def int_max_def signed_take_bit_int_eq_self_iff)
  finally show ?thesis by (simp add: get_as_int_def Value_int_def)
qed

lemma get_as_int_range:
  assumes "get_as_int n v = ok i" and "0 < n"
  shows "int_null n \<le> i" and "i \<le> int_max n"
  using assms signed_take_bit_int_less_exp [of "8 * n - 1" "uint (raw v)"]
    signed_take_bit_int_greater_eq_minus_exp [of "8 * n - 1" "uint (raw v)"]
  by (auto simp: get_as_int_def int_null_def int_max_def split: if_splits)

lemma get_as_double_ctor [simp]: "get_as_double (Value_double t d) = ok d"
  and get_as_uint64_ctor [simp]: "get_as_uint64 (Value_uint64 t w) = ok w"
  by (simp_all add: get_as_double_def get_as_uint64_def Value_double_def Value_uint64_def)

end
