(* ===== verification/TypeInstances.thy ===== *)
theory TypeInstances
  imports Values "HOL-Library.List_Lexorder"
begin

section \<open>The type classes: representation\<close>

text \<open>
  One group per class under src/datatype: reading zero, copying, NULL results, printing, storage.
  Functions that a class does not override are those of the base class Type, which throw. The
  last part is the dispatch through \<open>Type::k_types\<close>; INVALID has no instance there, and a call
  through the null pointer is undefined.
\<close>

definition bytes_of :: "string \<Rightarrow> u8 list" where "bytes_of s = map of_char s"
definition string_of :: "u8 list \<Rightarrow> string" where "string_of bs = map (\<lambda>b. char_of (unat b)) bs"

lemma string_of_bytes_of: "string_of (bytes_of s) = s"
proof -
  have "char_of (unat (of_char c :: u8)) = c" for c :: char
  proof -
    have "(of_char c :: u8) = word_of_nat (of_char c)" by (simp only: of_nat_of_char)
    moreover have "unat (word_of_nat (of_char c) :: u8) = of_char c" by (simp add: unat_of_nat)
    ultimately have "unat (of_char c :: u8) = of_char c" by simp
    then show ?thesis by simp
  qed
  then show ?thesis by (simp add: string_of_def bytes_of_def map_idI)
qed

definition not_implemented :: error where "not_implemented = Runtime_error ''Not implemented''"

abbreviation null_instance :: error where "null_instance \<equiv> Undefined ''call through a null Type pointer''"

abbreviation type_error :: error where "type_error \<equiv> exception_msg ''type error''"
abbreviation type_error_rt :: error where "type_error_rt \<equiv> Runtime_error ''type error''"

fun data_type_to_string :: "DataType \<Rightarrow> string" where
  "data_type_to_string INVALID = ''INVALID''"
| "data_type_to_string BOOLEAN = ''BOOLEAN''"
| "data_type_to_string INTEGER = ''INTEGER''"
| "data_type_to_string TINYINT = ''TINYINT''"
| "data_type_to_string SMALLINT = ''SMALLINT''"
| "data_type_to_string BIGINT = ''BIGINT''"
| "data_type_to_string DECIMAL = ''DECIMAL''"
| "data_type_to_string VARCHAR = ''VARCHAR''"
| "data_type_to_string TIMESTAMP = ''TIMESTAMP''"

fun get_type_size :: "DataType \<Rightarrow> nat res" where
  "get_type_size BOOLEAN = ok 1"
| "get_type_size TINYINT = ok 1"
| "get_type_size SMALLINT = ok 2"
| "get_type_size INTEGER = ok 4"
| "get_type_size BIGINT = ok 8"
| "get_type_size TIMESTAMP = ok 8"
| "get_type_size DECIMAL = ok 8"
| "get_type_size _ = throw (Exception INCOMPATIBLE_TYPE ''unsupported type'')"

text \<open>\<open>Type::get_common_type\<close>: the wider of two numeric types, by rank.\<close>

fun type_rank :: "DataType \<Rightarrow> nat option" where
  "type_rank TINYINT = Some 1"
| "type_rank SMALLINT = Some 2"
| "type_rank INTEGER = Some 3"
| "type_rank BIGINT = Some 4"
| "type_rank DECIMAL = Some 5"
| "type_rank _ = None"

definition get_common_type :: "DataType \<Rightarrow> DataType \<Rightarrow> DataType res" where
  "get_common_type t1 t2 = (if t1 = t2 then ok t1
     else case (type_rank t1, type_rank t2) of
       (Some r1, Some r2) \<Rightarrow> ok (if r1 \<ge> r2 then t1 else t2)
     | _ \<Rightarrow> throw (Exception NOT_IMPLEMENTED ''Incompatible types for numeric operation''))"

subsection \<open>Storage\<close>

text \<open>Storing the n bytes of an integer member, and loading them.\<close>

definition store_int :: "nat \<Rightarrow> Value \<Rightarrow> u8 list res" where
  "store_int n v = (if init v < n then throw (Undefined ''indeterminate bytes'')
     else ok (le_bytes n (unat (raw v))))"

definition load_bytes :: "nat \<Rightarrow> u8 list \<Rightarrow> nat res" where
  "load_bytes n storage = (if length storage < n then throw (Undefined ''read past the storage'')
     else ok (le_nat (take n storage)))"

definition load_int :: "nat \<Rightarrow> u8 list \<Rightarrow> int res" where
  "load_int n storage = res_bind (load_bytes n storage) (\<lambda>x. ok (signed_take_bit (8 * n - 1) (int x)))"

subsection \<open>TinyintType\<close>

definition tinyint_to_string :: "Value \<Rightarrow> string res" where
  "tinyint_to_string v = res_bind (assert_that (check_integer v)) (\<lambda>_.
     if is_null v then ok ''tinyint_null''
     else res_bind (get_as_int 1 v) (\<lambda>i. ok (int_to_string i)))"

definition tinyint_serialize :: "Value \<Rightarrow> u8 list res" where
  "tinyint_serialize = store_int 1"

text \<open>The loaded byte goes through an int16_t variable, so the int16_t constructor is chosen.\<close>

definition tinyint_deserialize :: "u8 list \<Rightarrow> Value res" where
  "tinyint_deserialize storage = res_bind (load_int 1 storage) (\<lambda>i. ok (Value_int16 TINYINT i))"

definition tinyint_copy :: "Value \<Rightarrow> Value res" where
  "tinyint_copy v = res_bind (assert_that (check_integer v)) (\<lambda>_.
     res_bind (get_as_int 1 v) (\<lambda>i. ok (Value_int8 TINYINT i)))"

definition tinyint_operate_null :: "Value \<Rightarrow> Value \<Rightarrow> Value res" where
  "tinyint_operate_null left right = (case data_type right of
     TINYINT \<Rightarrow> ok (Value_int8 TINYINT (int_null 1))
   | SMALLINT \<Rightarrow> ok (Value_int16 INTEGER (int_null 2))
   | INTEGER \<Rightarrow> ok (Value_int32 INTEGER (int_null 4))
   | BIGINT \<Rightarrow> ok (Value_int64 BIGINT (int_null 8))
   | DECIMAL \<Rightarrow> ok (Value_double DECIMAL TURTLE_DECIMAL_NULL)
   | _ \<Rightarrow> throw type_error)"

definition tinyint_is_zero :: "Value \<Rightarrow> bool res" where
  "tinyint_is_zero v = res_bind (get_as_int 1 v) (\<lambda>i. ok (i = 0))"

subsection \<open>SmallintType\<close>

definition smallint_to_string :: "Value \<Rightarrow> string res" where
  "smallint_to_string v = res_bind (assert_that (check_integer v)) (\<lambda>_. case data_type v of
     TINYINT \<Rightarrow> if is_null v then ok ''tinyint_null'' else res_bind (get_as_int 1 v) (\<lambda>i. ok (int_to_string i))
   | SMALLINT \<Rightarrow> if is_null v then ok ''smallint_null'' else res_bind (get_as_int 2 v) (\<lambda>i. ok (int_to_string i))
   | INTEGER \<Rightarrow> if is_null v then ok ''integer_null'' else res_bind (get_as_int 4 v) (\<lambda>i. ok (int_to_string i))
   | BIGINT \<Rightarrow> if is_null v then ok ''bigint_null'' else res_bind (get_as_int 8 v) (\<lambda>i. ok (int_to_string i))
   | _ \<Rightarrow> throw type_error)"

definition smallint_serialize :: "Value \<Rightarrow> u8 list res" where
  "smallint_serialize = store_int 2"

definition smallint_deserialize :: "u8 list \<Rightarrow> Value res" where
  "smallint_deserialize storage = res_bind (load_int 2 storage) (\<lambda>i. ok (Value_int16 SMALLINT i))"

definition smallint_copy :: "Value \<Rightarrow> Value res" where
  "smallint_copy v = res_bind (assert_that (check_integer v)) (\<lambda>_.
     res_bind (get_as_int 2 v) (\<lambda>i. ok (Value_int16 SMALLINT i)))"

definition smallint_operate_null :: "Value \<Rightarrow> Value \<Rightarrow> Value res" where
  "smallint_operate_null left right = (case data_type right of
     TINYINT \<Rightarrow> ok (Value_int16 SMALLINT (int_null 2))
   | SMALLINT \<Rightarrow> ok (Value_int16 SMALLINT (int_null 2))
   | INTEGER \<Rightarrow> ok (Value_int32 INTEGER (int_null 4))
   | BIGINT \<Rightarrow> ok (Value_int64 BIGINT (int_null 8))
   | DECIMAL \<Rightarrow> ok (Value_double DECIMAL TURTLE_DECIMAL_NULL)
   | _ \<Rightarrow> throw type_error)"

definition smallint_is_zero :: "Value \<Rightarrow> bool res" where
  "smallint_is_zero v = res_bind (get_as_int 2 v) (\<lambda>i. ok (i = 0))"

subsection \<open>IntegerType\<close>

definition integer_to_string :: "Value \<Rightarrow> string res" where
  "integer_to_string v = res_bind (assert_that (check_integer v)) (\<lambda>_.
     if is_null v then ok ''integer_null''
     else res_bind (get_as_int 4 v) (\<lambda>i. ok (int_to_string i)))"

definition integer_serialize :: "Value \<Rightarrow> u8 list res" where
  "integer_serialize = store_int 4"

definition integer_deserialize :: "u8 list \<Rightarrow> Value res" where
  "integer_deserialize storage = res_bind (load_int 4 storage) (\<lambda>i. ok (Value_int32 INTEGER i))"

definition integer_copy :: "Value \<Rightarrow> Value res" where
  "integer_copy v = res_bind (assert_that (check_integer v)) (\<lambda>_.
     res_bind (get_as_int 4 v) (\<lambda>i. ok (Value_int32 (data_type v) i)))"

definition integer_operate_null :: "Value \<Rightarrow> Value \<Rightarrow> Value res" where
  "integer_operate_null left right = (case data_type right of
     TINYINT \<Rightarrow> ok (Value_int32 INTEGER (int_null 4))
   | SMALLINT \<Rightarrow> ok (Value_int32 INTEGER (int_null 4))
   | INTEGER \<Rightarrow> ok (Value_int32 INTEGER (int_null 4))
   | BIGINT \<Rightarrow> ok (Value_int64 BIGINT (int_null 8))
   | DECIMAL \<Rightarrow> ok (Value_double DECIMAL TURTLE_DECIMAL_NULL)
   | _ \<Rightarrow> throw type_error_rt)"

definition integer_is_zero :: "Value \<Rightarrow> bool res" where
  "integer_is_zero v = res_bind (get_as_int 4 v) (\<lambda>i. ok (i = 0))"

subsection \<open>BigintType\<close>

definition bigint_to_string :: "Value \<Rightarrow> string res" where
  "bigint_to_string v = res_bind (assert_that (check_integer v)) (\<lambda>_.
     if is_null v then ok ''bigint_null''
     else res_bind (get_as_int 8 v) (\<lambda>i. ok (int_to_string i)))"

definition bigint_serialize :: "Value \<Rightarrow> u8 list res" where
  "bigint_serialize = store_int 8"

definition bigint_deserialize :: "u8 list \<Rightarrow> Value res" where
  "bigint_deserialize storage = res_bind (load_int 8 storage) (\<lambda>i. ok (Value_int64 BIGINT i))"

definition bigint_copy :: "Value \<Rightarrow> Value res" where
  "bigint_copy v = res_bind (get_as_int 8 v) (\<lambda>i. ok (Value_int64 BIGINT i))"

definition bigint_operate_null :: "Value \<Rightarrow> Value \<Rightarrow> Value res" where
  "bigint_operate_null left right = (case data_type right of
     TINYINT \<Rightarrow> ok (Value_int64 BIGINT (int_null 8))
   | SMALLINT \<Rightarrow> ok (Value_int64 BIGINT (int_null 8))
   | INTEGER \<Rightarrow> ok (Value_int64 BIGINT (int_null 8))
   | BIGINT \<Rightarrow> ok (Value_int64 BIGINT (int_null 8))
   | DECIMAL \<Rightarrow> ok (Value_double DECIMAL TURTLE_DECIMAL_NULL)
   | _ \<Rightarrow> throw type_error)"

definition bigint_is_zero :: "Value \<Rightarrow> bool res" where
  "bigint_is_zero v = res_bind (get_as_int 8 v) (\<lambda>i. ok (i = 0))"

subsection \<open>DecimalType\<close>

definition decimal_to_string :: "Value \<Rightarrow> string res" where
  "decimal_to_string v = (if is_null v then ok ''decimal_null''
     else res_bind (get_as_double v) (\<lambda>d. ok (fp_to_string d)))"

definition decimal_serialize :: "Value \<Rightarrow> u8 list res" where
  "decimal_serialize = store_int 8"

definition decimal_deserialize :: "u8 list \<Rightarrow> Value res" where
  "decimal_deserialize storage = res_bind (load_bytes 8 storage) (\<lambda>x. ok (Value_double DECIMAL (word_of_nat x)))"

definition decimal_copy :: "Value \<Rightarrow> Value res" where
  "decimal_copy v = res_bind (get_as_double v) (\<lambda>d. ok (Value_double DECIMAL d))"

definition decimal_operate_null :: "Value \<Rightarrow> Value \<Rightarrow> Value res" where
  "decimal_operate_null left right = ok (Value_double DECIMAL TURTLE_DECIMAL_NULL)"

definition decimal_is_zero :: "Value \<Rightarrow> bool res" where
  "decimal_is_zero v = res_bind (get_as_double v) (\<lambda>d. ok (fp_eq d (fp_of_int 0)))"

subsection \<open>BooleanType\<close>

definition boolean_to_string :: "Value \<Rightarrow> string res" where
  "boolean_to_string v = res_bind (get_as_int 1 v) (\<lambda>i.
     ok (if i = 1 then ''true'' else if i = 0 then ''false'' else ''boolean_null''))"

definition boolean_serialize :: "Value \<Rightarrow> u8 list res" where
  "boolean_serialize = store_int 1"

definition boolean_deserialize :: "u8 list \<Rightarrow> Value res" where
  "boolean_deserialize storage = res_bind (load_int 1 storage) (\<lambda>i. ok (Value_int8 BOOLEAN i))"

definition boolean_copy :: "Value \<Rightarrow> Value res" where
  "boolean_copy v = res_bind (get_as_int 1 v) (\<lambda>i. ok (Value_int8 BOOLEAN i))"

subsection \<open>VarcharType\<close>

definition varchar_get_storage_size :: "Value \<Rightarrow> u32" where
  "varchar_get_storage_size v = (if is_null v then 4 else len v + 4)"

text \<open>\<open>val.data()\<close> dispatches on the type of val; every other class throws.\<close>

fun get_data_error :: "DataType \<Rightarrow> error option" where
  "get_data_error VARCHAR = None"
| "get_data_error INTEGER = Some (Runtime_error ''get_data() should not be called on inlined Integer types.'')"
| "get_data_error BIGINT = Some (Runtime_error ''get_data() should not be called on inlined Bigint types.'')"
| "get_data_error BOOLEAN = Some (Runtime_error ''get_data() should not be called on inlined Boolean types.'')"
| "get_data_error TIMESTAMP = Some (Runtime_error ''get_data() should not be called on inlined Timestamp types.'')"
| "get_data_error INVALID = Some null_instance"
| "get_data_error _ = Some not_implemented"

text \<open>\<open>std::string(val.data(), n)\<close>: n bytes read from the pointer.\<close>

definition varchar_chars :: "Value \<Rightarrow> u32 \<Rightarrow> u8 list res" where
  "varchar_chars v n = (case get_data_error (data_type v) of
     Some e \<Rightarrow> throw e
   | None \<Rightarrow> if length (varlen v) < unat n then throw (Undefined ''read past the string'')
       else ok (take (unat n) (varlen v)))"

definition varchar_string :: "Value \<Rightarrow> u8 list res" where
  "varchar_string v = varchar_chars v (varchar_get_storage_size v - 4)"

definition varchar_to_string :: "Value \<Rightarrow> string res" where
  "varchar_to_string v = (if is_null v then ok ''varchar_null''
     else res_bind (varchar_string v) (\<lambda>bs. ok (string_of bs)))"

definition varchar_serialize :: "Value \<Rightarrow> u8 list res" where
  "varchar_serialize v = (if is_null v then ok (le_bytes 4 0)
     else res_bind (varchar_chars v (len v)) (\<lambda>bs. ok (le_bytes 4 (unat (len v)) @ bs)))"

definition varchar_deserialize :: "u8 list \<Rightarrow> Value res" where
  "varchar_deserialize storage = res_bind (load_bytes 4 storage) (\<lambda>n.
     if n = 0 then ok (Value_null VARCHAR)
     else Value_chars VARCHAR (Some (drop 4 storage)) (word_of_nat n) False)"

text \<open>The copy reads storage_size() bytes, four more than the string has.\<close>

definition varchar_copy :: "Value \<Rightarrow> Value res" where
  "varchar_copy v = (if is_null v then ok (Value_null VARCHAR)
     else let n = varchar_get_storage_size v
          in res_bind (varchar_chars v n) (\<lambda>buf. Value_chars VARCHAR (Some buf) n True))"

definition varchar_compare :: "cmp_op \<Rightarrow> Value \<Rightarrow> Value \<Rightarrow> CmpBool res" where
  "varchar_compare op left right = (if is_null left \<or> is_null right then ok CmpNull
     else res_bind (varchar_string left) (\<lambda>left_str.
          res_bind (varchar_string right) (\<lambda>right_str.
          ok (get_cmp_bool (cmp_linorder op left_str right_str)))))"

definition varchar_cast_as :: "Value \<Rightarrow> DataType \<Rightarrow> Value res" where
  "varchar_cast_as v t = (if is_null v then ok (Value_null t)
     else throw (Runtime_error ''VARCHAR cannot be cast to other types.''))"

definition varchar_min :: "Value \<Rightarrow> Value \<Rightarrow> Value res" where
  "varchar_min left right = res_bind (varchar_compare LT left right) (\<lambda>c.
     if c = CmpTrue then varchar_copy left else varchar_copy right)"

definition varchar_max :: "Value \<Rightarrow> Value \<Rightarrow> Value res" where
  "varchar_max left right = res_bind (varchar_compare GT left right) (\<lambda>c.
     if c = CmpTrue then varchar_copy left else varchar_copy right)"

fun varchar_arith :: "arith_op \<Rightarrow> Value \<Rightarrow> Value \<Rightarrow> Value res" where
  "varchar_arith Plus left right = throw (Runtime_error ''VARCHAR does not support addition.'')"
| "varchar_arith Minus left right = throw (Runtime_error ''VARCHAR does not support subtraction.'')"
| "varchar_arith Times left right = throw (Runtime_error ''VARCHAR does not support multiplication.'')"
| "varchar_arith Divided left right = throw (Runtime_error ''VARCHAR does not support division.'')"
| "varchar_arith Modulo left right = throw (Runtime_error ''VARCHAR does not support modulo.'')"

subsection \<open>TimestampType\<close>

text \<open>The fields of an encoded timestamp, with the widths of the local variables.\<close>

definition timestamp_to_string :: "Value \<Rightarrow> string res" where
  "timestamp_to_string v = (if is_null v then ok ''timestamp_null''
     else res_bind (get_as_uint64 v) (\<lambda>w.
       let tm = uint w;
           micro = tm mod 1000000;
           tm1 = tm div 1000000;
           second = tm1 mod 100000;
           sec = second mod 60;
           mn = second div 60 mod 60;
           hour = second div 60 div 60 mod 24;
           tm2 = tm1 div 100000;
           year = tm2 mod 10000;
           tm3 = tm2 div 10000;
           tz = tm3 mod 27 - 12;
           tm4 = tm3 div 27;
           day = tm4 mod 32;
           month = take_bit 16 (tm4 div 32);
           text = zero_padded 4 year @ ''-'' @ zero_padded 2 month @ ''-'' @ zero_padded 2 day @ '' '' @
             zero_padded 2 hour @ '':'' @ zero_padded 2 mn @ '':'' @ zero_padded 2 sec @ ''.'' @ zero_padded 6 micro
       in ok (take 26 text @ (if tz \<ge> 0 then ''+'' else ''-'') @ zero_padded 2 \<bar>tz\<bar>)))"

definition timestamp_serialize :: "Value \<Rightarrow> u8 list res" where
  "timestamp_serialize = store_int 8"

definition timestamp_deserialize :: "u8 list \<Rightarrow> Value res" where
  "timestamp_deserialize storage = res_bind (load_bytes 8 storage) (\<lambda>x. ok (Value_uint64 TIMESTAMP (word_of_nat x)))"

definition timestamp_copy :: "Value \<Rightarrow> Value res" where
  "timestamp_copy v = ok v"

definition timestamp_compare :: "cmp_op \<Rightarrow> Value \<Rightarrow> Value \<Rightarrow> CmpBool res" where
  "timestamp_compare op left right = res_bind (assert_that (check_comparable left right)) (\<lambda>_.
     if (is_null left \<and> op \<noteq> NE) \<or> is_null right then ok CmpNull
     else if op = GT
     then res_bind (get_as_int 8 left) (\<lambda>x. res_bind (get_as_int 8 right) (\<lambda>y.
       ok (get_cmp_bool (cmp_linorder op x y))))
     else res_bind (get_as_uint64 left) (\<lambda>x. res_bind (get_as_uint64 right) (\<lambda>y.
       ok (get_cmp_bool (cmp_linorder op x y)))))"

text \<open>operate_null is not overridden, so NULL arguments end in the base class.\<close>

definition timestamp_min :: "Value \<Rightarrow> Value \<Rightarrow> Value res" where
  "timestamp_min left right = res_bind (assert_that (check_comparable left right)) (\<lambda>_.
     if is_null left \<or> is_null right then throw not_implemented
     else res_bind (timestamp_compare LT left right) (\<lambda>c.
       if c = CmpTrue then timestamp_copy left else timestamp_copy right))"

definition timestamp_max :: "Value \<Rightarrow> Value \<Rightarrow> Value res" where
  "timestamp_max left right = res_bind (assert_that (check_comparable left right)) (\<lambda>_.
     if is_null left \<or> is_null right then throw not_implemented
     else res_bind (timestamp_compare GE left right) (\<lambda>c.
       if c = CmpTrue then timestamp_copy left else timestamp_copy right))"

fun timestamp_is_coercable_from :: "DataType \<Rightarrow> bool" where
  "timestamp_is_coercable_from VARCHAR = True"
| "timestamp_is_coercable_from TIMESTAMP = True"
| "timestamp_is_coercable_from _ = False"

end
