(* ===== verification/NumericTypes.thy ===== *)
theory NumericTypes
  imports TypeInstances
begin

section \<open>The numeric types: comparison, arithmetic and casts\<close>

text \<open>
  src/datatype/tinyint_type.cpp, smallint_type.cpp, integer_type.cpp, bigint_type.cpp,
  decimal_type.cpp and include/turtle/datatype/integer_parent_type.hpp. The four integer classes
  share their macros up to the size n of the left operand; the templates of IntegerParentType are
  functions of the two sizes. Integer expressions are computed in the promoted type, and signed
  overflow there is undefined behaviour. The asserts are active: the build sets no NDEBUG.
\<close>

subsection \<open>Dispatch on the right operand\<close>

definition Value_is_zero :: "Value \<Rightarrow> bool res" where
  "Value_is_zero v = (case data_type v of
     TINYINT \<Rightarrow> tinyint_is_zero v
   | SMALLINT \<Rightarrow> smallint_is_zero v
   | INTEGER \<Rightarrow> integer_is_zero v
   | BIGINT \<Rightarrow> bigint_is_zero v
   | DECIMAL \<Rightarrow> decimal_is_zero v
   | VARCHAR \<Rightarrow> throw (Runtime_error ''VARCHAR does not support is_zero.'')
   | INVALID \<Rightarrow> throw null_instance
   | _ \<Rightarrow> throw not_implemented)"

definition Value_copy :: "Value \<Rightarrow> Value res" where
  "Value_copy v = (case data_type v of
     TINYINT \<Rightarrow> tinyint_copy v
   | SMALLINT \<Rightarrow> smallint_copy v
   | INTEGER \<Rightarrow> integer_copy v
   | BIGINT \<Rightarrow> bigint_copy v
   | DECIMAL \<Rightarrow> decimal_copy v
   | BOOLEAN \<Rightarrow> boolean_copy v
   | VARCHAR \<Rightarrow> varchar_copy v
   | TIMESTAMP \<Rightarrow> timestamp_copy v
   | INVALID \<Rightarrow> throw null_instance)"

text \<open>The guards at the start of the integer operations.\<close>

definition integer_guard :: "Value \<Rightarrow> Value \<Rightarrow> unit res" where
  "integer_guard left right = res_bind (assert_that (check_integer left)) (\<lambda>_.
     assert_that (check_comparable left right))"

subsection \<open>IntegerParentType\<close>

abbreviation out_of_range :: error where
  "out_of_range \<equiv> Exception OUT_OF_RANGE ''Numeric value out of range.''"

text \<open>A value of the promoted type of operands of n1 and n2 bytes; int has four.\<close>

definition promoted :: "nat \<Rightarrow> nat \<Rightarrow> nat" where
  "promoted n1 n2 = max 4 (max n1 n2)"

definition checked :: "nat \<Rightarrow> int \<Rightarrow> int res" where
  "checked n x = (if int_null n \<le> x \<and> x \<le> int_max n then ok x else throw (Undefined ''signed integer overflow''))"

definition cast_int :: "nat \<Rightarrow> int \<Rightarrow> int" where
  "cast_int n x = signed_take_bit (8 * n - 1) x"

definition add_value :: "nat \<Rightarrow> nat \<Rightarrow> Value \<Rightarrow> Value \<Rightarrow> Value res" where
  "add_value n1 n2 left right =
     res_bind (get_as_int n1 left) (\<lambda>x.
     res_bind (get_as_int n2 right) (\<lambda>y.
     res_bind (checked (promoted n1 n2) (x + y)) (\<lambda>s.
       let sum1 = cast_int n1 s;
           sum2 = cast_int n2 s
       in if s \<noteq> sum1 \<and> s \<noteq> sum2 then throw out_of_range
          else if n1 \<ge> n2
          then (if (x > 0 \<and> y > 0 \<and> sum1 < 0) \<or> (x < 0 \<and> y < 0 \<and> sum1 > 0) then throw out_of_range
                else ok (Value_int n1 (data_type left) sum1))
          else (if (x > 0 \<and> y > 0 \<and> sum2 < 0) \<or> (x < 0 \<and> y < 0 \<and> sum2 > 0) then throw out_of_range
                else ok (Value_int n2 (data_type right) sum2)))))"

definition subtract_value :: "nat \<Rightarrow> nat \<Rightarrow> Value \<Rightarrow> Value \<Rightarrow> Value res" where
  "subtract_value n1 n2 left right =
     res_bind (get_as_int n1 left) (\<lambda>x.
     res_bind (get_as_int n2 right) (\<lambda>y.
     res_bind (checked (promoted n1 n2) (x - y)) (\<lambda>d.
       let diff1 = cast_int n1 d;
           diff2 = cast_int n2 d
       in if d \<noteq> diff1 \<and> d \<noteq> diff2 then throw out_of_range
          else if n1 \<ge> n2
          then (if (x > 0 \<and> y < 0 \<and> diff1 < 0) \<or> (x < 0 \<and> y > 0 \<and> diff1 > 0) then throw out_of_range
                else ok (Value_int n1 (data_type left) diff1))
          else (if (x > 0 \<and> y < 0 \<and> diff2 < 0) \<or> (x < 0 \<and> y > 0 \<and> diff2 > 0) then throw out_of_range
                else ok (Value_int n2 (data_type right) diff2)))))"

text \<open>C++ division truncates towards zero, and the remainder has the sign of the dividend.\<close>

definition tdiv :: "int \<Rightarrow> int \<Rightarrow> int" where
  "tdiv x y = sgn x * sgn y * (\<bar>x\<bar> div \<bar>y\<bar>)"

definition tmod :: "int \<Rightarrow> int \<Rightarrow> int" where
  "tmod x y = sgn x * (\<bar>x\<bar> mod \<bar>y\<bar>)"

definition multiply_value :: "nat \<Rightarrow> nat \<Rightarrow> Value \<Rightarrow> Value \<Rightarrow> Value res" where
  "multiply_value n1 n2 left right =
     res_bind (get_as_int n1 left) (\<lambda>x.
     res_bind (get_as_int n2 right) (\<lambda>y.
     res_bind (checked (promoted n1 n2) (x * y)) (\<lambda>p.
       let prod1 = cast_int n1 p;
           prod2 = cast_int n2 p
       in if p \<noteq> prod1 \<and> p \<noteq> prod2 then throw out_of_range
          else if n1 \<ge> n2
          then (if y \<noteq> 0 \<and> tdiv prod1 y \<noteq> x then throw out_of_range
                else ok (Value_int n1 (data_type left) prod1))
          else (if y \<noteq> 0 \<and> tdiv prod2 y \<noteq> x then throw out_of_range
                else ok (Value_int n2 (data_type right) prod2)))))"

definition divide_value :: "nat \<Rightarrow> nat \<Rightarrow> Value \<Rightarrow> Value \<Rightarrow> Value res" where
  "divide_value n1 n2 left right =
     res_bind (get_as_int n1 left) (\<lambda>x.
     res_bind (get_as_int n2 right) (\<lambda>y.
       if y = 0 then throw (Exception DIVIDE_BY_ZERO ''Division by zero.'')
       else res_bind (checked (promoted n1 n2) (tdiv x y)) (\<lambda>q.
         if n1 \<ge> n2 then ok (Value_int n1 (data_type left) (cast_int n1 q))
         else ok (Value_int n2 (data_type right) (cast_int n2 q)))))"

text \<open>x % y is defined when x / y is.\<close>

definition modulo_value :: "nat \<Rightarrow> nat \<Rightarrow> Value \<Rightarrow> Value \<Rightarrow> Value res" where
  "modulo_value n1 n2 left right =
     res_bind (get_as_int n1 left) (\<lambda>x.
     res_bind (get_as_int n2 right) (\<lambda>y.
       if y = 0 then throw (Exception DIVIDE_BY_ZERO ''Division by zero.'')
       else res_bind (checked (promoted n1 n2) (tdiv x y)) (\<lambda>_.
         if n1 \<ge> n2 then ok (Value_int n1 (data_type left) (cast_int n1 (tmod x y)))
         else ok (Value_int n2 (data_type right) (cast_int n2 (tmod x y))))))"

fun arith_value :: "arith_op \<Rightarrow> nat \<Rightarrow> nat \<Rightarrow> Value \<Rightarrow> Value \<Rightarrow> Value res" where
  "arith_value Plus = add_value"
| "arith_value Minus = subtract_value"
| "arith_value Times = multiply_value"
| "arith_value Divided = divide_value"
| "arith_value Modulo = modulo_value"

subsection \<open>The macros of the integer classes\<close>

text \<open>\<open>*_COMPARE_FUNC(OP)\<close> and \<open>*_MODIFY_FUNC(METHOD, OP)\<close>; err is the throw after the switch.\<close>

definition compare_func :: "nat \<Rightarrow> DataType \<Rightarrow> error \<Rightarrow> cmp_op \<Rightarrow> Value \<Rightarrow> Value \<Rightarrow> CmpBool res" where
  "compare_func n self err op left right =
     res_bind (get_as_int n left) (\<lambda>x.
       let against = (\<lambda>k v. res_bind (get_as_int k v) (\<lambda>y. ok (get_cmp_bool (cmp_linorder op x y))))
       in case data_type right of
            TINYINT \<Rightarrow> against 1 right
          | SMALLINT \<Rightarrow> against 2 right
          | INTEGER \<Rightarrow> against 4 right
          | BIGINT \<Rightarrow> against 8 right
          | DECIMAL \<Rightarrow> res_bind (get_as_double right) (\<lambda>d. ok (get_cmp_bool (cmp_double op (fp_of_int x) d)))
          | VARCHAR \<Rightarrow> res_bind (varchar_cast_as right self) (\<lambda>r. against n r)
          | _ \<Rightarrow> throw err)"

definition modify_func :: "nat \<Rightarrow> DataType \<Rightarrow> error \<Rightarrow> arith_op \<Rightarrow> Value \<Rightarrow> Value \<Rightarrow> Value res" where
  "modify_func n self err op left right = (case data_type right of
     TINYINT \<Rightarrow> arith_value op n 1 left right
   | SMALLINT \<Rightarrow> arith_value op n 2 left right
   | INTEGER \<Rightarrow> arith_value op n 4 left right
   | BIGINT \<Rightarrow> arith_value op n 8 left right
   | DECIMAL \<Rightarrow> res_bind (get_as_int n left) (\<lambda>x. res_bind (get_as_double right) (\<lambda>d.
       ok (Value_double DECIMAL (arith_double op (fp_of_int x) d))))
   | VARCHAR \<Rightarrow> res_bind (varchar_cast_as right self) (\<lambda>r. arith_value op n n left r)
   | _ \<Rightarrow> throw err)"

definition zero_check :: "error \<Rightarrow> arith_op \<Rightarrow> Value \<Rightarrow> unit res" where
  "zero_check err op right = (if op = Divided \<or> op = Modulo
     then res_bind (Value_is_zero right) (\<lambda>z. if z then throw err else ok ()) else ok ())"

abbreviation div_zero :: error where
  "div_zero \<equiv> Exception DIVIDE_BY_ZERO ''Division by zero on right-hand side''"

abbreviation negative_root :: error where
  "negative_root \<equiv> Exception DECIMAL_EXC ''Cannot take square root of a negative number.''"

text \<open>std::sqrt of an integer converts it to double.\<close>

definition int_sqrt :: "nat \<Rightarrow> error \<Rightarrow> Value \<Rightarrow> Value res" where
  "int_sqrt n err v = res_bind (get_as_int n v) (\<lambda>x.
     if x < 0 then throw err else ok (Value_double DECIMAL (fp_sqrt (fp_of_int x))))"

definition if_less :: "CmpBool res \<Rightarrow> Value \<Rightarrow> Value \<Rightarrow> Value res" where
  "if_less c left right = res_bind c (\<lambda>b. if b = CmpTrue then Value_copy left else Value_copy right)"

text \<open>A numeric cast from n to k bytes that checks the range; the smallest number is the NULL sentinel.\<close>

definition narrow :: "error \<Rightarrow> nat \<Rightarrow> DataType \<Rightarrow> int \<Rightarrow> Value res" where
  "narrow err k t x = (if x > int_max k \<or> x < int_min k then throw err else ok (Value_int k t x))"

subsection \<open>TinyintType\<close>

definition tinyint_compare :: "cmp_op \<Rightarrow> Value \<Rightarrow> Value \<Rightarrow> CmpBool res" where
  "tinyint_compare op left right = res_bind (integer_guard left right) (\<lambda>_.
     if is_null left \<or> is_null right then ok CmpNull
     else compare_func 1 TINYINT type_error op left right)"

definition tinyint_arith :: "arith_op \<Rightarrow> Value \<Rightarrow> Value \<Rightarrow> Value res" where
  "tinyint_arith op left right = res_bind (integer_guard left right) (\<lambda>_.
     if is_null left \<or> is_null right then tinyint_operate_null left right
     else res_bind (zero_check div_zero op right) (\<lambda>_. modify_func 1 TINYINT type_error op left right))"

definition tinyint_sqrt :: "Value \<Rightarrow> Value res" where
  "tinyint_sqrt v = res_bind (assert_that (check_integer v)) (\<lambda>_.
     if is_null v then ok (Value_double DECIMAL TURTLE_DECIMAL_NULL) else int_sqrt 1 negative_root v)"

definition tinyint_min :: "Value \<Rightarrow> Value \<Rightarrow> Value res" where
  "tinyint_min left right = res_bind (integer_guard left right) (\<lambda>_.
     if is_null left \<or> is_null right then tinyint_operate_null left right
     else if_less (tinyint_compare LT left right) left right)"

definition tinyint_max :: "Value \<Rightarrow> Value \<Rightarrow> Value res" where
  "tinyint_max left right = res_bind (integer_guard left right) (\<lambda>_.
     if is_null left \<or> is_null right then tinyint_operate_null left right
     else if_less (tinyint_compare GT left right) left right)"

definition tinyint_cast_as :: "Value \<Rightarrow> DataType \<Rightarrow> Value res" where
  "tinyint_cast_as v t = (case t of
     TINYINT \<Rightarrow> if is_null v then ok (Value_int8 t (int_null 1)) else tinyint_copy v
   | SMALLINT \<Rightarrow> if is_null v then ok (Value_int16 t (int_null 2))
       else res_bind (get_as_int 1 v) (\<lambda>x. ok (Value_int16 t x))
   | INTEGER \<Rightarrow> if is_null v then ok (Value_int32 t (int_null 4))
       else res_bind (get_as_int 1 v) (\<lambda>x. ok (Value_int32 t x))
   | BIGINT \<Rightarrow> if is_null v then ok (Value_int64 t (int_null 8))
       else res_bind (get_as_int 1 v) (\<lambda>x. ok (Value_int64 t x))
   | DECIMAL \<Rightarrow> if is_null v then ok (Value_double t TURTLE_DECIMAL_NULL)
       else res_bind (get_as_int 1 v) (\<lambda>x. ok (Value_double t (fp_of_int x)))
   | VARCHAR \<Rightarrow> if is_null v then Value_chars VARCHAR None 0 False
       else res_bind (tinyint_to_string v) (\<lambda>s. ok (Value_string VARCHAR (bytes_of s)))
   | _ \<Rightarrow> throw (exception_msg (''tinyint is not coercable to '' @ data_type_to_string t)))"

subsection \<open>SmallintType\<close>

definition smallint_compare :: "cmp_op \<Rightarrow> Value \<Rightarrow> Value \<Rightarrow> CmpBool res" where
  "smallint_compare op left right = res_bind (integer_guard left right) (\<lambda>_.
     if is_null left \<or> is_null right then ok CmpNull
     else compare_func 2 SMALLINT type_error op left right)"

definition smallint_arith :: "arith_op \<Rightarrow> Value \<Rightarrow> Value \<Rightarrow> Value res" where
  "smallint_arith op left right = res_bind (integer_guard left right) (\<lambda>_.
     if is_null left \<or> is_null right then smallint_operate_null left right
     else res_bind (zero_check div_zero op right) (\<lambda>_. modify_func 2 SMALLINT type_error op left right))"

definition smallint_sqrt :: "Value \<Rightarrow> Value res" where
  "smallint_sqrt v = res_bind (assert_that (check_integer v)) (\<lambda>_.
     if is_null v then ok (Value_double DECIMAL TURTLE_DECIMAL_NULL) else int_sqrt 2 negative_root v)"

definition smallint_min :: "Value \<Rightarrow> Value \<Rightarrow> Value res" where
  "smallint_min left right = res_bind (integer_guard left right) (\<lambda>_.
     if is_null left \<or> is_null right then smallint_operate_null left right
     else if_less (smallint_compare LT left right) left right)"

definition smallint_max :: "Value \<Rightarrow> Value \<Rightarrow> Value res" where
  "smallint_max left right = res_bind (integer_guard left right) (\<lambda>_.
     if is_null left \<or> is_null right then smallint_operate_null left right
     else if_less (smallint_compare GT left right) left right)"

definition smallint_cast_as :: "Value \<Rightarrow> DataType \<Rightarrow> Value res" where
  "smallint_cast_as v t = (case t of
     TINYINT \<Rightarrow> if is_null v then ok (Value_int8 t (int_null 1))
       else res_bind (get_as_int 2 v) (narrow (Runtime_error ''Numeric value out of range.'') 1 t)
   | SMALLINT \<Rightarrow> if is_null v then ok (Value_int16 t (int_null 2)) else smallint_copy v
   | INTEGER \<Rightarrow> if is_null v then ok (Value_int32 t (int_null 4))
       else res_bind (get_as_int 2 v) (\<lambda>x. ok (Value_int32 t x))
   | BIGINT \<Rightarrow> if is_null v then ok (Value_int64 t (int_null 8))
       else res_bind (get_as_int 2 v) (\<lambda>x. ok (Value_int64 t x))
   | DECIMAL \<Rightarrow> if is_null v then ok (Value_double t TURTLE_DECIMAL_NULL)
       else res_bind (get_as_int 2 v) (\<lambda>x. ok (Value_double t (fp_of_int x)))
   | VARCHAR \<Rightarrow> if is_null v then Value_chars VARCHAR None 0 False
       else res_bind (smallint_to_string v) (\<lambda>s. ok (Value_string VARCHAR (bytes_of s)))
   | _ \<Rightarrow> throw (exception_msg (''smallint is not coercable to '' @ data_type_to_string t)))"

subsection \<open>IntegerType\<close>

definition integer_compare :: "cmp_op \<Rightarrow> Value \<Rightarrow> Value \<Rightarrow> CmpBool res" where
  "integer_compare op left right = res_bind (integer_guard left right) (\<lambda>_.
     if is_null left \<or> is_null right then ok CmpNull
     else compare_func 4 INTEGER type_error_rt op left right)"

definition integer_arith :: "arith_op \<Rightarrow> Value \<Rightarrow> Value \<Rightarrow> Value res" where
  "integer_arith op left right = res_bind (integer_guard left right) (\<lambda>_.
     if is_null left \<or> is_null right then integer_operate_null left right
     else res_bind (zero_check (Runtime_error ''Division by zero on right-hand side'') op right) (\<lambda>_.
       modify_func 4 INTEGER type_error_rt op left right))"

definition integer_sqrt :: "Value \<Rightarrow> Value res" where
  "integer_sqrt v = res_bind (assert_that (check_integer v)) (\<lambda>_.
     if is_null v then integer_operate_null v v
     else int_sqrt 4 (Runtime_error ''Cannot take square root of a negative number.'') v)"

definition integer_min :: "Value \<Rightarrow> Value \<Rightarrow> Value res" where
  "integer_min left right = res_bind (integer_guard left right) (\<lambda>_.
     if is_null left \<or> is_null right then integer_operate_null left right
     else if_less (integer_compare LT left right) left right)"

definition integer_max :: "Value \<Rightarrow> Value \<Rightarrow> Value res" where
  "integer_max left right = res_bind (integer_guard left right) (\<lambda>_.
     if is_null left \<or> is_null right then integer_operate_null left right
     else if_less (integer_compare GT left right) left right)"

text \<open>The VARCHAR case falls through to the throw when the value is not NULL.\<close>

definition integer_cast_as :: "Value \<Rightarrow> DataType \<Rightarrow> Value res" where
  "integer_cast_as v t = (case t of
     TINYINT \<Rightarrow> if is_null v then ok (Value_int8 t (int_null 1))
       else res_bind (get_as_int 4 v) (narrow (Runtime_error ''Numeric value out of range.'') 1 t)
   | SMALLINT \<Rightarrow> if is_null v then ok (Value_int16 t (int_null 2))
       else res_bind (get_as_int 4 v) (narrow (Runtime_error ''Numeric value out of range.'') 2 t)
   | INTEGER \<Rightarrow> if is_null v then ok (Value_int32 t (int_null 4))
       else res_bind (get_as_int 4 v) (\<lambda>x. ok (Value_int32 t x))
   | BIGINT \<Rightarrow> if is_null v then ok (Value_int64 t (int_null 8))
       else res_bind (get_as_int 4 v) (\<lambda>x. ok (Value_int64 t x))
   | DECIMAL \<Rightarrow> if is_null v then ok (Value_double t TURTLE_DECIMAL_NULL)
       else res_bind (get_as_int 4 v) (\<lambda>x. ok (Value_double t (fp_of_int x)))
   | VARCHAR \<Rightarrow> if is_null v then Value_chars VARCHAR None 0 False
       else throw (Runtime_error ''Integer is not coercable.'')
   | _ \<Rightarrow> throw (Runtime_error ''Integer is not coercable.''))"

subsection \<open>BigintType\<close>

definition bigint_compare :: "cmp_op \<Rightarrow> Value \<Rightarrow> Value \<Rightarrow> CmpBool res" where
  "bigint_compare op left right = res_bind (integer_guard left right) (\<lambda>_.
     if is_null left \<or> is_null right then ok CmpNull
     else compare_func 8 BIGINT type_error op left right)"

definition bigint_arith :: "arith_op \<Rightarrow> Value \<Rightarrow> Value \<Rightarrow> Value res" where
  "bigint_arith op left right = res_bind (integer_guard left right) (\<lambda>_.
     if is_null left \<or> is_null right then bigint_operate_null left right
     else res_bind (zero_check div_zero op right) (\<lambda>_. modify_func 8 BIGINT type_error op left right))"

definition bigint_sqrt :: "Value \<Rightarrow> Value res" where
  "bigint_sqrt v = res_bind (assert_that (check_integer v)) (\<lambda>_.
     if is_null v then ok (Value_double DECIMAL TURTLE_DECIMAL_NULL) else int_sqrt 8 negative_root v)"

definition bigint_min :: "Value \<Rightarrow> Value \<Rightarrow> Value res" where
  "bigint_min left right = res_bind (integer_guard left right) (\<lambda>_.
     if is_null left \<or> is_null right then bigint_operate_null left right
     else if_less (bigint_compare LT left right) left right)"

definition bigint_max :: "Value \<Rightarrow> Value \<Rightarrow> Value res" where
  "bigint_max left right = res_bind (integer_guard left right) (\<lambda>_.
     if is_null left \<or> is_null right then bigint_operate_null left right
     else if_less (bigint_compare GT left right) left right)"

definition bigint_cast_as :: "Value \<Rightarrow> DataType \<Rightarrow> Value res" where
  "bigint_cast_as v t = (case t of
     TINYINT \<Rightarrow> if is_null v then ok (Value_int8 t (int_null 1))
       else res_bind (get_as_int 8 v) (narrow out_of_range 1 t)
   | SMALLINT \<Rightarrow> if is_null v then ok (Value_int16 t (int_null 2))
       else res_bind (get_as_int 8 v) (narrow out_of_range 2 t)
   | INTEGER \<Rightarrow> if is_null v then ok (Value_int32 t (int_null 4))
       else res_bind (get_as_int 8 v) (narrow out_of_range 4 t)
   | BIGINT \<Rightarrow> if is_null v then ok (Value_int64 t (int_null 8)) else bigint_copy v
   | DECIMAL \<Rightarrow> if is_null v then ok (Value_double t TURTLE_DECIMAL_NULL)
       else res_bind (get_as_int 8 v) (\<lambda>x. ok (Value_double t (fp_of_int x)))
   | VARCHAR \<Rightarrow> if is_null v then Value_chars VARCHAR None 0 False
       else res_bind (bigint_to_string v) (\<lambda>s. ok (Value_string VARCHAR (bytes_of s)))
   | _ \<Rightarrow> throw (Exception CONVERSION (''bigint is not coercable to '' @ data_type_to_string t)))"

subsection \<open>DecimalType\<close>

text \<open>The right operand as a double; integers are converted.\<close>

definition as_double :: "Value \<Rightarrow> dbl res" where
  "as_double right = (case data_type right of
     TINYINT \<Rightarrow> res_bind (get_as_int 1 right) (\<lambda>y. ok (fp_of_int y))
   | SMALLINT \<Rightarrow> res_bind (get_as_int 2 right) (\<lambda>y. ok (fp_of_int y))
   | INTEGER \<Rightarrow> res_bind (get_as_int 4 right) (\<lambda>y. ok (fp_of_int y))
   | BIGINT \<Rightarrow> res_bind (get_as_int 8 right) (\<lambda>y. ok (fp_of_int y))
   | DECIMAL \<Rightarrow> get_as_double right
   | VARCHAR \<Rightarrow> res_bind (varchar_cast_as right DECIMAL) get_as_double
   | _ \<Rightarrow> throw type_error)"

definition decimal_compare :: "cmp_op \<Rightarrow> Value \<Rightarrow> Value \<Rightarrow> CmpBool res" where
  "decimal_compare op left right = res_bind (assert_that (check_comparable left right)) (\<lambda>_.
     if is_null left \<or> is_null right then ok CmpNull
     else res_bind (get_as_double left) (\<lambda>x. res_bind (as_double right) (\<lambda>y.
       ok (get_cmp_bool (cmp_double op x y)))))"

definition decimal_arith :: "arith_op \<Rightarrow> Value \<Rightarrow> Value \<Rightarrow> Value res" where
  "decimal_arith op left right = res_bind (assert_that (check_comparable left right)) (\<lambda>_.
     if is_null left \<or> is_null right then decimal_operate_null left right
     else res_bind (zero_check div_zero op right) (\<lambda>_.
       res_bind (get_as_double left) (\<lambda>x. res_bind (as_double right) (\<lambda>y.
       ok (Value_double DECIMAL (arith_double op x y))))))"

definition decimal_min :: "Value \<Rightarrow> Value \<Rightarrow> Value res" where
  "decimal_min left right = res_bind (assert_that (check_comparable left right)) (\<lambda>_.
     if is_null left \<or> is_null right then decimal_operate_null left right
     else if_less (decimal_compare LE left right) left right)"

definition decimal_max :: "Value \<Rightarrow> Value \<Rightarrow> Value res" where
  "decimal_max left right = res_bind (assert_that (check_comparable left right)) (\<lambda>_.
     if is_null left \<or> is_null right then decimal_operate_null left right
     else if_less (decimal_compare GE left right) left right)"

definition decimal_sqrt :: "Value \<Rightarrow> Value res" where
  "decimal_sqrt v = (if is_null v then ok (Value_double DECIMAL TURTLE_DECIMAL_NULL)
     else res_bind (get_as_double v) (\<lambda>x.
       if fp_less x (fp_of_int 0) then throw negative_root else ok (Value_double DECIMAL (fp_sqrt x))))"

text \<open>
  The integer casts: out of the bounds lo and hi the cast throws, and inside them the double is
  truncated (a NaN passes both comparisons and its conversion is undefined).
\<close>

definition narrow_double :: "nat \<Rightarrow> DataType \<Rightarrow> dbl \<Rightarrow> Value res" where
  "narrow_double k t x =
     (if (if k = 8 then fp_less_eq (fp_of_int (int_max 8)) x else fp_less (fp_of_int (int_max k)) x)
         \<or> fp_less x (fp_of_int (int_min k))
      then throw out_of_range
      else case fp_to_int x of
        Some i \<Rightarrow> if int_null k \<le> i \<and> i \<le> int_max k then ok (Value_int k t i)
          else throw (Undefined ''conversion out of range'')
      | None \<Rightarrow> throw (Undefined ''conversion of a NaN''))"

definition decimal_cast_as :: "Value \<Rightarrow> DataType \<Rightarrow> Value res" where
  "decimal_cast_as v t = (case t of
     TINYINT \<Rightarrow> if is_null v then ok (Value_int8 t (int_null 1)) else res_bind (get_as_double v) (narrow_double 1 t)
   | SMALLINT \<Rightarrow> if is_null v then ok (Value_int16 t (int_null 2)) else res_bind (get_as_double v) (narrow_double 2 t)
   | INTEGER \<Rightarrow> if is_null v then ok (Value_int32 t (int_null 4)) else res_bind (get_as_double v) (narrow_double 4 t)
   | BIGINT \<Rightarrow> if is_null v then ok (Value_int64 t (int_null 8)) else res_bind (get_as_double v) (narrow_double 8 t)
   | DECIMAL \<Rightarrow> Value_copy v
   | VARCHAR \<Rightarrow> if is_null v then Value_chars VARCHAR None 0 False
       else res_bind (decimal_to_string v) (\<lambda>s. ok (Value_string VARCHAR (bytes_of s)))
   | _ \<Rightarrow> throw (exception_msg (''DECIMAL is not coercable to '' @ data_type_to_string t)))"

end
