(* ===== verification/TypeDispatch.thy ===== *)
theory TypeDispatch
  imports NumericTypes
begin

section \<open>Dispatch through the type instances\<close>

text \<open>
  The methods of Value (include/turtle/datatype/value.hpp) call the instance of the value's type,
  \<open>Type::k_types[data_type]\<close> (src/datatype/type.cpp). What a class does not override throws; INVALID
  has a null pointer. BooleanType and the casts of TimestampType stand here because they dispatch
  themselves (src/datatype/boolean_type.cpp, timestamp_type.cpp).
\<close>

definition Value_to_string_as :: "DataType \<Rightarrow> Value \<Rightarrow> string res" where
  "Value_to_string_as t v = (case t of
     INVALID \<Rightarrow> throw null_instance
   | BOOLEAN \<Rightarrow> boolean_to_string v
   | INTEGER \<Rightarrow> integer_to_string v
   | TINYINT \<Rightarrow> tinyint_to_string v
   | SMALLINT \<Rightarrow> smallint_to_string v
   | BIGINT \<Rightarrow> bigint_to_string v
   | DECIMAL \<Rightarrow> decimal_to_string v
   | VARCHAR \<Rightarrow> varchar_to_string v
   | TIMESTAMP \<Rightarrow> timestamp_to_string v)"

definition Value_to_string :: "Value \<Rightarrow> string res" where
  "Value_to_string v = Value_to_string_as (data_type v) v"

definition boolean_cast_as :: "Value \<Rightarrow> DataType \<Rightarrow> Value res" where
  "boolean_cast_as v t = (case t of
     BOOLEAN \<Rightarrow> boolean_copy v
   | VARCHAR \<Rightarrow> if is_null v then Value_chars VARCHAR None 0 False
       else res_bind (boolean_to_string v) (\<lambda>s. ok (Value_string VARCHAR (bytes_of s)))
   | _ \<Rightarrow> throw (exception_msg (''BOOLEAN is not coercable to '' @ data_type_to_string t)))"

text \<open>The message of the refusal prints the value through the instance of the target type.\<close>

definition timestamp_cast_as :: "Value \<Rightarrow> DataType \<Rightarrow> Value res" where
  "timestamp_cast_as v t = (case t of
     TIMESTAMP \<Rightarrow> timestamp_copy v
   | VARCHAR \<Rightarrow> if is_null v then Value_chars VARCHAR None 0 False
       else res_bind (timestamp_to_string v) (\<lambda>s. ok (Value_string VARCHAR (bytes_of s)))
   | _ \<Rightarrow> res_bind (Value_to_string_as t v) (\<lambda>s. throw (exception_msg (''TIMESTAMP is not coercable to '' @ s))))"

definition Value_cast_as :: "Value \<Rightarrow> DataType \<Rightarrow> Value res" where
  "Value_cast_as v t = (case data_type v of
     INVALID \<Rightarrow> throw null_instance
   | BOOLEAN \<Rightarrow> boolean_cast_as v t
   | INTEGER \<Rightarrow> integer_cast_as v t
   | TINYINT \<Rightarrow> tinyint_cast_as v t
   | SMALLINT \<Rightarrow> smallint_cast_as v t
   | BIGINT \<Rightarrow> bigint_cast_as v t
   | DECIMAL \<Rightarrow> decimal_cast_as v t
   | VARCHAR \<Rightarrow> varchar_cast_as v t
   | TIMESTAMP \<Rightarrow> timestamp_cast_as v t)"

definition boolean_compare :: "cmp_op \<Rightarrow> Value \<Rightarrow> Value \<Rightarrow> CmpBool res" where
  "boolean_compare op left right = res_bind (assert_that (check_comparable left right)) (\<lambda>_.
     if is_null left \<or> is_null right then ok CmpNull
     else res_bind (get_as_int 1 left) (\<lambda>x.
       res_bind (res_bind (Value_cast_as right BOOLEAN) (get_as_int 1)) (\<lambda>y.
       ok (get_cmp_bool (cmp_linorder op x y)))))"

text \<open>\<open>compare_equals\<close>, \<open>compare_not_equals\<close>, \<open>compare_less_than\<close> and so on.\<close>

definition Value_compare :: "cmp_op \<Rightarrow> Value \<Rightarrow> Value \<Rightarrow> CmpBool res" where
  "Value_compare op left right = (case data_type left of
     INVALID \<Rightarrow> throw null_instance
   | BOOLEAN \<Rightarrow> boolean_compare op left right
   | INTEGER \<Rightarrow> integer_compare op left right
   | TINYINT \<Rightarrow> tinyint_compare op left right
   | SMALLINT \<Rightarrow> smallint_compare op left right
   | BIGINT \<Rightarrow> bigint_compare op left right
   | DECIMAL \<Rightarrow> decimal_compare op left right
   | VARCHAR \<Rightarrow> varchar_compare op left right
   | TIMESTAMP \<Rightarrow> timestamp_compare op left right)"

definition compare_exactly_equals :: "Value \<Rightarrow> Value \<Rightarrow> bool res" where
  "compare_exactly_equals v o' = (if is_null v \<and> is_null o' then ok True
     else res_bind (Value_compare EQ v o') (\<lambda>c. ok (c = CmpTrue)))"

text \<open>\<open>add\<close>, \<open>subtract\<close>, \<open>multiply\<close>, \<open>divide\<close> and \<open>modulo\<close>.\<close>

definition Value_arith :: "arith_op \<Rightarrow> Value \<Rightarrow> Value \<Rightarrow> Value res" where
  "Value_arith op left right = (case data_type left of
     INVALID \<Rightarrow> throw null_instance
   | INTEGER \<Rightarrow> integer_arith op left right
   | TINYINT \<Rightarrow> tinyint_arith op left right
   | SMALLINT \<Rightarrow> smallint_arith op left right
   | BIGINT \<Rightarrow> bigint_arith op left right
   | DECIMAL \<Rightarrow> decimal_arith op left right
   | VARCHAR \<Rightarrow> varchar_arith op left right
   | _ \<Rightarrow> throw not_implemented)"

definition Value_min :: "Value \<Rightarrow> Value \<Rightarrow> Value res" where
  "Value_min left right = (case data_type left of
     INVALID \<Rightarrow> throw null_instance
   | INTEGER \<Rightarrow> integer_min left right
   | TINYINT \<Rightarrow> tinyint_min left right
   | SMALLINT \<Rightarrow> smallint_min left right
   | BIGINT \<Rightarrow> bigint_min left right
   | DECIMAL \<Rightarrow> decimal_min left right
   | VARCHAR \<Rightarrow> varchar_min left right
   | TIMESTAMP \<Rightarrow> timestamp_min left right
   | BOOLEAN \<Rightarrow> throw not_implemented)"

definition Value_max :: "Value \<Rightarrow> Value \<Rightarrow> Value res" where
  "Value_max left right = (case data_type left of
     INVALID \<Rightarrow> throw null_instance
   | INTEGER \<Rightarrow> integer_max left right
   | TINYINT \<Rightarrow> tinyint_max left right
   | SMALLINT \<Rightarrow> smallint_max left right
   | BIGINT \<Rightarrow> bigint_max left right
   | DECIMAL \<Rightarrow> decimal_max left right
   | VARCHAR \<Rightarrow> varchar_max left right
   | TIMESTAMP \<Rightarrow> timestamp_max left right
   | BOOLEAN \<Rightarrow> throw not_implemented)"

definition Value_sqrt :: "Value \<Rightarrow> Value res" where
  "Value_sqrt v = (case data_type v of
     INVALID \<Rightarrow> throw null_instance
   | INTEGER \<Rightarrow> integer_sqrt v
   | TINYINT \<Rightarrow> tinyint_sqrt v
   | SMALLINT \<Rightarrow> smallint_sqrt v
   | BIGINT \<Rightarrow> bigint_sqrt v
   | DECIMAL \<Rightarrow> decimal_sqrt v
   | VARCHAR \<Rightarrow> throw (Runtime_error ''VARCHAR does not support sqrt.'')
   | _ \<Rightarrow> throw not_implemented)"

definition Value_operate_null :: "Value \<Rightarrow> Value \<Rightarrow> Value res" where
  "Value_operate_null left right = (case data_type left of
     INVALID \<Rightarrow> throw null_instance
   | INTEGER \<Rightarrow> integer_operate_null left right
   | TINYINT \<Rightarrow> tinyint_operate_null left right
   | SMALLINT \<Rightarrow> smallint_operate_null left right
   | BIGINT \<Rightarrow> bigint_operate_null left right
   | DECIMAL \<Rightarrow> decimal_operate_null left right
   | VARCHAR \<Rightarrow> ok (Value_null VARCHAR)
   | _ \<Rightarrow> throw not_implemented)"

subsection \<open>Storage\<close>

definition Value_storage_size :: "Value \<Rightarrow> u32 res" where
  "Value_storage_size v = (case data_type v of
     INVALID \<Rightarrow> throw null_instance
   | BOOLEAN \<Rightarrow> ok 1
   | INTEGER \<Rightarrow> ok 4
   | TINYINT \<Rightarrow> ok 1
   | SMALLINT \<Rightarrow> ok 2
   | BIGINT \<Rightarrow> ok 8
   | DECIMAL \<Rightarrow> ok 8
   | VARCHAR \<Rightarrow> ok (varchar_get_storage_size v)
   | TIMESTAMP \<Rightarrow> ok 8)"

text \<open>The bytes that \<open>serialize_to\<close> writes, and the value that \<open>deserialize_from\<close> reads.\<close>

definition Value_serialize :: "Value \<Rightarrow> u8 list res" where
  "Value_serialize v = (case data_type v of
     INVALID \<Rightarrow> throw null_instance
   | BOOLEAN \<Rightarrow> boolean_serialize v
   | INTEGER \<Rightarrow> integer_serialize v
   | TINYINT \<Rightarrow> tinyint_serialize v
   | SMALLINT \<Rightarrow> smallint_serialize v
   | BIGINT \<Rightarrow> bigint_serialize v
   | DECIMAL \<Rightarrow> decimal_serialize v
   | VARCHAR \<Rightarrow> varchar_serialize v
   | TIMESTAMP \<Rightarrow> timestamp_serialize v)"

definition Value_deserialize :: "u8 list \<Rightarrow> DataType \<Rightarrow> Value res" where
  "Value_deserialize storage t = (case t of
     INVALID \<Rightarrow> throw null_instance
   | BOOLEAN \<Rightarrow> boolean_deserialize storage
   | INTEGER \<Rightarrow> integer_deserialize storage
   | TINYINT \<Rightarrow> tinyint_deserialize storage
   | SMALLINT \<Rightarrow> smallint_deserialize storage
   | BIGINT \<Rightarrow> bigint_deserialize storage
   | DECIMAL \<Rightarrow> decimal_deserialize storage
   | VARCHAR \<Rightarrow> varchar_deserialize storage
   | TIMESTAMP \<Rightarrow> timestamp_deserialize storage)"

subsection \<open>ValueFactory: constructors\<close>

definition get_tiny_int_value :: "int \<Rightarrow> Value" where "get_tiny_int_value = Value_int8 TINYINT"
definition get_small_int_value :: "int \<Rightarrow> Value" where "get_small_int_value = Value_int16 SMALLINT"
definition get_integer_value :: "int \<Rightarrow> Value" where "get_integer_value = Value_int32 INTEGER"
definition get_big_int_value :: "int \<Rightarrow> Value" where "get_big_int_value = Value_int64 BIGINT"

text \<open>The parameter is an int64_t, so the int64_t constructor of Value is chosen.\<close>

definition get_timestamp_value :: "int \<Rightarrow> Value" where "get_timestamp_value = Value_int64 TIMESTAMP"

definition get_decimal_value :: "dbl \<Rightarrow> Value" where "get_decimal_value = Value_double DECIMAL"

fun cmp_to_int :: "CmpBool \<Rightarrow> int" where
  "cmp_to_int CmpFalse = 0"
| "cmp_to_int CmpTrue = 1"
| "cmp_to_int CmpNull = 2"

definition get_boolean_value_cmp :: "CmpBool \<Rightarrow> Value" where
  "get_boolean_value_cmp c = Value_int8 BOOLEAN (if c = CmpNull then int_null 1 else cmp_to_int c)"

definition get_boolean_value :: "int \<Rightarrow> Value" where "get_boolean_value = Value_int8 BOOLEAN"

definition get_null_value_by_type :: "DataType \<Rightarrow> Value res" where
  "get_null_value_by_type t = (case t of
     BOOLEAN \<Rightarrow> ok (get_boolean_value (int_null 1))
   | TINYINT \<Rightarrow> ok (get_tiny_int_value (int_null 1))
   | SMALLINT \<Rightarrow> ok (get_small_int_value (int_null 2))
   | INTEGER \<Rightarrow> ok (get_integer_value (int_null 4))
   | BIGINT \<Rightarrow> ok (get_big_int_value (int_null 8))
   | DECIMAL \<Rightarrow> ok (get_decimal_value TURTLE_DECIMAL_NULL)
   | VARCHAR \<Rightarrow> Value_chars VARCHAR None 0 False
   | _ \<Rightarrow> throw (Exception UNKNOWN_TYPE ''Attempting to create invalid null type''))"

definition get_zero_value_by_type :: "DataType \<Rightarrow> Value res" where
  "get_zero_value_by_type t = (case t of
     BOOLEAN \<Rightarrow> ok (get_boolean_value 0)
   | TINYINT \<Rightarrow> ok (get_tiny_int_value 0)
   | SMALLINT \<Rightarrow> ok (get_small_int_value 0)
   | INTEGER \<Rightarrow> ok (get_integer_value 0)
   | BIGINT \<Rightarrow> ok (get_big_int_value 0)
   | DECIMAL \<Rightarrow> ok (get_decimal_value (fp_of_int 0))
   | VARCHAR \<Rightarrow> ok (Value_string VARCHAR (bytes_of ''0''))
   | _ \<Rightarrow> throw (Exception UNKNOWN_TYPE ''Unknown type for get_zero_value_by_type''))"

end
