(* ===== verification/IntegerSemantics.thy ===== *)
theory IntegerSemantics
  imports TypeDispatch
begin

section \<open>What the integer types compute\<close>

text \<open>
  TINYINT, SMALLINT, INTEGER and BIGINT against the mathematical integers. \<open>int_value\<close> is the
  number a value stands for, \<open>int_ok\<close> the invariant of integer values. The four classes share one
  contract, the locale \<open>integer_class\<close>, with an interpretation for each; its lemmas say that
  comparison and arithmetic agree with the integers in every combination of widths.
\<close>

fun int_size :: "DataType \<Rightarrow> nat" where
  "int_size TINYINT = 1"
| "int_size SMALLINT = 2"
| "int_size INTEGER = 4"
| "int_size BIGINT = 8"
| "int_size _ = 0"

definition int_value :: "Value \<Rightarrow> int" where
  "int_value v = signed_take_bit (8 * int_size (data_type v) - 1) (uint (raw v))"

definition int_ok :: "Value \<Rightarrow> bool" where
  "int_ok v \<longleftrightarrow> check_integer v \<and> int_size (data_type v) \<le> init v
     \<and> (is_null v \<longleftrightarrow> int_value v = int_null (int_size (data_type v)))"

text \<open>The reference: the exact result, in the wider of the two types.\<close>

fun exact :: "arith_op \<Rightarrow> int \<Rightarrow> int \<Rightarrow> int" where
  "exact Plus x y = x + y"
| "exact Minus x y = x - y"
| "exact Times x y = x * y"
| "exact Divided x y = tdiv x y"
| "exact Modulo x y = tmod x y"

definition wider :: "Value \<Rightarrow> Value \<Rightarrow> DataType" where
  "wider l r = (if int_size (data_type l) \<ge> int_size (data_type r) then data_type l else data_type r)"

definition in_range :: "nat \<Rightarrow> int \<Rightarrow> bool" where
  "in_range n x \<longleftrightarrow> int_null n \<le> x \<and> x \<le> int_max n"

definition exact_arith :: "arith_op \<Rightarrow> Value \<Rightarrow> Value \<Rightarrow> Value res" where
  "exact_arith op l r = (let z = exact op (int_value l) (int_value r); t = wider l r
     in if in_range (int_size t) z then ok (Value_int (int_size t) t z)
        else if in_range (max 4 (int_size t)) z then throw out_of_range
        else throw (Undefined ''signed integer overflow''))"

subsection \<open>Ranges\<close>

lemma int_limits: "int_null n < 0" "int_min n = int_null n + 1" "0 \<le> int_max n" "int_max n = - int_null n - 1"
  by (simp_all add: int_null_def int_min_def int_max_def)

lemma int_null_mono:
  assumes "m \<le> n"
  shows "int_null n \<le> int_null m" and int_max_mono: "int_max m \<le> int_max n"
proof -
  have "(2 :: int) ^ (8 * m - 1) \<le> 2 ^ (8 * n - 1)"
    using assms by (intro power_increasing) auto
  then show "int_null n \<le> int_null m" "int_max m \<le> int_max n"
    unfolding int_null_def int_max_def by linarith+
qed

lemma in_range_mono: "in_range m x \<Longrightarrow> m \<le> n \<Longrightarrow> in_range n x"
  using int_null_mono [of m n] int_max_mono [of m n] by (auto simp: in_range_def)

lemma cast_int_eq_iff: "0 < n \<Longrightarrow> cast_int n x = x \<longleftrightarrow> in_range n x"
  by (auto simp: cast_int_def in_range_def signed_take_bit_int_eq_self_iff int_null_def int_max_def)

lemma checked_in_range: "checked n x = (if in_range n x then ok x else throw (Undefined ''signed integer overflow''))"
  by (simp add: checked_def in_range_def)

lemma in_range_0_1: "in_range n 0" "in_range n (- 1)"
  using int_limits [of n] by (auto simp: in_range_def)

lemma tdiv_mult: "y \<noteq> 0 \<Longrightarrow> tdiv (x * y) y = x"
  by (simp add: tdiv_def sgn_mult abs_mult) (auto simp: sgn_if abs_if)

lemma abs_tdiv: "\<bar>tdiv x y\<bar> = \<bar>x\<bar> div \<bar>y\<bar>"
proof -
  have "0 \<le> \<bar>x\<bar> div \<bar>y\<bar>" by (simp add: div_int_pos_iff)
  then show ?thesis by (cases "x = 0"; cases "y = 0") (simp_all add: tdiv_def abs_mult abs_sgn_eq)
qed

lemma abs_tmod: "\<bar>tmod x y\<bar> = \<bar>x\<bar> mod \<bar>y\<bar>"
  by (cases "x = 0"; cases "y = 0") (simp_all add: tmod_def abs_mult abs_sgn_eq)

lemma tdiv_tmod: "x = tdiv x y * y + tmod x y"
proof -
  have "tdiv x y * y = sgn x * (\<bar>x\<bar> div \<bar>y\<bar> * \<bar>y\<bar>)"
    by (simp add: tdiv_def abs_sgn [of y] ac_simps)
  then have "tdiv x y * y + tmod x y = sgn x * (\<bar>x\<bar> div \<bar>y\<bar> * \<bar>y\<bar> + \<bar>x\<bar> mod \<bar>y\<bar>)"
    by (simp only: tmod_def distrib_left)
  also have "\<dots> = sgn x * \<bar>x\<bar>" by (simp only: div_mult_mod_eq)
  finally show ?thesis by (simp add: sgn_mult_abs)
qed

lemma in_range_tdiv:
  assumes "in_range n x" and "x \<noteq> int_null n" and "y \<noteq> 0"
  shows "in_range n (tdiv x y)" and "tdiv x y \<noteq> int_null n"
proof -
  have "\<bar>tdiv x y\<bar> \<le> \<bar>x\<bar>"
    using assms(3) by (cases "x = 0") (simp_all add: abs_tdiv zdiv_mono2 [of "\<bar>x\<bar>" 1 "\<bar>y\<bar>", simplified])
  moreover have "\<bar>x\<bar> \<le> int_max n"
    using assms(1,2) int_limits [of n] by (auto simp: in_range_def abs_if)
  ultimately have "\<bar>tdiv x y\<bar> \<le> int_max n" by simp
  then show "in_range n (tdiv x y)" "tdiv x y \<noteq> int_null n"
    using int_limits [of n] by (auto simp: in_range_def abs_if split: if_splits)
qed

lemma in_range_tmod:
  assumes "in_range n x" and "x \<noteq> int_null n" and "y \<noteq> 0"
  shows "in_range n (tmod x y)" and "tmod x y \<noteq> int_null n"
proof -
  have "\<bar>tmod x y\<bar> \<le> \<bar>x\<bar>"
    using zmod_le_nonneg_dividend [of "\<bar>x\<bar>" "\<bar>y\<bar>"] by (simp add: abs_tmod)
  moreover have "\<bar>x\<bar> \<le> int_max n"
    using assms(1,2) int_limits [of n] by (auto simp: in_range_def abs_if)
  ultimately have "\<bar>tmod x y\<bar> \<le> int_max n" by simp
  then show "in_range n (tmod x y)" "tmod x y \<noteq> int_null n"
    using int_limits [of n] by (auto simp: in_range_def abs_if split: if_splits)
qed

subsection \<open>The contract of the four classes\<close>

lemma check_integer_cases:
  assumes "check_integer v"
  obtains "data_type v = TINYINT" | "data_type v = SMALLINT" | "data_type v = INTEGER" | "data_type v = BIGINT"
  using assms by (auto simp: check_integer_def)

lemma int_ok_get:
  assumes "int_ok v"
  shows "get_as_int (int_size (data_type v)) v = ok (int_value v)"
    and "in_range (int_size (data_type v)) (int_value v)"
    and "is_null v \<longleftrightarrow> int_value v = int_null (int_size (data_type v))"
    and "int_size (data_type v) \<in> {1, 2, 4, 8}"
    and "check_integer v"
proof -
  show get: "get_as_int (int_size (data_type v)) v = ok (int_value v)"
    using assms by (auto simp: int_ok_def get_as_int_def int_value_def)
  show size: "int_size (data_type v) \<in> {1, 2, 4, 8}"
    using assms by (auto simp: int_ok_def elim: check_integer_cases)
  show "in_range (int_size (data_type v)) (int_value v)"
    using get_as_int_range [OF get] size by (auto simp: in_range_def)
  show "is_null v \<longleftrightarrow> int_value v = int_null (int_size (data_type v))" "check_integer v"
    using assms by (simp_all add: int_ok_def)
qed

lemma int_value_ctor:
  assumes "check_integer (Value_int (int_size t) t x)" and "in_range (int_size t) x"
  shows "int_value (Value_int (int_size t) t x) = x" and "int_ok (Value_int (int_size t) t x)"
proof -
  have size: "int_size t \<in> {1, 2, 4, 8}" using assms(1) by (auto simp: check_integer_def)
  have get: "get_as_int (int_size t) (Value_int (int_size t) t x) = ok x"
    by (rule get_as_int_ctor [OF size]) (use assms(2) in \<open>simp_all add: in_range_def\<close>)
  then show val: "int_value (Value_int (int_size t) t x) = x"
    by (simp add: int_value_def get_as_int_def split: if_splits)
  show "int_ok (Value_int (int_size t) t x)"
    using assms(1) val by (simp add: int_ok_def)
qed

text \<open>The templates of IntegerParentType on numbers that fit.\<close>

lemma arith_value_exact:
  assumes l: "get_as_int n1 l = ok x" and r: "get_as_int n2 r = ok y"
    and x: "in_range n1 x" and y: "in_range n2 y" and pos: "0 < n1" "0 < n2"
    and z: "op \<in> {Plus, Minus, Times}" "z = exact op x y"
    and n: "n = max n1 n2" and t: "t = (if n1 \<ge> n2 then data_type l else data_type r)"
  shows "arith_value op n1 n2 l r = (if in_range n z then ok (Value_int n t z)
    else if in_range (max 4 n) z then throw out_of_range else throw (Undefined ''signed integer overflow''))"
proof -
  have fit: "(z \<noteq> cast_int n1 z \<and> z \<noteq> cast_int n2 z) \<longleftrightarrow> \<not> in_range n z"
    using cast_int_eq_iff [OF pos(1), of z] cast_int_eq_iff [OF pos(2), of z]
      in_range_mono [of n1 z n2] in_range_mono [of n2 z n1] by (auto simp: n max_def)
  have whole: "in_range n z \<Longrightarrow> n1 \<ge> n2 \<Longrightarrow> cast_int n1 z = z" "in_range n z \<Longrightarrow> \<not> n1 \<ge> n2 \<Longrightarrow> cast_int n2 z = z"
    using pos by (simp_all add: cast_int_eq_iff n max_def)
  have big: "in_range n z \<Longrightarrow> in_range (max 4 n) z" by (rule in_range_mono) auto
  show ?thesis
  proof (cases "in_range n z")
    case True
    then have "\<not> (z \<noteq> cast_int n1 z \<and> z \<noteq> cast_int n2 z)" using fit by simp
    moreover have "y \<noteq> 0 \<longrightarrow> tdiv (x * y) y = x" by (simp add: tdiv_mult)
    ultimately show ?thesis using True whole big z(1)
      by (cases "n1 \<ge> n2")
        (auto simp: add_value_def subtract_value_def multiply_value_def l r checked_in_range promoted_def z(2) n t Let_def)
  next
    case False
    with fit have "z \<noteq> cast_int n1 z \<and> z \<noteq> cast_int n2 z" by simp
    with False z(1) show ?thesis
      by (auto simp: add_value_def subtract_value_def multiply_value_def l r checked_in_range promoted_def z(2) n)
  qed
qed

lemma divide_value_exact:
  assumes l: "get_as_int n1 l = ok x" and r: "get_as_int n2 r = ok y"
    and x: "in_range n1 x" "x \<noteq> int_null n1" and pos: "0 < n1" "0 < n2" and y: "y \<noteq> 0"
    and op: "op \<in> {Divided, Modulo}" "z = exact op x y"
    and n: "n = max n1 n2" and t: "t = (if n1 \<ge> n2 then data_type l else data_type r)"
  shows "arith_value op n1 n2 l r = ok (Value_int n t z)" and "in_range n z" and "z \<noteq> int_null n"
proof -
  have div: "in_range n1 (tdiv x y)" "tdiv x y \<noteq> int_null n1" and tm: "in_range n1 (tmod x y)" "tmod x y \<noteq> int_null n1"
    using in_range_tdiv [OF x y] in_range_tmod [OF x y] by auto
  have z: "in_range n1 z" "z \<noteq> int_null n1" using op div tm by auto
  have "in_range n z \<and> z \<noteq> int_null n"
  proof (cases "n = n1")
    case False
    then have "int_null n \<le> int_null n1" "n1 \<le> n" by (auto simp: n int_null_mono)
    then show ?thesis using z in_range_mono [OF z(1), of n] by (auto simp: in_range_def)
  qed (use z in simp)
  then show rng: "in_range n z" and "z \<noteq> int_null n" by auto
  have "in_range (promoted n1 n2) (tdiv x y)"
    using in_range_mono [OF div(1), of "promoted n1 n2"] by (simp add: promoted_def)
  moreover have "n1 \<ge> n2 \<Longrightarrow> cast_int n1 z = z" "\<not> n1 \<ge> n2 \<Longrightarrow> cast_int n2 z = z"
    using rng pos by (simp_all add: cast_int_eq_iff n max_def)
  ultimately show "arith_value op n1 n2 l r = ok (Value_int n t z)"
    using op y by (auto simp: divide_value_def modulo_value_def l r checked_in_range n t)
qed

text \<open>
  A class of values of n bytes: its comparison and arithmetic are the guarded macros. zerr is its
  divide-by-zero exception, err its type error, onull its operate_null.
\<close>

locale integer_class =
  fixes self :: DataType and zerr :: error and err :: error
    and compare :: "cmp_op \<Rightarrow> Value \<Rightarrow> Value \<Rightarrow> CmpBool res"
    and arith :: "arith_op \<Rightarrow> Value \<Rightarrow> Value \<Rightarrow> Value res"
    and minimum :: "Value \<Rightarrow> Value \<Rightarrow> Value res" and maximum :: "Value \<Rightarrow> Value \<Rightarrow> Value res"
    and onull :: "Value \<Rightarrow> Value \<Rightarrow> Value res"
  assumes compare_law: "compare op l r = res_bind (integer_guard l r) (\<lambda>_.
      if is_null l \<or> is_null r then ok CmpNull else compare_func (int_size self) self err op l r)"
    and arith_law: "arith aop l r = res_bind (integer_guard l r) (\<lambda>_.
      if is_null l \<or> is_null r then onull l r
      else res_bind (zero_check zerr aop r) (\<lambda>_. modify_func (int_size self) self err aop l r))"
    and min_law: "minimum l r = res_bind (integer_guard l r) (\<lambda>_.
      if is_null l \<or> is_null r then onull l r else if_less (compare LT l r) l r)"
    and max_law: "maximum l r = res_bind (integer_guard l r) (\<lambda>_.
      if is_null l \<or> is_null r then onull l r else if_less (compare GT l r) l r)"
    and null_law: "int_ok r \<Longrightarrow> \<exists>v. onull l r = ok v \<and> is_null v"
begin

lemma guard_ok: "int_ok l \<Longrightarrow> int_ok r \<Longrightarrow> integer_guard l r = ok ()"
  by (simp add: integer_guard_def check_comparable_def int_ok_get(5))

lemma compare_exact:
  assumes l: "int_ok l" "data_type l = self" and r: "int_ok r"
  shows "compare op l r = ok (if is_null l \<or> is_null r then CmpNull
    else get_cmp_bool (cmp_linorder op (int_value l) (int_value r)))"
proof -
  have "compare_func (int_size self) self err op l r = ok (get_cmp_bool (cmp_linorder op (int_value l) (int_value r)))"
    using int_ok_get(1) [OF l(1)] int_ok_get(1) [OF r] int_ok_get(5) [OF r] l(2)
    by (auto simp: compare_func_def Let_def elim!: check_integer_cases)
  then show ?thesis by (simp add: compare_law guard_ok l r)
qed

lemma arith_null: "int_ok l \<Longrightarrow> int_ok r \<Longrightarrow> is_null l \<or> is_null r \<Longrightarrow> \<exists>v. arith op l r = ok v \<and> is_null v"
  using null_law [of r l] by (auto simp: arith_law guard_ok)

lemma modify_func_int:
  assumes "int_ok r"
  shows "modify_func (int_size self) self err op l r = arith_value op (int_size self) (int_size (data_type r)) l r"
  using int_ok_get(5) [OF assms] by (auto simp: modify_func_def elim!: check_integer_cases)

lemma is_zero_int:
  assumes "int_ok r"
  shows "Value_is_zero r = ok (int_value r = 0)"
  using int_ok_get(1,5) [OF assms]
  by (auto simp: Value_is_zero_def tinyint_is_zero_def smallint_is_zero_def integer_is_zero_def bigint_is_zero_def
      elim!: check_integer_cases)

lemma sizes: "int_ok v \<Longrightarrow> 0 < int_size (data_type v)"
  using int_ok_get(4) [of v] by auto

lemma arith_exact:
  assumes l: "int_ok l" "data_type l = self" "\<not> is_null l" and r: "int_ok r" "\<not> is_null r"
    and op: "op \<in> {Plus, Minus, Times}"
  shows "arith op l r = exact_arith op l r"
proof -
  let ?n1 = "int_size (data_type l)" and ?n2 = "int_size (data_type r)"
  have "zero_check zerr op r = ok ()" using op by (auto simp: zero_check_def)
  then have "arith op l r = arith_value op ?n1 ?n2 l r"
    by (simp add: arith_law guard_ok modify_func_int l r)
  also have "\<dots> = exact_arith op l r"
    by (subst arith_value_exact [OF int_ok_get(1) [OF l(1)] int_ok_get(1) [OF r(1)] int_ok_get(2) [OF l(1)]
            int_ok_get(2) [OF r(1)] sizes [OF l(1)] sizes [OF r(1)] op refl refl refl])
      (simp add: exact_arith_def wider_def Let_def max_def)
  finally show ?thesis .
qed

lemma divide_exact:
  assumes l: "int_ok l" "data_type l = self" "\<not> is_null l" and r: "int_ok r" "\<not> is_null r"
    and op: "op \<in> {Divided, Modulo}"
  shows "arith op l r = (if int_value r = 0 then throw zerr else exact_arith op l r)"
    and "int_value r \<noteq> 0 \<Longrightarrow> \<exists>v. arith op l r = ok v \<and> \<not> is_null v \<and> int_value v = exact op (int_value l) (int_value r)"
proof -
  let ?n1 = "int_size (data_type l)" and ?n2 = "int_size (data_type r)"
  have "zero_check zerr op r = (if int_value r = 0 then throw zerr else ok ())"
    using op by (auto simp: zero_check_def is_zero_int r)
  then have eq: "arith op l r = (if int_value r = 0 then throw zerr else arith_value op ?n1 ?n2 l r)"
    by (simp add: arith_law guard_ok modify_func_int l r)
  have nn: "int_value l \<noteq> int_null ?n1" using int_ok_get(3) [OF l(1)] l(3) by simp
  let ?z = "exact op (int_value l) (int_value r)"
  have w: "wider l r = (if ?n1 \<ge> ?n2 then data_type l else data_type r)" "int_size (wider l r) = max ?n1 ?n2"
    by (simp_all add: wider_def)
  have ci: "check_integer (Value_int k (wider l r) x)" for k x
    using int_ok_get(5) [OF l(1)] int_ok_get(5) [OF r(1)] by (simp add: wider_def check_integer_def)
  show "arith op l r = (if int_value r = 0 then throw zerr else exact_arith op l r)"
  proof (cases "int_value r = 0")
    case False
    note div = divide_value_exact [OF int_ok_get(1) [OF l(1)] int_ok_get(1) [OF r(1)] int_ok_get(2) [OF l(1)] nn
        sizes [OF l(1)] sizes [OF r(1)] False op refl refl w(1)]
    show ?thesis using False div by (simp add: eq exact_arith_def Let_def w(2))
  qed (simp add: eq)
  assume nz: "int_value r \<noteq> 0"
  note div = divide_value_exact [OF int_ok_get(1) [OF l(1)] int_ok_get(1) [OF r(1)] int_ok_get(2) [OF l(1)] nn
      sizes [OF l(1)] sizes [OF r(1)] nz op refl refl w(1)]
  show "\<exists>v. arith op l r = ok v \<and> \<not> is_null v \<and> int_value v = ?z"
    using div nz int_value_ctor [OF ci, of ?z] by (simp add: eq w(2))
qed

end

interpretation tinyint: integer_class TINYINT div_zero type_error tinyint_compare tinyint_arith tinyint_min tinyint_max
  tinyint_operate_null
  by unfold_locales (auto simp: tinyint_compare_def tinyint_arith_def tinyint_min_def tinyint_max_def
      tinyint_operate_null_def Value_int8_def Value_int16_def Value_int32_def Value_int64_def
      dest!: int_ok_get(5) elim!: check_integer_cases)

interpretation smallint: integer_class SMALLINT div_zero type_error smallint_compare smallint_arith smallint_min smallint_max
  smallint_operate_null
  by unfold_locales (auto simp: smallint_compare_def smallint_arith_def smallint_min_def smallint_max_def
      smallint_operate_null_def Value_int8_def Value_int16_def Value_int32_def Value_int64_def
      dest!: int_ok_get(5) elim!: check_integer_cases)

interpretation integer: integer_class INTEGER "Runtime_error ''Division by zero on right-hand side''" type_error_rt
  integer_compare integer_arith integer_min integer_max integer_operate_null
  by unfold_locales (auto simp: integer_compare_def integer_arith_def integer_min_def integer_max_def
      integer_operate_null_def Value_int8_def Value_int16_def Value_int32_def Value_int64_def
      dest!: int_ok_get(5) elim!: check_integer_cases)

interpretation bigint: integer_class BIGINT div_zero type_error bigint_compare bigint_arith bigint_min bigint_max
  bigint_operate_null
  by unfold_locales (auto simp: bigint_compare_def bigint_arith_def bigint_min_def bigint_max_def
      bigint_operate_null_def Value_int8_def Value_int16_def Value_int32_def Value_int64_def
      dest!: int_ok_get(5) elim!: check_integer_cases)

subsection \<open>The dispatched operations\<close>

lemma Value_copy_int:
  assumes "int_ok v"
  shows "Value_copy v = ok (Value_int (int_size (data_type v)) (data_type v) (int_value v))"
  using int_ok_get(1,5) [OF assms]
  by (auto simp: check_integer_def Value_copy_def tinyint_copy_def smallint_copy_def integer_copy_def bigint_copy_def
      Value_int8_def Value_int16_def Value_int32_def Value_int64_def)

lemma int_copy_facts:
  assumes "int_ok v"
  defines "w \<equiv> Value_int (int_size (data_type v)) (data_type v) (int_value v)"
  shows "int_ok w" and "int_value w = int_value v" and "data_type w = data_type v" and "is_null w \<longleftrightarrow> is_null v"
proof -
  have "check_integer w" using int_ok_get(5) [OF assms(1)] by (simp add: w_def check_integer_def)
  then show "int_ok w" "int_value w = int_value v"
    using int_value_ctor int_ok_get(2) [OF assms(1)] by (simp_all add: w_def)
  show "data_type w = data_type v" "is_null w \<longleftrightarrow> is_null v"
    using int_ok_get(3) [OF assms(1)] by (simp_all add: w_def)
qed

lemma Value_compare_int:
  assumes "int_ok l" and "int_ok r"
  shows "Value_compare op l r = ok (if is_null l \<or> is_null r then CmpNull
    else get_cmp_bool (cmp_linorder op (int_value l) (int_value r)))"
  using int_ok_get(5) [OF assms(1)] assms
    tinyint.compare_exact [of l r op] smallint.compare_exact [of l r op]
    integer.compare_exact [of l r op] bigint.compare_exact [of l r op]
  by (auto simp: Value_compare_def simp del: is_null_ctors elim!: check_integer_cases)

lemma Value_arith_int:
  assumes "int_ok l" and "int_ok r" and "\<not> is_null l" and "\<not> is_null r" and "op \<in> {Plus, Minus, Times}"
  shows "Value_arith op l r = exact_arith op l r"
  using int_ok_get(5) [OF assms(1)] tinyint.arith_exact smallint.arith_exact integer.arith_exact bigint.arith_exact
    assms by (elim check_integer_cases) (simp_all add: Value_arith_def del: insert_iff)

lemma Value_compare_null:
  assumes "check_integer l" and "check_integer r" and "is_null l \<or> is_null r"
  shows "Value_compare op l r = ok CmpNull"
  by (rule check_integer_cases [OF assms(1)])
    (use assms in \<open>simp_all add: Value_compare_def tinyint_compare_def smallint_compare_def integer_compare_def
      bigint_compare_def integer_guard_def check_comparable_def\<close>)

lemma Value_arith_null:
  assumes "check_integer l" and "check_integer r" and "is_null l \<or> is_null r"
  shows "\<exists>v. Value_arith op l r = ok v \<and> is_null v \<and> check_integer v"
  by (rule check_integer_cases [OF assms(1)]; rule check_integer_cases [OF assms(2)])
    (use assms in \<open>simp_all add: Value_arith_def tinyint_arith_def smallint_arith_def integer_arith_def bigint_arith_def
      integer_guard_def check_comparable_def tinyint_operate_null_def smallint_operate_null_def
      integer_operate_null_def bigint_operate_null_def check_integer_def Value_int8_def Value_int16_def
      Value_int32_def Value_int64_def\<close>)

lemma exact_arith_ok:
  assumes "int_ok l" and "int_ok r" and "exact_arith op l r = ok v"
  shows "int_ok v" and "int_value v = exact op (int_value l) (int_value r)" and "data_type v = wider l r"
    and "is_null v \<longleftrightarrow> exact op (int_value l) (int_value r) = int_null (int_size (wider l r))"
proof -
  let ?z = "exact op (int_value l) (int_value r)" and ?n = "int_size (wider l r)"
  have v: "v = Value_int ?n (wider l r) ?z" and rng: "in_range ?n ?z"
    using assms(3) by (auto simp: exact_arith_def Let_def split: if_splits)
  have ci: "check_integer (Value_int ?n (wider l r) ?z)"
    using int_ok_get(5) [OF assms(1)] int_ok_get(5) [OF assms(2)] by (simp add: wider_def check_integer_def)
  show "int_ok v" "int_value v = ?z" "data_type v = wider l r" "is_null v \<longleftrightarrow> ?z = int_null ?n"
    using int_value_ctor [OF ci rng] by (simp_all add: v)
qed


lemma int_ok_examples:
  "int_ok (Value_int8 TINYINT (- 100))" "int_ok (Value_int8 TINYINT 28)" "int_ok (Value_int16 SMALLINT 400)"
  "int_ok (Value_int32 INTEGER 7)" "int_ok (Value_int64 BIGINT (- 3))" "int_ok (Value_int8 TINYINT (- 128))"
  by code_simp+


lemma Value_division_exact:
  assumes "int_ok l" and "int_ok r" and "\<not> is_null l" and "\<not> is_null r"
  shows "\<exists>e \<in> {div_zero, Runtime_error ''Division by zero on right-hand side''}. \<forall>aop \<in> {Divided, Modulo}.
      Value_arith aop l r = (if int_value r = 0 then throw e else exact_arith aop l r) \<and>
      (int_value r \<noteq> 0 \<longrightarrow> (\<exists>v. Value_arith aop l r = ok v \<and> \<not> is_null v \<and> int_value v = exact aop (int_value l) (int_value r)))"
  using int_ok_get(5) [OF assms(1)]
proof (cases rule: check_integer_cases)
  case 1
  then show ?thesis using tinyint.divide_exact [OF assms(1) 1 assms(3,2,4)] by (auto simp: Value_arith_def)
next
  case 2
  then show ?thesis using smallint.divide_exact [OF assms(1) 2 assms(3,2,4)] by (auto simp: Value_arith_def)
next
  case 3
  then show ?thesis using integer.divide_exact [OF assms(1) 3 assms(3,2,4)] by (auto simp: Value_arith_def)
next
  case 4
  then show ?thesis using bigint.divide_exact [OF assms(1) 4 assms(3,2,4)] by (auto simp: Value_arith_def)
qed



text \<open>
  C31. Comparison of integer values of any two widths is three-valued: unknown when one of them is NULL,
  and otherwise the comparison of the two numbers. The minimum and the maximum of two non-NULL values
  are the minimum and maximum of the numbers, and NULL when an argument is NULL.
\<close>

theorem integer_comparison:
  assumes "int_ok l" and "int_ok r"
  shows "Value_compare op l r = ok (if is_null l \<or> is_null r then CmpNull
      else get_cmp_bool (cmp_linorder op (int_value l) (int_value r)))
    \<and> (\<exists>v w. Value_min l r = ok v \<and> Value_max l r = ok w \<and>
        (if is_null l \<or> is_null r then is_null v \<and> is_null w
         else \<not> is_null v \<and> \<not> is_null w \<and> int_value v = min (int_value l) (int_value r)
           \<and> int_value w = max (int_value l) (int_value r)))"
proof
  show "Value_compare op l r = ok (if is_null l \<or> is_null r then CmpNull
      else get_cmp_bool (cmp_linorder op (int_value l) (int_value r)))"
    by (rule Value_compare_int [OF assms])
  have nl: "is_null l \<or> is_null r \<Longrightarrow> \<exists>v. Value_min l r = ok v \<and> Value_max l r = ok v \<and> is_null v"
    using int_ok_get(5) [OF assms(1)] tinyint.null_law [OF assms(2), of l] smallint.null_law [OF assms(2), of l]
      integer.null_law [OF assms(2), of l] bigint.null_law [OF assms(2), of l]
    by (elim check_integer_cases)
      (auto simp: Value_min_def Value_max_def tinyint.min_law tinyint.max_law smallint.min_law smallint.max_law
        integer.min_law integer.max_law bigint.min_law bigint.max_law tinyint.guard_ok assms)
  have vals: "Value_min l r = if_less (Value_compare LT l r) l r" "Value_max l r = if_less (Value_compare GT l r) l r"
    if "\<not> is_null l" "\<not> is_null r"
    using int_ok_get(5) [OF assms(1)] that
    by (cases rule: check_integer_cases;
        simp add: Value_min_def Value_max_def Value_compare_def tinyint.min_law tinyint.max_law smallint.min_law
          smallint.max_law integer.min_law integer.max_law bigint.min_law bigint.max_law tinyint.guard_ok assms)+
  show "\<exists>v w. Value_min l r = ok v \<and> Value_max l r = ok w \<and>
        (if is_null l \<or> is_null r then is_null v \<and> is_null w
         else \<not> is_null v \<and> \<not> is_null w \<and> int_value v = min (int_value l) (int_value r)
           \<and> int_value w = max (int_value l) (int_value r))"
  proof (cases "is_null l \<or> is_null r")
    case True
    then show ?thesis using nl by auto
  next
    case False
    then have "Value_min l r = (if int_value l < int_value r then Value_copy l else Value_copy r)"
      "Value_max l r = (if int_value l > int_value r then Value_copy l else Value_copy r)"
      by (simp_all add: vals if_less_def Value_compare_int assms get_cmp_bool_def)
    with False show ?thesis
      using int_copy_facts [OF assms(1)] int_copy_facts [OF assms(2)]
      by (auto simp: Value_copy_int assms min_def max_def simp del: is_null_ctors)
  qed
qed

lemma integer_comparison_witness:
  "Value_compare LT (Value_int16 SMALLINT 400) (Value_int32 INTEGER 7) = ok CmpFalse
   \<and> Value_compare EQ (Value_int8 TINYINT (- 128)) (Value_int32 INTEGER 7) = ok CmpNull"
proof -
  have "\<not> is_null (Value_int16 SMALLINT 400)" "\<not> is_null (Value_int32 INTEGER 7)" "is_null (Value_int8 TINYINT (- 128))"
    "int_value (Value_int32 INTEGER 7) = 7" "int_value (Value_int16 SMALLINT 400) = 400"
    by code_simp+
  with integer_comparison [OF int_ok_examples(3,4), of LT] integer_comparison [OF int_ok_examples(6,4), of EQ]
  show ?thesis by (simp add: get_cmp_bool_def)
qed

subsection \<open>Casts between the integer types\<close>

lemma fits_wider:
  assumes "in_range n x" and "x \<noteq> int_null n" and "n \<le> k"
  shows "int_min k \<le> x" and "x \<le> int_max k"
  using assms int_null_mono [of n k] int_max_mono [of n k] int_limits(2) [of k] by (auto simp: in_range_def)

lemma Value_cast_as_int:
  assumes v: "int_ok v" and t: "0 < int_size t"
  shows "\<exists>e \<in> {out_of_range, Runtime_error ''Numeric value out of range.''}. Value_cast_as v t =
    (if is_null v then ok (Value_int (int_size t) t (int_null (int_size t)))
     else if int_min (int_size t) \<le> int_value v \<and> int_value v \<le> int_max (int_size t)
     then ok (Value_int (int_size t) t (int_value v)) else throw e)"
proof -
  let ?n = "int_size (data_type v)"
  have fit: "\<not> is_null v \<Longrightarrow> ?n \<le> k \<Longrightarrow> int_min k \<le> int_value v \<and> int_value v \<le> int_max k" for k
    using fits_wider [of ?n "int_value v" k] int_ok_get(2,3) [OF v] by auto
  note defs = Value_cast_as_def tinyint_cast_as_def smallint_cast_as_def integer_cast_as_def bigint_cast_as_def
    Value_int8_def Value_int16_def Value_int32_def Value_int64_def narrow_def tinyint_copy_def smallint_copy_def
    integer_copy_def bigint_copy_def
  have get: "get_as_int ?n v = ok (int_value v)" and ci: "check_integer v"
    using int_ok_get(1,5) [OF v] by auto
  from ci show ?thesis
  proof (cases rule: check_integer_cases)
    case 1
    then show ?thesis using get ci t fit [of 1] fit [of 2] fit [of 4] fit [of 8]
      by (cases t) (auto simp: defs)
  next
    case 2
    then show ?thesis using get ci t fit [of 2] fit [of 4] fit [of 8]
      by (cases t) (auto simp: defs not_le)
  next
    case 3
    then show ?thesis using get ci t fit [of 4] fit [of 8]
      by (cases t) (auto simp: defs not_le)
  next
    case 4
    then show ?thesis using get ci t fit [of 8]
      by (cases t) (auto simp: defs not_le)
  qed
qed

text \<open>
  C32. A cast of an integer value to an integer type keeps the number and its NULL-ness, or, exactly when
  a non-NULL number is not representable in the target (whose smallest number is reserved), throws an
  out-of-range error.
\<close>

theorem integer_cast_exact:
  assumes "int_ok v" and "0 < int_size t"
  shows "case Value_cast_as v t of
      ok w \<Rightarrow> int_ok w \<and> data_type w = t \<and> (is_null w \<longleftrightarrow> is_null v) \<and> (\<not> is_null v \<longrightarrow> int_value w = int_value v)
    | throw e \<Rightarrow> \<not> is_null v \<and> \<not> (int_min (int_size t) \<le> int_value v \<and> int_value v \<le> int_max (int_size t))
        \<and> e \<in> {out_of_range, Runtime_error ''Numeric value out of range.''}"
proof -
  let ?k = "int_size t"
  have ci: "check_integer (Value_int ?k t x)" for x using assms(2) by (cases t) (auto simp: check_integer_def)
  note ctor = int_value_ctor [OF ci]
  have "in_range ?k (int_null ?k)" by (simp add: in_range_def) (use int_limits [of ?k] in linarith)
  note nul = ctor [OF this]
  have "in_range ?k x" if "int_min ?k \<le> x" "x \<le> int_max ?k" for x
    using that int_limits(2) [of ?k] by (simp add: in_range_def)
  note fits = ctor [OF this]
  from Value_cast_as_int [OF assms] show ?thesis
    using nul fits [of "int_value v"] int_limits(2) [of ?k] by (auto split: if_splits)
qed

lemma integer_cast_exact_witness:
  "\<exists>w. Value_cast_as (Value_int64 BIGINT (- 3)) TINYINT = ok w \<and> int_value w = - 3
   \<and> (\<exists>e. Value_cast_as (Value_int16 SMALLINT 400) TINYINT = throw e)"
proof -
  have nn: "\<not> is_null (Value_int64 BIGINT (- 3))" "int_value (Value_int64 BIGINT (- 3)) = - 3"
      "int_value (Value_int16 SMALLINT 400) = 400" "int_min 1 \<le> - 3" "(- 3) \<le> int_max 1"
    by code_simp+
  have fit: "\<not> (int_value w = 400 \<and> int_ok w \<and> data_type w = TINYINT)" for w
    using int_ok_get(2) [of w] by (auto simp: in_range_def int_max_def)
  have nn': "\<not> is_null (Value_int16 SMALLINT 400)" by code_simp
  show ?thesis
    using integer_cast_exact [OF int_ok_examples(5), of TINYINT] integer_cast_exact [OF int_ok_examples(3), of TINYINT]
      nn nn' fit by (auto split: sum.splits)
qed

end
