(* ===== verification/ValueStorage.thy ===== *)
theory ValueStorage
  imports IntegerSemantics
begin

section \<open>Values in storage\<close>

text \<open>
  What \<open>serialize_to\<close> and \<open>deserialize_from\<close> promise. \<open>payload\<close> is the part of a value that is
  stored, \<open>same_value\<close> what a reader can tell apart, \<open>storable_value\<close> the non-NULL values that
  survive. The locale \<open>codec\<close> states the interface that the tuple layout relies on; its
  interpretation is on the nine type classes.
\<close>

fun fixed_size :: "DataType \<Rightarrow> nat" where
  "fixed_size BOOLEAN = 1"
| "fixed_size TINYINT = 1"
| "fixed_size SMALLINT = 2"
| "fixed_size INTEGER = 4"
| "fixed_size BIGINT = 8"
| "fixed_size DECIMAL = 8"
| "fixed_size TIMESTAMP = 8"
| "fixed_size _ = 0"

definition payload :: "Value \<Rightarrow> u8 list" where
  "payload v = (if data_type v = VARCHAR then take (unat (len v)) (varlen v)
     else le_bytes (fixed_size (data_type v)) (unat (raw v)))"

definition same_value :: "Value \<Rightarrow> Value \<Rightarrow> bool" where
  "same_value v w \<longleftrightarrow> data_type v = data_type w \<and> (is_null v \<longleftrightarrow> is_null w)
     \<and> (\<not> is_null v \<longrightarrow> payload v = payload w \<and> (if data_type v = VARCHAR
         then len v = len w \<and> unat (len w) \<le> length (varlen w) else fixed_size (data_type w) \<le> init w))"

definition storable_value :: "Value \<Rightarrow> bool" where
  "storable_value v \<longleftrightarrow> \<not> is_null v \<and> (case data_type v of
     INVALID \<Rightarrow> False
   | VARCHAR \<Rightarrow> 0 < len v \<and> unat (len v) \<le> length (varlen v) \<and> unat (len v) + 4 < 2 ^ 32
   | BOOLEAN \<Rightarrow> 1 \<le> init v \<and> signed_take_bit 7 (uint (raw v)) \<noteq> int_null 1
   | DECIMAL \<Rightarrow> 8 \<le> init v \<and> \<not> fp_eq (raw v) TURTLE_DECIMAL_NULL
   | TIMESTAMP \<Rightarrow> 8 \<le> init v \<and> raw v \<noteq> TURTLE_TIMESTAMP_NULL
   | _ \<Rightarrow> int_ok v)"

subsection \<open>Images of integers\<close>

lemma le_bytes_cong: "x mod 256 ^ n = y mod 256 ^ n \<Longrightarrow> le_bytes n x = le_bytes n y"
  using le_bytes_le_nat [of "le_bytes n x"] le_bytes_le_nat [of "le_bytes n y"] by (simp add: le_nat_le_bytes)

lemma load_stored: "load_bytes n (le_bytes n x @ rest) = ok (x mod 256 ^ n)"
  by (simp add: load_bytes_def le_nat_le_bytes)

lemma pow256: "(256 :: 'a :: comm_semiring_1) ^ n = 2 ^ (8 * n)"
  by (simp add: power_mult)

lemma signed_load:
  assumes "0 < n"
  shows "signed_take_bit (8 * n - 1) (int (x mod 256 ^ n)) = signed_take_bit (8 * n - 1) (int x)"
proof -
  have "int (x mod 256 ^ n) = take_bit (8 * n) (int x)"
    by (simp add: zmod_int take_bit_eq_mod pow256)
  moreover have "\<not> 8 * n \<le> 8 * n - 1" using assms by linarith
  ultimately show ?thesis by (simp only: signed_take_bit_take_bit if_False)
qed

lemma payload_Value_int:
  assumes "n \<in> {1, 2, 4, 8}" and "m \<le> n"
  shows "le_bytes m (unat (raw (Value_int n t (signed_take_bit (8 * m - 1) (int x))))) = le_bytes m x"
proof (cases "m = 0")
  case False
  let ?i = "signed_take_bit (8 * m - 1) (int x)"
  have "uint (raw (Value_int n t ?i)) = take_bit (8 * n) ?i"
    using assms(1) by (auto simp: Value_int_def uint_word_of_int_eq)
  moreover have "int (unat w mod 256 ^ m) = take_bit (8 * m) (uint w)" for w :: u64
    by (simp add: take_bit_eq_mod zmod_int pow256)
  ultimately have "int (unat (raw (Value_int n t ?i)) mod 256 ^ m) = take_bit (8 * m) ?i"
    using assms(2) by (simp add: take_bit_take_bit min_def)
  also have "\<dots> = int (x mod 256 ^ m)"
    using False by (simp add: take_bit_signed_take_bit) (simp add: take_bit_eq_mod zmod_int pow256)
  finally show ?thesis by (intro le_bytes_cong) (simp only: of_nat_eq_iff)
qed simp

lemma word_of_nat_mod64: "(word_of_nat (unat w mod 256 ^ 8) :: u64) = w"
proof -
  have "unat w < 256 ^ 8" using unsigned_less [of w] by simp
  then show ?thesis by simp
qed

subsection \<open>The storage interface\<close>

text \<open>
  A writer, a reader that is told the kind of value, and the length the writer promises; what is
  written can be followed by anything.
\<close>

locale codec =
  fixes enc :: "'v \<Rightarrow> u8 list res" and dec :: "u8 list \<Rightarrow> 'k \<Rightarrow> 'v res" and size_of :: "'v \<Rightarrow> u32 res"
    and kind :: "'v \<Rightarrow> 'k" and valid :: "'v \<Rightarrow> bool" and same :: "'v \<Rightarrow> 'v \<Rightarrow> bool"
  assumes enc_dec: "valid v \<Longrightarrow> \<exists>bs. enc v = ok bs \<and> size_of v = ok (word_of_nat (length bs)) \<and> length bs < 2 ^ 32
      \<and> (\<forall>rest. \<exists>w. dec (bs @ rest) (kind v) = ok w \<and> same v w)"
begin

text \<open>A sequence of values written one after the other is read back one after the other.\<close>

lemma enc_list: "\<forall>v \<in> set vs. valid v \<Longrightarrow> \<exists>bss. res_map enc vs = ok bss \<and> length bss = length vs
    \<and> list_all2 (\<lambda>v bs. size_of v = ok (word_of_nat (length bs)) \<and> length bs < 2 ^ 32
        \<and> (\<forall>rest. \<exists>w. dec (bs @ rest) (kind v) = ok w \<and> same v w)) vs bss"
proof (induction vs)
  case (Cons v vs)
  then obtain bss where "res_map enc vs = ok bss" "length bss = length vs"
    "list_all2 (\<lambda>v bs. size_of v = ok (word_of_nat (length bs)) \<and> length bs < 2 ^ 32
        \<and> (\<forall>rest. \<exists>w. dec (bs @ rest) (kind v) = ok w \<and> same v w)) vs bss"
    by auto
  moreover from Cons.prems enc_dec [of v] obtain bs where "enc v = ok bs"
    "size_of v = ok (word_of_nat (length bs)) \<and> length bs < 2 ^ 32
      \<and> (\<forall>rest. \<exists>w. dec (bs @ rest) (kind v) = ok w \<and> same v w)"
    by auto
  ultimately show ?case by (intro exI [of _ "bs # bss"]) simp
qed simp

end

lemma int_payload:
  assumes "n \<in> {1, 2, 4, 8}" and "m \<le> n" and "fixed_size t = m" and "t \<noteq> VARCHAR"
  shows "payload (Value_int n t (signed_take_bit (8 * m - 1) (int x))) = le_bytes m x"
  using payload_Value_int [OF assms(1,2)] assms(3,4) by (simp add: payload_def)

lemma load_int_stored:
  assumes "0 < n"
  shows "load_int n (le_bytes n x @ rest) = ok (signed_take_bit (8 * n - 1) (int x))"
  using signed_load [OF assms, of x] by (simp add: load_int_def load_stored)

lemma le_bytes_append_drop: "drop n (le_bytes n x @ rest) = rest"
  by simp

lemma varchar_roundtrip:
  assumes "data_type v = VARCHAR" and "\<not> is_null v" and "0 < len v" and "unat (len v) \<le> length (varlen v)"
    and "unat (len v) + 4 < 2 ^ 32"
  shows "varchar_serialize v = ok (le_bytes 4 (unat (len v)) @ payload v)"
    and "Value_storage_size v = ok (word_of_nat (4 + unat (len v)))"
    and "\<exists>w. varchar_deserialize ((le_bytes 4 (unat (len v)) @ payload v) @ rest) = ok w \<and> same_value v w"
proof -
  show "varchar_serialize v = ok (le_bytes 4 (unat (len v)) @ payload v)"
    using assms by (simp add: varchar_serialize_def varchar_chars_def payload_def)
  show "Value_storage_size v = ok (word_of_nat (4 + unat (len v)))"
    using assms(1,2) by (simp add: Value_storage_size_def varchar_get_storage_size_def add.commute)
  have mod: "unat (len v) mod 256 ^ 4 = unat (len v)" using unat_u32 [of "len v"] by simp
  have nz: "unat (len v) \<noteq> 0" using assms(3) by (simp add: unat_eq_0 word_gt_0)
  let ?w = "\<lparr>data_type = VARCHAR, len = len v, raw = 0, init = 0, varlen = payload v @ rest\<rparr>"
  have "varchar_deserialize ((le_bytes 4 (unat (len v)) @ payload v) @ rest) = ok ?w"
    using nz by (simp only: varchar_deserialize_def append_assoc load_stored mod) (simp add: Value_chars_def)
  moreover have "same_value v ?w"
    using assms by (simp add: same_value_def is_null_def payload_def)
  ultimately show "\<exists>w. varchar_deserialize ((le_bytes 4 (unat (len v)) @ payload v) @ rest) = ok w \<and> same_value v w"
    by blast
qed

lemma signed_int8_not_null2: "signed_take_bit 7 x \<noteq> int_null 2"
  using signed_take_bit_int_greater_eq_minus_exp [of 7 x] by (simp add: int_null_def)

lemma value_codec:
  assumes "storable_value v"
  shows "\<exists>bs. Value_serialize v = ok bs \<and> Value_storage_size v = ok (word_of_nat (length bs)) \<and> length bs < 2 ^ 32
      \<and> (\<forall>rest. \<exists>w. Value_deserialize (bs @ rest) (data_type v) = ok w \<and> same_value v w)"
proof (cases "data_type v = VARCHAR")
  case True
  note rt = varchar_roundtrip [OF True]
  show ?thesis
    using assms True rt
    by (intro exI [of _ "le_bytes 4 (unat (len v)) @ payload v"])
      (auto simp: storable_value_def Value_serialize_def Value_deserialize_def payload_def)
next
  case False
  let ?n = "fixed_size (data_type v)" and ?x = "unat (raw v)"
  have ser: "Value_serialize v = ok (le_bytes ?n ?x)" "Value_storage_size v = ok (word_of_nat ?n)" "?n \<in> {1, 2, 4, 8}"
    using assms False
    by (auto simp: storable_value_def int_ok_def Value_serialize_def Value_storage_size_def store_int_def
        boolean_serialize_def tinyint_serialize_def smallint_serialize_def integer_serialize_def
        bigint_serialize_def decimal_serialize_def timestamp_serialize_def split: DataType.splits)
  have pay: "payload v = le_bytes ?n ?x" using False by (simp add: payload_def)
  have ints: "same_value v (Value_int n (data_type v) (signed_take_bit (8 * ?n - 1) (int ?x)))"
    if "n \<in> {1, 2, 4, 8}" "?n \<le> n" "signed_take_bit (8 * ?n - 1) (int ?x) \<noteq> int_null n" for n
    using that int_payload [OF that(1,2) refl False, of ?x] pay assms False by (simp add: same_value_def storable_value_def del: of_nat_unat)
  have nn: "\<not> is_null v" "check_integer v \<Longrightarrow> signed_take_bit (8 * ?n - 1) (int ?x) \<noteq> int_null ?n"
    using assms by (auto simp: storable_value_def check_integer_def int_ok_def int_value_def)
  have "\<exists>w. Value_deserialize (le_bytes ?n ?x @ rest) (data_type v) = ok w \<and> same_value v w" for rest
  proof (cases "data_type v")
    case INTEGER
    then show ?thesis using ints [of 4] nn
      by (simp add: Value_deserialize_def integer_deserialize_def load_int_stored Value_int32_def check_integer_def)
  next
    case TINYINT
    then show ?thesis using ints [of 2] signed_int8_not_null2
      by (simp add: Value_deserialize_def tinyint_deserialize_def load_int_stored Value_int16_def
          del: le_bytes.simps One_nat_def)
  next
    case SMALLINT
    then show ?thesis using ints [of 2] nn
      by (simp add: Value_deserialize_def smallint_deserialize_def load_int_stored Value_int16_def check_integer_def)
  next
    case BIGINT
    then show ?thesis using ints [of 8] nn
      by (simp add: Value_deserialize_def bigint_deserialize_def load_int_stored Value_int64_def check_integer_def)
  next
    case BOOLEAN
    then show ?thesis using ints [of 1] assms
      by (simp add: Value_deserialize_def boolean_deserialize_def load_int_stored Value_int8_def storable_value_def
          del: le_bytes.simps One_nat_def)
  next
    case DECIMAL
    then show ?thesis using assms
      by (simp add: Value_deserialize_def decimal_deserialize_def load_stored word_of_nat_mod64 [simplified] storable_value_def
          same_value_def payload_def) (simp add: Value_double_def)
  next
    case TIMESTAMP
    then show ?thesis using assms
      by (simp add: Value_deserialize_def timestamp_deserialize_def load_stored word_of_nat_mod64 [simplified] storable_value_def
          same_value_def payload_def) (simp add: Value_uint64_def)
  qed (use assms False in \<open>auto simp: storable_value_def\<close>)
  then show ?thesis using ser by auto
qed

interpretation column: codec Value_serialize Value_deserialize Value_storage_size data_type storable_value same_value
  by unfold_locales (rule value_codec)

subsection \<open>Properties\<close>

text \<open>The number of an integer value is part of its payload.\<close>

lemma same_value_int:
  assumes "same_value v w" and "\<not> is_null v" and "check_integer v"
  shows "int_value w = int_value v"
proof -
  let ?n = "int_size (data_type v)"
  have n: "fixed_size (data_type v) = ?n" "0 < ?n" "data_type v \<noteq> VARCHAR" "data_type w = data_type v"
    using assms by (auto simp: check_integer_def same_value_def)
  then have "le_bytes ?n (unat (raw v)) = le_bytes ?n (unat (raw w))"
    using assms(1,2) by (simp add: same_value_def payload_def)
  then have "unat (raw v) mod 256 ^ ?n = unat (raw w) mod 256 ^ ?n"
    by (metis le_nat_le_bytes)
  then have "signed_take_bit (8 * ?n - 1) (int (unat (raw v))) = signed_take_bit (8 * ?n - 1) (int (unat (raw w)))"
    using signed_load [OF n(2), of "unat (raw v)"] signed_load [OF n(2), of "unat (raw w)"] by simp
  then show ?thesis by (simp add: int_value_def n(4))
qed

lemma int_ok_same:
  assumes "int_ok v" and "\<not> is_null v" and "same_value v w"
  shows "int_ok w"
proof -
  have c: "check_integer v" using assms(1) by (rule int_ok_get(5))
  then have "fixed_size (data_type v) = int_size (data_type v)" "data_type v \<noteq> VARCHAR" by (auto simp: check_integer_def)
  then show ?thesis using assms c same_value_int [OF assms(3,2) c]
    by (simp add: int_ok_def same_value_def check_integer_def)
qed

text \<open>
  C20. Storing a value and loading it back gives the same value, for every type and whatever follows
  it in the buffer, with the storage size that the value announces. This holds for every non-NULL value
  that its constructors make, except the empty VARCHAR.
\<close>

theorem value_storage_roundtrip:
  assumes "storable_value v"
  shows "\<exists>bs. Value_serialize v = ok bs \<and> Value_storage_size v = ok (word_of_nat (length bs))
    \<and> (\<forall>rest. \<exists>w. Value_deserialize (bs @ rest) (data_type v) = ok w \<and> data_type w = data_type v \<and> \<not> is_null w
      \<and> payload w = payload v \<and> (check_integer v \<longrightarrow> int_value w = int_value v))"
proof -
  from column.enc_dec [OF assms] obtain bs where bs: "Value_serialize v = ok bs"
    "Value_storage_size v = ok (word_of_nat (length bs))"
    and dec: "\<forall>rest. \<exists>w. Value_deserialize (bs @ rest) (data_type v) = ok w \<and> same_value v w"
    by auto
  have nn: "\<not> is_null v" using assms by (simp add: storable_value_def)
  have same: "data_type w = data_type v \<and> \<not> is_null w \<and> payload w = payload v
      \<and> (check_integer v \<longrightarrow> int_value w = int_value v)" if "same_value v w" for w
    using that same_value_int [OF that nn] nn by (simp add: same_value_def)
  have "\<exists>w. Value_deserialize (bs @ rest) (data_type v) = ok w \<and> data_type w = data_type v \<and> \<not> is_null w
      \<and> payload w = payload v \<and> (check_integer v \<longrightarrow> int_value w = int_value v)" for rest
    using dec [rule_format, of rest] by (elim exE conjE) (intro exI conjI, assumption, use same in simp_all)
  then show ?thesis using bs by auto
qed

lemma value_storage_roundtrip_witness:
  "\<exists>bs w. Value_serialize (Value_int64 BIGINT (- 3)) = ok bs \<and> Value_deserialize (bs @ [9]) BIGINT = ok w
     \<and> int_value w = - 3"
proof -
  let ?v = "Value_int64 BIGINT (- 3)"
  have "\<not> is_null ?v" "int_value ?v = - 3" "data_type ?v = BIGINT" by code_simp+
  then have v: "storable_value ?v" "check_integer ?v" "int_value ?v = - 3" "data_type ?v = BIGINT"
    using int_ok_examples(5) int_ok_get(5) by (simp_all add: storable_value_def)
  from value_storage_roundtrip [OF v(1)] obtain bs where "Value_serialize ?v = ok bs" and
    "\<forall>rest. \<exists>w. Value_deserialize (bs @ rest) (data_type ?v) = ok w \<and> data_type w = data_type ?v \<and> \<not> is_null w
      \<and> payload w = payload ?v \<and> (check_integer ?v \<longrightarrow> int_value w = int_value ?v)"
    by (elim exE conjE) (rule that)
  then show ?thesis using v(2-4) by (auto dest!: spec [of _ "[9]"])
qed

lemma load_int_ctor:
  assumes "n \<in> {1, 2, 4, 8}" and "in_range n i"
  shows "load_int n (le_bytes n (unat (raw (Value_int n t i)))) = ok i"
proof -
  have "get_as_int n (Value_int n t i) = ok i"
    by (rule get_as_int_ctor) (use assms in \<open>simp_all add: in_range_def\<close>)
  moreover have "n > 0" using assms(1) by auto
  ultimately show ?thesis
    using load_int_stored [of n "unat (raw (Value_int n t i))" "[]"] by (simp add: get_as_int_def split: if_splits)
qed

lemma int_null_in_range: "in_range n (int_null n)" "in_range 1 (- 128)"
  using int_limits [of n] by (simp_all add: in_range_def int_null_def int_max_def)


end
