(* ===== verification/Tuple.thy ===== *)
theory Tuple
  imports ValueStorage SlottedPage
begin

section \<open>Columns, schemas and tuples\<close>

text \<open>
  include/turtle/catalog/column.hpp and column_schema.hpp, and src/storage/table/tuple.cpp. A tuple is
  a byte block: a bitmap of the NULL columns, then the images of the other values in column order.
\<close>

record Column =
  col_name :: string
  col_type :: DataType
  col_length :: u32

type_synonym ColumnSchema = "Column list"

definition get_column :: "ColumnSchema \<Rightarrow> string \<Rightarrow> Column res" where
  "get_column schema n = (case List.find (\<lambda>c. col_name c = n) schema of
     Some c \<Rightarrow> ok c
   | None \<Rightarrow> throw (Runtime_error (''Column not found: '' @ n)))"

fun columns_text :: "ColumnSchema \<Rightarrow> string" where
  "columns_text [] = ''''"
| "columns_text [c] = col_name c @ '':'' @ data_type_to_string (col_type c)"
| "columns_text (c # cs) = col_name c @ '':'' @ data_type_to_string (col_type c) @ '', '' @ columns_text cs"

definition schema_to_string :: "ColumnSchema \<Rightarrow> string" where
  "schema_to_string schema = ''('' @ columns_text schema @ '')''"

text \<open>A tuple; a default one has no memory. The storage size is the length of the block.\<close>

record Tuple =
  allocated :: bool
  bytes :: "u8 list"
  record_id :: RecordId

definition empty_Tuple :: Tuple where
  "empty_Tuple = \<lparr>allocated = False, bytes = [], record_id = default_RecordId\<rparr>"

definition storage_size :: "Tuple \<Rightarrow> u32" where
  "storage_size t = word_of_nat (length (bytes t))"

definition null_bitmap_size :: "nat \<Rightarrow> nat" where
  "null_bitmap_size column_count = (column_count + 7) div 8"

text \<open>The sum of the sizes, in a uint32_t.\<close>

fun values_size :: "Value list \<Rightarrow> u32 res" where
  "values_size [] = ok 0"
| "values_size (v # vs) = res_bind (Value_storage_size v) (\<lambda>n. res_bind (values_size vs) (\<lambda>m. ok (n + m)))"

definition set_null_bit :: "nat \<Rightarrow> u8 list \<Rightarrow> u8 list" where
  "set_null_bit i mem = mem[i div 8 := or (mem ! (i div 8)) (push_bit (i mod 8) 1)]"

definition null_bit :: "nat \<Rightarrow> u8 list \<Rightarrow> bool" where
  "null_bit i mem = bit (mem ! (i div 8)) (i mod 8)"

text \<open>The loop of the constructor, from column i with the data pointer at ptr.\<close>

fun write_values :: "nat \<Rightarrow> nat \<Rightarrow> Value list \<Rightarrow> u8 list \<Rightarrow> u8 list res" where
  "write_values i ptr [] mem = ok mem"
| "write_values i ptr (v # vs) mem =
     (if is_null v
      then if length mem \<le> i div 8 then throw (Undefined ''write past the tuple'')
        else write_values (Suc i) ptr vs (set_null_bit i mem)
      else res_bind (Value_serialize v) (\<lambda>bs.
        if length mem < ptr + length bs then throw (Undefined ''write past the tuple'')
        else res_bind (Value_storage_size v) (\<lambda>n.
          write_values (Suc i) (ptr + unat n) vs (write_at ptr bs mem))))"

definition new_Tuple :: "ColumnSchema \<Rightarrow> Value list \<Rightarrow> Tuple res" where
  "new_Tuple schema values = res_bind (assert_that (length values = length schema)) (\<lambda>_.
     let column_count = length values;
         bitmap_size = null_bitmap_size column_count
     in res_bind (values_size values) (\<lambda>n.
        res_bind (write_values 0 bitmap_size values (replicate (unat (word_of_nat bitmap_size + n)) 0)) (\<lambda>mem.
        ok \<lparr>allocated = True, bytes = mem, record_id = default_RecordId\<rparr>)))"

text \<open>The copy constructor and the assignment; both drop the record id of a tuple without memory.\<close>

definition Tuple_copy :: "Tuple \<Rightarrow> Tuple" where
  "Tuple_copy other = (if allocated other then other else empty_Tuple)"

definition Tuple_assign :: "Tuple \<Rightarrow> Tuple \<Rightarrow> Tuple" where
  "Tuple_assign this other = (if allocated other then other
     else this\<lparr>allocated := False, bytes := []\<rparr>)"

definition Tuple_serialize :: "Tuple \<Rightarrow> u8 list" where
  "Tuple_serialize t = bytes t"

definition Tuple_deserialize :: "u8 list \<Rightarrow> Tuple \<Rightarrow> Tuple" where
  "Tuple_deserialize storage t = t\<lparr>allocated := True, bytes := storage\<rparr>"

text \<open>The offset of a column: the sizes of all the columns before it, from the static types.\<close>

fun skip_columns :: "u8 list \<Rightarrow> Column list \<Rightarrow> nat \<Rightarrow> nat res" where
  "skip_columns mem [] offset = ok offset"
| "skip_columns mem (c # cs) offset =
     res_bind (if col_type c = VARCHAR
       then res_bind (load_bytes 4 (drop offset mem)) (\<lambda>n. ok (unat (4 + word_of_nat n :: u32)))
       else get_type_size (col_type c)) (\<lambda>n. skip_columns mem cs (offset + n))"

definition tuple_value :: "ColumnSchema \<Rightarrow> nat \<Rightarrow> Tuple \<Rightarrow> Value res" where
  "tuple_value schema column_idx t = res_bind (assert_that (column_idx < length schema)) (\<lambda>_.
     res_bind (skip_columns (bytes t) (take column_idx schema) (null_bitmap_size (length schema))) (\<lambda>offset.
       if length (bytes t) \<le> column_idx div 8 then throw (Undefined ''read past the tuple'')
       else if null_bit column_idx (bytes t) then ok (Value_null (col_type (schema ! column_idx)))
       else Value_deserialize (drop offset (bytes t)) (col_type (schema ! column_idx))))"

end
