(* ===== verification/TableHeap.thy ===== *)
theory TableHeap
  imports BufferPool_Steps SlottedPage_Store Tuple
begin

section \<open>Table heaps and their iterators\<close>

text \<open>
  src/storage/table/table_heap.cpp and table_iterator.cpp. A table heap is a linked list of slotted
  pages in one file, reached through the buffer pool; the state of an operation is the pool and the
  heap object. Guards are local variables, so an operation gives its guard up on every path, also
  when an exception passes. Loops that follow links between pages are \<open>partial_function\<close>s; None is
  a run that does not end.

  insert_tuple first looks for a page with room in free_space_map_ and stores its number in
  target_page_id, which nothing reads; the search has no effect and is not part of the model.
\<close>

record TableHeap =
  heap_file_id :: FileId
  first_page_id :: PageId
  last_page_id :: PageId
  free_space_map :: "PageId \<Rightarrow> u32 option"

type_synonym heap_state = "BufferPoolManager \<times> TableHeap"

definition drop_write :: "FrameId \<Rightarrow> heap_state \<Rightarrow> heap_state" where
  "drop_write f s = (fst (write_guard_drop (Some f) (fst s)), snd s)"

definition drop_read :: "FrameId \<Rightarrow> BufferPoolManager \<Rightarrow> BufferPoolManager" where
  "drop_read f b = fst (read_guard_drop (Some f) b)"

text \<open>\<open>free_space_map_[page] = usable_space\<close> for the page in frame f.\<close>

definition note_space :: "PageId \<Rightarrow> FrameId \<Rightarrow> heap_state \<Rightarrow> heap_state" where
  "note_space q f s = (fst s, (snd s)\<lparr>free_space_map := (free_space_map (snd s))(q \<mapsto> usable_space (guard_data f (fst s)))\<rparr>)"

definition set_bytes :: "FrameId \<Rightarrow> u8 list \<Rightarrow> heap_state \<Rightarrow> heap_state" where
  "set_bytes f m s = (guard_write f (\<lambda>_. m) (fst s), snd s)"

subsection \<open>Construction\<close>

text \<open>The loop of the constructor of a new table.\<close>

partial_function (option) init_pages :: "FrameId \<Rightarrow> PageId \<Rightarrow> PageId \<Rightarrow> heap_state \<Rightarrow> (heap_state \<times> unit res) option" where
  "init_pages f first cur s =
     (if cur = INVALID_PAGE_ID then Some (s, ok ())
      else case lock f (fst s) of
        (b, Inl e) \<Rightarrow> Some ((b, snd s), Inl e)
      | (b, Inr _) \<Rightarrow>
          (let m = sp_init first (guard_data f b);
               (b2, h2) = note_space cur f (set_bytes f m (b, snd s))
           in init_pages f first (get_next_page_id m) (drop_write f (b2, h2\<lparr>last_page_id := cur\<rparr>))))"

definition new_TableHeap :: "FileId \<Rightarrow> BufferPoolManager \<Rightarrow> (BufferPoolManager \<times> TableHeap res) option" where
  "new_TableHeap file b = (case new_page file b of
     (b1, Inl e) \<Rightarrow> Some (b1, Inl e)
   | (b1, Inr None) \<Rightarrow> Some (b1, throw (Runtime_error ''Out of memory: Cannot allocate first page for TableHeap.''))
   | (b1, Inr (Some (f, q))) \<Rightarrow>
       (case init_pages f q q (b1, \<lparr>heap_file_id = file, first_page_id = q, last_page_id = INVALID_PAGE_ID,
           free_space_map = Map.empty\<rparr>) of
          None \<Rightarrow> None
        | Some (s, Inl e) \<Rightarrow> Some (fst s, Inl e)
        | Some (s, Inr _) \<Rightarrow> Some (fst s, ok (snd s))))"

text \<open>Opening a table: the last page is found by following the links; None inside is the early return.\<close>

partial_function (option) find_last :: "FileId \<Rightarrow> PageId \<Rightarrow> BufferPoolManager \<Rightarrow> (BufferPoolManager \<times> PageId option res) option" where
  "find_last file q b = (case bpm_read_page file q b of
     (b1, Inl e) \<Rightarrow> Some (b1, Inl e)
   | (b1, Inr None) \<Rightarrow> Some (b1, ok None)
   | (b1, Inr (Some f)) \<Rightarrow>
       (let n = get_next_page_id (guard_data f b1)
        in if n = INVALID_PAGE_ID then Some (drop_read f b1, ok (Some q))
           else find_last file n (drop_read f b1)))"

definition open_TableHeap :: "FileId \<Rightarrow> PageId \<Rightarrow> BufferPoolManager \<Rightarrow> (BufferPoolManager \<times> TableHeap res) option" where
  "open_TableHeap file first b = (case find_last file first b of
     None \<Rightarrow> None
   | Some (b1, Inl e) \<Rightarrow> Some (b1, Inl e)
   | Some (b1, Inr q) \<Rightarrow> Some (b1, ok \<lparr>heap_file_id = file, first_page_id = first,
       last_page_id = (case q of Some q \<Rightarrow> q | None \<Rightarrow> INVALID_PAGE_ID), free_space_map = Map.empty\<rparr>))"

subsection \<open>Insertion\<close>

text \<open>
  The loop of insert_tuple with the write guard on frame f. None as a result is the return value
  false; the record id is stored through the pointer rid.
\<close>

partial_function (option) insert_loop :: "FrameId \<Rightarrow> u8 list \<Rightarrow> heap_state \<Rightarrow> (heap_state \<times> RecordId option res) option" where
  "insert_loop f bs s = (case insert_tuple (guard_data f (fst s)) bs of
     Inl e \<Rightarrow> Some (drop_write f s, Inl e)
   | Inr (m, Some rid) \<Rightarrow>
       Some (drop_write f (note_space (pg_page_id (pages (fst s) f)) f (set_bytes f m s)), ok (Some rid))
   | Inr (m, None) \<Rightarrow>
       if tuple_count m = 0 then Some (s, throw (Terminated ''Tuple too large to fit in a single page''))
       else case new_page (heap_file_id (snd s)) (fst s) of
         (b1, Inl e) \<Rightarrow> Some (drop_write f (b1, snd s), Inl e)
       | (b1, Inr None) \<Rightarrow> Some (drop_write f (b1, snd s), ok None)
       | (b1, Inr (Some (g, q))) \<Rightarrow>
           let s2 = set_bytes f (set_next_page_id q (guard_data f b1)) (b1, snd s);
               s3 = note_space (pg_page_id (pages (fst s2) f)) f s2
           in case lock g (fst s3) of
             (b4, Inl e) \<Rightarrow> Some (drop_write f (b4, snd s3), Inl e)
           | (b4, Inr _) \<Rightarrow>
               let (b5, h5) = set_bytes g (sp_init q (guard_data g b4)) (b4, snd s3)
               in insert_loop g bs (drop_write f (b5, h5\<lparr>last_page_id := q\<rparr>)))"

definition heap_insert_tuple :: "Tuple \<Rightarrow> heap_state \<Rightarrow> (heap_state \<times> RecordId option res) option" where
  "heap_insert_tuple t s = (case bpm_write_page (heap_file_id (snd s)) (last_page_id (snd s)) (fst s) of
     (b1, Inl e) \<Rightarrow> Some ((b1, snd s), Inl e)
   | (b1, Inr None) \<Rightarrow> Some ((b1, snd s), ok None)
   | (b1, Inr (Some f)) \<Rightarrow> insert_loop f (Tuple_serialize t) (b1, snd s))"

subsection \<open>Deletion and lookup\<close>

definition mark_delete :: "RecordId \<Rightarrow> (heap_state, bool) op" where
  "mark_delete rid s = (case bpm_write_page (heap_file_id (snd s)) (page_id rid) (fst s) of
     (b1, Inl e) \<Rightarrow> ((b1, snd s), Inl e)
   | (b1, Inr None) \<Rightarrow> ((b1, snd s), ok False)
   | (b1, Inr (Some f)) \<Rightarrow>
       (case delete_tuple (guard_data f b1) rid of
          Inl e \<Rightarrow> (drop_write f (b1, snd s), Inl e)
        | Inr m \<Rightarrow> (drop_write f (note_space (page_id rid) f (set_bytes f m (b1, snd s))), ok True)))"

definition heap_get_tuple :: "RecordId \<Rightarrow> Tuple \<Rightarrow> (heap_state, Tuple \<times> bool) op" where
  "heap_get_tuple rid t s = (case bpm_read_page (heap_file_id (snd s)) (page_id rid) (fst s) of
     (b1, Inl e) \<Rightarrow> ((b1, snd s), Inl e)
   | (b1, Inr None) \<Rightarrow> ((b1, snd s), ok (t, False))
   | (b1, Inr (Some f)) \<Rightarrow>
       (case sp_tuple (guard_data f b1) rid of
          Inl e \<Rightarrow> ((drop_read f b1, snd s), Inl e)
        | Inr bs \<Rightarrow> ((drop_read f b1, snd s), ok (Tuple_deserialize bs t, True))))"

subsection \<open>The iterator\<close>

record TableIterator =
  current_id :: RecordId
  current_tuple :: Tuple

text \<open>The loop over the slots of a page that skips the deleted ones.\<close>

function skip_deleted :: "pagebuf \<Rightarrow> u32 \<Rightarrow> u32 \<Rightarrow> u32 res" where
  "skip_deleted m n i =
     (if i < n then (case is_slot_occupied m i of
          Inl e \<Rightarrow> Inl e
        | Inr occupied \<Rightarrow> if occupied then ok i else skip_deleted m n (i + 1))
      else ok i)"
  by pat_completeness auto

lemma word_Suc_less: "(i :: u32) < n \<Longrightarrow> unat (i + 1) = Suc (unat i)"
proof -
  assume "i < n"
  then have "i \<noteq> - 1" using word_order.extremum_strict by blast
  then have "1 + i \<noteq> 0" by (simp add: eq_neg_iff_add_eq_0 add.commute)
  then show ?thesis using unatSuc [of i] by (simp add: add.commute)
qed

termination skip_deleted
  by (relation "measure (\<lambda>(m, n, i). unat n - unat i)") (auto simp: word_Suc_less word_less_nat_alt)

partial_function (option) advance_to_valid :: "FileId \<Rightarrow> BufferPoolManager \<times> TableIterator \<Rightarrow>
    ((BufferPoolManager \<times> TableIterator) \<times> unit res) option" where
  "advance_to_valid file s =
     (let (b, it) = s; q = page_id (current_id it)
      in if q = INVALID_PAGE_ID then Some ((b, it\<lparr>current_id := \<lparr>page_id = INVALID_PAGE_ID, slot_num = 0\<rparr>\<rparr>), ok ())
         else case bpm_read_page file q b of
           (b1, Inl e) \<Rightarrow> Some ((b1, it), Inl e)
         | (b1, Inr None) \<Rightarrow> Some ((b1, it), ok ())
         | (b1, Inr (Some f)) \<Rightarrow>
             (let m = guard_data f b1; n = slot_count m
              in case skip_deleted m n (slot_num (current_id it)) of
                Inl e \<Rightarrow> Some ((drop_read f b1, it), Inl e)
              | Inr i \<Rightarrow>
                  (let it1 = it\<lparr>current_id := \<lparr>page_id = q, slot_num = i\<rparr>\<rparr>
                   in if i < n then (case sp_tuple m (current_id it1) of
                          Inl e \<Rightarrow> Some ((drop_read f b1, it1), Inl e)
                        | Inr bs \<Rightarrow> Some ((drop_read f b1, it1\<lparr>current_tuple := Tuple_deserialize bs (current_tuple it1)\<rparr>), ok ()))
                      else advance_to_valid file (drop_read f b1,
                        it1\<lparr>current_id := \<lparr>page_id = get_next_page_id m, slot_num = 0\<rparr>\<rparr>))))"

definition new_TableIterator :: "FileId \<Rightarrow> RecordId \<Rightarrow> BufferPoolManager \<Rightarrow> ((BufferPoolManager \<times> TableIterator) \<times> unit res) option" where
  "new_TableIterator file rid b =
     (let it = \<lparr>current_id = rid, current_tuple = empty_Tuple\<rparr>
      in if page_id rid \<noteq> INVALID_PAGE_ID then advance_to_valid file (b, it) else Some ((b, it), ok ()))"

definition heap_begin :: "TableHeap \<Rightarrow> BufferPoolManager \<Rightarrow> ((BufferPoolManager \<times> TableIterator) \<times> unit res) option" where
  "heap_begin h = new_TableIterator (heap_file_id h) \<lparr>page_id = first_page_id h, slot_num = 0\<rparr>"

definition heap_end :: "TableHeap \<Rightarrow> BufferPoolManager \<Rightarrow> ((BufferPoolManager \<times> TableIterator) \<times> unit res) option" where
  "heap_end h = new_TableIterator (heap_file_id h) \<lparr>page_id = INVALID_PAGE_ID, slot_num = 0\<rparr>"

definition iterator_next :: "FileId \<Rightarrow> BufferPoolManager \<times> TableIterator \<Rightarrow>
    ((BufferPoolManager \<times> TableIterator) \<times> unit res) option" where
  "iterator_next file s = (case s of (b, it) \<Rightarrow>
     advance_to_valid file (b, it\<lparr>current_id := (current_id it)\<lparr>slot_num := slot_num (current_id it) + 1\<rparr>\<rparr>))"

definition iterator_eq :: "TableIterator \<Rightarrow> TableIterator \<Rightarrow> bool" where
  "iterator_eq x y \<longleftrightarrow> current_id x = current_id y"

end
