(* ===== verification/Catalog.thy ===== *)
theory Catalog
  imports TableHeap
begin

section \<open>The catalog\<close>

text \<open>
  include/turtle/catalog/*.hpp and src/catalog/*.cpp, the part in memory. An unordered_map is an
  association list, whose order stands for the unspecified order of iteration. A Database refers to
  the Metadata object that the catalog keeps under the same name, so it holds that name. The clock is an
  argument, and a time point is its 64-bit count. The disk manager, which the catalog and the buffer
  pool share, is the field of the pool.
\<close>

record Metadata =
  db_name :: string
  db_file_path :: string
  meta_file_path :: string
  created_at :: u64
  updated_at :: u64
  namespace_count :: u64
  table_count :: u64

record Table =
  tb_name :: string
  tb_schema :: ColumnSchema
  root_page_id :: PageId

record Namespace =
  ns_name :: string
  ns_tables :: "(string \<times> Table) list"

record Database =
  meta :: string
  namespaces :: "(string \<times> Namespace) list"

record TableInfo =
  ti_name :: string
  ti_schema :: ColumnSchema
  ti_table :: TableHeap
  ti_oid :: TableOid

record Catalog =
  bpm :: BufferPoolManager
  catalog_file_path :: string
  db_dir :: string
  metadatas :: "(string \<times> Metadata) list"
  databases :: "(string \<times> Database) list"
  tables :: "(TableOid \<times> TableInfo) list"
  table_oids :: "(string \<times> TableOid) list"
  next_table_oid :: TableOid

text \<open>\<open>emplace\<close> of a map: a key that is present keeps its value.\<close>

definition emplace :: "'k \<Rightarrow> 'v \<Rightarrow> ('k \<times> 'v) list \<Rightarrow> ('k \<times> 'v) list" where
  "emplace k v m = (if map_of m k = None then m @ [(k, v)] else m)"

subsection \<open>Metadata, namespaces and databases\<close>

definition new_Metadata :: "string \<Rightarrow> string \<Rightarrow> string \<Rightarrow> u64 \<Rightarrow> Metadata" where
  "new_Metadata name file mfile now = \<lparr>db_name = name, db_file_path = file, meta_file_path = mfile,
     created_at = now, updated_at = now, namespace_count = 0, table_count = 0\<rparr>"

definition touch :: "u64 \<Rightarrow> Metadata \<Rightarrow> Metadata" where
  "touch now m = m\<lparr>updated_at := now\<rparr>"

definition increase_namespace :: "Metadata \<Rightarrow> Metadata" where
  "increase_namespace m = m\<lparr>namespace_count := namespace_count m + 1\<rparr>"

definition new_Namespace :: "string \<Rightarrow> Namespace" where
  "new_Namespace n = \<lparr>ns_name = n, ns_tables = []\<rparr>"

definition add_table :: "Table \<Rightarrow> Namespace \<Rightarrow> Namespace" where
  "add_table t ns = ns\<lparr>ns_tables := emplace (tb_name t) t (ns_tables ns)\<rparr>"

definition namespace_table :: "string \<Rightarrow> Namespace \<Rightarrow> Table option" where
  "namespace_table n ns = map_of (ns_tables ns) n"

text \<open>On a database and the metadata it refers to.\<close>

definition create_namespace :: "string \<Rightarrow> u64 \<Rightarrow> Database \<times> Metadata \<Rightarrow> Database \<times> Metadata" where
  "create_namespace n now dm = (case dm of (db, m) \<Rightarrow>
     (case map_of (namespaces db) n of
        Some _ \<Rightarrow> (db, m)
      | None \<Rightarrow> (db\<lparr>namespaces := emplace n (new_Namespace n) (namespaces db)\<rparr>, touch now (increase_namespace m))))"

definition get_namespace :: "string \<Rightarrow> Database \<Rightarrow> Namespace option" where
  "get_namespace n db = map_of (namespaces db) n"

subsection \<open>Databases of the catalog\<close>

definition get_database_info :: "string \<Rightarrow> Catalog \<Rightarrow> Metadata res" where
  "get_database_info n c = (case map_of (metadatas c) n of
     Some m \<Rightarrow> ok m
   | None \<Rightarrow> throw (Runtime_error (''Database not found: '' @ n)))"

definition list_databases :: "Catalog \<Rightarrow> Metadata list res" where
  "list_databases c = res_map (\<lambda>(n, _). get_database_info n c) (metadatas c)"

definition get_database :: "string \<Rightarrow> Catalog \<Rightarrow> Database option" where
  "get_database n c = map_of (databases c) n"

text \<open>\<open>operator/\<close> of std::filesystem::path.\<close>

definition path_join :: "string \<Rightarrow> string \<Rightarrow> string" where
  "path_join d n = (if n \<noteq> [] \<and> hd n = CHR ''/'' then n
     else if d = [] \<or> last d = CHR ''/'' then d @ n else d @ ''/'' @ n)"

definition cat_disk :: "(DiskManager, 'a) op \<Rightarrow> (Catalog, 'a) op" where
  "cat_disk m c = (case on_disk m (bpm c) of (b, r) \<Rightarrow> (c\<lparr>bpm := b\<rparr>, r))"

text \<open>
  None is nullptr, Some the name of the new database. Both files are created before anything is
  registered; std::exception is caught, and create_file throws nothing else.
\<close>

definition create_database :: "string \<Rightarrow> u64 \<Rightarrow> u64 \<Rightarrow> Catalog \<Rightarrow> Catalog \<times> string option" where
  "create_database n now now' c =
     (if map_of (databases c) n \<noteq> None \<or> map_of (metadatas c) n \<noteq> None then (c, None)
      else let file = path_join (db_dir c) (n @ ''.db'');
               mfile = path_join (db_dir c) (n @ ''.meta'')
           in case op_bind (cat_disk (create_file file)) (\<lambda>_. cat_disk (create_file mfile)) c of
                (c1, Inl e) \<Rightarrow> (c1, None)
              | (c1, Inr _) \<Rightarrow>
                  (let (db, m) = create_namespace ''public'' now' (\<lparr>meta = n, namespaces = []\<rparr>, new_Metadata n file mfile now)
                   in (c1\<lparr>metadatas := emplace n m (metadatas c1), databases := emplace n db (databases c1)\<rparr>, Some n)))"

subsection \<open>Tables\<close>

definition get_table :: "TableOid \<Rightarrow> Catalog \<Rightarrow> TableInfo option" where
  "get_table oid c = map_of (tables c) oid"

definition get_table_named :: "string \<Rightarrow> Catalog \<Rightarrow> TableInfo option" where
  "get_table_named n c = Option.bind (map_of (table_oids c) n) (\<lambda>oid. get_table oid c)"

text \<open>The result is the oid of the table whose information the returned pointer leads to.\<close>

definition create_table :: "string \<Rightarrow> ColumnSchema \<Rightarrow> Catalog \<Rightarrow> (Catalog \<times> TableOid res) option" where
  "create_table n schema c = (case map_of (table_oids c) n of
     Some oid \<Rightarrow> Some (c, if get_table oid c \<noteq> None then ok oid else throw (Logic_error ''unordered_map::at''))
   | None \<Rightarrow>
       (let oid = next_table_oid c;
            c1 = c\<lparr>next_table_oid := oid + 1\<rparr>
        in case cat_disk (create_file (path_join (db_dir c1) (n @ ''.tbl''))) c1 of
             (c2, Inl e) \<Rightarrow> Some (c2, Inl e)
           | (c2, Inr file) \<Rightarrow>
               (case new_TableHeap file (bpm c2) of
                  None \<Rightarrow> None
                | Some (b, Inl e) \<Rightarrow> Some (c2\<lparr>bpm := b\<rparr>, Inl e)
                | Some (b, Inr h) \<Rightarrow>
                    Some (c2\<lparr>bpm := b,
                        tables := emplace oid \<lparr>ti_name = n, ti_schema = schema, ti_table = h, ti_oid = oid\<rparr> (tables c2),
                        table_oids := emplace n oid (table_oids c2)\<rparr>, ok oid))))"

end
