(* ===== verification/Expressions.thy ===== *)
theory Expressions
  imports Tuple
begin

section \<open>Expressions\<close>

text \<open>
  include/turtle/execution/expressions. An expression is a node with its own data, its children and
  the column that describes its result; the classes are the constructors of \<open>ExpressionNode\<close>. The
  C++ constructors that infer a type or reject an operand are the \<open>new_\<close> functions, and the virtual
  methods are recursive functions. \<open>clone_with_children\<close> replaces the children without
  any check, so a node may have fewer of them than its class needs; reaching for a missing one is
  undefined.
\<close>

datatype ArithmeticType = Addition | Subtraction | Multiplication | Division | ModuloOp | Exponentiation | FloorDivision

datatype ComparisonType = Equal | NotEqual | LessThan | LessThanOrEqual | GreaterThan | GreaterThanOrEqual

datatype LogicType = And | Or

datatype ExpressionNode =
    ColumnValueExpression nat nat
  | ConstantValueExpression Value
  | ArithmeticExpression ArithmeticType
  | ComparisonExpression ComparisonType
  | LogicExpression LogicType

datatype Expression = Expression (expr_node: ExpressionNode) (get_children: "Expression list") (get_return_type: Column)

definition val_column :: "DataType \<Rightarrow> Column" where
  "val_column t = \<lparr>col_name = ''<val>'', col_type = t, col_length = 0\<rparr>"

text \<open>\<open>Value::column\<close>.\<close>

definition Value_column :: "Value \<Rightarrow> Column res" where
  "Value_column v = (case data_type v of
     VARCHAR \<Rightarrow> res_bind (Value_storage_size v) (\<lambda>n. ok \<lparr>col_name = ''<val>'', col_type = VARCHAR, col_length = n\<rparr>)
   | t \<Rightarrow> ok (val_column t))"

subsection \<open>Constructors\<close>

definition new_ColumnValueExpression :: "nat \<Rightarrow> nat \<Rightarrow> Column \<Rightarrow> Expression" where
  "new_ColumnValueExpression tuple_idx col_idx ret_type = Expression (ColumnValueExpression tuple_idx col_idx) [] ret_type"

definition new_ConstantValueExpression :: "Value \<Rightarrow> Expression res" where
  "new_ConstantValueExpression v = res_bind (Value_column v) (\<lambda>c. ok (Expression (ConstantValueExpression v) [] c))"

definition is_numeric :: "DataType \<Rightarrow> bool" where
  "is_numeric t \<longleftrightarrow> t \<in> {TINYINT, SMALLINT, INTEGER, BIGINT, DECIMAL}"

definition infer_return_type :: "Expression \<Rightarrow> Expression \<Rightarrow> DataType res" where
  "infer_return_type left right =
     (let lt = col_type (get_return_type left); rt = col_type (get_return_type right)
      in if \<not> is_numeric lt \<or> \<not> is_numeric rt
         then throw (Exception NOT_IMPLEMENTED ''ArithmeticExpression only supports numeric operands'')
         else get_common_type lt rt)"

definition new_ArithmeticExpression :: "Expression \<Rightarrow> Expression \<Rightarrow> ArithmeticType \<Rightarrow> Expression res" where
  "new_ArithmeticExpression left right op = res_bind (infer_return_type left right) (\<lambda>t.
     ok (Expression (ArithmeticExpression op) [left, right] (val_column t)))"

definition new_ComparisonExpression :: "Expression \<Rightarrow> Expression \<Rightarrow> ComparisonType \<Rightarrow> Expression" where
  "new_ComparisonExpression left right c = Expression (ComparisonExpression c) [left, right] (val_column BOOLEAN)"

definition new_LogicExpression :: "Expression \<Rightarrow> Expression \<Rightarrow> LogicType \<Rightarrow> Expression res" where
  "new_LogicExpression left right l =
     (if col_type (get_return_type left) \<noteq> BOOLEAN \<or> col_type (get_return_type right) \<noteq> BOOLEAN
      then throw (Exception NOT_IMPLEMENTED ''expect boolean from either side'')
      else ok (Expression (LogicExpression l) [left, right] (val_column BOOLEAN)))"

definition clone_with_children :: "Expression \<Rightarrow> Expression list \<Rightarrow> Expression" where
  "clone_with_children e children = Expression (expr_node e) children (get_return_type e)"

subsection \<open>Operations on values\<close>

definition perform_arithmetic :: "ArithmeticType \<Rightarrow> Value \<Rightarrow> Value \<Rightarrow> Value res" where
  "perform_arithmetic t left right = (case t of
     Addition \<Rightarrow> Value_arith Plus left right
   | Subtraction \<Rightarrow> Value_arith Minus left right
   | Multiplication \<Rightarrow> Value_arith Times left right
   | Division \<Rightarrow> Value_arith Divided left right
   | ModuloOp \<Rightarrow> Value_arith Modulo left right
   | _ \<Rightarrow> throw (Exception NOT_IMPLEMENTED
       ''exponentiation and floor-division are not supported by the numeric Type layer yet''))"

definition perform_comparison :: "ComparisonType \<Rightarrow> Value \<Rightarrow> Value \<Rightarrow> CmpBool res" where
  "perform_comparison t left right = (case t of
     Equal \<Rightarrow> Value_compare EQ left right
   | NotEqual \<Rightarrow> Value_compare NE left right
   | LessThan \<Rightarrow> Value_compare LT left right
   | LessThanOrEqual \<Rightarrow> Value_compare LE left right
   | GreaterThan \<Rightarrow> Value_compare GT left right
   | GreaterThanOrEqual \<Rightarrow> Value_compare GE left right)"

text \<open>\<open>get_as<bool>\<close> reads the first byte; a byte that is neither 0 nor 1 is not a bool.\<close>

definition get_as_bool :: "Value \<Rightarrow> bool res" where
  "get_as_bool v = (if init v < 1 then throw (Undefined ''indeterminate bytes'')
     else let b = uint (raw v) mod 256
          in if b = 0 then ok False else if b = 1 then ok True else throw (Undefined ''not a bool''))"

definition get_bool_as_cmp_bool :: "Value \<Rightarrow> CmpBool res" where
  "get_bool_as_cmp_bool v = (if is_null v then ok CmpNull
     else res_bind (get_as_bool v) (\<lambda>b. ok (if b then CmpTrue else CmpFalse)))"

fun logic :: "LogicType \<Rightarrow> CmpBool \<Rightarrow> CmpBool \<Rightarrow> CmpBool" where
  "logic And l r = (if l = CmpFalse \<or> r = CmpFalse then CmpFalse
     else if l = CmpTrue \<and> r = CmpTrue then CmpTrue else CmpNull)"
| "logic Or l r = (if l = CmpTrue \<or> r = CmpTrue then CmpTrue
     else if l = CmpFalse \<and> r = CmpFalse then CmpFalse else CmpNull)"

definition perform_logic :: "LogicType \<Rightarrow> Value \<Rightarrow> Value \<Rightarrow> CmpBool res" where
  "perform_logic t left right = res_bind (get_bool_as_cmp_bool left) (\<lambda>l.
     res_bind (get_bool_as_cmp_bool right) (\<lambda>r. ok (logic t l r)))"

definition combine :: "ExpressionNode \<Rightarrow> Value \<Rightarrow> Value \<Rightarrow> Value res" where
  "combine n lhs rhs = (case n of
     ArithmeticExpression t \<Rightarrow> perform_arithmetic t lhs rhs
   | ComparisonExpression t \<Rightarrow> res_bind (perform_comparison t lhs rhs) (\<lambda>c. ok (get_boolean_value_cmp c))
   | LogicExpression t \<Rightarrow> res_bind (perform_logic t lhs rhs) (\<lambda>c. ok (get_boolean_value_cmp c))
   | _ \<Rightarrow> throw (Undefined ''not a binary expression''))"

abbreviation missing_child :: error where "missing_child \<equiv> Undefined ''missing child expression''"

subsection \<open>Evaluation\<close>

text \<open>The tuple is a pointer; None is a null pointer, which only a column reads through.\<close>

definition column_of :: "Tuple option \<Rightarrow> ColumnSchema \<Rightarrow> nat \<Rightarrow> Value res" where
  "column_of t schema i = (case t of
     None \<Rightarrow> throw (Undefined ''null tuple'')
   | Some t \<Rightarrow> tuple_value schema i t)"

fun evaluate :: "Expression \<Rightarrow> Tuple option \<Rightarrow> ColumnSchema \<Rightarrow> Value res" where
  "evaluate (Expression (ColumnValueExpression _ col_idx) _ _) t schema = column_of t schema col_idx"
| "evaluate (Expression (ConstantValueExpression v) _ _) t schema = ok v"
| "evaluate (Expression n (l # r # _) _) t schema =
     res_bind (evaluate l t schema) (\<lambda>lhs. res_bind (evaluate r t schema) (\<lambda>rhs. combine n lhs rhs))"
| "evaluate (Expression n [l] _) t schema = res_bind (evaluate l t schema) (\<lambda>_. throw missing_child)"
| "evaluate (Expression n [] _) t schema = throw missing_child"

fun evaluate_join :: "Expression \<Rightarrow> Tuple option \<Rightarrow> ColumnSchema \<Rightarrow> Tuple option \<Rightarrow> ColumnSchema \<Rightarrow> Value res" where
  "evaluate_join (Expression (ColumnValueExpression tuple_idx col_idx) _ _) lt ls rt rs =
     (if tuple_idx = 0 then column_of lt ls col_idx else column_of rt rs col_idx)"
| "evaluate_join (Expression (ConstantValueExpression v) _ _) lt ls rt rs = ok v"
| "evaluate_join (Expression n (l # r # _) _) lt ls rt rs =
     res_bind (evaluate_join l lt ls rt rs) (\<lambda>lhs. res_bind (evaluate_join r lt ls rt rs) (\<lambda>rhs. combine n lhs rhs))"
| "evaluate_join (Expression n [l] _) lt ls rt rs = res_bind (evaluate_join l lt ls rt rs) (\<lambda>_. throw missing_child)"
| "evaluate_join (Expression n [] _) lt ls rt rs = throw missing_child"

subsection \<open>Printing\<close>

fun arithmetic_symbol :: "ArithmeticType \<Rightarrow> string" where
  "arithmetic_symbol Addition = ''+''"
| "arithmetic_symbol Subtraction = ''-''"
| "arithmetic_symbol Multiplication = ''*''"
| "arithmetic_symbol Division = ''/''"
| "arithmetic_symbol ModuloOp = ''%''"
| "arithmetic_symbol Exponentiation = ''**''"
| "arithmetic_symbol FloorDivision = ''//''"

fun comparison_symbol :: "ComparisonType \<Rightarrow> string" where
  "comparison_symbol Equal = ''=''"
| "comparison_symbol NotEqual = ''!=''"
| "comparison_symbol LessThan = ''<''"
| "comparison_symbol LessThanOrEqual = ''<=''"
| "comparison_symbol GreaterThan = ''>''"
| "comparison_symbol GreaterThanOrEqual = ''>=''"

fun logic_symbol :: "LogicType \<Rightarrow> string" where
  "logic_symbol And = ''and''"
| "logic_symbol Or = ''or''"

fun node_symbol :: "ExpressionNode \<Rightarrow> string" where
  "node_symbol (ArithmeticExpression t) = arithmetic_symbol t"
| "node_symbol (ComparisonExpression t) = comparison_symbol t"
| "node_symbol (LogicExpression t) = logic_symbol t"
| "node_symbol _ = ''''"

fun expression_to_string :: "Expression \<Rightarrow> string res" where
  "expression_to_string (Expression (ColumnValueExpression i j) _ _) =
     ok (''#'' @ int_to_string (int i) @ ''.'' @ int_to_string (int j))"
| "expression_to_string (Expression (ConstantValueExpression v) _ _) = Value_to_string v"
| "expression_to_string (Expression n (l # r # _) _) =
     res_bind (expression_to_string l) (\<lambda>a. res_bind (expression_to_string r) (\<lambda>b.
       ok (''('' @ a @ node_symbol n @ b @ '')'')))"
| "expression_to_string (Expression n _ _) = throw missing_child"

end
