(* ===== verification/Executor.thy ===== *)
theory Executor
  imports Catalog Expressions
begin

section \<open>Executors\<close>

text \<open>
  include/turtle/execution/executors and src/execution/executors. An executor's \<open>next\<close> takes the batch size
  and the state, which is the catalog that all executors share and the executor's own object with those
  of its children inside. The two parallel output vectors are one list of rows. A child is called
  through \<open>next\<close> and \<open>init\<close> arguments, as the code calls it through virtual methods; its output schema
  is an argument too. The outer option is None for a run that does not end.
\<close>

type_synonym row = "Tuple \<times> RecordId"
type_synonym ('s, 'a) run = "'s \<Rightarrow> ('s \<times> 'a res) option"
type_synonym 's exec_next = "nat \<Rightarrow> (Catalog \<times> 's, row list \<times> bool) run"

definition run_bind :: "('s, 'a) run \<Rightarrow> ('a \<Rightarrow> ('s, 'b) run) \<Rightarrow> ('s, 'b) run" where
  "run_bind m f s = (case m s of
     None \<Rightarrow> None | Some (s', Inl e) \<Rightarrow> Some (s', Inl e) | Some (s', Inr x) \<Rightarrow> f x s')"

definition evaluate_all :: "Expression list \<Rightarrow> Tuple option \<Rightarrow> ColumnSchema \<Rightarrow> Value list res" where
  "evaluate_all es t schema = res_map (\<lambda>e. evaluate e t schema) es"

text \<open>A call of the child inside the state of its parent.\<close>

definition on_child :: "('x \<Rightarrow> 's) \<Rightarrow> ('s \<Rightarrow> 'x \<Rightarrow> 'x) \<Rightarrow> (Catalog \<times> 's, 'a) run \<Rightarrow> (Catalog \<times> 'x, 'a) run" where
  "on_child get put m s = (case m (fst s, get (snd s)) of
     None \<Rightarrow> None | Some ((c, y), r) \<Rightarrow> Some ((c, put y (snd s)), r))"

subsection \<open>Plan nodes\<close>

record ValuesPlanNode =
  vp_schema :: ColumnSchema
  vp_values :: "Expression list list"

record ProjectionPlanNode =
  pp_schema :: ColumnSchema
  pp_expressions :: "Expression list"

datatype OrderByType = INVALID_ORDER | DEFAULT_ORDER | ASC | DESC
datatype OrderByNullType = DEFAULT_NULLS | NULLS_FIRST | NULLS_LAST

type_synonym OrderBy = "OrderByType \<times> OrderByNullType \<times> Expression"

record ModifyPlanNode =
  mp_schema :: ColumnSchema
  mp_table_oid :: TableOid

record UpdatePlanNode = ModifyPlanNode +
  target_expressions :: "Expression list"

subsection \<open>Values\<close>

type_synonym ValuesExecutor = nat

definition values_row :: "ValuesPlanNode \<Rightarrow> Expression list \<Rightarrow> Tuple res" where
  "values_row plan row_expr = res_bind (evaluate_all row_expr None []) (new_Tuple (vp_schema plan))"

text \<open>The loop with room for k more rows and the cursor at i.\<close>

fun values_loop :: "ValuesPlanNode \<Rightarrow> nat \<Rightarrow> nat \<Rightarrow> nat \<times> row list res" where
  "values_loop plan 0 i = (i, ok [])"
| "values_loop plan (Suc k) i =
     (if i < length (vp_values plan)
      then case values_row plan (vp_values plan ! i) of
          Inl e \<Rightarrow> (i, Inl e)
        | Inr t \<Rightarrow> (case values_loop plan k (i + 1) of
            (j, r) \<Rightarrow> (j, res_bind r (\<lambda>rows. ok ((t, default_RecordId) # rows))))
      else (i, ok []))"

definition values_init :: "(Catalog \<times> ValuesExecutor, unit) run" where
  "values_init s = Some ((fst s, 0), ok ())"

definition values_next :: "ValuesPlanNode \<Rightarrow> ValuesExecutor exec_next" where
  "values_next plan n s = (case values_loop plan n (snd s) of
     (i, r) \<Rightarrow> Some ((fst s, i), res_bind r (\<lambda>rows. ok (rows, rows \<noteq> []))))"

subsection \<open>Sequential scans\<close>

record SeqScanExecutor =
  ss_table :: TableOid
  ss_iter :: TableIterator

text \<open>The table heap behind a TableInfo pointer; tables are never removed from the catalog.\<close>

definition on_heap :: "TableOid \<Rightarrow> (heap_state, 'a) run \<Rightarrow> (Catalog, 'a) run" where
  "on_heap oid m c = (case get_table oid c of
     None \<Rightarrow> Some (c, throw (Undefined ''dangling table pointer''))
   | Some info \<Rightarrow> (case m (bpm c, ti_table info) of
        None \<Rightarrow> None
      | Some ((b, h), r) \<Rightarrow> Some (c\<lparr>bpm := b, tables := AList.update oid (info\<lparr>ti_table := h\<rparr>) (tables c)\<rparr>, r)))"

definition unknown_table :: "string \<Rightarrow> TableOid \<Rightarrow> error" where
  "unknown_table who oid = Runtime_error (who @ '': unknown table oid '' @ int_to_string (int (unat oid)))"

definition seq_scan_init :: "TableOid \<Rightarrow> (Catalog \<times> SeqScanExecutor, unit) run" where
  "seq_scan_init oid s = (case get_table oid (fst s) of
     None \<Rightarrow> Some (s, throw (unknown_table ''SeqScanExecutor'' oid))
   | Some info \<Rightarrow> (case heap_begin (ti_table info) (bpm (fst s)) of
        None \<Rightarrow> None
      | Some ((b, it), Inl e) \<Rightarrow> Some (((fst s)\<lparr>bpm := b\<rparr>, snd s), Inl e)
      | Some ((b, it), Inr _) \<Rightarrow> Some (((fst s)\<lparr>bpm := b\<rparr>, \<lparr>ss_table = oid, ss_iter = it\<rparr>), ok ())))"

text \<open>The loop with room for k more rows; file is the file of the table.\<close>

fun seq_scan_loop :: "FileId \<Rightarrow> nat \<Rightarrow> (BufferPoolManager \<times> TableIterator, row list) run" where
  "seq_scan_loop file 0 s = Some (s, ok [])"
| "seq_scan_loop file (Suc k) (b, it) =
     (if page_id (current_id it) = INVALID_PAGE_ID \<and> slot_num (current_id it) = 0 then Some ((b, it), ok [])
      else case iterator_next file (b, it) of
        None \<Rightarrow> None
      | Some (s, Inl e) \<Rightarrow> Some (s, Inl e)
      | Some (s, Inr _) \<Rightarrow> (case seq_scan_loop file k s of
            None \<Rightarrow> None
          | Some (s', r) \<Rightarrow> Some (s', res_bind r (\<lambda>rows. ok ((Tuple_copy (current_tuple it), current_id it) # rows)))))"

definition seq_scan_next :: "SeqScanExecutor exec_next" where
  "seq_scan_next n s = (case get_table (ss_table (snd s)) (fst s) of
     None \<Rightarrow> Some (s, throw (Undefined ''dangling table pointer''))
   | Some info \<Rightarrow> (case seq_scan_loop (heap_file_id (ti_table info)) n (bpm (fst s), ss_iter (snd s)) of
        None \<Rightarrow> None
      | Some ((b, it), r) \<Rightarrow> Some (((fst s)\<lparr>bpm := b\<rparr>, (snd s)\<lparr>ss_iter := it\<rparr>), res_bind r (\<lambda>rows. ok (rows, rows \<noteq> [])))))"

subsection \<open>Filter\<close>

record 's FilterExecutor =
  f_child :: 's
  f_child_rows :: "row list"
  f_child_offset :: nat

text \<open>None is a null predicate.\<close>

definition passes :: "Expression option \<Rightarrow> ColumnSchema \<Rightarrow> Tuple \<Rightarrow> bool res" where
  "passes predicate schema t = (case predicate of
     None \<Rightarrow> ok True
   | Some e \<Rightarrow> res_bind (evaluate e (Some t) schema) (\<lambda>v. if is_null v then ok False else get_as_bool v))"

text \<open>The loop over the rest of the last child batch.\<close>

fun filter_rest :: "(Tuple \<Rightarrow> bool res) \<Rightarrow> row list \<Rightarrow> row list res" where
  "filter_rest p [] = ok []"
| "filter_rest p ((t, rid) # rows) = res_bind (p t) (\<lambda>b. res_bind (filter_rest p rows) (\<lambda>out.
     ok (if b then (Tuple_copy t, rid) # out else out)))"

text \<open>
  The loop over a new child batch, at index i with the rows still to come and the output so far. The
  second result is the new child offset if the output batch is full.
\<close>

fun filter_batch :: "(Tuple \<Rightarrow> bool res) \<Rightarrow> nat \<Rightarrow> nat \<Rightarrow> row list \<Rightarrow> row list \<Rightarrow> (row list \<times> nat option) res" where
  "filter_batch p n i [] out = ok (out, None)"
| "filter_batch p n i ((t, rid) # rows) out = res_bind (p t) (\<lambda>b.
     if b then (let out' = out @ [(Tuple_copy t, rid)]
       in if n \<le> length out' then ok (out', Some (if rows \<noteq> [] then i + 1 else 0))
          else filter_batch p n (i + 1) rows out')
     else filter_batch p n (i + 1) rows out)"

partial_function (option) filter_loop :: "'s exec_next \<Rightarrow> (Tuple \<Rightarrow> bool res) \<Rightarrow> nat \<Rightarrow> row list \<Rightarrow>
    Catalog \<times> 's FilterExecutor \<Rightarrow> ((Catalog \<times> 's FilterExecutor) \<times> (row list \<times> bool) res) option" where
  "filter_loop child p n out s =
     (let (c, x) = s
      in case (if f_child_offset x \<noteq> 0 then filter_rest p (drop (f_child_offset x) (f_child_rows x)) else ok []) of
        Inl e \<Rightarrow> Some (s, Inl e)
      | Inr rest \<Rightarrow>
          (let out1 = out @ rest; x1 = x\<lparr>f_child_offset := 0\<rparr>
           in case child n (c, f_child x1) of
             None \<Rightarrow> None
           | Some ((c2, y), Inl e) \<Rightarrow> Some ((c2, x1\<lparr>f_child := y\<rparr>), Inl e)
           | Some ((c2, y), Inr (batch, status)) \<Rightarrow>
               (let x2 = x1\<lparr>f_child := y, f_child_rows := batch\<rparr>
                in if \<not> status then Some ((c2, x2), ok (out1, out1 \<noteq> []))
                   else case filter_batch p n 0 batch out1 of
                     Inl e \<Rightarrow> Some ((c2, x2), Inl e)
                   | Inr (out2, Some i) \<Rightarrow> Some ((c2, x2\<lparr>f_child_offset := i\<rparr>), ok (out2, True))
                   | Inr (out2, None) \<Rightarrow> filter_loop child p n out2 (c2, x2))))"

definition filter_next :: "Expression option \<Rightarrow> ColumnSchema \<Rightarrow> 's exec_next \<Rightarrow> 's FilterExecutor exec_next" where
  "filter_next predicate schema child n s = filter_loop child (passes predicate schema) n [] s"

definition filter_init :: "(Catalog \<times> 's, unit) run \<Rightarrow> (Catalog \<times> 's FilterExecutor, unit) run" where
  "filter_init = on_child f_child (\<lambda>y x. x\<lparr>f_child := y\<rparr>)"

subsection \<open>Projection\<close>

record 's ProjectionExecutor =
  pr_child :: 's
  pr_child_rows :: "row list"
  pr_child_offset :: nat

definition project_row :: "ProjectionPlanNode \<Rightarrow> ColumnSchema \<Rightarrow> Tuple \<Rightarrow> Tuple res" where
  "project_row plan schema t = res_bind (evaluate_all (pp_expressions plan) (Some (Tuple_copy t)) schema) (new_Tuple (pp_schema plan))"

definition project_rows :: "(Tuple \<Rightarrow> Tuple res) \<Rightarrow> row list \<Rightarrow> row list res" where
  "project_rows f = res_map (\<lambda>(t, rid). res_bind (f t) (\<lambda>t'. ok (t', rid)))"

text \<open>The loop over a new child batch, as in the filter.\<close>

fun project_batch :: "(Tuple \<Rightarrow> Tuple res) \<Rightarrow> nat \<Rightarrow> nat \<Rightarrow> row list \<Rightarrow> row list \<Rightarrow> (row list \<times> nat option) res" where
  "project_batch f n i [] out = ok (out, None)"
| "project_batch f n i ((t, rid) # rows) out = res_bind (f t) (\<lambda>t'.
     let out' = out @ [(t', rid)]
     in if n \<le> length out' then ok (out', Some (if rows \<noteq> [] then i + 1 else 0))
        else project_batch f n (i + 1) rows out')"

definition projection_init :: "(Catalog \<times> 's, unit) run \<Rightarrow> (Catalog \<times> 's ProjectionExecutor, unit) run" where
  "projection_init = on_child pr_child (\<lambda>y x. x\<lparr>pr_child := y\<rparr>)"

definition projection_next :: "ProjectionPlanNode \<Rightarrow> ColumnSchema \<Rightarrow> 's exec_next \<Rightarrow> 's ProjectionExecutor exec_next" where
  "projection_next plan schema child n s =
     (let (c, x) = s; f = project_row plan schema
      in case (if pr_child_offset x \<noteq> 0 then project_rows f (drop (pr_child_offset x) (pr_child_rows x)) else ok []) of
        Inl e \<Rightarrow> Some (s, Inl e)
      | Inr rest \<Rightarrow>
          (let x1 = x\<lparr>pr_child_offset := 0\<rparr>
           in case child n (c, pr_child x1) of
             None \<Rightarrow> None
           | Some ((c2, y), Inl e) \<Rightarrow> Some ((c2, x1\<lparr>pr_child := y\<rparr>), Inl e)
           | Some ((c2, y), Inr (batch, status)) \<Rightarrow>
               (let x2 = x1\<lparr>pr_child := y, pr_child_rows := batch\<rparr>
                in if \<not> status then Some ((c2, x2), ok (rest, rest \<noteq> []))
                   else case project_batch f n 0 batch rest of
                     Inl e \<Rightarrow> Some ((c2, x2), Inl e)
                   | Inr (out, Some i) \<Rightarrow> Some ((c2, x2\<lparr>pr_child_offset := i\<rparr>), ok (out, True))
                   | Inr (out, None) \<Rightarrow> Some ((c2, x2), ok (out, out \<noteq> [])))))"

subsection \<open>Limit\<close>

record 's LimitExecutor =
  l_child :: 's
  emitted_count :: nat

text \<open>The loop with k rows left to fetch; a vector is indexed without a check.\<close>

fun limit_loop :: "nat \<Rightarrow> nat \<Rightarrow> row list \<Rightarrow> nat \<Rightarrow> nat \<times> row list res" where
  "limit_loop limit 0 rows e = (e, ok [])"
| "limit_loop limit (Suc k) rows e =
     (if e < limit then (case rows of
          [] \<Rightarrow> (e, throw (Undefined ''vector index out of range''))
        | (t, rid) # rest \<Rightarrow> (case limit_loop limit k rest (e + 1) of
            (e', r) \<Rightarrow> (e', res_bind r (\<lambda>out. ok ((Tuple_copy t, rid) # out)))))
      else (e, ok []))"

definition limit_init :: "(Catalog \<times> 's, unit) run \<Rightarrow> (Catalog \<times> 's LimitExecutor, unit) run" where
  "limit_init child = run_bind (on_child l_child (\<lambda>y x. x\<lparr>l_child := y\<rparr>) child)
     (\<lambda>_ s. Some ((fst s, (snd s)\<lparr>emitted_count := 0\<rparr>), ok ()))"

definition limit_next :: "nat \<Rightarrow> 's exec_next \<Rightarrow> 's LimitExecutor exec_next" where
  "limit_next limit child n s =
     (let (c, x) = s
      in if limit < emitted_count x then Some (s, ok ([], False))
         else let remaining = limit - emitted_count x;
                  fetch_size = min n remaining
              in case child n (c, l_child x) of
                None \<Rightarrow> None
              | Some ((c2, y), Inl e) \<Rightarrow> Some ((c2, x\<lparr>l_child := y\<rparr>), Inl e)
              | Some ((c2, y), Inr (batch, status)) \<Rightarrow>
                  if \<not> status then Some ((c2, x\<lparr>l_child := y\<rparr>), ok ([], False))
                  else (case limit_loop limit fetch_size batch (emitted_count x) of
                    (e, r) \<Rightarrow> Some ((c2, x\<lparr>l_child := y, emitted_count := e\<rparr>),
                      res_bind r (\<lambda>out. ok (out, out \<noteq> [])))))"

subsection \<open>Draining a child\<close>

text \<open>\<open>while (child->next(...))\<close> with a body that gets the batch, and a loop over the elements of a batch.\<close>

partial_function (option) while_batches :: "('z, row list \<times> bool) run \<Rightarrow> (row list \<Rightarrow> ('z, unit) run) \<Rightarrow> 'z \<Rightarrow> ('z \<times> unit res) option" where
  "while_batches pull body s = (case pull s of
     None \<Rightarrow> None
   | Some (s1, Inl e) \<Rightarrow> Some (s1, Inl e)
   | Some (s1, Inr (rows, status)) \<Rightarrow>
       if status then (case body rows s1 of
           None \<Rightarrow> None
         | Some (s2, Inl e) \<Rightarrow> Some (s2, Inl e)
         | Some (s2, Inr _) \<Rightarrow> while_batches pull body s2)
       else Some (s1, ok ()))"

fun each :: "('a \<Rightarrow> ('z, unit) run) \<Rightarrow> 'a list \<Rightarrow> ('z, unit) run" where
  "each f [] s = Some (s, ok ())"
| "each f (x # xs) s = run_bind (f x) (\<lambda>_. each f xs) s"

subsection \<open>Sort\<close>

record SortEntry =
  se_tuple :: Tuple
  se_rid :: RecordId
  sort_keys :: "Value list"

record 's SortExecutor =
  so_child :: 's
  sorted_entries :: "SortEntry list"
  so_cursor :: nat

text \<open>The call operator of SortComparator, on the keys of the two entries.\<close>

fun sort_before :: "OrderBy list \<Rightarrow> Value list \<Rightarrow> Value list \<Rightarrow> bool res" where
  "sort_before [] as bs = ok False"
| "sort_before ((order_type, null_type, e) # order_bys) (a # as) (b # bs) =
     (if is_null a \<or> is_null b
      then if is_null a \<and> is_null b then sort_before order_bys as bs
           else let nulls_first = (case null_type of NULLS_FIRST \<Rightarrow> True | NULLS_LAST \<Rightarrow> False
                      | DEFAULT_NULLS \<Rightarrow> order_type = DESC)
                in ok (if is_null a then nulls_first else \<not> nulls_first)
      else res_bind (Value_compare EQ a a) (\<lambda>same.
        if same = CmpTrue then sort_before order_bys as bs
        else res_bind (Value_compare (if order_type = ASC \<or> order_type = DEFAULT_ORDER then LT else GT) a b)
          (\<lambda>r. ok (r = CmpTrue))))"
| "sort_before _ _ _ = throw (Undefined ''vector index out of range'')"

definition sort_comparator :: "OrderBy list \<Rightarrow> SortEntry \<Rightarrow> SortEntry \<Rightarrow> bool res" where
  "sort_comparator order_bys a b = sort_before order_bys (sort_keys a) (sort_keys b)"

definition sort_entry :: "OrderBy list \<Rightarrow> ColumnSchema \<Rightarrow> row \<Rightarrow> SortEntry res" where
  "sort_entry order_bys schema r = res_bind (evaluate_all (map (\<lambda>(_, _, e). e) order_bys) (Some (fst r)) schema)
     (\<lambda>keys. ok \<lparr>se_tuple = Tuple_copy (fst r), se_rid = snd r, sort_keys = keys\<rparr>)"

definition collect_entry :: "OrderBy list \<Rightarrow> ColumnSchema \<Rightarrow> row \<Rightarrow> (Catalog \<times> 's SortExecutor, unit) run" where
  "collect_entry order_bys schema r s = Some (case sort_entry order_bys schema r of
     Inl e \<Rightarrow> (s, Inl e)
   | Inr x \<Rightarrow> ((fst s, (snd s)\<lparr>sorted_entries := sorted_entries (snd s) @ [x]\<rparr>), ok ()))"

text \<open>
  \<open>std_sort\<close> stands for std::sort, whose order of equivalent elements the standard leaves open. The result
  is an error if a comparison throws.
\<close>

type_synonym std_sort = "(SortEntry \<Rightarrow> SortEntry \<Rightarrow> bool res) \<Rightarrow> SortEntry list \<Rightarrow> SortEntry list res"

definition sort_init :: "std_sort \<Rightarrow> OrderBy list \<Rightarrow> ColumnSchema \<Rightarrow> (Catalog \<times> 's, unit) run \<Rightarrow> 's exec_next \<Rightarrow>
    (Catalog \<times> 's SortExecutor, unit) run" where
  "sort_init std_sort order_bys schema child_init child =
     run_bind (on_child so_child (\<lambda>y x. x\<lparr>so_child := y\<rparr>) child_init) (\<lambda>_ s0.
     run_bind (while_batches (on_child so_child (\<lambda>y x. x\<lparr>so_child := y\<rparr>) (child 256)) (each (collect_entry order_bys schema)))
       (\<lambda>_ s. Some (case std_sort (sort_comparator order_bys) (sorted_entries (snd s)) of
          Inl e \<Rightarrow> (s, Inl e)
        | Inr xs \<Rightarrow> ((fst s, (snd s)\<lparr>sorted_entries := xs\<rparr>), ok ())))
       (fst s0, (snd s0)\<lparr>sorted_entries := [], so_cursor := 0\<rparr>))"

definition entry_row :: "SortEntry \<Rightarrow> row" where
  "entry_row x = (Tuple_copy (se_tuple x), se_rid x)"

definition sort_next :: "'s SortExecutor exec_next" where
  "sort_next n s =
     (let x = snd s; total = length (sorted_entries x)
      in if total \<le> so_cursor x then Some (s, ok ([], False))
         else let count = min n (total - so_cursor x)
              in Some ((fst s, x\<lparr>so_cursor := so_cursor x + count\<rparr>),
                ok (map entry_row (take count (drop (so_cursor x) (sorted_entries x))), True)))"

subsection \<open>Insert, delete and update\<close>

text \<open>
  The pointer to the table heap that \<open>init\<close> stores is the oid of the plan node: a table is never removed.
  An update that has run leaves the vectors of its caller alone; callers read them only after true.
\<close>

record 's InsertExecutor =
  in_child :: 's
  total_rows_inserted :: u64
  in_has_emitted_count :: bool

record 's DeleteExecutor =
  de_child :: 's
  total_rows_deleted :: u64
  de_has_emitted_count :: bool

record 's UpdateExecutor =
  up_child :: 's
  up_executed :: bool

definition count_row :: "ColumnSchema \<Rightarrow> u32 \<Rightarrow> row res" where
  "count_row schema k = res_bind (new_Tuple schema [Value_int32 INTEGER (sint k)]) (\<lambda>t. ok (Tuple_copy t, default_RecordId))"

definition resolve_table :: "string \<Rightarrow> TableOid \<Rightarrow> (Catalog \<times> 'x, unit) run" where
  "resolve_table who oid s = Some (s, if get_table oid (fst s) = None then throw (unknown_table who oid) else ok ())"

definition on_table :: "TableOid \<Rightarrow> (heap_state, 'a) run \<Rightarrow> (Catalog \<times> 'x, 'a) run" where
  "on_table oid m s = (case on_heap oid m (fst s) of None \<Rightarrow> None | Some (c, r) \<Rightarrow> Some ((c, snd s), r))"

definition insert_row :: "TableOid \<Rightarrow> row \<Rightarrow> (Catalog \<times> 's InsertExecutor, unit) run" where
  "insert_row oid r = run_bind (on_table oid (heap_insert_tuple (fst r)))
     (\<lambda>_ s. Some ((fst s, (snd s)\<lparr>total_rows_inserted := total_rows_inserted (snd s) + 1\<rparr>), ok ()))"

definition insert_init :: "ModifyPlanNode \<Rightarrow> (Catalog \<times> 's, unit) run \<Rightarrow> (Catalog \<times> 's InsertExecutor, unit) run" where
  "insert_init plan child_init = run_bind (resolve_table ''InsertExecutor'' (mp_table_oid plan)) (\<lambda>_ s.
     on_child in_child (\<lambda>y x. x\<lparr>in_child := y\<rparr>) child_init
       (fst s, (snd s)\<lparr>total_rows_inserted := 0, in_has_emitted_count := False\<rparr>))"

definition insert_next :: "ModifyPlanNode \<Rightarrow> 's exec_next \<Rightarrow> 's InsertExecutor exec_next" where
  "insert_next plan child n s =
     (if in_has_emitted_count (snd s) then Some (s, ok ([], False))
      else run_bind (while_batches (on_child in_child (\<lambda>y x. x\<lparr>in_child := y\<rparr>) (child n)) (each (insert_row (mp_table_oid plan))))
        (\<lambda>_ s. Some (case count_row (mp_schema plan) (ucast (total_rows_inserted (snd s))) of
           Inl e \<Rightarrow> (s, Inl e)
         | Inr r \<Rightarrow> ((fst s, (snd s)\<lparr>in_has_emitted_count := True\<rparr>), ok ([r], True)))) s)"

definition delete_row :: "TableOid \<Rightarrow> row \<Rightarrow> (Catalog \<times> 's DeleteExecutor, unit) run" where
  "delete_row oid r = run_bind (on_table oid (\<lambda>s. Some (mark_delete (snd r) s)))
     (\<lambda>_ s. Some ((fst s, (snd s)\<lparr>total_rows_deleted := total_rows_deleted (snd s) + 1\<rparr>), ok ()))"

definition delete_init :: "ModifyPlanNode \<Rightarrow> (Catalog \<times> 's, unit) run \<Rightarrow> (Catalog \<times> 's DeleteExecutor, unit) run" where
  "delete_init plan child_init = run_bind (resolve_table ''DeleteExecutor'' (mp_table_oid plan)) (\<lambda>_ s.
     on_child de_child (\<lambda>y x. x\<lparr>de_child := y\<rparr>) child_init
       (fst s, (snd s)\<lparr>total_rows_deleted := 0, de_has_emitted_count := False\<rparr>))"

definition delete_next :: "ModifyPlanNode \<Rightarrow> 's exec_next \<Rightarrow> 's DeleteExecutor exec_next" where
  "delete_next plan child n s =
     (if de_has_emitted_count (snd s) then Some (s, ok ([], False))
      else run_bind (while_batches (on_child de_child (\<lambda>y x. x\<lparr>de_child := y\<rparr>) (child n)) (each (delete_row (mp_table_oid plan))))
        (\<lambda>_ s. Some (case count_row (mp_schema plan) (ucast (total_rows_deleted (snd s))) of
           Inl e \<Rightarrow> (s, Inl e)
         | Inr r \<Rightarrow> ((fst s, (snd s)\<lparr>de_has_emitted_count := True\<rparr>), ok ([r], True)))) s)"

text \<open>The chunks are collected first; the local variables of the call are a component of the loop's state.\<close>

definition collect_rows :: "row list \<Rightarrow> ((Catalog \<times> 's) \<times> row list, unit) run" where
  "collect_rows rows s = Some ((fst s, snd s @ rows), ok ())"

definition with_local :: "('z, 'a) run \<Rightarrow> ('z \<times> 'l, 'a) run" where
  "with_local m s = (case m (fst s) of None \<Rightarrow> None | Some (z, r) \<Rightarrow> Some ((z, snd s), r))"

definition update_row :: "UpdatePlanNode \<Rightarrow> row \<Rightarrow> ((Catalog \<times> 'x) \<times> u32, unit) run" where
  "update_row plan r s =
     (case get_table (mp_table_oid plan) (fst (fst s)) of
        None \<Rightarrow> Some (s, throw (Undefined ''dangling table pointer''))
      | Some info \<Rightarrow>
          (case res_bind (evaluate_all (target_expressions plan) (Some (fst r)) (ti_schema info)) (new_Tuple (ti_schema info)) of
             Inl e \<Rightarrow> Some (s, Inl e)
           | Inr t \<Rightarrow>
               run_bind (with_local (on_table (mp_table_oid plan) (\<lambda>h. Some (mark_delete (snd r) h)))) (\<lambda>deleted.
                 if deleted
                 then run_bind (with_local (on_table (mp_table_oid plan) (heap_insert_tuple t))) (\<lambda>rid s.
                        Some ((fst s, if rid \<noteq> None then snd s + 1 else snd s), ok ()))
                 else (\<lambda>s. Some (s, ok ()))) s))"

definition update_init :: "UpdatePlanNode \<Rightarrow> (Catalog \<times> 's, unit) run \<Rightarrow> (Catalog \<times> 's UpdateExecutor, unit) run" where
  "update_init plan child_init = run_bind (resolve_table ''DeleteExecutor'' (mp_table_oid plan)) (\<lambda>_ s.
     on_child up_child (\<lambda>y x. x\<lparr>up_child := y\<rparr>) child_init (fst s, (snd s)\<lparr>up_executed := False\<rparr>))"

definition update_next :: "UpdatePlanNode \<Rightarrow> 's exec_next \<Rightarrow> 's UpdateExecutor exec_next" where
  "update_next plan child n s =
     (if up_executed (snd s) then Some (s, ok ([], False))
      else (case while_batches (with_local (on_child up_child (\<lambda>y x. x\<lparr>up_child := y\<rparr>) (child n))) collect_rows (s, []) of
          None \<Rightarrow> None
        | Some ((s1, _), Inl e) \<Rightarrow> Some (s1, Inl e)
        | Some ((s1, rows), Inr _) \<Rightarrow> (case each (update_row plan) rows (s1, 0) of
            None \<Rightarrow> None
          | Some ((s2, _), Inl e) \<Rightarrow> Some (s2, Inl e)
          | Some ((s2, k), Inr _) \<Rightarrow> Some (case count_row (mp_schema plan) k of
                Inl e \<Rightarrow> (s2, Inl e)
              | Inr r \<Rightarrow> ((fst s2, (snd s2)\<lparr>up_executed := True\<rparr>), ok ([r], True))))))"

end
