(* ===== verification/Page_Access.thy ===== *)
theory Page_Access
  imports TableHeap "HOL-Library.Multiset"
begin

section \<open>A client of the buffer pool between its calls\<close>

text \<open>
  What code that uses guards one after the other relies on. \<open>client_inv\<close> is the state of the pool
  between the calls of such a client on file p: the other handles hs hold pins but no latches, and the
  numbers from next_page_id on are not cached. Reading a page under a guard that is dropped changes
  nothing that the client sees; writing one changes that page only.
\<close>

declare skip_deleted.simps [simp del] and split_paired_All [simp del] and split_paired_Ex [simp del]

subsection \<open>Fields that calls keep\<close>

lemma disk_files_kept:
  "read_page p q d = (d', r) \<Longrightarrow> disk_open_files d' = disk_open_files d"
  "write_page p q bs d = (d', r') \<Longrightarrow> disk_open_files d' = disk_open_files d"
  by (auto simp: read_page_def write_page_def stream_write_def set_failed_def disk_open_files_def Let_def
      split: option.splits if_splits)

text \<open>The pool keeps everything but frame f and caches at most the page k in addition.\<close>

definition only_frame :: "FrameId \<Rightarrow> PageKey \<Rightarrow> BufferPoolManager \<Rightarrow> BufferPoolManager \<Rightarrow> bool" where
  "only_frame f k b b' \<longleftrightarrow> (\<forall>g. g \<noteq> f \<longrightarrow> pages b' g = pages b g) \<and>
     disk_open_files (disk_manager b') = disk_open_files (disk_manager b) \<and> pool_size b' = pool_size b \<and>
     (\<forall>k'. page_table b k' = None \<longrightarrow> k' \<noteq> k \<longrightarrow> page_table b' k' = None)"

lemma acquire_only: "acquire_frame b = (b1, r) \<Longrightarrow> only_frame f k b b1 \<and> next_page_id b1 = next_page_id b \<and> pages b1 = pages b"
  by (auto simp: acquire_frame_def only_frame_def split: list.splits prod.splits)

lemma vacate_only: "vacate_frame f b = (b1, r) \<Longrightarrow> only_frame f k b b1 \<and> next_page_id b1 = next_page_id b"
  by (auto simp: vacate_frame_def only_frame_def op_bind_def op_defs write_frame_def on_disk_def
      dest: disk_files_kept split: if_splits prod.splits sum.splits)

lemma only_frame_trans: "only_frame f k b b1 \<Longrightarrow> only_frame f k b1 b2 \<Longrightarrow> only_frame f k b b2"
  by (auto simp: only_frame_def)

lemma fetch_page_only:
  assumes "fetch_page p q b = (b', ok (Some f))"
  shows "only_frame f (p, q) b b'" and "next_page_id b' = next_page_id b"
proof -
  have "only_frame f (p, q) b b' \<and> next_page_id b' = next_page_id b"
  proof (cases "page_table b (p, q)")
    case (Some g)
    then show ?thesis using assms by (auto simp: fetch_page_def only_frame_def)
  next
    case None
    then obtain b1 b2 d bs where a: "acquire_frame b = (b1, ok (Some f))" "vacate_frame f b1 = (b2, ok ())"
      "read_page p q (disk_manager b2) = (d, ok bs)"
      "b' = pin_in_replacer f q (install_page f (p, q) (upd_page f (\<lambda>p. p\<lparr>page_data := bs\<rparr>) (b2\<lparr>disk_manager := d\<rparr>)))"
      using assms by (auto simp: fetch_page_def op_bind_def op_defs on_disk_def split: prod.splits sum.splits option.splits)
    have "only_frame f (p, q) b2 b'" using disk_files_kept(1) [OF a(3)] by (auto simp: a(4) only_frame_def)
    moreover have "next_page_id b' = next_page_id b2" by (simp add: a(4))
    ultimately show ?thesis
      using acquire_only [OF a(1), of f "(p, q)"] vacate_only [OF a(2), of "(p, q)"] only_frame_trans by metis
  qed
  then show "only_frame f (p, q) b b'" "next_page_id b' = next_page_id b" by auto
qed

lemma new_page_only:
  assumes "new_page p b = (b', ok (Some (f, q)))"
  shows "only_frame f (p, q) b b'" and "pin_count (pages b' f) = 1" and "page_data (pages b' f) = zero_page"
proof -
  obtain b1 b2 d where a: "acquire_frame b = (b1, ok (Some f))" "vacate_frame f b1 = (b2, ok ())"
    "write_page p q zero_page (disk_manager b2) = (d, ok ())"
    "b' = (pin_in_replacer f q (install_page f (p, q)
      (upd_page f (\<lambda>p. p\<lparr>page_data := zero_page\<rparr>) (b2\<lparr>next_page_id := q + 1\<rparr>))))\<lparr>disk_manager := d\<rparr>"
    using assms by (auto simp: new_page_def op_bind_def op_defs Let_def on_disk_def split: prod.splits sum.splits option.splits)
  have "only_frame f (p, q) b2 b'" using disk_files_kept(2) [OF a(3)] by (auto simp: a(4) only_frame_def)
  then show "only_frame f (p, q) b b'"
    using acquire_only [OF a(1), of f "(p, q)"] vacate_only [OF a(2), of "(p, q)"] only_frame_trans by metis
  show "pin_count (pages b' f) = 1" "page_data (pages b' f) = zero_page" by (simp_all add: a(4))
qed

subsection \<open>The state between calls\<close>

definition unlatched :: "handles \<Rightarrow> bool" where
  "unlatched hs \<longleftrightarrow> (\<forall>h \<in> set hs. fst h = Pinned \<or> fst h = Written)"

definition fresh_numbers :: "FileId \<Rightarrow> BufferPoolManager \<Rightarrow> bool" where
  "fresh_numbers p b \<longleftrightarrow> p \<in> disk_open_files (disk_manager b) \<and> (\<forall>q. next_page_id b \<le> q \<longrightarrow> page_table b (p, q) = None)"

definition client_inv :: "FileId \<Rightarrow> BufferPoolManager \<Rightarrow> handles \<Rightarrow> bool" where
  "client_inv p b hs \<longleftrightarrow> pool_inv {} b hs \<and> unlatched hs \<and> fresh_numbers p b"

text \<open>No frame is left when every frame of the pool is pinned.\<close>

abbreviation all_pinned :: "BufferPoolManager \<Rightarrow> bool" where
  "all_pinned b \<equiv> free_frames b = [] \<and> arc_evictables (replacer b) = {}"

definition spare :: "BufferPoolManager \<Rightarrow> handles \<Rightarrow> bool" where
  "spare b hs \<longleftrightarrow> (\<exists>f. unat f < pool_size b \<and> pins f hs = 0)"

lemma spare_not_full:
  assumes "pool_inv {} b hs" and "spare b hs"
  shows "\<not> all_pinned b"
proof
  assume full: "all_pinned b"
  from assms(2) obtain f where f: "unat f < pool_size b" "pins f hs = 0" by (auto simp: spare_def)
  then have "f \<in> tracked b" using full pool_invD(1) [OF assms(1)] by (auto simp: frames_ok_def)
  then show False using full f(2) pool_invD(3) [OF assms(1)] by (auto simp: pins_ok_def)
qed

text \<open>Two unpinned frames: one is left while a page is held.\<close>

definition two_spare :: "BufferPoolManager \<Rightarrow> handles \<Rightarrow> bool" where
  "two_spare b hs \<longleftrightarrow> (\<exists>f g. f \<noteq> g \<and> unat f < pool_size b \<and> unat g < pool_size b \<and> pins f hs = 0 \<and> pins g hs = 0)"

lemma two_spare_spare: "two_spare b hs \<Longrightarrow> spare b hs"
  by (auto simp: two_spare_def spare_def)

lemma two_spare_held:
  assumes "pool_inv {} b ((k, f) # hs)" and "all_pinned b"
  shows "\<not> two_spare b hs"
proof
  assume "two_spare b hs"
  then obtain g where "g \<noteq> f" "unat g < pool_size b" "pins g hs = 0" unfolding two_spare_def by metis
  then have "spare b ((k, f) # hs)" by (auto simp: spare_def pins_def intro!: exI [of _ g])
  then show False using spare_not_full [OF assms(1)] assms(2) by simp
qed

lemma unlatched_simps [simp]: "unlatched []" "unlatched ((h, f) # hs) \<longleftrightarrow> (h = Pinned \<or> h = Written) \<and> unlatched hs"
  by (auto simp: unlatched_def)

lemma unlatched_count: "unlatched hs \<Longrightarrow> count_list hs (Reading, f) = 0 \<and> count_list hs (Writing, f) = 0"
  by (auto simp: unlatched_def count_list_0_iff)

lemma latch_free:
  assumes "pool_inv {} b hs" and "count_list hs (Reading, f) = 0" and "count_list hs (Writing, f) = 0"
  shows "rw_latch (pages b f) = Free"
  using latch_okD [OF pool_invD(4) [OF assms(1)], of f] assms(2,3) by (cases "rw_latch (pages b f)") auto

lemma fresh_only:
  "fresh_numbers p b \<Longrightarrow> only_frame f (p, q) b b' \<Longrightarrow> next_page_id b \<le> next_page_id b' \<Longrightarrow> q < next_page_id b' \<Longrightarrow> fresh_numbers p b'"
  by (auto simp: fresh_numbers_def only_frame_def)

text \<open>Calls that change page records only.\<close>

lemma fresh_same:
  "page_table b' = page_table b \<Longrightarrow> disk_manager b' = disk_manager b \<Longrightarrow> next_page_id b' = next_page_id b \<Longrightarrow>
    fresh_numbers p b' = fresh_numbers p b"
  by (simp add: fresh_numbers_def)

lemma unpin_frame_simps [simp]:
  "page_table (unpin_frame f dirty b) = page_table b" "disk_manager (unpin_frame f dirty b) = disk_manager b"
  "next_page_id (unpin_frame f dirty b) = next_page_id b" "pool_size (unpin_frame f dirty b) = pool_size b"
  by (auto simp: unpin_frame_def unpin_page_def Let_def split: option.splits)

lemma unlock_simps [simp]:
  "page_table (unlock f b) = page_table b" "disk_manager (unlock f b) = disk_manager b" "next_page_id (unlock f b) = next_page_id b"
  "pool_size (unlock f b) = pool_size b"
  "page_table (unlock_shared f b) = page_table b" "disk_manager (unlock_shared f b) = disk_manager b"
  "next_page_id (unlock_shared f b) = next_page_id b" "pool_size (unlock_shared f b) = pool_size b"
  by (simp_all add: unlock_def unlock_shared_def)

lemma guard_write_simps [simp]:
  "page_table (guard_write f g b) = page_table b" "disk_manager (guard_write f g b) = disk_manager b"
  "next_page_id (guard_write f g b) = next_page_id b" "pool_size (guard_write f g b) = pool_size b"
  "pages (guard_write f g b) = (pages b)(f := (pages b f)\<lparr>page_data := g (page_data (pages b f))\<rparr>)"
  by (simp_all add: guard_write_def)

lemma used_number: "(q :: PageId) < n \<Longrightarrow> q \<noteq> INVALID_PAGE_ID"
  using word_order.extremum_strict [of n] by (auto simp: INVALID_PAGE_ID_def)

subsection \<open>Reading\<close>

lemma pool_inv_perm:
  assumes "mset hs = mset hs'" and "pool_inv H b hs"
  shows "pool_inv H b hs'"
proof -
  have "pins f hs = pins f hs'" for f
    unfolding pins_def by (metis assms(1) mset_filter size_mset)
  moreover have "set hs = set hs'" using assms(1) by (metis set_mset_mset)
  moreover have "count_list hs x = count_list hs' x" for x
    using assms(1) by (metis count_mset)
  ultimately show ?thesis
    using assms(2) by (simp add: pool_inv_def pins_ok_def latch_ok_def content_ok_def modifying_def)
qed

lemma read_access:
  assumes inv: "client_inv p b hs" and x: "bpm_view b (p, q) = Some x" and q: "q < next_page_id b"
  obtains (full) "bpm_read_page p q b = (b, ok None)" and "all_pinned b"
    | (data) b1 f where "bpm_read_page p q b = (b1, ok (Some f))" and "guard_data f b1 = x"
      and "client_inv p (drop_read f b1) hs" and "view_kept b (drop_read f b1)"
      and "next_page_id (drop_read f b1) = next_page_id b" and "pool_size (drop_read f b1) = pool_size b"
proof -
  have I: "pool_inv {} b hs" "unlatched hs" "fresh_numbers p b" using inv by (simp_all add: client_inv_def)
  note ne = used_number [OF q]
  from fetch_page_ok [OF I(1) x ne] show thesis
  proof (elim disjE conjE exE)
    assume "fetch_page p q b = (b, ok None)" "free_frames b = []" "arc_evictables (replacer b) = {}"
    then show thesis by (intro full) (simp_all add: bpm_read_page_def op_bind_def op_defs)
  next
    fix b1 f assume f: "fetch_page p q b = (b1, ok (Some f))" "pool_inv {} b1 ((Pinned, f) # hs)" "view_kept b b1"
      "page_table b1 (p, q) = Some f" "page_data (pages b1 f) = x"
    define b2 where "b2 = upd_page f (\<lambda>p. p\<lparr>rw_latch := Shared 1\<rparr>) b1"
    have b2: "page_table b2 = page_table b1" "disk_manager b2 = disk_manager b1" "next_page_id b2 = next_page_id b1" "pool_size b2 = pool_size b1"
      "page_data (pages b2 f) = page_data (pages b1 f)"
      by (simp_all add: b2_def)
    have "rw_latch (pages b1 f) = Free"
      using latch_free [OF f(2), of f] unlatched_count [OF I(2), of f] by simp
    then have lk: "lock_shared f b1 = (b2, ok ())" by (simp add: lock_shared_def b2_def)
    note L = lock_shared_ok [OF f(2) _ lk]
    have L1: "pool_inv {} b2 ((Reading, f) # hs)" using L(1) by (simp add: turn_def)
    have U: "pool_inv {} (unlock_shared f b2) ((Pinned, f) # hs)" "view_kept b2 (unlock_shared f b2)"
      using unlock_shared_ok [OF L1, of f] by (simp_all add: turn_def)
    note D = unpin_frame_ok(1,2) [OF U(1), of Pinned f False, simplified]
    have d: "drop_read f b2 = unpin_frame f False (unlock_shared f b2)" by (simp add: drop_read_def read_guard_drop_def)
    have n: "next_page_id b1 = next_page_id b" and o: "only_frame f (p, q) b b1" using fetch_page_only [OF f(1)] by auto
    have "fresh_numbers p b1" using fresh_only [OF I(3) o] n q by simp
    then have fr: "fresh_numbers p (drop_read f b2)" by (simp add: d fresh_numbers_def b2)
    show thesis
    proof (rule data)
      show "bpm_read_page p q b = (b2, ok (Some f))" by (simp add: bpm_read_page_def op_bind_def op_defs f(1) lk)
      show "guard_data f b2 = x" using f(5) by (simp add: guard_data_def b2)
      show "client_inv p (drop_read f b2) hs" using D(1) fr I(2) by (simp add: client_inv_def d)
      show "view_kept b (drop_read f b2)"
        unfolding d using f(3) L(2) U(2) D(2) by (auto intro: view_kept_trans)
      show "next_page_id (drop_read f b2) = next_page_id b" using n by (simp add: d b2)
      show "pool_size (drop_read f b2) = pool_size b" using o by (simp add: d b2 only_frame_def)
    qed
  qed
qed

subsection \<open>Writing\<close>

text \<open>The client holds the write guard on page q, in frame f.\<close>

definition holds :: "FileId \<Rightarrow> PageId \<Rightarrow> FrameId \<Rightarrow> BufferPoolManager \<Rightarrow> handles \<Rightarrow> bool" where
  "holds p q f b hs \<longleftrightarrow> pool_inv {} b ((Writing, f) # hs) \<and> unlatched hs \<and> fresh_numbers p b \<and>
     key_of (pages b f) = (p, q) \<and> q < next_page_id b"

lemma handle_page:
  assumes "pool_inv {} b hs" and "(h, f) \<in> set hs"
  shows "page_table b (key_of (pages b f)) = Some f" and "bpm_view b (key_of (pages b f)) = Some (guard_data f b)"
    and "length (guard_data f b) = PAGE_SIZE"
proof -
  have f: "f \<in> tracked b" by (rule handle_tracked [OF assms])
  then show t: "page_table b (key_of (pages b f)) = Some f" using tableD [OF pool_invD(2) [OF assms(1)]] by blast
  show "bpm_view b (key_of (pages b f)) = Some (guard_data f b)" by (simp add: bpm_view_def t guard_data_def)
  show "length (guard_data f b) = PAGE_SIZE"
    using pool_invD(5) [OF assms(1)] f by (simp add: content_ok_def guard_data_def)
qed

lemma write_access:
  assumes inv: "client_inv p b hs" and x: "bpm_view b (p, q) = Some x" and q: "q < next_page_id b"
  obtains (full) "bpm_write_page p q b = (b, ok None)" and "all_pinned b"
    | (guard) b1 f where "bpm_write_page p q b = (b1, ok (Some f))" and "guard_data f b1 = x"
      and "holds p q f b1 hs" and "view_kept b b1" and "next_page_id b1 = next_page_id b"
      and "pool_size b1 = pool_size b"
proof -
  have I: "pool_inv {} b hs" "unlatched hs" "fresh_numbers p b" using inv by (simp_all add: client_inv_def)
  note ne = used_number [OF q]
  from fetch_page_ok [OF I(1) x ne] show thesis
  proof (elim disjE conjE exE)
    assume "fetch_page p q b = (b, ok None)" "free_frames b = []" "arc_evictables (replacer b) = {}"
    then show thesis by (intro full) (simp_all add: bpm_write_page_def op_bind_def op_defs)
  next
    fix b1 f assume f: "fetch_page p q b = (b1, ok (Some f))" "pool_inv {} b1 ((Pinned, f) # hs)" "view_kept b b1"
      "page_table b1 (p, q) = Some f" "page_data (pages b1 f) = x"
    let ?b2 = "upd_page f (\<lambda>p. p\<lparr>rw_latch := Exclusive\<rparr>) b1"
    have "rw_latch (pages b1 f) = Free"
      using latch_free [OF f(2), of f] unlatched_count [OF I(2), of f] by simp
    then have lk: "lock f b1 = (?b2, ok ())" by (simp add: lock_def)
    note L = lock_ok [OF f(2) _ lk]
    have n: "next_page_id b1 = next_page_id b" and o: "only_frame f (p, q) b b1" using fetch_page_only [OF f(1)] by auto
    have fr: "fresh_numbers p ?b2" using fresh_only [OF I(3) o] fresh_same [of ?b2 b1 p] n q by simp
    have k: "key_of (pages b1 f) = (p, q)" using tableD [OF pool_invD(2) [OF f(2)]] f(4) by blast
    show thesis
    proof (rule guard)
      show "bpm_write_page p q b = (?b2, ok (Some f))" by (simp add: bpm_write_page_def op_bind_def op_defs f(1) lk)
      show "guard_data f ?b2 = x" using f(5) by (simp add: guard_data_def)
      show "holds p q f ?b2 hs" using L(1) fr I(2) k n q by (simp add: holds_def turn_def key_of_def)
      show "view_kept b ?b2" using f(3) L(2) by (auto intro: view_kept_trans)
      show "next_page_id ?b2 = next_page_id b" using n by simp
      show "pool_size ?b2 = pool_size b" using o by (simp add: only_frame_def)
    qed
  qed
qed

lemma put_page:
  assumes inv: "pool_inv {} b hs" and h: "(Writing, f) \<in> set hs" and len: "length m = PAGE_SIZE"
  shows "pool_inv {} (guard_write f (\<lambda>_. m) b) hs"
    and "bpm_view (guard_write f (\<lambda>_. m) b) = (bpm_view b)(key_of (pages b f) \<mapsto> m)"
proof -
  let ?g = "\<lambda>bs. if length bs = PAGE_SIZE then m else bs"
  have "guard_write f (\<lambda>_. m) b = guard_write f ?g b"
    using handle_page(3) [OF inv h] by (simp add: guard_write_def upd_page_def guard_data_def)
  then show "pool_inv {} (guard_write f (\<lambda>_. m) b) hs"
    "bpm_view (guard_write f (\<lambda>_. m) b) = (bpm_view b)(key_of (pages b f) \<mapsto> m)"
    using guard_write_ok [OF inv h, of ?g] len handle_page(2,3) [OF inv h] by (auto simp: fun_eq_iff)
qed

lemma holds_put:
  assumes "holds p q f b hs" and "length m = PAGE_SIZE"
  shows "holds p q f (guard_write f (\<lambda>_. m) b) hs" and "bpm_view (guard_write f (\<lambda>_. m) b) = (bpm_view b)((p, q) \<mapsto> m)"
proof -
  have h: "pool_inv {} b ((Writing, f) # hs)" "key_of (pages b f) = (p, q)" using assms(1) by (simp_all add: holds_def)
  note P = put_page [OF h(1) _ assms(2), of f, simplified]
  show "holds p q f (guard_write f (\<lambda>_. m) b) hs"
    using assms(1) P(1) fresh_same [of "guard_write f (\<lambda>_. m) b" b p] by (simp add: holds_def key_of_def)
  show "bpm_view (guard_write f (\<lambda>_. m) b) = (bpm_view b)((p, q) \<mapsto> m)" using P(2) h(2) by simp
qed

text \<open>Giving up one of several write guards.\<close>

lemma drop_guard:
  assumes "pool_inv {} b hs" and "(Writing, f) \<in> set hs"
  shows "pool_inv {} (fst (write_guard_drop (Some f) b)) (remove1 (Writing, f) hs)"
    and "view_kept b (fst (write_guard_drop (Some f) b))"
    and "g \<noteq> f \<Longrightarrow> pages (fst (write_guard_drop (Some f) b)) g = pages b g"
proof -
  have d: "fst (write_guard_drop (Some f) b) = unpin_frame f True (unlock f b)" by (simp add: write_guard_drop_def)
  note U = unlock_ok [OF assms]
  have "(Written, f) \<in> set (turn f Writing Written hs)" by (simp add: turn_def)
  note D = unpin_frame_ok(1,2) [OF U(1) this, of True]
  show "pool_inv {} (fst (write_guard_drop (Some f) b)) (remove1 (Writing, f) hs)"
    using D(1) by (simp add: d turn_def)
  show "view_kept b (fst (write_guard_drop (Some f) b))" unfolding d using U(2) D(2) by (auto intro: view_kept_trans)
  have "page_table b (pg_file_id (pages b f), pg_page_id (pages b f)) = Some f"
    using handle_page(1) [OF assms] by (simp add: key_of_def)
  then show "pages (fst (write_guard_drop (Some f) b)) g = pages b g" if "g \<noteq> f"
    using that by (simp add: d unpin_frame_def unpin_page_def unlock_def Let_def)
qed

subsection \<open>Linking a new page\<close>

lemma new_page_held:
  assumes H: "holds p q f b hs" and ne: "next_page_id b \<noteq> INVALID_PAGE_ID"
  obtains (full) "new_page p b = (b, ok None)" and "all_pinned b"
    | (new) b1 g where "new_page p b = (b1, ok (Some (g, next_page_id b)))" and "g \<noteq> f"
      and "pool_inv {} b1 ((Pinned, g) # (Writing, f) # hs)" and "fresh_numbers p b1"
      and "next_page_id b1 = next_page_id b + 1" and "next_page_id b < next_page_id b1"
      and "key_of (pages b1 f) = (p, q)" and "key_of (pages b1 g) = (p, next_page_id b)"
      and "pages b1 f = pages b f" and "guard_data g b1 = zero_page" and "pool_size b1 = pool_size b"
      and "\<forall>k x. k \<noteq> (p, next_page_id b) \<longrightarrow> bpm_view b k = Some x \<longrightarrow> bpm_view b1 k = Some x"
proof -
  let ?n = "next_page_id b"
  have I: "pool_inv {} b ((Writing, f) # hs)" "fresh_numbers p b" "key_of (pages b f) = (p, q)"
    using H by (simp_all add: holds_def)
  have fr: "p \<in> disk_open_files (disk_manager b)" "page_table b (p, ?n) = None"
    using I(2) by (auto simp: fresh_numbers_def)
  from new_page_ok [OF I(1) fr ne] show thesis
  proof (elim disjE conjE exE)
    assume "new_page p b = (b, ok None)" "free_frames b = []" "arc_evictables (replacer b) = {}"
    then show thesis by (intro full) simp_all
  next
    fix b1 g assume g: "new_page p b = (b1, ok (Some (g, ?n)))" "pool_inv {} b1 ((Pinned, g) # (Writing, f) # hs)"
      "next_page_id b1 = ?n + 1" "page_table b1 (p, ?n) = Some g"
      "\<forall>key x. key \<noteq> (p, ?n) \<longrightarrow> bpm_view b key = Some x \<longrightarrow> bpm_view b1 key = Some x"
    note O = new_page_only [OF g(1)]
    have "pins g ((Pinned, g) # (Writing, f) # hs) = 1"
      using pool_invD(3) [OF g(2)] O(2) by (simp add: pins_ok_def)
    then have gf: "g \<noteq> f" by auto
    then have pf: "pages b1 f = pages b f" using O(1) by (auto simp: only_frame_def)
    have k: "key_of (pages b1 g) = (p, ?n)" using tableD [OF pool_invD(2) [OF g(2)]] g(4) by blast
    have lt: "?n < next_page_id b1"
      using ne g(3) by (simp add: INVALID_PAGE_ID_def word_less_nat_alt)
        (metis add.commute add.inverse_inverse eq_neg_iff_add_eq_0 lessI unatSuc)
    have "pool_size b1 = pool_size b" using O(1) by (simp add: only_frame_def)
    moreover have "fresh_numbers p b1" using fresh_only [OF I(2) O(1)] lt by simp
    ultimately show thesis using gf g(1,2,3,5) lt k pf I(3) O(3) by (intro new) (simp_all add: guard_data_def)
  qed
qed

lemma link_page:
  assumes inv: "pool_inv {} b ((Pinned, g) # (Writing, f) # hs)" and gf: "g \<noteq> f" and hs: "unlatched hs"
    and fr: "fresh_numbers p b" and kf: "key_of (pages b f) = (p, q)" and kg: "key_of (pages b g) = (p, n)"
    and n: "n < next_page_id b" and len: "length m = PAGE_SIZE" "length m' = PAGE_SIZE"
  obtains b2 where "lock g (guard_write f (\<lambda>_. m) b) = (b2, ok ())" and "guard_data g b2 = guard_data g b"
    and "holds p n g (fst (write_guard_drop (Some f) (guard_write g (\<lambda>_. m') b2))) hs"
    and "guard_data g (fst (write_guard_drop (Some f) (guard_write g (\<lambda>_. m') b2))) = m'"
    and "next_page_id (fst (write_guard_drop (Some f) (guard_write g (\<lambda>_. m') b2))) = next_page_id b"
    and "pool_size (fst (write_guard_drop (Some f) (guard_write g (\<lambda>_. m') b2))) = pool_size b"
    and "\<And>k x. ((bpm_view b)((p, q) \<mapsto> m, (p, n) \<mapsto> m')) k = Some x \<Longrightarrow>
      bpm_view (fst (write_guard_drop (Some f) (guard_write g (\<lambda>_. m') b2))) k = Some x"
proof -
  define b1 where "b1 = guard_write f (\<lambda>_. m) b"
  note P = put_page [OF inv _ len(1), of f, simplified, folded b1_def]
  have g1: "pages b1 g = pages b g" using gf by (simp add: b1_def)
  have "rw_latch (pages b1 g) = Free"
    using latch_free [OF P(1), of g] unlatched_count [OF hs, of g] gf by simp
  then obtain b2 where lk: "lock g b1 = (b2, ok ())" and b2: "b2 = upd_page g (\<lambda>p. p\<lparr>rw_latch := Exclusive\<rparr>) b1"
    by (simp add: lock_def)
  note L = lock_ok [OF P(1) _ lk, simplified]
  have f2: "page_data (pages b2 g) = page_data (pages b g)" "key_of (pages b2 g) = (p, n)"
    "page_table b2 = page_table b" "disk_manager b2 = disk_manager b" "next_page_id b2 = next_page_id b"
    "pool_size b2 = pool_size b"
    using kg by (simp_all add: b2 g1 key_of_def) (simp_all add: b1_def)
  have L1: "pool_inv {} b2 ((Writing, g) # (Writing, f) # hs)" using L(1) by (simp add: turn_def)
  define b3 where "b3 = guard_write g (\<lambda>_. m') b2"
  note Q = put_page [OF L1 _ len(2), of g, simplified, folded b3_def]
  define b4 where "b4 = fst (write_guard_drop (Some f) b3)"
  note D = drop_guard [OF Q(1), of f, simplified, folded b4_def]
  have f4: "page_table b4 = page_table b" "disk_manager b4 = disk_manager b" "next_page_id b4 = next_page_id b"
    "pool_size b4 = pool_size b"
    using f2 by (simp_all add: b4_def write_guard_drop_def b3_def)
  have g4: "pages b4 g = (pages b2 g)\<lparr>page_data := m'\<rparr>" using D(3) [of g] gf by (simp add: b3_def)
  have view: "bpm_view b4 k = Some x" if "((bpm_view b)((p, q) \<mapsto> m, (p, n) \<mapsto> m')) k = Some x" for k x
  proof -
    have "bpm_view b3 k = Some x"
      using that view_keptD [OF L(2), of k x] unfolding Q(2) f2(2) P(2) kf by (cases "k = (p, n)") auto
    then show ?thesis by (rule view_keptD [OF D(2)])
  qed
  show thesis
  proof (rule that)
    show "lock g (guard_write f (\<lambda>_. m) b) = (b2, ok ())" using lk by (simp add: b1_def)
    show "guard_data g b2 = guard_data g b" using f2 by (simp add: guard_data_def)
    have "pool_inv {} b4 ((Writing, g) # hs)" using D(1) gf by simp
    then show "holds p n g (fst (write_guard_drop (Some f) (guard_write g (\<lambda>_. m') b2))) hs"
      using hs fr n f2(2) by (simp add: holds_def f4 g4 key_of_def fresh_numbers_def flip: b3_def b4_def)
    show "guard_data g (fst (write_guard_drop (Some f) (guard_write g (\<lambda>_. m') b2))) = m'"
      by (simp add: g4 guard_data_def flip: b3_def b4_def)
    show "next_page_id (fst (write_guard_drop (Some f) (guard_write g (\<lambda>_. m') b2))) = next_page_id b"
      by (simp add: f4 flip: b3_def b4_def)
    show "pool_size (fst (write_guard_drop (Some f) (guard_write g (\<lambda>_. m') b2))) = pool_size b"
      by (simp add: f4 flip: b3_def b4_def)
    show "bpm_view (fst (write_guard_drop (Some f) (guard_write g (\<lambda>_. m') b2))) k = Some x"
      if "((bpm_view b)((p, q) \<mapsto> m, (p, n) \<mapsto> m')) k = Some x" for k x
      using view [OF that] by (simp flip: b3_def b4_def)
  qed
qed

lemma holds_drop:
  assumes "holds p q f b hs"
  shows "client_inv p (fst (write_guard_drop (Some f) b)) hs" and "view_kept b (fst (write_guard_drop (Some f) b))"
    and "next_page_id (fst (write_guard_drop (Some f) b)) = next_page_id b"
    and "pool_size (fst (write_guard_drop (Some f) b)) = pool_size b"
proof -
  have H: "pool_inv {} b ((Writing, f) # hs)" "unlatched hs" "fresh_numbers p b" using assms by (simp_all add: holds_def)
  note D = drop_guard [OF H(1), of f, simplified]
  have same: "page_table (fst (write_guard_drop (Some f) b)) = page_table b"
    "disk_manager (fst (write_guard_drop (Some f) b)) = disk_manager b"
    "next_page_id (fst (write_guard_drop (Some f) b)) = next_page_id b"
    "pool_size (fst (write_guard_drop (Some f) b)) = pool_size b"
    by (simp_all add: write_guard_drop_def)
  then show "next_page_id (fst (write_guard_drop (Some f) b)) = next_page_id b"
    "pool_size (fst (write_guard_drop (Some f) b)) = pool_size b" by simp_all
  show "client_inv p (fst (write_guard_drop (Some f) b)) hs"
    using D(1) H(2,3) by (simp add: client_inv_def fresh_numbers_def same)
  show "view_kept b (fst (write_guard_drop (Some f) b))" by (rule D(2))
qed

end
