(* ===== verification/Heap_Contract.thy ===== *)
theory Heap_Contract
  imports Page_Access
begin

section \<open>The contract of table heaps\<close>

text \<open>
  \<open>heap_ok\<close> is the layout invariant: the pages of the heap form a list that is linked from the first to
  the last page, each a well-formed slotted page that carries its own number. \<open>heap_rows\<close> is what the
  table contains: a partial function from record ids to tuple images.
\<close>

subsection \<open>Linked pages\<close>

definition page_ok :: "(PageId \<Rightarrow> pagebuf option) \<Rightarrow> PageId \<Rightarrow> PageId \<Rightarrow> bool" where
  "page_ok v q n \<longleftrightarrow> (\<exists>m. v q = Some m \<and> sp_inv m \<and> sp_page_id m = q \<and> get_next_page_id m = n)"

fun linked :: "(PageId \<Rightarrow> pagebuf option) \<Rightarrow> PageId list \<Rightarrow> PageId \<Rightarrow> bool" where
  "linked v [] e \<longleftrightarrow> True"
| "linked v (q # ps) e \<longleftrightarrow> page_ok v q (hd (ps @ [e])) \<and> linked v ps e"

lemma linked_append: "linked v (ps @ qs) e \<longleftrightarrow> linked v ps (hd (qs @ [e])) \<and> linked v qs e"
  by (induction ps) (auto simp: hd_append)

lemma linked_page: "linked v ps e \<Longrightarrow> q \<in> set ps \<Longrightarrow> \<exists>m. v q = Some m \<and> sp_inv m \<and> sp_page_id m = q"
  by (induction ps) (auto simp: page_ok_def)

lemma linked_keep: "linked v ps e \<Longrightarrow> (\<And>q. q \<in> set ps \<Longrightarrow> v' q = v q) \<Longrightarrow> linked v' ps e"
  by (induction ps) (auto simp: page_ok_def)

definition heap_page :: "BufferPoolManager \<Rightarrow> TableHeap \<Rightarrow> PageId \<Rightarrow> pagebuf option" where
  "heap_page b h q = bpm_view b (heap_file_id h, q)"

definition heap_ok :: "BufferPoolManager \<Rightarrow> TableHeap \<Rightarrow> PageId list \<Rightarrow> bool" where
  "heap_ok b h ps \<longleftrightarrow> ps \<noteq> [] \<and> distinct ps \<and> hd ps = first_page_id h \<and> last ps = last_page_id h \<and>
     (\<forall>q \<in> set ps. q < next_page_id b) \<and> linked (heap_page b h) ps INVALID_PAGE_ID"

definition heap_rows :: "BufferPoolManager \<Rightarrow> TableHeap \<Rightarrow> PageId list \<Rightarrow> RecordId \<Rightarrow> u8 list option" where
  "heap_rows b h ps rid = (if page_id rid \<in> set ps
     then Option.bind (heap_page b h (page_id rid)) (\<lambda>m. sp_view m (unat (slot_num rid))) else None)"

lemma heap_ok_page:
  assumes "heap_ok b h ps" and "q \<in> set ps"
  obtains m where "bpm_view b (heap_file_id h, q) = Some m" and "heap_page b h q = Some m" and "sp_inv m" and "sp_page_id m = q" and "q < next_page_id b"
  using assms linked_page [of "heap_page b h" ps INVALID_PAGE_ID q] by (auto simp: heap_ok_def heap_page_def)

text \<open>What the pages of the heap hold decides.\<close>

lemma heap_kept:
  assumes ok: "heap_ok b h ps" and v: "\<And>q x. q \<in> set ps \<Longrightarrow> heap_page b h q = Some x \<Longrightarrow> heap_page b' h' q = Some x"
    and n: "next_page_id b \<le> next_page_id b'"
    and h: "first_page_id h' = first_page_id h" "last_page_id h' = last_page_id h"
  shows "heap_ok b' h' ps" and "heap_rows b' h' ps = heap_rows b h ps"
proof -
  have same: "heap_page b' h' q = heap_page b h q" if "q \<in> set ps" for q
    using v [OF that] linked_page [of "heap_page b h" ps INVALID_PAGE_ID q] ok that by (auto simp: heap_ok_def)
  then show "heap_ok b' h' ps"
    using ok linked_keep [of "heap_page b h" ps INVALID_PAGE_ID "heap_page b' h'"] n
    by (auto simp: heap_ok_def h dest: order_less_le_trans)
  show "heap_rows b' h' ps = heap_rows b h ps" by (auto simp: heap_rows_def fun_eq_iff same)
qed

lemma heap_view_kept:
  assumes "heap_ok b h ps" and "view_kept b b'" and "next_page_id b' = next_page_id b"
  shows "heap_ok b' h ps" and "heap_rows b' h ps = heap_rows b h ps"
  using heap_kept [OF assms(1), of b' h] assms(2,3) by (auto simp: heap_page_def view_kept_def)

subsection \<open>Pages\<close>

lemma le_nat_zeros: "le_nat (replicate n 0) = 0"
  by (induction n) auto

lemma zero_header: "get_u32 zero_page i = 0"
  by (simp add: get_u32_def zero_page_def read_at_def le_nat_zeros)

lemma fresh_page:
  "sp_inv (sp_init q zero_page)" "sp_view (sp_init q zero_page) = (\<lambda>_. None)"
  "sp_page_id (sp_init q zero_page) = q" "get_next_page_id (sp_init q zero_page) = INVALID_PAGE_ID"
  "length (sp_init q zero_page) = PAGE_SIZE" "tuple_count (sp_init q zero_page) = 0" "slot_count (sp_init q zero_page) = 0"
  "unat (usable_space (sp_init q zero_page)) = 4072"
proof -
  have z: "length zero_page = PAGE_SIZE" "dead_space zero_page = 0"
    by (simp_all add: dead_space_def zero_header) (simp add: zero_page_def)
  show inv: "sp_inv (sp_init q zero_page)" and v: "sp_view (sp_init q zero_page) = (\<lambda>_. None)"
    and "sp_page_id (sp_init q zero_page) = q" "get_next_page_id (sp_init q zero_page) = INVALID_PAGE_ID"
    by (rule sp_init_inv [OF z])+
  show "length (sp_init q zero_page) = PAGE_SIZE" using sp_invD(1) [OF inv] by (simp add: PAGE_SIZE_def)
  show c: "tuple_count (sp_init q zero_page) = 0" "slot_count (sp_init q zero_page) = 0"
    using z(1) by (simp_all add: sp_init_def Let_def buf_simps PAGE_SIZE_def)
  show "unat (usable_space (sp_init q zero_page)) = 4072"
    using sp_invD(3) [OF inv] c(2) by (simp add: unat_usable [OF inv] live_bytes_def)
qed

lemma set_next_page:
  assumes "sp_inv m"
  shows "sp_inv (set_next_page_id n m)" and "sp_view (set_next_page_id n m) = sp_view m"
    and "sp_page_id (set_next_page_id n m) = sp_page_id m" and "get_next_page_id (set_next_page_id n m) = n"
    and "length (set_next_page_id n m) = PAGE_SIZE"
proof -
  have len: "length m = 4096" using sp_invD(1) [OF assms] .
  show "length (set_next_page_id n m) = PAGE_SIZE" using len by (simp add: set_next_page_id_def PAGE_SIZE_def)
  have h: "slot_count (set_next_page_id n m) = slot_count m" "tuple_count (set_next_page_id n m) = tuple_count m"
    "free_space_pointer (set_next_page_id n m) = free_space_pointer m" "dead_space (set_next_page_id n m) = dead_space m"
    using len by (simp_all add: set_next_page_id_def buf_simps)
  have sl: "slot_length (set_next_page_id n m) i = slot_length m i" "slot_offset (set_next_page_id n m) i = slot_offset m i"
    if "i < nslots m" for i
    using len nslots_bound [OF assms] that by (simp_all add: set_next_page_id_def buf_simps)
  show "sp_page_id (set_next_page_id n m) = sp_page_id m" "get_next_page_id (set_next_page_id n m) = n"
    using len by (simp_all add: set_next_page_id_def buf_simps)
  show inv: "sp_inv (set_next_page_id n m)"
    using assms len by (simp add: sp_inv_def payload_ranges_ok_def live_bytes_def h sl cong: conj_cong) (simp add: set_next_page_id_def)
  have "read_at (soff m i) (slen m i) (set_next_page_id n m) = read_at (soff m i) (slen m i) m"
    if "i < nslots m" "0 < slen m i" for i
    using slot_in_range [OF assms that] sp_invD(2) [OF assms] len
    unfolding set_next_page_id_def by (intro read_put_disjoint) auto
  then show "sp_view (set_next_page_id n m) = sp_view m" by (auto simp: sp_view_def h sl fun_eq_iff)
qed

subsection \<open>The insertion loop\<close>

lemma insert_fits:
  assumes m: "sp_inv m" and bs: "storable bs" and fits: "space_needed m bs \<le> unat (usable_space m)"
  obtains m' rid where "insert_tuple m bs = ok (m', Some rid)" and "sp_inv m'" and "page_id rid = sp_page_id m"
    and "sp_view m (unat (slot_num rid)) = None" and "sp_view m' = (sp_view m)(unat (slot_num rid) \<mapsto> bs)"
    and "sp_page_id m' = sp_page_id m" and "get_next_page_id m' = get_next_page_id m" and "length m' = PAGE_SIZE"
proof -
  have b: "bs \<noteq> []" "length bs < 2 ^ 32 - 8" using bs by (simp_all add: storable_def)
  have t: "unat (word_of_nat (target_slot m (empty_slot m)) :: u32) = target_slot m (empty_slot m)"
    using storable_slot [OF m] by (simp add: unat_of_nat)
  from insert_tuple_cases(1) [OF m b fits] obtain m' where
    m': "insert_tuple m bs = ok (m', Some \<lparr>page_id = sp_page_id m, slot_num = word_of_nat (target_slot m (empty_slot m))\<rparr>)"
      "sp_inv m'" "sp_view m' = (sp_view m)(target_slot m (empty_slot m) := Some bs)" "sp_page_id m' = sp_page_id m"
      "get_next_page_id m' = get_next_page_id m" by blast
  show thesis using m' t target_slot_empty [of m] sp_invD(1) [OF m'(2)]
    by (intro that [OF m'(1,2)]) (simp_all add: PAGE_SIZE_def)
qed

text \<open>The guarded page has room.\<close>

lemma insert_loop_fits:
  assumes H: "holds p q f b hs" and m: "sp_inv (guard_data f b)" "sp_page_id (guard_data f b) = q"
    and bs: "storable bs" and fits: "space_needed (guard_data f b) bs \<le> unat (usable_space (guard_data f b))"
  obtains b' F rid m' where "insert_loop f bs (b, h) = Some ((b', h\<lparr>free_space_map := F\<rparr>), ok (Some rid))"
    and "client_inv p b' hs" and "next_page_id b' = next_page_id b" and "pool_size b' = pool_size b" and "page_id rid = q"
    and "sp_inv m'" and "sp_page_id m' = q" and "get_next_page_id m' = get_next_page_id (guard_data f b)"
    and "sp_view (guard_data f b) (unat (slot_num rid)) = None"
    and "sp_view m' = (sp_view (guard_data f b))(unat (slot_num rid) \<mapsto> bs)"
    and "\<And>k x. ((bpm_view b)((p, q) \<mapsto> m')) k = Some x \<Longrightarrow> bpm_view b' k = Some x"
proof -
  from insert_fits [OF m(1) bs fits] obtain m' rid where r: "insert_tuple (guard_data f b) bs = ok (m', Some rid)"
    "sp_inv m'" "page_id rid = sp_page_id (guard_data f b)" "sp_view (guard_data f b) (unat (slot_num rid)) = None"
    "sp_view m' = (sp_view (guard_data f b))(unat (slot_num rid) \<mapsto> bs)" "sp_page_id m' = sp_page_id (guard_data f b)"
    "get_next_page_id m' = get_next_page_id (guard_data f b)" "length m' = PAGE_SIZE" .
  note P = holds_put [OF H r(8)]
  note D = holds_drop [OF P(1)]
  let ?b = "fst (write_guard_drop (Some f) (guard_write f (\<lambda>_. m') b))"
  show thesis
  proof (rule that)
    show "insert_loop f bs (b, h) = Some ((?b, h\<lparr>free_space_map := (free_space_map h)(pg_page_id (pages b f) \<mapsto>
        usable_space (guard_data f (guard_write f (\<lambda>_. m') b)))\<rparr>), ok (Some rid))"
      by (subst insert_loop.simps) (simp add: r(1) drop_write_def note_space_def set_bytes_def)
    show "next_page_id ?b = next_page_id b" "pool_size ?b = pool_size b" using D(3,4) by simp_all
    show "bpm_view ?b k = Some x" if "((bpm_view b)((p, q) \<mapsto> m')) k = Some x" for k x
      using view_keptD [OF D(2)] that by (simp add: P(2))
  qed (use D(1) r m(2) in simp_all)
qed

lemma insert_loop_aborts:
  assumes m: "sp_inv (guard_data f b)" and bs: "storable bs"
    and "unat (usable_space (guard_data f b)) < space_needed (guard_data f b) bs" and "tuple_count (guard_data f b) = 0"
  shows "insert_loop f bs (b, h) = Some ((b, h), throw (Terminated ''Tuple too large to fit in a single page''))"
proof -
  have "insert_tuple (guard_data f b) bs = ok (guard_data f b, None)"
    by (rule insert_tuple_cases(2)) (use assms in \<open>simp_all add: storable_def\<close>)
  then show ?thesis using assms(4) by (subst insert_loop.simps) simp
qed

text \<open>The guarded page is full: the loop goes on with a new page.\<close>

lemma insert_loop_extends:
  assumes H: "holds p q f b hs" and m: "sp_inv (guard_data f b)" and bs: "storable bs"
    and "unat (usable_space (guard_data f b)) < space_needed (guard_data f b) bs" and "tuple_count (guard_data f b) \<noteq> 0"
    and ne: "next_page_id b \<noteq> INVALID_PAGE_ID" and h: "heap_file_id h = p"
  obtains (full) b' where "insert_loop f bs (b, h) = Some ((b', h), ok None)" and "client_inv p b' hs"
      and "view_kept b b'" and "next_page_id b' = next_page_id b" and "pool_size b' = pool_size b" and "\<not> two_spare b hs"
    | (new) b' g F where "insert_loop f bs (b, h) = insert_loop g bs (b', h\<lparr>free_space_map := F, last_page_id := next_page_id b\<rparr>)"
      and "holds p (next_page_id b) g b' hs" and "guard_data g b' = sp_init (next_page_id b) zero_page"
      and "next_page_id b' = next_page_id b + 1" and "next_page_id b < next_page_id b'" and "pool_size b' = pool_size b"
      and "\<And>k x. k \<noteq> (p, next_page_id b) \<Longrightarrow>
        ((bpm_view b)((p, q) \<mapsto> set_next_page_id (next_page_id b) (guard_data f b))) k = Some x \<Longrightarrow> bpm_view b' k = Some x"
proof -
  have ins: "insert_tuple (guard_data f b) bs = ok (guard_data f b, None)"
    by (rule insert_tuple_cases(2)) (use assms in \<open>simp_all add: storable_def\<close>)
  show thesis
  proof (rule new_page_held [OF H ne], goal_cases)
    case 1
    have "insert_loop f bs (b, h) = Some ((fst (write_guard_drop (Some f) b), h), ok None)"
      using assms(5) 1(1) h by (subst insert_loop.simps) (simp add: ins drop_write_def)
    then show thesis using holds_drop [OF H]
    proof (rule full)
      show "\<not> two_spare b hs" using two_spare_held 1(2) H unfolding holds_def by blast
    qed
  next
    case (2 b1 g)
    let ?n = "next_page_id b" and ?m = "set_next_page_id (next_page_id b) (guard_data f b)"
    have hs: "unlatched hs" using H by (simp add: holds_def)
    have l: "length ?m = PAGE_SIZE" "length (sp_init ?n zero_page) = PAGE_SIZE"
      using set_next_page(5) [OF m] fresh_page(5) by auto
    from link_page [OF 2(3,2) hs 2(4,7,8,6) l] obtain b2 where
      b2: "lock g (guard_write f (\<lambda>_. ?m) b1) = (b2, ok ())" "guard_data g b2 = guard_data g b1"
      "holds p ?n g (fst (write_guard_drop (Some f) (guard_write g (\<lambda>_. sp_init ?n zero_page) b2))) hs"
      "guard_data g (fst (write_guard_drop (Some f) (guard_write g (\<lambda>_. sp_init ?n zero_page) b2))) = sp_init ?n zero_page"
      "next_page_id (fst (write_guard_drop (Some f) (guard_write g (\<lambda>_. sp_init ?n zero_page) b2))) = next_page_id b1"
      "pool_size (fst (write_guard_drop (Some f) (guard_write g (\<lambda>_. sp_init ?n zero_page) b2))) = pool_size b1"
      "\<And>k x. ((bpm_view b1)((p, q) \<mapsto> ?m, (p, ?n) \<mapsto> sp_init ?n zero_page)) k = Some x \<Longrightarrow>
        bpm_view (fst (write_guard_drop (Some f) (guard_write g (\<lambda>_. sp_init ?n zero_page) b2))) k = Some x"
      by metis
    let ?b = "fst (write_guard_drop (Some f) (guard_write g (\<lambda>_. sp_init ?n zero_page) b2))"
    have d: "guard_data f b1 = guard_data f b" using 2(9) by (simp add: guard_data_def)
    have z: "guard_data g b2 = zero_page" using b2(2) 2(10) by simp
    have "insert_loop f bs (b, h) = insert_loop g bs (?b, h\<lparr>free_space_map := (free_space_map h)(pg_page_id (pages b f) \<mapsto>
        usable_space (guard_data f (guard_write f (\<lambda>_. ?m) b1))), last_page_id := ?n\<rparr>)"
      using assms(5) 2(1) h
      by (subst insert_loop.simps) (simp add: ins d z b2(1) 2(9) drop_write_def note_space_def set_bytes_def Let_def)
    then show thesis
    proof (rule new)
      show "next_page_id ?b = ?n + 1" "?n < next_page_id ?b" "pool_size ?b = pool_size b" using b2(5,6) 2(5,6,11) by simp_all
      show "bpm_view ?b k = Some x" if "k \<noteq> (p, ?n)" "((bpm_view b)((p, q) \<mapsto> ?m)) k = Some x" for k x
        using b2(7) [of k x] that 2(12) by (auto split: if_splits)
    qed (fact b2)+
  qed
qed

subsection \<open>Operations on the rows\<close>

text \<open>Storing a page of the heap.\<close>

lemma heap_put:
  assumes ok: "heap_ok b h (ps @ [q])" and m: "page_ok (heap_page b' h') q INVALID_PAGE_ID"
    and v: "\<And>k x. k \<in> set ps \<Longrightarrow> heap_page b h k = Some x \<Longrightarrow> heap_page b' h' k = Some x"
    and n: "next_page_id b \<le> next_page_id b'"
    and h: "first_page_id h' = first_page_id h" "last_page_id h' = last_page_id h"
  shows "heap_ok b' h' (ps @ [q])"
proof -
  have l: "linked (heap_page b h) ps q" using ok by (auto simp: heap_ok_def linked_append)
  have "heap_page b' h' k = heap_page b h k" if "k \<in> set ps" for k
    using v [OF that] linked_page [OF l that] by auto
  then have "linked (heap_page b' h') ps q" by (rule linked_keep [OF l])
  then show ?thesis using ok m n by (auto simp: heap_ok_def linked_append h dest: order_less_le_trans)
qed

lemma heap_extend:
  assumes ok: "heap_ok b h (ps @ [q])" and n: "n = next_page_id b" "n < next_page_id b'"
    and v: "\<And>k x. k \<in> set ps \<Longrightarrow> heap_page b h k = Some x \<Longrightarrow> heap_page b' h' k = Some x"
    and q: "page_ok (heap_page b' h') q n" and new: "page_ok (heap_page b' h') n INVALID_PAGE_ID"
    and h: "first_page_id h' = first_page_id h" "last_page_id h' = n"
  shows "heap_ok b' h' (ps @ [q, n])"
proof -
  have l: "linked (heap_page b h) ps q" using ok by (auto simp: heap_ok_def linked_append)
  have "heap_page b' h' k = heap_page b h k" if "k \<in> set ps" for k
    using v [OF that] linked_page [OF l that] by auto
  then have "linked (heap_page b' h') ps q" by (rule linked_keep [OF l])
  moreover have "n \<notin> set (ps @ [q])" using ok n(1) by (auto simp: heap_ok_def)
  moreover have "k < next_page_id b'" if "k \<in> set (ps @ [q])" for k
    using ok n that by (auto simp: heap_ok_def dest: less_trans)
  ultimately show ?thesis using ok q new n(2) by (auto simp: heap_ok_def linked_append h hd_append split: if_splits)
qed

lemma record_id_eq: "page_id x = page_id y \<Longrightarrow> unat (slot_num x) = unat (slot_num y) \<Longrightarrow> x = (y :: RecordId)"
  by (intro RecordId.equality) (simp_all add: word_unat_eq_iff)

text \<open>A payload appears in page q.\<close>

lemma rows_insert:
  assumes "q \<in> set ps" and "page_id rid = q" and old: "heap_page b h q = Some m" and new: "heap_page b' h' q = Some m'"
    and s: "sp_view m (unat (slot_num rid)) = None" "sp_view m' = (sp_view m)(unat (slot_num rid) \<mapsto> bs)"
    and same: "\<And>k. k \<in> set ps \<Longrightarrow> k \<noteq> q \<Longrightarrow> heap_page b' h' k = heap_page b h k"
  shows "heap_rows b h ps rid = None" and "heap_rows b' h' ps = (heap_rows b h ps)(rid \<mapsto> bs)"
proof -
  show "heap_rows b h ps rid = None" using assms by (simp add: heap_rows_def)
  have "heap_rows b' h' ps r = ((heap_rows b h ps)(rid \<mapsto> bs)) r" for r
  proof (cases "page_id r = q \<and> unat (slot_num r) = unat (slot_num rid)")
    case True
    then have "r = rid" using assms(2) by (intro record_id_eq) simp_all
    then show ?thesis using assms by (simp add: heap_rows_def)
  next
    case False
    then have "r \<noteq> rid" using assms(2) by auto
    moreover have "heap_rows b' h' ps r = heap_rows b h ps r"
      using False assms(1) s(2) same [of "page_id r"] by (cases "page_id r = q") (simp_all add: heap_rows_def old new)
    ultimately show ?thesis by simp
  qed
  then show "heap_rows b' h' ps = (heap_rows b h ps)(rid \<mapsto> bs)" by blast
qed

text \<open>What insert_tuple does to the table.\<close>

definition inserted :: "BufferPoolManager \<Rightarrow> TableHeap \<Rightarrow> PageId list \<Rightarrow> RecordId \<Rightarrow> u8 list \<Rightarrow>
    BufferPoolManager \<Rightarrow> TableHeap \<Rightarrow> PageId list \<Rightarrow> bool" where
  "inserted b h ps rid bs b' h' ps' \<longleftrightarrow> heap_ok b' h' ps' \<and> heap_rows b h ps rid = None \<and>
     heap_rows b' h' ps' = (heap_rows b h ps)(rid \<mapsto> bs) \<and> page_id rid = last ps' \<and> pool_size b' = pool_size b"

lemma insert_here:
  assumes H: "holds (heap_file_id h) q f b hs" and ok: "heap_ok b h (ps @ [q])" and bs: "storable bs"
    and fits: "space_needed (guard_data f b) bs \<le> unat (usable_space (guard_data f b))"
  obtains b' F rid where "insert_loop f bs (b, h) = Some ((b', h\<lparr>free_space_map := F\<rparr>), ok (Some rid))"
    and "client_inv (heap_file_id h) b' hs"
    and "inserted b h (ps @ [q]) rid bs b' (h\<lparr>free_space_map := F\<rparr>) (ps @ [q])"
    and "next_page_id b' = next_page_id b"
proof -
  let ?p = "heap_file_id h"
  have v: "heap_page b h q = Some (guard_data f b)"
    using H handle_page(2) [of b _ Writing f] by (auto simp: holds_def heap_page_def)
  have pq: "page_ok (heap_page b h) q INVALID_PAGE_ID" using ok by (auto simp: heap_ok_def linked_append)
  then have m: "sp_inv (guard_data f b)" "sp_page_id (guard_data f b) = q" "get_next_page_id (guard_data f b) = INVALID_PAGE_ID"
    by (auto simp: page_ok_def v)
  show thesis
  proof (rule insert_loop_fits [OF H m(1,2) bs fits, of h])
    fix b' F rid m' let ?h = "h\<lparr>free_space_map := F\<rparr>"
    assume r: "insert_loop f bs (b, h) = Some ((b', ?h), ok (Some rid))" "client_inv ?p b' hs"
      "next_page_id b' = next_page_id b" "pool_size b' = pool_size b" "page_id rid = q" "sp_inv m'" "sp_page_id m' = q"
      "get_next_page_id m' = get_next_page_id (guard_data f b)" "sp_view (guard_data f b) (unat (slot_num rid)) = None"
      "sp_view m' = (sp_view (guard_data f b))(unat (slot_num rid) \<mapsto> bs)"
      "\<And>k x. ((bpm_view b)((?p, q) \<mapsto> m')) k = Some x \<Longrightarrow> bpm_view b' k = Some x"
    have v': "heap_page b' ?h q = Some m'" using r(11) [of "(?p, q)" m'] by (simp add: heap_page_def)
    have keep: "heap_page b' ?h k = Some x" if "k \<noteq> q" "heap_page b h k = Some x" for k x
      using r(11) [of "(?p, k)" x] that by (simp add: heap_page_def)
    have new: "page_ok (heap_page b' ?h) q INVALID_PAGE_ID" using r(6-8) m(3) by (simp add: page_ok_def v')
    have q: "q \<notin> set ps" using ok by (auto simp: heap_ok_def)
    have "heap_ok b' ?h (ps @ [q])"
    proof (rule heap_put [OF ok new])
      show "heap_page b' ?h k = Some x" if "k \<in> set ps" "heap_page b h k = Some x" for k x
        using keep [of k x] that q by metis
    qed (use r(3) in simp_all)
    moreover have "heap_page b' ?h k = heap_page b h k" if "k \<in> set (ps @ [q])" "k \<noteq> q" for k
      by (rule heap_ok_page [OF ok that(1)]) (use keep [OF that(2)] in simp)
    note rows_insert [OF _ r(5) v v' r(9,10) this, where ?ps = "ps @ [q]"]
    ultimately show thesis using r(3-5) by (intro that [OF r(1,2)]) (simp_all add: inserted_def)
  qed
qed

lemma extended_heap:
  assumes ok: "heap_ok b h (ps @ [q])" and v: "heap_page b h q = Some m" and n: "n = next_page_id b" "n < next_page_id b'"
    and new: "heap_page b' h' n = Some (sp_init n zero_page)"
    and keep: "\<And>k x. k \<noteq> n \<Longrightarrow> ((heap_page b h)(q \<mapsto> set_next_page_id n m)) k = Some x \<Longrightarrow> heap_page b' h' k = Some x"
    and h: "first_page_id h' = first_page_id h" "last_page_id h' = n"
  shows "heap_ok b' h' (ps @ [q, n])" and "heap_rows b' h' (ps @ [q, n]) = heap_rows b h (ps @ [q])"
proof -
  have pq: "page_ok (heap_page b h) q INVALID_PAGE_ID" and q: "q \<notin> set ps" and nq: "n \<notin> set (ps @ [q])"
    using ok n(1) by (auto simp: heap_ok_def linked_append)
  then have m: "sp_inv m" "sp_page_id m = q" by (auto simp: page_ok_def v)
  have vq: "heap_page b' h' q = Some (set_next_page_id n m)" using keep [of q] nq by auto
  have vk: "heap_page b' h' k = Some x" if "k \<in> set ps" "heap_page b h k = Some x" for k x
    using keep [of k x] nq q that by (cases "k = q"; cases "k = n") auto
  show "heap_ok b' h' (ps @ [q, n])"
  proof (rule heap_extend [OF ok n vk _ _ h])
    show "page_ok (heap_page b' h') q n" using set_next_page [OF m(1)] m(2) by (simp add: page_ok_def vq)
    show "page_ok (heap_page b' h') n INVALID_PAGE_ID" using fresh_page by (simp add: page_ok_def new)
  qed
  have same: "heap_page b' h' k = heap_page b h k" if "k \<in> set ps" for k
    by (rule heap_ok_page [OF ok, of k]) (use vk [OF that] that in simp_all)
  have "heap_rows b' h' (ps @ [q, n]) r = heap_rows b h (ps @ [q]) r" for r
  proof (cases "page_id r = q \<or> page_id r = n")
    case True
    then show ?thesis
      using nq set_next_page(2) [OF m(1), of n] fresh_page(2) [of n]
      by (elim disjE) (simp_all add: heap_rows_def vq v new)
  next
    case False
    then show ?thesis using same [of "page_id r"] by (simp add: heap_rows_def)
  qed
  then show "heap_rows b' h' (ps @ [q, n]) = heap_rows b h (ps @ [q])" by blast
qed

lemma space_needed_fresh: "space_needed (sp_init q zero_page) bs = length bs + 8"
  using find_slot_None [of "sp_init q zero_page"] fresh_page(7) [of q]
  by (simp add: space_needed_def slot_cost_def empty_slot_def)

text \<open>
  When insert_tuple gives up: the process ends for a payload that exceeds a page, and also when the
  last page has lost all its tuples and its slots leave too little room.
\<close>

definition gives_up :: "BufferPoolManager \<Rightarrow> TableHeap \<Rightarrow> u8 list \<Rightarrow> bool" where
  "gives_up b h bs \<longleftrightarrow> 4064 < length bs \<or>
     (\<exists>m. heap_page b h (last_page_id h) = Some m \<and> tuple_count m = 0 \<and> unat (usable_space m) < space_needed m bs)"

definition has_room :: "BufferPoolManager \<Rightarrow> TableHeap \<Rightarrow> u8 list \<Rightarrow> bool" where
  "has_room b h bs \<longleftrightarrow> (\<exists>m. heap_page b h (last_page_id h) = Some m \<and> space_needed m bs \<le> unat (usable_space m))"

lemma heap_insert_ok:
  assumes inv: "client_inv (heap_file_id h) b hs" and ok: "heap_ok b h ps" and bs: "storable (Tuple_serialize t)"
    and ne: "next_page_id b \<noteq> INVALID_PAGE_ID"
  obtains (inserted) b' h' rid ps' where "heap_insert_tuple t (b, h) = Some ((b', h'), ok (Some rid))"
      and "client_inv (heap_file_id h) b' hs" and "heap_file_id h' = heap_file_id h"
      and "inserted b h ps rid (Tuple_serialize t) b' h' ps'" and "ps' = ps \<or> ps' = ps @ [next_page_id b]"
      and "next_page_id b' = next_page_id b \<or> next_page_id b' = next_page_id b + 1"
    | (full) b' where "heap_insert_tuple t (b, h) = Some ((b', h), ok None)"
      and "client_inv (heap_file_id h) b' hs" and "heap_ok b' h ps" and "heap_rows b' h ps = heap_rows b h ps"
      and "\<not> (spare b hs \<and> has_room b h (Tuple_serialize t))" and "\<not> two_spare b hs" and "pool_size b' = pool_size b"
    | (too_large) s where "heap_insert_tuple t (b, h) = Some (s, throw (Terminated ''Tuple too large to fit in a single page''))"
      and "gives_up b h (Tuple_serialize t)"
proof -
  let ?bs = "Tuple_serialize t" and ?p = "heap_file_id h" and ?n = "next_page_id b"
  obtain qs q where ps: "ps = qs @ [q]" "q = last_page_id h"
    using ok by (metis append_butlast_last_id heap_ok_def)
  obtain m where m: "bpm_view b (?p, q) = Some m" "sp_inv m" "sp_page_id m = q" "q < ?n"
    using heap_ok_page [OF ok, of q] ps(1) by auto
  show thesis
  proof (rule write_access [OF inv m(1,4)])
    assume "bpm_write_page ?p q b = (b, ok None)" "all_pinned b"
    moreover from this(2) have "\<not> spare b hs" using spare_not_full [of b hs] inv by (auto simp: client_inv_def)
    moreover from this have "\<not> two_spare b hs" using two_spare_spare by blast
    ultimately show thesis using inv ok ps(2) by (intro full [of b]) (simp_all add: heap_insert_tuple_def)
  next
    fix b1 f assume w: "bpm_write_page ?p q b = (b1, ok (Some f))" "guard_data f b1 = m" "holds ?p q f b1 hs"
      "view_kept b b1" "next_page_id b1 = ?n" "pool_size b1 = pool_size b"
    have run: "heap_insert_tuple t (b, h) = insert_loop f ?bs (b1, h)" using w(1) ps(2) by (simp add: heap_insert_tuple_def)
    note K = heap_view_kept [OF ok w(4,5)]
    note K' = K [unfolded ps(1)]
    show thesis
    proof (cases "space_needed m ?bs \<le> unat (usable_space m)")
      case True
      show thesis
      proof (rule insert_here [OF w(3) K'(1) bs])
        fix b' F rid assume i: "insert_loop f ?bs (b1, h) = Some ((b', h\<lparr>free_space_map := F\<rparr>), ok (Some rid))"
          "client_inv ?p b' hs" "inserted b1 h (qs @ [q]) rid ?bs b' (h\<lparr>free_space_map := F\<rparr>) (qs @ [q])"
          "next_page_id b' = next_page_id b1"
        show thesis
        proof (rule inserted [OF run [THEN trans, OF i(1)] i(2)])
          show "inserted b h ps rid ?bs b' (h\<lparr>free_space_map := F\<rparr>) ps"
            using i(3) K(2) w(6) by (simp add: inserted_def ps(1))
          show "next_page_id b' = ?n \<or> next_page_id b' = ?n + 1" using i(4) w(5) by simp
        qed simp_all
      qed (use True w(2) in simp)
    next
      case False
      then have small: "unat (usable_space (guard_data f b1)) < space_needed (guard_data f b1) ?bs" using w(2) by simp
      show thesis
      proof (cases "tuple_count m = 0")
        case True
        from insert_loop_aborts [OF _ bs small] m(2) w(2) True
        have "insert_loop f ?bs (b1, h) = Some ((b1, h), throw (Terminated ''Tuple too large to fit in a single page''))"
          by simp
        moreover have "gives_up b h ?bs" using True False m(1) ps(2) by (auto simp: gives_up_def heap_page_def)
        ultimately show thesis using run by (intro too_large) simp_all
      next
        case tc: False
        have ne1: "next_page_id b1 \<noteq> INVALID_PAGE_ID" using ne w(5) by simp
        show thesis
        proof (rule insert_loop_extends [OF w(3) _ bs small _ ne1, of h])
          show "sp_inv (guard_data f b1)" "tuple_count (guard_data f b1) \<noteq> 0" "?p = ?p" using m(2) w(2) tc by simp_all
        next
          fix b' assume f: "insert_loop f ?bs (b1, h) = Some ((b', h), ok None)" "client_inv ?p b' hs" "view_kept b1 b'"
            "next_page_id b' = next_page_id b1" "pool_size b' = pool_size b1" "\<not> two_spare b1 hs"
          have "\<not> two_spare b hs" using f(6) w(6) by (simp add: two_spare_def)
          moreover have "\<not> has_room b h ?bs" using small w(2) m(1) ps(2) by (auto simp: has_room_def heap_page_def)
          ultimately show thesis using f(1,2,5) w(6) run K heap_view_kept [OF K(1) f(3,4)] by (intro full [of b']) simp_all
        next
          fix b' g F let ?h = "h\<lparr>free_space_map := F, last_page_id := next_page_id b1\<rparr>"
          assume e: "insert_loop f ?bs (b1, h) = insert_loop g ?bs (b', ?h)" "holds ?p (next_page_id b1) g b' hs"
            "guard_data g b' = sp_init (next_page_id b1) zero_page" "next_page_id b' = next_page_id b1 + 1"
            "next_page_id b1 < next_page_id b'" "pool_size b' = pool_size b1"
            "\<And>k x. k \<noteq> (?p, next_page_id b1) \<Longrightarrow>
              ((bpm_view b1)((?p, q) \<mapsto> set_next_page_id (next_page_id b1) (guard_data f b1))) k = Some x \<Longrightarrow> bpm_view b' k = Some x"
          let ?n = "next_page_id b1"
          have v: "heap_page b1 h q = Some (guard_data f b1)"
            using handle_page(2) [of b1 _ Writing f] w(3) by (auto simp: holds_def heap_page_def)
          have new: "heap_page b' ?h ?n = Some (sp_init ?n zero_page)"
            using handle_page(2) [of b' _ Writing g] e(2,3) by (auto simp: holds_def heap_page_def)
          have keep: "heap_page b' ?h k = Some x"
            if "k \<noteq> ?n" "((heap_page b1 h)(q \<mapsto> set_next_page_id ?n (guard_data f b1))) k = Some x" for k x
            using e(7) [of "(?p, k)" x] that by (auto simp: heap_page_def split: if_splits)
          note X = extended_heap [OF K'(1) v _ e(5) new keep]
          have X1: "heap_ok b' ?h ((qs @ [q]) @ [?n])" using X(1) by simp
          show thesis
          proof (cases "4064 < length ?bs")
            case True
            have "insert_loop g ?bs (b', ?h) = Some ((b', ?h), throw (Terminated ''Tuple too large to fit in a single page''))"
              by (rule insert_loop_aborts [OF _ bs]) (use e(3) fresh_page True space_needed_fresh in simp_all)
            then show thesis using run e(1) True by (intro too_large) (auto simp: gives_up_def)
          next
            case False
            have H: "holds (heap_file_id ?h) ?n g b' hs" using e(2) by simp
            have fits: "space_needed (guard_data g b') ?bs \<le> unat (usable_space (guard_data g b'))"
              using False e(3) fresh_page(8) space_needed_fresh by simp
            show thesis
            proof (rule insert_here [OF H X1 bs fits])
              fix b2 F' rid assume i: "insert_loop g ?bs (b', ?h) = Some ((b2, ?h\<lparr>free_space_map := F'\<rparr>), ok (Some rid))"
                "client_inv (heap_file_id ?h) b2 hs"
                "inserted b' ?h ((qs @ [q]) @ [?n]) rid ?bs b2 (?h\<lparr>free_space_map := F'\<rparr>) ((qs @ [q]) @ [?n])"
                "next_page_id b2 = next_page_id b'"
              show thesis
              proof (rule inserted)
                show "heap_insert_tuple t (b, h) = Some ((b2, ?h\<lparr>free_space_map := F'\<rparr>), ok (Some rid))"
                  using run e(1) i(1) by simp
                show "inserted b h ps rid ?bs b2 (?h\<lparr>free_space_map := F'\<rparr>) ((qs @ [q]) @ [?n])"
                  using i(3) X(2) K(2) w(6) e(6) by (simp add: inserted_def ps(1))
              qed (use i(2,4) e(4) w(5) ps(1) in simp_all)
            qed
          qed
        qed
      qed
    qed
  qed
qed

end
