(* ===== verification/Heap_Scan.thy ===== *)
theory Heap_Scan
  imports Heap_Contract
begin

section \<open>Lookup, deletion and scans of table heaps\<close>

text \<open>
  Lookup and deletion by record id, and iterators: \<open>iter_at\<close> says which rows an iterator has still to
  visit, and advancing it takes the first one off. Properties of table heaps follow.
\<close>

subsection \<open>Lookup and deletion\<close>

lemma heap_get_ok:
  assumes inv: "client_inv (heap_file_id h) b hs" and ok: "heap_ok b h ps" and rid: "page_id rid \<in> set ps"
  obtains (full) "heap_get_tuple rid t (b, h) = ((b, h), ok (t, False))" and "all_pinned b"
    | (found) b' where "heap_get_tuple rid t (b, h) = ((b', h), (case heap_rows b h ps rid of
          Some bs \<Rightarrow> ok (Tuple_deserialize bs t, True)
        | None \<Rightarrow> throw (Runtime_error (if \<exists>m. heap_page b h (page_id rid) = Some m \<and> unat (slot_num rid) < nslots m
            then ''Slot is empty (deleted tuple)'' else ''Invalid RID for this page''))))"
      and "client_inv (heap_file_id h) b' hs" and "heap_ok b' h ps" and "heap_rows b' h ps = heap_rows b h ps"
      and "pool_size b' = pool_size b"
proof (rule heap_ok_page [OF ok rid])
  fix m assume m: "bpm_view b (heap_file_id h, page_id rid) = Some m" "heap_page b h (page_id rid) = Some m"
    "sp_inv m" "sp_page_id m = page_id rid" "page_id rid < next_page_id b"
  show thesis
  proof (rule read_access [OF inv m(1,5)])
    assume "bpm_read_page (heap_file_id h) (page_id rid) b = (b, ok None)" "all_pinned b"
    then show thesis by (intro full) (simp_all add: heap_get_tuple_def)
  next
    fix b1 f assume r: "bpm_read_page (heap_file_id h) (page_id rid) b = (b1, ok (Some f))" "guard_data f b1 = m"
      "client_inv (heap_file_id h) (drop_read f b1) hs" "view_kept b (drop_read f b1)"
      "next_page_id (drop_read f b1) = next_page_id b" "pool_size (drop_read f b1) = pool_size b"
    show thesis
    proof (rule found [OF _ r(3) heap_view_kept [OF ok r(4,5)] r(6)])
      show "heap_get_tuple rid t (b, h) = ((drop_read f b1, h), (case heap_rows b h ps rid of
          Some bs \<Rightarrow> ok (Tuple_deserialize bs t, True)
        | None \<Rightarrow> throw (Runtime_error (if \<exists>m. heap_page b h (page_id rid) = Some m \<and> unat (slot_num rid) < nslots m
            then ''Slot is empty (deleted tuple)'' else ''Invalid RID for this page''))))"
        using sp_tuple_view [OF m(3) m(4) [symmetric]] rid m(2)
        by (auto simp: heap_get_tuple_def r(1,2) heap_rows_def sp_view_def split: option.split)
    qed
  qed
qed

lemma mark_delete_ok:
  assumes inv: "client_inv (heap_file_id h) b hs" and ok: "heap_ok b h ps" and rid: "heap_rows b h ps rid = Some bs"
  obtains (full) "mark_delete rid (b, h) = ((b, h), ok False)" and "all_pinned b"
    | (deleted) b' h' where "mark_delete rid (b, h) = ((b', h'), ok True)" and "heap_file_id h' = heap_file_id h"
      and "client_inv (heap_file_id h) b' hs" and "heap_ok b' h' ps" and "heap_rows b' h' ps = (heap_rows b h ps)(rid := None)"
      and "pool_size b' = pool_size b" and "next_page_id b' = next_page_id b"
proof -
  have q: "page_id rid \<in> set ps" using rid by (auto simp: heap_rows_def split: if_splits)
  obtain m where m: "bpm_view b (heap_file_id h, page_id rid) = Some m" "heap_page b h (page_id rid) = Some m"
    "sp_inv m" "sp_page_id m = page_id rid" "page_id rid < next_page_id b"
    by (rule heap_ok_page [OF ok q])
  have slot: "unat (slot_num rid) < nslots m" using rid m(2) q by (auto simp: heap_rows_def sp_view_def split: if_splits)
  obtain m' where d: "delete_tuple m rid = ok m'" "sp_inv m'" "sp_view m' = (sp_view m)(unat (slot_num rid) := None)"
    "sp_page_id m' = sp_page_id m" "get_next_page_id m' = get_next_page_id m"
    using delete_tuple_ok [OF m(3) m(4) [symmetric] slot] by blast
  have len: "length m' = PAGE_SIZE" using sp_invD(1) [OF d(2)] by (simp add: PAGE_SIZE_def)
  show thesis
  proof (rule write_access [OF inv m(1,5)])
    assume "bpm_write_page (heap_file_id h) (page_id rid) b = (b, ok None)" "all_pinned b"
    then show thesis by (intro full) (simp_all add: mark_delete_def)
  next
    fix b1 f assume w: "bpm_write_page (heap_file_id h) (page_id rid) b = (b1, ok (Some f))" "guard_data f b1 = m"
      "holds (heap_file_id h) (page_id rid) f b1 hs" "view_kept b b1" "next_page_id b1 = next_page_id b"
      "pool_size b1 = pool_size b"
    note P = holds_put [OF w(3) len]
    note D = holds_drop [OF P(1)]
    let ?b = "fst (write_guard_drop (Some f) (guard_write f (\<lambda>_. m') b1))"
    let ?h = "h\<lparr>free_space_map := (free_space_map h)(page_id rid \<mapsto> usable_space (guard_data f (guard_write f (\<lambda>_. m') b1)))\<rparr>"
    have view: "heap_page ?b ?h k = ((heap_page b h)(page_id rid \<mapsto> m')) k" if "k \<in> set ps" for k
    proof (rule heap_ok_page [OF ok that])
      fix x assume x: "bpm_view b (heap_file_id h, k) = Some x"
      show ?thesis
        using view_keptD [OF D(2), of "(heap_file_id h, k)"] view_keptD [OF w(4) x] x by (auto simp: P(2) heap_page_def)
    qed
    have link: "linked (heap_page b h) ps INVALID_PAGE_ID" using ok by (simp add: heap_ok_def)
    have "page_ok (heap_page ?b ?h) k n" if "k \<in> set ps" "page_ok (heap_page b h) k n" for k n
      using that view [OF that(1)] d m by (auto simp: page_ok_def)
    then have "linked (heap_page ?b ?h) qs e" if "linked (heap_page b h) qs e" "set qs \<subseteq> set ps" for qs e
      using that by (induction qs) auto
    then have "linked (heap_page ?b ?h) ps INVALID_PAGE_ID" using link by blast
    then have ok': "heap_ok ?b ?h ps" using ok D(3) w(5) by (auto simp: heap_ok_def)
    have rows: "heap_rows ?b ?h ps r = ((heap_rows b h ps)(rid := None)) r" for r
    proof (cases "page_id r = page_id rid \<and> unat (slot_num r) = unat (slot_num rid)")
      case True
      then have "r = rid" by (intro record_id_eq) simp_all
      then show ?thesis using q view [OF q] d(3) by (simp add: heap_rows_def)
    next
      case False
      then have "r \<noteq> rid" by auto
      then show ?thesis using False q view [of "page_id r"] d(3) m(2) by (auto simp: heap_rows_def)
    qed
    show thesis
    proof (rule deleted [OF _ _ D(1) ok'])
      show "mark_delete rid (b, h) = ((?b, ?h), ok True)"
        by (simp add: mark_delete_def w(1,2) d(1) drop_write_def note_space_def set_bytes_def)
      show "heap_rows ?b ?h ps = (heap_rows b h ps)(rid := None)" using rows by blast
      show "pool_size ?b = pool_size b" using D(4) w(6) by simp
      show "next_page_id ?b = next_page_id b" using D(3) w(5) by simp
    qed simp
  qed
qed

subsection \<open>Scans\<close>

text \<open>The rows of a page from slot i on, and of a list of pages, in the order of a scan.\<close>

definition page_rows :: "PageId \<Rightarrow> pagebuf \<Rightarrow> nat \<Rightarrow> (RecordId \<times> u8 list) list" where
  "page_rows q m i = map (\<lambda>j. (\<lparr>page_id = q, slot_num = word_of_nat j\<rparr>, the (sp_view m j)))
     (filter (\<lambda>j. sp_view m j \<noteq> None) [i..<nslots m])"

fun table_rows :: "(PageId \<Rightarrow> pagebuf option) \<Rightarrow> PageId list \<Rightarrow> (RecordId \<times> u8 list) list" where
  "table_rows v [] = []"
| "table_rows v (q # ps) = (case v q of Some m \<Rightarrow> page_rows q m 0 | None \<Rightarrow> []) @ table_rows v ps"

definition tuple_of :: "u8 list \<Rightarrow> Tuple" where
  "tuple_of bs = \<lparr>allocated = True, bytes = bs, record_id = default_RecordId\<rparr>"

definition iter_at :: "(PageId \<Rightarrow> pagebuf option) \<Rightarrow> PageId list \<Rightarrow> TableIterator \<Rightarrow> (RecordId \<times> u8 list) list \<Rightarrow> bool" where
  "iter_at v ps it rows \<longleftrightarrow> record_id (current_tuple it) = default_RecordId \<and>
     (rows = [] \<and> current_id it = \<lparr>page_id = INVALID_PAGE_ID, slot_num = 0\<rparr> \<or>
      (\<exists>xs q ys m bs. ps = xs @ q # ys \<and> v q = Some m \<and> page_id (current_id it) = q \<and>
         sp_view m (unat (slot_num (current_id it))) = Some bs \<and> current_tuple it = tuple_of bs \<and>
         rows = page_rows q m (unat (slot_num (current_id it))) @ table_rows v ys))"

lemma iter_atI:
  "v q = Some m \<Longrightarrow> sp_view m (unat i) = Some bs \<Longrightarrow>
    iter_at v (xs @ q # ys) \<lparr>current_id = \<lparr>page_id = q, slot_num = i\<rparr>, current_tuple = tuple_of bs\<rparr>
      (page_rows q m (unat i) @ table_rows v ys)"
  unfolding iter_at_def by (intro conjI disjI2 exI [of _ xs] exI [of _ q] exI [of _ ys] exI [of _ m] exI [of _ bs])
    (simp_all add: tuple_of_def)

lemma page_rows_end: "nslots m \<le> i \<Longrightarrow> page_rows q m i = []"
  by (simp add: page_rows_def)

lemma page_rows_dead: "sp_view m i = None \<Longrightarrow> page_rows q m i = page_rows q m (Suc i)"
  by (cases "i < nslots m") (simp_all add: page_rows_def upt_conv_Cons)

lemma page_rows_live:
  "sp_view m (unat i) = Some bs \<Longrightarrow> page_rows q m (unat i) = (\<lparr>page_id = q, slot_num = i\<rparr>, bs) # page_rows q m (Suc (unat i))"
  using sp_view_Some_iff [of m "unat i" bs] by (simp add: page_rows_def upt_conv_Cons)

lemma skip_deleted_ok:
  assumes "sp_inv m" and "n = slot_count m"
  shows "\<exists>j. skip_deleted m n i = ok j \<and> page_rows q m (unat i) = page_rows q m (unat j) \<and>
    (j < n \<longrightarrow> sp_view m (unat j) \<noteq> None)"
  using assms
proof (induction m n i rule: skip_deleted.induct)
  case (1 m n i)
  show ?case
  proof (cases "i < n \<and> sp_view m (unat i) = None")
    case True
    then have o: "is_slot_occupied m i = ok False" using is_slot_occupied_view [OF 1(2)] by simp
    from 1(1) [OF _ o _ 1(2,3)] True obtain j where j: "skip_deleted m n (i + 1) = ok j"
      "page_rows q m (unat (i + 1)) = page_rows q m (unat j)" "j < n \<longrightarrow> sp_view m (unat j) \<noteq> None" by auto
    have "unat (i + 1) = Suc (unat i)" using True by (intro word_Suc_less [of i n]) simp
    then have "page_rows q m (unat i) = page_rows q m (unat j)" using j(2) True page_rows_dead by metis
    then show ?thesis using j True o by (subst skip_deleted.simps) simp
  next
    case False
    then show ?thesis using is_slot_occupied_view [OF 1(2), of i] by (subst skip_deleted.simps) auto
  qed
qed

text \<open>One page of the search for the next live row.\<close>

lemma advance_page:
  assumes inv: "client_inv p b hs" "spare b hs" and q: "bpm_view b (p, q) = Some m" "sp_inv m" "sp_page_id m = q" "q < next_page_id b"
    and it: "page_id (current_id it) = q" "record_id (current_tuple it) = default_RecordId"
  obtains (live) b1 i bs where "advance_to_valid p (b, it) =
        Some ((b1, \<lparr>current_id = \<lparr>page_id = q, slot_num = i\<rparr>, current_tuple = tuple_of bs\<rparr>), ok ())"
      and "sp_view m (unat i) = Some bs" and "page_rows q m (unat (slot_num (current_id it))) = page_rows q m (unat i)"
      and "client_inv p b1 hs" and "view_kept b b1" and "next_page_id b1 = next_page_id b" and "pool_size b1 = pool_size b"
    | (dead) b1 where "advance_to_valid p (b, it) = advance_to_valid p (b1, it\<lparr>current_id :=
        \<lparr>page_id = get_next_page_id m, slot_num = 0\<rparr>\<rparr>)"
      and "page_rows q m (unat (slot_num (current_id it))) = []"
      and "client_inv p b1 hs" and "view_kept b b1" and "next_page_id b1 = next_page_id b" and "pool_size b1 = pool_size b"
proof -
  have q_ne: "q \<noteq> INVALID_PAGE_ID" by (rule used_number [OF q(4)])
  obtain i where i: "skip_deleted m (slot_count m) (slot_num (current_id it)) = ok i"
    "page_rows q m (unat (slot_num (current_id it))) = page_rows q m (unat i)" "i < slot_count m \<longrightarrow> sp_view m (unat i) \<noteq> None"
    using skip_deleted_ok [OF q(2) HOL.refl] by blast
  show thesis
  proof (rule read_access [OF inv(1) q(1,4)])
    assume "all_pinned b"
    then show thesis using spare_not_full [OF _ inv(2)] inv(1) by (simp add: client_inv_def)
  next
    fix b1 f assume r: "bpm_read_page p q b = (b1, ok (Some f))" "guard_data f b1 = m" "client_inv p (drop_read f b1) hs"
      "view_kept b (drop_read f b1)" "next_page_id (drop_read f b1) = next_page_id b" "pool_size (drop_read f b1) = pool_size b"
    show thesis
    proof (cases "i < slot_count m")
      case True
      then obtain bs where bs: "sp_view m (unat i) = Some bs" using i(3) by auto
      have des: "Tuple_deserialize bs (current_tuple it) = tuple_of bs"
        using it(2) by (cases "current_tuple it") (simp add: Tuple_deserialize_def tuple_of_def)
      have upd: "it\<lparr>current_id := x, current_tuple := y\<rparr> = \<lparr>current_id = x, current_tuple = y\<rparr>" for x y
        by (cases it) simp
      have "sp_tuple m \<lparr>page_id = q, slot_num = i\<rparr> = ok bs"
        using sp_tuple_view [OF q(2), of "\<lparr>page_id = q, slot_num = i\<rparr>"] bs q(3) sp_view_Some_iff [of m "unat i" bs] by simp
      then have "advance_to_valid p (b, it) =
          Some ((drop_read f b1, \<lparr>current_id = \<lparr>page_id = q, slot_num = i\<rparr>, current_tuple = tuple_of bs\<rparr>), ok ())"
        using True it(1) q_ne by (subst advance_to_valid.simps) (simp add: r(1,2) i(1) Let_def des upd)
      then show thesis using bs i(2) r(3-6) by (rule live)
    next
      case False
      then have "page_rows q m (unat i) = []" by (intro page_rows_end) (simp add: word_less_nat_alt)
      moreover have "advance_to_valid p (b, it) = advance_to_valid p (drop_read f b1, it\<lparr>current_id :=
          \<lparr>page_id = get_next_page_id m, slot_num = 0\<rparr>\<rparr>)"
        using False it q_ne by (subst advance_to_valid.simps) (simp add: r(1,2) i(1) Let_def)
      ultimately show thesis using i(2) by (intro dead [OF _ _ r(3-6)]) simp_all
    qed
  qed
qed

text \<open>Advancing from any position finds the first live row there or behind, if a frame is to be had.\<close>

lemma advance_ok:
  assumes "client_inv p b hs" and "spare b hs" and "linked v (q # ys) INVALID_PAGE_ID"
    and "\<forall>k \<in> set (q # ys). k < next_page_id b \<and> bpm_view b (p, k) = v k" and "v q = Some m"
    and "page_id (current_id it) = q" and "record_id (current_tuple it) = default_RecordId"
  shows "\<exists>b' it'. advance_to_valid p (b, it) = Some ((b', it'), ok ()) \<and> client_inv p b' hs \<and> view_kept b b' \<and>
    next_page_id b' = next_page_id b \<and> pool_size b' = pool_size b \<and>
    iter_at v (xs @ q # ys) it' (page_rows q m (unat (slot_num (current_id it))) @ table_rows v ys)"
  using assms
proof (induction ys arbitrary: b q m it xs)
  case Nil
  note A = Nil.prems
  have m: "sp_inv m" "sp_page_id m = q" "get_next_page_id m = INVALID_PAGE_ID" using A(3,5) by (auto simp: page_ok_def)
  have q: "bpm_view b (p, q) = Some m" "q < next_page_id b" using A(4,5) by auto
  show ?case
  proof (rule advance_page [OF A(1,2) q(1) m(1,2) q(2) A(6,7)], goal_cases)
    case (1 b1 i bs)
    then show ?thesis using iter_atI [of v q m i bs xs "[]"] A(5) by auto
  next
    case (2 b1)
    then have "advance_to_valid p (b, it) = Some ((b1, it\<lparr>current_id := \<lparr>page_id = INVALID_PAGE_ID, slot_num = 0\<rparr>\<rparr>), ok ())"
      using m(3) by (subst (asm) (2) advance_to_valid.simps) simp
    then show ?thesis using 2 A(7) by (auto simp: iter_at_def)
  qed
next
  case (Cons r ys)
  note A = Cons.prems
  have m: "sp_inv m" "sp_page_id m = q" "get_next_page_id m = r" using A(3,5) by (auto simp: page_ok_def)
  have q: "bpm_view b (p, q) = Some m" "q < next_page_id b" using A(4,5) by auto
  show ?case
  proof (rule advance_page [OF A(1,2) q(1) m(1,2) q(2) A(6,7)], goal_cases)
    case (1 b1 i bs)
    then show ?thesis using iter_atI [of v q m i bs xs "r # ys"] A(5) by auto
  next
    case (2 b1)
    let ?it = "it\<lparr>current_id := \<lparr>page_id = r, slot_num = 0\<rparr>\<rparr>"
    obtain m' where m': "v r = Some m'" using A(3) by (auto simp: page_ok_def)
    have "\<forall>k \<in> set (r # ys). k < next_page_id b1 \<and> bpm_view b1 (p, k) = v k"
    proof
      fix k assume k: "k \<in> set (r # ys)"
      then obtain x where "v k = Some x" using linked_page [OF A(3)] by fastforce
      then show "k < next_page_id b1 \<and> bpm_view b1 (p, k) = v k" using view_keptD [OF 2(4), of "(p, k)"] A(4) 2(5) k by auto
    qed
    moreover have "spare b1 hs" using A(2) 2(6) by (simp add: spare_def)
    ultimately obtain b' it' where n: "advance_to_valid p (b1, ?it) = Some ((b', it'), ok ())" "client_inv p b' hs"
      "view_kept b1 b'" "next_page_id b' = next_page_id b1" "pool_size b' = pool_size b1"
      "iter_at v ((xs @ [q]) @ r # ys) it' (page_rows r m' 0 @ table_rows v ys)"
      using Cons.IH [of b1 r m' ?it "xs @ [q]"] 2(3) A(3,7) m' by auto
    then show ?thesis using 2 m(3) m' view_kept_trans [OF 2(4) n(3)] by (intro exI [of _ b'] exI [of _ it']) simp
  qed
qed

text \<open>The state of a scan over an unchanged table.\<close>

definition scanning :: "TableHeap \<Rightarrow> handles \<Rightarrow> PageId list \<Rightarrow> (PageId \<Rightarrow> pagebuf option) \<Rightarrow> BufferPoolManager \<Rightarrow> bool" where
  "scanning h hs ps v b \<longleftrightarrow> client_inv (heap_file_id h) b hs \<and> spare b hs \<and> linked v ps INVALID_PAGE_ID \<and>
     (\<forall>k \<in> set ps. k < next_page_id b \<and> heap_page b h k = v k)"

lemma scanning_kept:
  assumes "scanning h hs ps v b" and "client_inv (heap_file_id h) b' hs" and "view_kept b b'"
    and "next_page_id b' = next_page_id b" and "pool_size b' = pool_size b"
  shows "scanning h hs ps v b'"
proof -
  have "heap_page b' h k = v k" if k: "k \<in> set ps" for k
  proof -
    obtain x where "v k = Some x" using assms(1) linked_page [of v ps INVALID_PAGE_ID k] k by (auto simp: scanning_def)
    then show ?thesis
      using view_keptD [OF assms(3), of "(heap_file_id h, k)" x] assms(1) k by (simp add: scanning_def heap_page_def)
  qed
  then show ?thesis using assms by (auto simp: scanning_def spare_def)
qed

lemma scan_advance:
  assumes S: "scanning h hs (xs @ q # ys) v b" and m: "v q = Some m"
    and it: "page_id (current_id it) = q" "record_id (current_tuple it) = default_RecordId"
  shows "\<exists>b' it'. advance_to_valid (heap_file_id h) (b, it) = Some ((b', it'), ok ()) \<and> scanning h hs (xs @ q # ys) v b' \<and>
    iter_at v (xs @ q # ys) it' (page_rows q m (unat (slot_num (current_id it))) @ table_rows v ys)"
proof -
  have P: "client_inv (heap_file_id h) b hs" "spare b hs" "linked v (q # ys) INVALID_PAGE_ID"
    "\<forall>k \<in> set (q # ys). k < next_page_id b \<and> bpm_view b (heap_file_id h, k) = v k"
    using S unfolding scanning_def linked_append heap_page_def by auto
  from advance_ok [OF P m it, of xs] obtain b' it' where a: "advance_to_valid (heap_file_id h) (b, it) = Some ((b', it'), ok ())"
    "client_inv (heap_file_id h) b' hs" "view_kept b b'" "next_page_id b' = next_page_id b" "pool_size b' = pool_size b"
    "iter_at v (xs @ q # ys) it' (page_rows q m (unat (slot_num (current_id it))) @ table_rows v ys)"
    by blast
  show ?thesis using a(1,6) scanning_kept [OF S a(2-5)] by blast
qed

lemma begin_ok:
  assumes S: "scanning h hs ps v b" and ps: "ps \<noteq> []" "hd ps = first_page_id h"
  shows "\<exists>b' it'. heap_begin h b = Some ((b', it'), ok ()) \<and> scanning h hs ps v b' \<and> iter_at v ps it' (table_rows v ps)"
proof -
  obtain q ys where q: "ps = q # ys" "first_page_id h = q" using ps by (cases ps) auto
  obtain m where m: "v q = Some m" using S by (auto simp: scanning_def q page_ok_def)
  have "q \<noteq> INVALID_PAGE_ID" using S used_number [of q "next_page_id b"] by (simp add: scanning_def q)
  moreover have "record_id empty_Tuple = default_RecordId" by (simp add: empty_Tuple_def)
  ultimately show ?thesis
    using scan_advance [of h hs "[]" q ys v b m "\<lparr>current_id = \<lparr>page_id = q, slot_num = 0\<rparr>, current_tuple = empty_Tuple\<rparr>"] S m
    by (simp add: q heap_begin_def new_TableIterator_def)
qed

lemma next_ok:
  assumes S: "scanning h hs ps v b" and at: "iter_at v ps it (r # rs)"
  shows "(current_id it, current_tuple it) = (fst r, tuple_of (snd r)) \<and> page_id (current_id it) \<noteq> INVALID_PAGE_ID \<and>
    (\<exists>b' it'. iterator_next (heap_file_id h) (b, it) = Some ((b', it'), ok ()) \<and> scanning h hs ps v b' \<and> iter_at v ps it' rs)"
proof -
  from at obtain xs q ys m bs where a: "ps = xs @ q # ys" "v q = Some m" "page_id (current_id it) = q"
    "sp_view m (unat (slot_num (current_id it))) = Some bs" "current_tuple it = tuple_of bs"
    "r # rs = page_rows q m (unat (slot_num (current_id it))) @ table_rows v ys"
    unfolding iter_at_def by blast
  let ?i = "slot_num (current_id it)" and ?it = "it\<lparr>current_id := (current_id it)\<lparr>slot_num := slot_num (current_id it) + 1\<rparr>\<rparr>"
  have rows: "r = (\<lparr>page_id = q, slot_num = ?i\<rparr>, bs)" "rs = page_rows q m (Suc (unat ?i)) @ table_rows v ys"
    using a(6) page_rows_live [OF a(4), of q] by auto
  have "q < next_page_id b" using S by (simp add: scanning_def a(1))
  then have "q \<noteq> INVALID_PAGE_ID" by (rule used_number)
  moreover have "current_id it = \<lparr>page_id = q, slot_num = ?i\<rparr>" using a(3) by (cases "current_id it") simp
  moreover have "unat (?i + 1) = Suc (unat ?i)"
    using a(4) word_Suc_less [of ?i "slot_count m"] by (simp add: sp_view_Some_iff word_less_nat_alt)
  ultimately show ?thesis
    using scan_advance [of h hs xs q ys v b m ?it] S a(1,2,3,5) rows by (simp add: iterator_next_def tuple_of_def)
qed

lemma end_ok: "heap_end h b = Some ((b, \<lparr>current_id = \<lparr>page_id = INVALID_PAGE_ID, slot_num = 0\<rparr>, current_tuple = empty_Tuple\<rparr>), ok ())"
  by (simp add: heap_end_def new_TableIterator_def)

lemma at_end:
  assumes "scanning h hs ps v b" and "iter_at v ps it rows"
  shows "rows = [] \<longleftrightarrow> current_id it = \<lparr>page_id = INVALID_PAGE_ID, slot_num = 0\<rparr>"
proof (cases rows)
  case Nil
  then show ?thesis using assms(2) page_rows_live by (auto simp: iter_at_def)
next
  case (Cons r rs)
  then show ?thesis using next_ok [OF assms(1), of it r rs] assms(2) by auto
qed

end
