(* ===== verification/Scan_Rows.thy ===== *)
theory Scan_Rows
  imports Heap_Scan
begin

section \<open>The rows of a scan\<close>

text \<open>
  The list of rows that a scan visits, as a set and as a map from record ids, and what a deletion does to
  a scan that is under way: an iterator that has passed the deleted row is not disturbed.
\<close>

declare split_paired_All [simp del] split_paired_Ex [simp del]

lemma live_slot: "sp_view m j \<noteq> None \<Longrightarrow> j < nslots m"
  by (auto simp: sp_view_def split: if_splits)

lemma unat_slot: "j < nslots m \<Longrightarrow> unat (word_of_nat j :: u32) = j"
proof -
  assume "j < nslots m"
  moreover have "nslots m < 2 ^ 32" using unsigned_less [of "slot_count m"] by simp
  ultimately show ?thesis by (simp add: unat_of_nat)
qed

lemma page_rows_bound:
  assumes "nslots m \<le> N"
  shows "page_rows q m i = map (\<lambda>j. (\<lparr>page_id = q, slot_num = word_of_nat j\<rparr>, the (sp_view m j))) (filter (\<lambda>j. sp_view m j \<noteq> None) [i..<N])"
proof (cases "i \<le> nslots m")
  case True
  then have "[i..<N] = [i..<nslots m] @ [nslots m..<N]"
    using upt_add_eq_append [OF True, of "N - nslots m"] assms by simp
  moreover have "filter (\<lambda>j. sp_view m j \<noteq> None) [nslots m..<N] = []" by (auto simp: filter_empty_conv sp_view_def)
  ultimately show ?thesis by (simp add: page_rows_def)
next
  case False
  then have "filter (\<lambda>j. sp_view m j \<noteq> None) [i..<N] = []" by (auto simp: filter_empty_conv sp_view_def)
  then show ?thesis using False by (simp add: page_rows_def)
qed

lemma page_rows_cong:
  assumes "\<And>j. i \<le> j \<Longrightarrow> sp_view m j = sp_view m' j"
  shows "page_rows q m i = page_rows q m' i"
proof -
  have "page_rows q m i = map (\<lambda>j. (\<lparr>page_id = q, slot_num = word_of_nat j\<rparr>, the (sp_view m j)))
      (filter (\<lambda>j. sp_view m j \<noteq> None) [i..<max (nslots m) (nslots m')])" by (rule page_rows_bound) simp
  also have "\<dots> = map (\<lambda>j. (\<lparr>page_id = q, slot_num = word_of_nat j\<rparr>, the (sp_view m' j)))
      (filter (\<lambda>j. sp_view m' j \<noteq> None) [i..<max (nslots m) (nslots m')])"
    by (intro map_cong filter_cong HOL.refl) (simp_all add: assms)
  also have "\<dots> = page_rows q m' i" by (rule page_rows_bound [symmetric]) simp
  finally show ?thesis .
qed

lemma in_page_rows:
  "(rid, bs) \<in> set (page_rows q m i) \<longleftrightarrow> page_id rid = q \<and> i \<le> unat (slot_num rid) \<and> sp_view m (unat (slot_num rid)) = Some bs"
proof
  assume "(rid, bs) \<in> set (page_rows q m i)"
  then show "page_id rid = q \<and> i \<le> unat (slot_num rid) \<and> sp_view m (unat (slot_num rid)) = Some bs"
    by (auto simp: page_rows_def unat_slot dest: live_slot)
next
  assume r: "page_id rid = q \<and> i \<le> unat (slot_num rid) \<and> sp_view m (unat (slot_num rid)) = Some bs"
  then have "unat (slot_num rid) < nslots m" by (simp add: live_slot)
  then show "(rid, bs) \<in> set (page_rows q m i)"
    using r by (auto simp: page_rows_def image_iff intro!: bexI [of _ "unat (slot_num rid)"] record_id_eq)
qed

lemma distinct_page_rows: "distinct (map fst (page_rows q m i))"
proof -
  have "inj_on (\<lambda>j. \<lparr>page_id = q, slot_num = word_of_nat j\<rparr> :: RecordId) {i..<nslots m}"
    by (rule inj_on_inverseI [where g = "\<lambda>r. unat (slot_num r)"]) (metis RecordId.select_convs(2) atLeastLessThan_iff unat_slot)
  then show ?thesis by (auto simp: page_rows_def distinct_map comp_def intro: inj_on_subset)
qed

lemma in_table_rows:
  "(rid, bs) \<in> set (table_rows v ps) \<longleftrightarrow> page_id rid \<in> set ps \<and>
     (\<exists>m. v (page_id rid) = Some m \<and> sp_view m (unat (slot_num rid)) = Some bs)"
proof (induction ps)
  case (Cons q ps)
  then show ?case by (cases "v q") (auto simp: in_page_rows)
qed simp

lemma distinct_table_rows: "distinct ps \<Longrightarrow> distinct (map fst (table_rows v ps))"
proof (induction ps)
  case (Cons q ps)
  have "fst ` set (page_rows q m 0) \<inter> fst ` set (table_rows v ps) = {}" for m
    using Cons.prems in_page_rows in_table_rows by fastforce
  then show ?case using Cons by (auto simp: distinct_page_rows split: option.splits)
qed simp

lemma table_rows_map:
  assumes "distinct ps"
  shows "map_of (table_rows (heap_page b h) ps) = heap_rows b h ps"
proof
  fix rid
  have "(\<exists>bs. (rid, bs) \<in> set (table_rows (heap_page b h) ps) \<and> map_of (table_rows (heap_page b h) ps) rid = Some bs) \<or>
      map_of (table_rows (heap_page b h) ps) rid = None \<and> rid \<notin> fst ` set (table_rows (heap_page b h) ps)"
    by (metis map_of_SomeD map_of_eq_None_iff not_None_eq)
  then show "map_of (table_rows (heap_page b h) ps) rid = heap_rows b h ps rid"
  proof (elim disjE exE conjE)
    fix bs assume "(rid, bs) \<in> set (table_rows (heap_page b h) ps)" "map_of (table_rows (heap_page b h) ps) rid = Some bs"
    then show ?thesis by (auto simp: in_table_rows heap_rows_def)
  next
    assume n: "map_of (table_rows (heap_page b h) ps) rid = None" "rid \<notin> fst ` set (table_rows (heap_page b h) ps)"
    have "heap_rows b h ps rid = None"
    proof (rule ccontr)
      assume "heap_rows b h ps rid \<noteq> None"
      then obtain bs where "(rid, bs) \<in> set (table_rows (heap_page b h) ps)"
        by (auto simp: in_table_rows heap_rows_def split: if_splits bind_splits)
      then show False using n(2) by force
    qed
    with n show ?thesis by simp
  qed
qed

text \<open>The rows at an iterator are rows of the table, and determine its page.\<close>

lemma iter_at_rows:
  assumes "iter_at v ps it rs" and "distinct ps"
  shows "set rs \<subseteq> set (table_rows v ps)" and "distinct (map fst rs)"
proof -
  have "set rs \<subseteq> set (table_rows v ps) \<and> distinct (map fst rs)"
  proof (cases "rs = []")
    case False
    with assms(1) obtain xs q ys m where a: "ps = xs @ q # ys" "v q = Some m"
      "rs = page_rows q m (unat (slot_num (current_id it))) @ table_rows v ys" by (auto simp: iter_at_def)
    have "fst ` set (page_rows q m i) \<inter> fst ` set (table_rows v ys) = {}" for i
      using assms(2) a(1) in_page_rows in_table_rows by fastforce
    moreover have "distinct (map fst (table_rows v ys))" using assms(2) a(1) by (simp add: distinct_table_rows)
    moreover have "set (page_rows q m i) \<subseteq> set (table_rows v ps)" for i
      using a(1,2) by (auto simp: in_page_rows in_table_rows)
    moreover have "set (table_rows v ys) \<subseteq> set (table_rows v ps)" using a(1) by (auto simp: in_table_rows)
    ultimately show ?thesis unfolding a(3) by (simp add: distinct_page_rows)
  qed simp
  then show "set rs \<subseteq> set (table_rows v ps)" "distinct (map fst rs)" by simp_all
qed

lemma iter_at_passed:
  assumes at: "iter_at v ps it rs" and pages: "\<forall>q \<in> set ps. v q \<noteq> None \<and> v' q \<noteq> None"
    and same: "\<And>q m m' j bs. q \<in> set ps \<Longrightarrow> v q = Some m \<Longrightarrow> v' q = Some m' \<Longrightarrow>
        sp_view m' j = (if j = unat (slot_num rid) \<and> q = page_id rid then None else sp_view m j)"
    and rid: "rid \<notin> fst ` set rs"
  shows "iter_at v' ps it rs"
proof (cases "rs = []")
  case True
  then have "\<not> (\<exists>xs q ys m bs. ps = xs @ q # ys \<and> v q = Some m \<and> page_id (current_id it) = q \<and>
         sp_view m (unat (slot_num (current_id it))) = Some bs \<and> current_tuple it = tuple_of bs \<and>
         rs = page_rows q m (unat (slot_num (current_id it))) @ table_rows v ys)"
    by (auto simp: page_rows_live)
  then show ?thesis using at True by (auto simp: iter_at_def)
next
  case False
  with at obtain xs q ys m bs where a: "ps = xs @ q # ys" "v q = Some m" "page_id (current_id it) = q"
    "sp_view m (unat (slot_num (current_id it))) = Some bs" "current_tuple it = tuple_of bs"
    "rs = page_rows q m (unat (slot_num (current_id it))) @ table_rows v ys" "record_id (current_tuple it) = default_RecordId"
    unfolding iter_at_def by blast
  let ?i = "unat (slot_num (current_id it))"
  obtain m' where m': "v' q = Some m'" using pages a(1) by auto
  have keep: "sp_view m' j = sp_view m j" if "?i \<le> j" for j
  proof (cases "j = unat (slot_num rid) \<and> q = page_id rid \<and> sp_view m j \<noteq> None")
    case True
    then obtain x where "sp_view m j = Some x" by blast
    then have "(rid, x) \<in> set rs" using True that by (simp add: a(6) in_page_rows)
    then have "rid \<in> fst ` set rs" by force
    then show ?thesis using rid by simp
  next
    case False
    then show ?thesis using same [OF _ a(2) m', of j] a(1) by auto
  qed
  have "table_rows v' zs = table_rows v zs" if "set zs \<subseteq> set ps" "rid \<notin> fst ` set (table_rows v zs)" for zs
    using that
  proof (induction zs)
    case (Cons k zs)
    then obtain x x' where x: "v k = Some x" "v' k = Some x'" using pages by auto
    have "sp_view x' j = sp_view x j" for j
    proof (cases "j = unat (slot_num rid) \<and> k = page_id rid \<and> sp_view x j \<noteq> None")
      case True
      then obtain y where "sp_view x j = Some y" by blast
      then have "(rid, y) \<in> set (table_rows v (k # zs))" using True x by (simp add: in_page_rows)
      then have "rid \<in> fst ` set (table_rows v (k # zs))" by force
      then show ?thesis using Cons.prems by simp
    next
      case False
      then show ?thesis using same [OF _ x, of j] Cons.prems(1) by auto
    qed
    then have "page_rows k x' 0 = page_rows k x 0" by (intro page_rows_cong) simp
    then show ?case using Cons x by (auto simp: image_Un)
  qed simp
  from this [of ys] have t: "table_rows v' ys = table_rows v ys" using a(1,6) rid by auto
  have p: "page_rows q m' ?i = page_rows q m ?i" by (rule page_rows_cong) (rule keep)
  have "sp_view m' ?i = Some bs" using keep [of ?i] a(4) by simp
  then have "ps = xs @ q # ys \<and> v' q = Some m' \<and> page_id (current_id it) = q \<and> sp_view m' ?i = Some bs \<and>
      current_tuple it = tuple_of bs \<and> rs = page_rows q m' ?i @ table_rows v' ys"
    using a m' t p by simp
  then show ?thesis using a(7) unfolding iter_at_def by blast
qed

text \<open>A scan survives the deletion of a row that it has passed.\<close>

lemma delete_keeps_scan:
  assumes S: "scanning h hs ps v b" and at: "iter_at v ps it rs" and H: "heap_ok b h ps"
    and row: "heap_rows b h ps rid = Some bs" and rid: "rid \<notin> fst ` set rs"
  obtains b' h' where "mark_delete rid (b, h) = ((b', h'), ok True)" and "scanning h' hs ps (heap_page b' h') b'"
    and "iter_at (heap_page b' h') ps it rs" and "heap_ok b' h' ps" and "heap_rows b' h' ps = (heap_rows b h ps)(rid := None)"
proof -
  from S have inv: "client_inv (heap_file_id h) b hs" and sp: "spare b hs" by (simp_all add: scanning_def)
  have v: "heap_page b h k = v k" if "k \<in> set ps" for k using S that by (simp add: scanning_def)
  show thesis
  proof (rule mark_delete_ok [OF inv H row])
    assume "all_pinned b"
    then show thesis using spare_not_full [OF _ sp] inv by (simp add: client_inv_def)
  next
    fix b' h' assume d: "mark_delete rid (b, h) = ((b', h'), ok True)" "heap_file_id h' = heap_file_id h"
      "client_inv (heap_file_id h) b' hs" "heap_ok b' h' ps" "heap_rows b' h' ps = (heap_rows b h ps)(rid := None)"
      "pool_size b' = pool_size b"
    show thesis
    proof (rule that [OF d(1) _ _ d(4,5)])
      show "scanning h' hs ps (heap_page b' h') b'"
        using d sp by (auto simp: scanning_def spare_def heap_ok_def)
      show "iter_at (heap_page b' h') ps it rs"
      proof (rule iter_at_passed [OF at _ _ rid])
        have "heap_page b h q \<noteq> None \<and> heap_page b' h' q \<noteq> None" if "q \<in> set ps" for q
          using heap_ok_page [OF H that] heap_ok_page [OF d(4) that] by (metis option.distinct(1))
        then show "\<forall>q\<in>set ps. v q \<noteq> None \<and> heap_page b' h' q \<noteq> None" using v by metis
        fix q m m' j assume q: "q \<in> set ps" "v q = Some m" "heap_page b' h' q = Some m'"
        show "sp_view m' j = (if j = unat (slot_num rid) \<and> q = page_id rid then None else sp_view m j)"
        proof (cases "j < 2 ^ 32")
          case True
          let ?r = "\<lparr>page_id = q, slot_num = word_of_nat j\<rparr> :: RecordId"
          have j: "unat (word_of_nat j :: u32) = j" using True by (simp add: unat_of_nat)
          have "heap_rows b' h' ps ?r = sp_view m' j" "heap_rows b h ps ?r = sp_view m j"
            using q v [OF q(1)] j by (simp_all add: heap_rows_def)
          moreover have "?r = rid \<longleftrightarrow> j = unat (slot_num rid) \<and> q = page_id rid" using j by (cases rid) auto
          ultimately show ?thesis using d(5) by (metis fun_upd_apply)
        next
          case False
          have "nslots x < 2 ^ 32" for x using unsigned_less [of "slot_count x"] by simp
          then have "\<not> j < nslots x" for x using False by (meson less_trans)
          then show ?thesis by (simp add: sp_view_def)
        qed
      qed
    qed
  qed
qed

end
