(* ===== verification/Executor_Contract.thy ===== *)
theory Executor_Contract
  imports Executor Scan_Rows
begin

section \<open>The contract of an executor\<close>

text \<open>
  What a parent relies on when it pulls batches from a child: the batches, one after the other, are the rows
  that are left, and false is returned exactly when none is. \<open>yields s rows\<close> says that the executor in state
  s has \<open>rows\<close> left. The leaves (Values, SeqScan, and Sort after its \<open>init\<close>) fill their batches; Filter and
  Projection keep the contract of their child, over the filtered and the projected rows.
\<close>

declare split_paired_All [simp del] split_paired_Ex [simp del]

subsection \<open>Loops over batches\<close>

lemma run_bind_simps [simp]:
  "m s = Some (s', Inr x) \<Longrightarrow> run_bind m f s = f x s'"
  "m s = Some (s', Inl e) \<Longrightarrow> run_bind m f s = Some (s', Inl e)"
  "m s = None \<Longrightarrow> run_bind m f s = None"
  by (simp_all add: run_bind_def)

text \<open>The rule for \<open>while_batches\<close>: R relates the state of the loop to the rows that are left.\<close>

lemma while_batches_rule:
  assumes step: "\<And>z rows. R z rows \<Longrightarrow> \<exists>z1 batch rest. pull z = Some (z1, ok (batch, batch \<noteq> [])) \<and>
      rows = batch @ rest \<and> (rows \<noteq> [] \<longrightarrow> batch \<noteq> []) \<and>
      (batch = [] \<longrightarrow> Q z1) \<and> (batch \<noteq> [] \<longrightarrow> (\<exists>z2. body batch z1 = Some (z2, ok ()) \<and> R z2 rest))"
    and "R z rows"
  shows "\<exists>z'. while_batches pull body z = Some (z', ok ()) \<and> Q z'"
  using assms(2)
proof (induction "length rows" arbitrary: z rows rule: less_induct)
  case less
  from step [OF less.prems] obtain z1 batch rest where s: "pull z = Some (z1, ok (batch, batch \<noteq> []))"
    "rows = batch @ rest" "rows \<noteq> [] \<longrightarrow> batch \<noteq> []"
    "batch = [] \<Longrightarrow> Q z1" "batch \<noteq> [] \<Longrightarrow> \<exists>z2. body batch z1 = Some (z2, ok ()) \<and> R z2 rest" by blast
  show ?case
  proof (cases "batch = []")
    case True
    then have "pull z = Some (z1, ok ([], False))" "Q z1" using s(1,4) by simp_all
    then show ?thesis by (simp add: while_batches.simps [of pull body z])
  next
    case False
    then obtain z2 where z2: "body batch z1 = Some (z2, ok ())" "R z2 rest" using s(5) by blast
    have "length rest < length rows" using s(2) False by simp
    from less.hyps [OF this z2(2)] obtain z' where "while_batches pull body z2 = Some (z', ok ())" "Q z'" by blast
    moreover have "pull z = Some (z1, ok (batch, True))" using s(1) False by simp
    ultimately show ?thesis using z2(1) by (simp add: while_batches.simps [of pull body z])
  qed
qed

text \<open>Reading all rows of an executor, the loop of a query's consumer.\<close>

definition drain :: "'s exec_next \<Rightarrow> nat \<Rightarrow> Catalog \<times> 's \<Rightarrow> (((Catalog \<times> 's) \<times> row list) \<times> unit res) option" where
  "drain next_rows n s = while_batches (with_local (next_rows n)) collect_rows (s, [])"

subsection \<open>The contract\<close>

locale executor =
  fixes next_rows :: "'s exec_next" and yields :: "Catalog \<times> 's \<Rightarrow> row list \<Rightarrow> bool"
  assumes next_law: "yields s rows \<Longrightarrow> 0 < n \<Longrightarrow> \<exists>s' batch rest. next_rows n s = Some (s', ok (batch, batch \<noteq> [])) \<and>
      rows = batch @ rest \<and> yields s' rest \<and> (rows \<noteq> [] \<longrightarrow> batch \<noteq> [])"
    and stored: "yields s rows \<Longrightarrow> r \<in> set rows \<Longrightarrow> allocated (fst r)"

locale full_executor = executor +
  assumes full: "yields s rows \<Longrightarrow> next_rows n s = Some (s', ok (batch, status)) \<Longrightarrow> length batch = min n (length rows)"

context executor
begin

lemma drain_all:
  assumes "yields s rows" and "0 < n"
  shows "\<exists>s'. drain next_rows n s = Some ((s', rows), ok ()) \<and> yields s' []"
proof -
  let ?R = "\<lambda>z left. yields (fst z) left \<and> snd z @ left = rows" and ?Q = "\<lambda>z. snd z = rows \<and> yields (fst z) []"
  have "\<exists>z. while_batches (with_local (next_rows n)) collect_rows (s, []) = Some (z, ok ()) \<and> ?Q z"
  proof (rule while_batches_rule [where R = ?R and rows = rows])
    show "?R (s, []) rows" using assms(1) by simp
    fix z left assume R: "?R z left"
    then obtain s' batch rest where x: "next_rows n (fst z) = Some (s', ok (batch, batch \<noteq> []))" "left = batch @ rest"
      "yields s' rest" "left \<noteq> [] \<longrightarrow> batch \<noteq> []" using next_law [of "fst z" left n] assms(2) by blast
    show "\<exists>z1 batch rest. with_local (next_rows n) z = Some (z1, ok (batch, batch \<noteq> [])) \<and> left = batch @ rest \<and>
        (left \<noteq> [] \<longrightarrow> batch \<noteq> []) \<and> (batch = [] \<longrightarrow> ?Q z1) \<and>
        (batch \<noteq> [] \<longrightarrow> (\<exists>z2. collect_rows batch z1 = Some (z2, ok ()) \<and> ?R z2 rest))"
    proof (rule exI [of _ "(s', snd z)"], rule exI [of _ batch], rule exI [of _ rest], intro conjI impI)
      show "with_local (next_rows n) z = Some ((s', snd z), ok (batch, batch \<noteq> []))" using x(1) by (simp add: with_local_def)
      show "\<exists>z2. collect_rows batch (s', snd z) = Some (z2, ok ()) \<and> ?R z2 rest"
        using R x(2,3) by (intro exI [of _ "(s', snd z @ batch)"] conjI) (simp_all add: collect_rows_def)
      show "left = batch @ rest" by (rule x(2))
      show "batch \<noteq> []" if "left \<noteq> []" using that x(4) by blast
      assume "batch = []"
      then have "left = []" using x(4) by blast
      moreover from this have "rest = []" using x(2) by simp
      ultimately
      show "snd (s', snd z) = rows" "yields (fst (s', snd z)) []" using R x(3) by simp_all
    qed
  qed
  then show ?thesis by (auto simp: drain_def)
qed

text \<open>Any loop over the rows whose body leaves the executor alone.\<close>

lemma drain_fold:
  assumes "yields s rows" and "0 < n" and body: "\<And>r z l. r \<in> set rows \<Longrightarrow> step r (z, l) = Some ((z, f r l), ok ())"
  shows "\<exists>s'. while_batches (with_local (next_rows n)) (each step) (s, l) = Some ((s', fold f rows l), ok ()) \<and> yields s' []"
proof -
  let ?R = "\<lambda>z left. yields (fst z) left \<and> set left \<subseteq> set rows \<and> fold f left (snd z) = fold f rows l"
  let ?Q = "\<lambda>z. snd z = fold f rows l \<and> yields (fst z) []"
  have steps: "each step batch (z, l) = Some ((z, fold f batch l), ok ())" if "set batch \<subseteq> set rows" for batch z l
    using that by (induction batch arbitrary: l) (auto simp: body)
  have "\<exists>z. while_batches (with_local (next_rows n)) (each step) (s, l) = Some (z, ok ()) \<and> ?Q z"
  proof (rule while_batches_rule [where R = ?R and rows = rows])
    show "?R (s, l) rows" using assms(1) by simp
    fix z left assume R: "?R z left"
    then obtain s' batch rest where x: "next_rows n (fst z) = Some (s', ok (batch, batch \<noteq> []))" "left = batch @ rest"
      "yields s' rest" "left \<noteq> [] \<longrightarrow> batch \<noteq> []" using next_law [of "fst z" left n] assms(2) by blast
    have sub: "set batch \<subseteq> set rows" using R x(2) by simp
    show "\<exists>z1 batch rest. with_local (next_rows n) z = Some (z1, ok (batch, batch \<noteq> [])) \<and> left = batch @ rest \<and>
        (left \<noteq> [] \<longrightarrow> batch \<noteq> []) \<and> (batch = [] \<longrightarrow> ?Q z1) \<and>
        (batch \<noteq> [] \<longrightarrow> (\<exists>z2. each step batch z1 = Some (z2, ok ()) \<and> ?R z2 rest))"
    proof (rule exI [of _ "(s', snd z)"], rule exI [of _ batch], rule exI [of _ rest], intro conjI impI)
      show "with_local (next_rows n) z = Some ((s', snd z), ok (batch, batch \<noteq> []))" using x(1) by (simp add: with_local_def)
      show "\<exists>z2. each step batch (s', snd z) = Some (z2, ok ()) \<and> ?R z2 rest"
        using R x(2,3) by (intro exI [of _ "(s', fold f batch (snd z))"] conjI) (simp_all add: steps [OF sub])
      show "left = batch @ rest" by (rule x(2))
      show "batch \<noteq> []" if "left \<noteq> []" using that x(4) by blast
      assume "batch = []"
      then have "left = []" using x(4) by blast
      moreover from this have "rest = []" using x(2) by simp
      ultimately show "snd (s', snd z) = fold f rows l" "yields (fst (s', snd z)) []" using R x(3) by simp_all
    qed
  qed
  then show ?thesis by auto
qed

end

subsection \<open>Values\<close>

definition values_rows :: "ValuesPlanNode \<Rightarrow> Expression list list \<Rightarrow> row list res" where
  "values_rows plan = res_map (\<lambda>es. res_bind (values_row plan es) (\<lambda>t. ok (t, default_RecordId)))"

definition values_yields :: "ValuesPlanNode \<Rightarrow> Catalog \<times> ValuesExecutor \<Rightarrow> row list \<Rightarrow> bool" where
  "values_yields plan s rows \<longleftrightarrow> values_rows plan (drop (snd s) (vp_values plan)) = ok rows"

lemma values_loop_ok:
  assumes "values_rows plan (drop i (vp_values plan)) = ok rows"
  shows "\<exists>j. values_loop plan n i = (j, ok (take n rows)) \<and> values_rows plan (drop j (vp_values plan)) = ok (drop n rows)"
  using assms
proof (induction n arbitrary: i rows)
  case (Suc n)
  show ?case
  proof (cases "i < length (vp_values plan)")
    case True
    then have "drop i (vp_values plan) = vp_values plan ! i # drop (Suc i) (vp_values plan)" by (simp add: Cons_nth_drop_Suc)
    with Suc.prems obtain t rs where t: "values_row plan (vp_values plan ! i) = ok t" "rows = (t, default_RecordId) # rs"
      "values_rows plan (drop (i + 1) (vp_values plan)) = ok rs" by (auto simp: values_rows_def res_bind_eq_Inr)
    from Suc.IH [OF t(3)] show ?thesis using True t(1,2) by auto
  qed (use Suc.prems in \<open>simp add: values_rows_def\<close>)
qed simp

lemma new_Tuple_allocated: "new_Tuple schema vs = ok t \<Longrightarrow> allocated t"
  by (auto simp: new_Tuple_def res_bind_eq_Inr Let_def)

lemma res_map_elem: "res_map f xs = ok ys \<Longrightarrow> y \<in> set ys \<Longrightarrow> \<exists>x \<in> set xs. f x = ok y"
  by (induction xs arbitrary: ys) (auto simp: res_bind_eq_Inr)

interpretation table_values: full_executor "values_next plan" "values_yields plan"
proof unfold_locales
  fix s rows and n :: nat assume y: "values_yields plan s rows" and n: "0 < n"
  with values_loop_ok [of plan "snd s" rows n] obtain j where "values_loop plan n (snd s) = (j, ok (take n rows))"
    "values_rows plan (drop j (vp_values plan)) = ok (drop n rows)" by (auto simp: values_yields_def)
  then show "\<exists>s' batch rest. values_next plan n s = Some (s', ok (batch, batch \<noteq> [])) \<and> rows = batch @ rest \<and>
      values_yields plan s' rest \<and> (rows \<noteq> [] \<longrightarrow> batch \<noteq> [])"
    using n by (intro exI [of _ "(fst s, j)"] exI [of _ "take n rows"] exI [of _ "drop n rows"])
      (simp add: values_next_def values_yields_def)
next
  fix s :: "Catalog \<times> ValuesExecutor" and rows and r :: row assume "values_yields plan s rows" and "r \<in> set rows"
  then show "allocated (fst r)"
    by (auto simp: values_yields_def values_rows_def values_row_def res_bind_eq_Inr dest!: res_map_elem new_Tuple_allocated)
next
  fix s rows n s' batch status
  assume "values_yields plan s rows" and "values_next plan n s = Some (s', ok (batch, status))"
  then show "length batch = min n (length rows)"
    using values_loop_ok [of plan "snd s" rows n] by (auto simp: values_yields_def values_next_def)
qed

subsection \<open>Sequential scans\<close>

definition heap_row :: "RecordId \<times> u8 list \<Rightarrow> row" where
  "heap_row r = (tuple_of (snd r), fst r)"

definition scan_yields :: "TableOid \<Rightarrow> TableInfo \<Rightarrow> handles \<Rightarrow> PageId list \<Rightarrow> (PageId \<Rightarrow> pagebuf option) \<Rightarrow>
    Catalog \<times> SeqScanExecutor \<Rightarrow> row list \<Rightarrow> bool" where
  "scan_yields oid info hs ps v s rows \<longleftrightarrow> ss_table (snd s) = oid \<and> get_table oid (fst s) = Some info \<and>
     scanning (ti_table info) hs ps v (bpm (fst s)) \<and> (\<exists>rs. iter_at v ps (ss_iter (snd s)) rs \<and> rows = map heap_row rs)"

lemma seq_scan_loop_ok:
  assumes "scanning h hs ps v b" and "iter_at v ps it rs"
  shows "\<exists>b' it'. seq_scan_loop (heap_file_id h) n (b, it) = Some ((b', it'), ok (map heap_row (take n rs))) \<and>
    scanning h hs ps v b' \<and> iter_at v ps it' (drop n rs)"
  using assms
proof (induction n arbitrary: b it rs)
  case (Suc n)
  note e = at_end [OF Suc.prems]
  show ?case
  proof (cases rs)
    case Nil
    then show ?thesis using e Suc.prems by simp
  next
    case (Cons r rs')
    from next_ok [OF Suc.prems(1), of it r rs'] Suc.prems(2) Cons obtain b' it' where
      n: "(current_id it, current_tuple it) = (fst r, tuple_of (snd r))" "page_id (current_id it) \<noteq> INVALID_PAGE_ID"
        "iterator_next (heap_file_id h) (b, it) = Some ((b', it'), ok ())" "scanning h hs ps v b'" "iter_at v ps it' rs'" by blast
    from Suc.IH [OF n(4,5)] show ?thesis using n(1-3) Cons
      by (auto simp: heap_row_def Tuple_copy_def tuple_of_def)
  qed
qed auto

lemma get_table_bpm [simp]: "get_table oid (c\<lparr>bpm := b\<rparr>) = get_table oid c"
  by (simp add: get_table_def)

interpretation table_scan: full_executor seq_scan_next "scan_yields oid info hs ps v"
proof unfold_locales
  have nxt: "\<exists>s'. seq_scan_next n s = Some (s', ok (take n rows, take n rows \<noteq> [])) \<and> scan_yields oid info hs ps v s' (drop n rows)"
    if y: "scan_yields oid info hs ps v s rows" for s rows n
  proof -
    from y obtain rs where i: "get_table (ss_table (snd s)) (fst s) = Some info"
      "scanning (ti_table info) hs ps v (bpm (fst s))" "iter_at v ps (ss_iter (snd s)) rs" "rows = map heap_row rs" "ss_table (snd s) = oid"
      by (auto simp: scan_yields_def)
    from seq_scan_loop_ok [OF i(2,3), of n] obtain b it where l:
      "seq_scan_loop (heap_file_id (ti_table info)) n (bpm (fst s), ss_iter (snd s)) = Some ((b, it), ok (map heap_row (take n rs)))"
      "scanning (ti_table info) hs ps v b" "iter_at v ps it (drop n rs)" by blast
    show ?thesis
      using i(1,4,5) l by (intro exI [of _ "((fst s)\<lparr>bpm := b\<rparr>, (snd s)\<lparr>ss_iter := it\<rparr>)"])
        (auto simp: seq_scan_next_def scan_yields_def take_map drop_map)
  qed
  fix s :: "Catalog \<times> SeqScanExecutor" and rows and n :: nat assume y: "scan_yields oid info hs ps v s rows"
  show "\<exists>s' batch rest. seq_scan_next n s = Some (s', ok (batch, batch \<noteq> [])) \<and> rows = batch @ rest \<and>
      scan_yields oid info hs ps v s' rest \<and> (rows \<noteq> [] \<longrightarrow> batch \<noteq> [])" if "0 < n"
    using nxt [OF y, of n] that append_take_drop_id [of n rows] by (metis gr_implies_not0 take_eq_Nil)
  show "allocated (fst r)" if "r \<in> set rows" for r
    using y that by (auto simp: scan_yields_def heap_row_def tuple_of_def)
  show "length batch = min n (length rows)" if "seq_scan_next n s = Some (s', ok (batch, status))" for s' batch status
    using nxt [OF y, of n] that by auto
qed

subsection \<open>Filter\<close>

definition filter_left :: "'s FilterExecutor \<Rightarrow> row list" where
  "filter_left x = (if f_child_offset x = 0 then [] else drop (f_child_offset x) (f_child_rows x))"

definition filter_yields :: "(Catalog \<times> 's \<Rightarrow> row list \<Rightarrow> bool) \<Rightarrow> (Tuple \<Rightarrow> bool res) \<Rightarrow> Catalog \<times> 's FilterExecutor \<Rightarrow> row list \<Rightarrow> bool" where
  "filter_yields yields p s out \<longleftrightarrow> (\<forall>r \<in> set (filter_left (snd s)). allocated (fst r)) \<and>
     (\<exists>rows. yields (fst s, f_child (snd s)) rows \<and> filter_rest p (filter_left (snd s) @ rows) = ok out)"

lemma filter_rest_append:
  "filter_rest p (xs @ ys) = res_bind (filter_rest p xs) (\<lambda>a. res_bind (filter_rest p ys) (\<lambda>b. ok (a @ b)))"
  by (induction p xs rule: filter_rest.induct) (auto simp: res_bind_def split: sum.splits)

lemma filter_rest_stored:
  "filter_rest p rows = ok out \<Longrightarrow> \<forall>r \<in> set rows. allocated (fst r) \<Longrightarrow> r \<in> set out \<Longrightarrow> allocated (fst r)"
  by (induction p rows arbitrary: out rule: filter_rest.induct) (auto simp: res_bind_eq_Inr Tuple_copy_def split: if_splits)

text \<open>One batch: pre are the rows of the batch that the loop has dealt with, r tells where it stopped.\<close>

lemma filter_batch_ok:
  assumes "filter_rest p rows = ok new" and "rows = drop i batch"
  shows "\<exists>a pre r. filter_batch p n i rows out = ok (out @ a, r) \<and> filter_rest p pre = ok a \<and> (r \<noteq> None \<longrightarrow> a \<noteq> []) \<and>
    rows = pre @ (case r of None \<Rightarrow> [] | Some j \<Rightarrow> if j = 0 then [] else drop j batch)"
  using assms
proof (induction p n i rows out arbitrary: new rule: filter_batch.induct)
  case (1 p n i out)
  show ?case by (intro exI [of _ "[]"] exI [of _ None]) simp
next
  case (2 p n i t rid rows out)
  from "2.prems"(1) obtain b out1 where o: "p t = ok b" "filter_rest p rows = ok out1" by (auto simp: res_bind_eq_Inr)
  have d: "rows = drop (i + 1) batch" using "2.prems"(2) by (metis drop_Suc list.sel(3) Suc_eq_plus1 tl_drop)
  show ?case
  proof (cases b)
    case False
    from "2.IH"(2) [OF False o(2) d] obtain a pre r where "filter_batch p n (i + 1) rows out = ok (out @ a, r)"
      "filter_rest p pre = ok a" "r \<noteq> None \<longrightarrow> a \<noteq> []" "rows = pre @ (case r of None \<Rightarrow> [] | Some j \<Rightarrow> if j = 0 then [] else drop j batch)"
      by blast
    then show ?thesis using o(1) False by (intro exI [of _ a] exI [of _ "(t, rid) # pre"] exI [of _ r]) simp
  next
    case True
    let ?r = "(Tuple_copy t, rid)"
    show ?thesis
    proof (cases "n \<le> length (out @ [?r])")
      case full: True
      have "(t, rid) # rows = [(t, rid)] @ (case Some (if rows \<noteq> [] then i + 1 else 0) of None \<Rightarrow> [] | Some j \<Rightarrow> if j = 0 then [] else drop j batch)"
        using d by simp
      moreover have "filter_batch p n i ((t, rid) # rows) out = ok (out @ [?r], Some (if rows \<noteq> [] then i + 1 else 0))"
        using full o(1) True by simp
      moreover have "filter_rest p [(t, rid)] = ok [?r]" using o(1) True by simp
      ultimately show ?thesis by blast
    next
      case short: False
      from "2.IH"(1) [OF True HOL.refl short o(2) d] obtain a pre r where i: "filter_batch p n (i + 1) rows (out @ [?r]) = ok ((out @ [?r]) @ a, r)"
        "filter_rest p pre = ok a" "r \<noteq> None \<longrightarrow> a \<noteq> []" "rows = pre @ (case r of None \<Rightarrow> [] | Some j \<Rightarrow> if j = 0 then [] else drop j batch)"
        by blast
      have "filter_batch p n i ((t, rid) # rows) out = ok (out @ ?r # a, r)" using short o(1) True i(1) by simp
      then show ?thesis using i(2-4) o(1) True by (intro exI [of _ "?r # a"] exI [of _ "(t, rid) # pre"] exI [of _ r]) simp
    qed
  qed
qed

context executor
begin

text \<open>One call: pre are the rows, of the waiting batch and of the child, that it has dealt with.\<close>

lemma filter_loop_ok:
  assumes "yields (c, f_child x) rows" and "filter_rest p (filter_left x @ rows) = ok new" and "0 < n"
  shows "\<exists>s' pre rows' a. filter_loop next_rows p n out (c, x) = Some (s', ok (out @ a, out @ a \<noteq> [])) \<and>
    filter_left x @ rows = pre @ filter_left (snd s') @ rows' \<and> filter_rest p pre = ok a \<and>
    yields (fst s', f_child (snd s')) rows' \<and> (out @ new \<noteq> [] \<longrightarrow> out @ a \<noteq> [])"
  using assms(1,2)
proof (induction "length rows" arbitrary: c x rows new out rule: less_induct)
  case less
  from less.prems(2) obtain a b where ab: "filter_rest p (filter_left x) = ok a" "filter_rest p rows = ok b" "new = a @ b"
    by (auto simp: filter_rest_append res_bind_eq_Inr)
  from next_law [OF less.prems(1) assms(3)] obtain s' batch rest where nx:
    "next_rows n (c, f_child x) = Some (s', ok (batch, batch \<noteq> []))" "rows = batch @ rest" "yields s' rest" "rows \<noteq> [] \<longrightarrow> batch \<noteq> []"
    by blast
  obtain c2 y where s': "s' = (c2, y)" by (cases s')
  let ?x2 = "x\<lparr>f_child_offset := 0, f_child := y, f_child_rows := batch\<rparr>"
  have a: "(if f_child_offset x \<noteq> 0 then filter_rest p (drop (f_child_offset x) (f_child_rows x)) else ok []) = ok a"
    using ab(1) by (simp add: filter_left_def split: if_splits)
  have left2: "filter_left ?x2 = []" by (simp add: filter_left_def)
  show ?case
  proof (cases "batch = []")
    case True
    then have "rows = []" using nx(4) by blast
    then have "b = []" "rest = []" using ab(2) nx(2) by simp_all
    moreover have "filter_loop next_rows p n out (c, x) = Some ((c2, ?x2), ok (out @ a, out @ a \<noteq> []))"
      using nx(1) True s' a by (subst filter_loop.simps) (simp add: Let_def)
    ultimately show ?thesis using left2 nx(3) s' \<open>rows = []\<close> ab
      by (intro exI [of _ "(c2, ?x2)"] exI [of _ "filter_left x"] exI [of _ "[]"] exI [of _ a]) simp
  next
    case False
    from ab(2) nx(2) obtain b1 b2 where b: "filter_rest p batch = ok b1" "filter_rest p rest = ok b2" "b = b1 @ b2"
      by (auto simp: filter_rest_append res_bind_eq_Inr)
    have step: "filter_loop next_rows p n out (c, x) = (case filter_batch p n 0 batch (out @ a) of
        Inl e \<Rightarrow> Some ((c2, ?x2), Inl e)
      | Inr (out2, Some i) \<Rightarrow> Some ((c2, ?x2\<lparr>f_child_offset := i\<rparr>), ok (out2, True))
      | Inr (out2, None) \<Rightarrow> filter_loop next_rows p n out2 (c2, ?x2))"
      using nx(1) False s' a by (subst filter_loop.simps) (simp add: Let_def)
    from filter_batch_ok [OF b(1), of 0 batch n "out @ a", simplified drop_0, OF HOL.refl] obtain q pre r where
      f: "filter_batch p n 0 batch (out @ a) = ok ((out @ a) @ q, r)" "filter_rest p pre = ok q" "r \<noteq> None \<longrightarrow> q \<noteq> []"
        "batch = pre @ (case r of None \<Rightarrow> [] | Some j \<Rightarrow> if j = 0 then [] else drop j batch)" by blast
    show ?thesis
    proof (cases r)
      case None
      then have pre: "batch = pre" "b1 = q" using f(2,4) b(1) by simp_all
      have "length rest < length rows" using nx(2) False by simp
      moreover have "yields (c2, f_child ?x2) rest" using nx(3) s' by simp
      moreover have "filter_rest p (filter_left ?x2 @ rest) = ok b2" using left2 b(2) by simp
      ultimately obtain s3 pre3 rows3 a3 where
        i: "filter_loop next_rows p n ((out @ a) @ q) (c2, ?x2) = Some (s3, ok (((out @ a) @ q) @ a3, ((out @ a) @ q) @ a3 \<noteq> []))"
          "rest = pre3 @ filter_left (snd s3) @ rows3" "filter_rest p pre3 = ok a3" "yields (fst s3, f_child (snd s3)) rows3"
          "((out @ a) @ q) @ b2 \<noteq> [] \<longrightarrow> ((out @ a) @ q) @ a3 \<noteq> []"
        using less.hyps [of rest c2 ?x2 b2 "(out @ a) @ q"] unfolding left2 append_Nil by blast
      have "filter_rest p (filter_left x @ pre @ pre3) = ok (a @ q @ a3)" using ab(1) f(2) i(3) by (simp add: filter_rest_append)
      then show ?thesis using i nx(2) pre b(3) ab(3) f(1) None unfolding step
        by (intro exI [of _ s3] exI [of _ "filter_left x @ pre @ pre3"] exI [of _ rows3] exI [of _ "a @ q @ a3"]) simp
    next
      case (Some j)
      let ?x3 = "?x2\<lparr>f_child_offset := j\<rparr>"
      have left3: "filter_left ?x3 = (if j = 0 then [] else drop j batch)" by (simp add: filter_left_def)
      have "filter_left x @ rows = (filter_left x @ pre) @ filter_left ?x3 @ rest"
        unfolding left3 nx(2) using f(4) Some by simp
      moreover have "filter_rest p (filter_left x @ pre) = ok (a @ q)" using ab(1) f(2) by (simp add: filter_rest_append)
      moreover have "filter_loop next_rows p n out (c, x) = Some ((c2, ?x3), ok (out @ a @ q, out @ a @ q \<noteq> []))"
        unfolding step f(1) Some using f(3) Some by simp
      ultimately show ?thesis using nx(3) s' f(3) Some
        by (intro exI [of _ "(c2, ?x3)"] exI [of _ "filter_left x @ pre"] exI [of _ rest] exI [of _ "a @ q"]) simp
    qed
  qed
qed

lemma filter_executor:
  "executor (filter_next predicate schema next_rows) (filter_yields yields (passes predicate schema))"
proof unfold_locales
  fix s out and n :: nat assume y: "filter_yields yields (passes predicate schema) s out"
  then obtain rows where r: "yields (fst s, f_child (snd s)) rows" "filter_rest (passes predicate schema) (filter_left (snd s) @ rows) = ok out"
    "\<forall>r \<in> set (filter_left (snd s)). allocated (fst r)" by (auto simp: filter_yields_def)
  show "\<exists>s' batch rest. filter_next predicate schema next_rows n s = Some (s', ok (batch, batch \<noteq> [])) \<and> out = batch @ rest \<and>
      filter_yields yields (passes predicate schema) s' rest \<and> (out \<noteq> [] \<longrightarrow> batch \<noteq> [])" if n: "0 < n"
  proof -
    from filter_loop_ok [OF r(1,2) n, of "[]"] obtain s' pre rows' a where l:
      "filter_loop next_rows (passes predicate schema) n [] s = Some (s', ok (a, a \<noteq> []))"
      "filter_left (snd s) @ rows = pre @ filter_left (snd s') @ rows'" "filter_rest (passes predicate schema) pre = ok a"
      "yields (fst s', f_child (snd s')) rows'" "out \<noteq> [] \<longrightarrow> a \<noteq> []" unfolding append_Nil prod.collapse by blast
    from r(2) l(3) obtain rest where rest: "filter_rest (passes predicate schema) (filter_left (snd s') @ rows') = ok rest" "out = a @ rest"
      unfolding l(2) filter_rest_append [of _ pre] by (auto simp: res_bind_eq_Inr)
    have "\<forall>q \<in> set (filter_left (snd s) @ rows). allocated (fst q)" using r(3) stored [OF r(1)] by auto
    then have "\<forall>q \<in> set (filter_left (snd s')). allocated (fst q)" unfolding l(2) by simp
    then have "filter_yields yields (passes predicate schema) s' rest" using l(4) rest(1) by (auto simp: filter_yields_def)
    moreover have "filter_next predicate schema next_rows n s = Some (s', ok (a, a \<noteq> []))" by (simp add: filter_next_def l(1))
    ultimately show ?thesis using l(5) rest(2) by blast
  qed
  show "allocated (fst r)" if "r \<in> set out" for r
    by (rule filter_rest_stored [OF r(2) _ that]) (use r(3) stored [OF r(1)] in \<open>auto simp: ball_Un simp del: split_paired_All\<close>)
qed

end

subsection \<open>Projection\<close>

definition project_left :: "'s ProjectionExecutor \<Rightarrow> row list" where
  "project_left x = (if pr_child_offset x = 0 then [] else drop (pr_child_offset x) (pr_child_rows x))"

definition project_yields :: "(Catalog \<times> 's \<Rightarrow> row list \<Rightarrow> bool) \<Rightarrow> (Tuple \<Rightarrow> Tuple res) \<Rightarrow> Catalog \<times> 's ProjectionExecutor \<Rightarrow> row list \<Rightarrow> bool" where
  "project_yields yields f s out \<longleftrightarrow> (\<exists>rows. yields (fst s, pr_child (snd s)) rows \<and>
     project_rows f (project_left (snd s) @ rows) = ok out)"

lemma project_rows_simps [simp]:
  "project_rows f [] = ok []"
  "project_rows f (r # rows) = res_bind (f (fst r)) (\<lambda>t. res_bind (project_rows f rows) (\<lambda>out. ok ((t, snd r) # out)))"
  by (auto simp: project_rows_def res_bind_def split: prod.splits sum.splits)

lemma project_rows_append:
  "project_rows f (xs @ ys) = res_bind (project_rows f xs) (\<lambda>a. res_bind (project_rows f ys) (\<lambda>b. ok (a @ b)))"
  by (induction xs) (auto simp: res_bind_def split: sum.splits)

lemma project_batch_ok:
  assumes "project_rows f rows = ok new" and "rows = drop i batch"
  shows "(project_batch f n i rows out = ok (out @ new, None)) \<or>
    (\<exists>a b j. project_batch f n i rows out = ok (out @ a, Some j) \<and> new = a @ b \<and> a \<noteq> [] \<and>
      project_rows f (if j = 0 then [] else drop j batch) = ok b)"
  using assms
proof (induction f n i rows out arbitrary: new rule: project_batch.induct)
  case (2 f n i t rid rows out)
  from "2.prems"(1) obtain t' out1 where o: "f t = ok t'" "project_rows f rows = ok out1" "new = (t', rid) # out1"
    by (auto simp: res_bind_eq_Inr)
  have d: "rows = drop (i + 1) batch" using "2.prems"(2) by (metis drop_Suc list.sel(3) Suc_eq_plus1 tl_drop)
  let ?out = "out @ [(t', rid)]"
  show ?case
  proof (cases "n \<le> length ?out")
    case full: True
    have "project_rows f (if (if rows \<noteq> [] then i + 1 else 0) = 0 then [] else drop (if rows \<noteq> [] then i + 1 else 0) batch) = ok out1"
      using o(2) d by auto
    moreover have "project_batch f n i ((t, rid) # rows) out = ok (out @ [(t', rid)], Some (if rows \<noteq> [] then i + 1 else 0))"
      using full o(1) by simp
    moreover have "new = [(t', rid)] @ out1" using o(3) by simp
    ultimately show ?thesis by blast
  next
    case short: False
    have u: "project_batch f n i ((t, rid) # rows) out = project_batch f n (i + 1) rows ?out" using short o(1) by simp
    from "2.IH" [OF HOL.refl short o(2) d] show ?thesis
    proof
      assume "\<exists>a b j. project_batch f n (i + 1) rows ?out = ok (?out @ a, Some j) \<and> out1 = a @ b \<and> a \<noteq> [] \<and>
        project_rows f (if j = 0 then [] else drop j batch) = ok b"
      then obtain a b j where "project_batch f n (i + 1) rows ?out = ok (?out @ a, Some j)" "out1 = a @ b"
        "project_rows f (if j = 0 then [] else drop j batch) = ok b" by blast
      then show ?thesis unfolding u o(3)
        by (intro disjI2 exI [of _ "(t', rid) # a"] exI [of _ b] exI [of _ j]) simp
    qed (simp only: u o(3) append.simps append_assoc, blast)
  qed
qed simp

context executor
begin

lemma projection_executor:
  "executor (projection_next plan schema next_rows) (project_yields yields (project_row plan schema))"
proof unfold_locales
  fix s out and n :: nat
  let ?f = "project_row plan schema"
  assume y: "project_yields yields ?f s out"
  obtain c0 x0 where s: "s = (c0, x0)" by (cases s)
  let ?x = x0
  from y obtain rows where r: "yields (c0, pr_child ?x) rows" "project_rows ?f (project_left ?x @ rows) = ok out"
    by (auto simp: project_yields_def s)
  show "allocated (fst r)" if "r \<in> set out" for r
    using res_map_elem [OF r(2) [unfolded project_rows_def] that]
    by (auto simp: res_bind_eq_Inr project_row_def) (erule new_Tuple_allocated)+
  assume n: "0 < n"
  from r(2) obtain a b where ab: "project_rows ?f (project_left ?x) = ok a" "project_rows ?f rows = ok b" "out = a @ b"
    by (auto simp: project_rows_append res_bind_eq_Inr)
  from next_law [OF r(1) n] obtain s' batch rest where nx:
    "next_rows n (c0, pr_child ?x) = Some (s', ok (batch, batch \<noteq> []))" "rows = batch @ rest" "yields s' rest" "rows \<noteq> [] \<longrightarrow> batch \<noteq> []"
    by blast
  obtain c2 y where s': "s' = (c2, y)" by (cases s')
  let ?x2 = "?x\<lparr>pr_child_offset := 0, pr_child := y, pr_child_rows := batch\<rparr>"
  have a: "(if pr_child_offset ?x \<noteq> 0 then project_rows ?f (drop (pr_child_offset ?x) (pr_child_rows ?x)) else ok []) = ok a"
    using ab(1) by (simp add: project_left_def split: if_splits)
  from ab(2) nx(2) obtain b1 b2 where b: "project_rows ?f batch = ok b1" "project_rows ?f rest = ok b2" "b = b1 @ b2"
    by (auto simp: project_rows_append res_bind_eq_Inr)
  have step: "projection_next plan schema next_rows n s = (if batch = [] then Some ((c2, ?x2), ok (a, a \<noteq> []))
      else case project_batch ?f n 0 batch a of
        Inl e \<Rightarrow> Some ((c2, ?x2), Inl e)
      | Inr (out, Some i) \<Rightarrow> Some ((c2, ?x2\<lparr>pr_child_offset := i\<rparr>), ok (out, True))
      | Inr (out, None) \<Rightarrow> Some ((c2, ?x2), ok (out, out \<noteq> [])))"
    using nx(1) s' a by (simp add: projection_next_def Let_def s)
  have yield: "project_yields yields ?f (c2, ?x2\<lparr>pr_child_offset := j\<rparr>) (r @ b2)"
    if "project_rows ?f (if j = 0 then [] else drop j batch) = ok r" for j r
  proof -
    have "project_left (?x2\<lparr>pr_child_offset := j\<rparr>) = (if j = 0 then [] else drop j batch)" by (simp add: project_left_def)
    then show ?thesis using nx(3) s' that b(2) by (auto simp: project_yields_def project_rows_append)
  qed
  have same: "?x2\<lparr>pr_child_offset := 0\<rparr> = ?x2" by simp
  have y0: "project_yields yields ?f (c2, ?x2) b2" using yield [of 0 "[]"] unfolding same by simp
  show "\<exists>s' batch rest. projection_next plan schema next_rows n s = Some (s', ok (batch, batch \<noteq> [])) \<and> out = batch @ rest \<and>
      project_yields yields ?f s' rest \<and> (out \<noteq> [] \<longrightarrow> batch \<noteq> [])"
  proof (cases "batch = []")
    case True
    then have "rows = []" using nx(4) by blast
    then have "b = []" "b2 = []" using ab(2) b(3) by simp_all
    then show ?thesis unfolding step using True y0 ab(3) by auto
  next
    case False
    from project_batch_ok [OF b(1), of 0 batch n a, simplified drop_0, OF HOL.refl] show ?thesis
    proof (elim disjE exE conjE)
      assume f: "project_batch ?f n 0 batch a = ok (a @ b1, None)"
      have "b1 \<noteq> []" using b(1) False by (cases batch) (auto simp: res_bind_eq_Inr)
      then show ?thesis unfolding step using f False y0 ab(3) b(3) by auto
    next
      fix q r j assume f: "project_batch ?f n 0 batch a = ok (a @ q, Some j)" "b1 = q @ r" "q \<noteq> []"
        "project_rows ?f (if j = 0 then [] else drop j batch) = ok r"
      show ?thesis unfolding step f(1) ab(3) b(3) f(2) using f(3) False yield [OF f(4)]
        by (intro exI [of _ "(c2, ?x2\<lparr>pr_child_offset := j\<rparr>)"] exI [of _ "a @ q"] exI [of _ "r @ b2"]) simp
    qed
  qed
qed

end

subsection \<open>Queries\<close>

text \<open>A table that can be scanned: registered, well-formed, and with a frame of the pool to spare.\<close>

definition table_ready :: "TableOid \<Rightarrow> handles \<Rightarrow> PageId list \<Rightarrow> Catalog \<Rightarrow> TableInfo \<Rightarrow> bool" where
  "table_ready oid hs ps c info \<longleftrightarrow> get_table oid c = Some info \<and> heap_ok (bpm c) (ti_table info) ps \<and>
     client_inv (heap_file_id (ti_table info)) (bpm c) hs \<and> spare (bpm c) hs"

definition rows_of :: "Catalog \<Rightarrow> TableInfo \<Rightarrow> PageId list \<Rightarrow> RecordId \<Rightarrow> u8 list option" where
  "rows_of c info ps = heap_rows (bpm c) (ti_table info) ps"

text \<open>A consumer initialises the executor and reads all rows.\<close>

definition run_query :: "(Catalog \<times> 's, unit) run \<Rightarrow> 's exec_next \<Rightarrow> nat \<Rightarrow> Catalog \<times> 's \<Rightarrow> (((Catalog \<times> 's) \<times> row list) \<times> unit res) option" where
  "run_query start next_rows n s = (case start s of
     None \<Rightarrow> None | Some (s', Inl e) \<Rightarrow> Some ((s', []), Inl e) | Some (s', Inr _) \<Rightarrow> drain next_rows n s')"

lemma seq_scan_init_ok:
  assumes "table_ready oid hs ps c info"
  shows "\<exists>b it. seq_scan_init oid (c, x) = Some ((c\<lparr>bpm := b\<rparr>, \<lparr>ss_table = oid, ss_iter = it\<rparr>), ok ()) \<and>
    scanning (ti_table info) hs ps (heap_page (bpm c) (ti_table info)) b \<and>
    iter_at (heap_page (bpm c) (ti_table info)) ps it (table_rows (heap_page (bpm c) (ti_table info)) ps)"
proof -
  let ?h = "ti_table info" and ?v = "heap_page (bpm c) (ti_table info)"
  have "scanning ?h hs ps ?v (bpm c)" "ps \<noteq> []" "hd ps = first_page_id ?h"
    using assms by (auto simp: table_ready_def scanning_def heap_ok_def)
  from begin_ok [OF this] obtain b it where "heap_begin ?h (bpm c) = Some ((b, it), ok ())" "scanning ?h hs ps ?v b"
    "iter_at ?v ps it (table_rows ?v ps)" by blast
  then show ?thesis using assms by (auto simp: seq_scan_init_def table_ready_def)
qed

lemma filter_rest_total:
  assumes "\<And>r. r \<in> set rs \<Longrightarrow> p (tuple_of (snd r)) = ok (keep (snd r))"
  shows "filter_rest p (map heap_row rs) = ok (map heap_row (filter (\<lambda>r. keep (snd r)) rs))"
  using assms by (induction rs) (auto simp: heap_row_def Tuple_copy_def tuple_of_def)

lemma project_rows_total:
  assumes "\<And>r. r \<in> set rs \<Longrightarrow> f (tuple_of (snd r)) = ok (g (snd r))"
  shows "project_rows f (map heap_row rs) = ok (map (\<lambda>r. (g (snd r), fst r)) rs)"
  using assms by (induction rs) (auto simp: heap_row_def)

end
