(* ===== verification/TupleLayout.thy ===== *)
theory TupleLayout
  imports Tuple
begin

section \<open>What the tuple layout preserves\<close>

text \<open>
  A value is found again in a tuple when no column before it is NULL. The proofs use the storage
  interface \<open>column\<close> of the values only.
\<close>

definition value_image :: "Value \<Rightarrow> u8 list" where
  "value_image v = (if is_null v then [] else case Value_serialize v of Inr bs \<Rightarrow> bs | Inl _ \<Rightarrow> [])"

definition size_in_tuple :: "Value \<Rightarrow> nat" where
  "size_in_tuple v = (if is_null v then if data_type v = VARCHAR then 4 else fixed_size (data_type v) else length (value_image v))"

definition row_ok :: "ColumnSchema \<Rightarrow> Value list \<Rightarrow> bool" where
  "row_ok schema vs \<longleftrightarrow> map data_type vs = map col_type schema
     \<and> (\<forall>v \<in> set vs. data_type v \<noteq> INVALID \<and> (is_null v \<or> storable_value v))
     \<and> null_bitmap_size (length vs) + sum_list (map size_in_tuple vs) < 2 ^ 32"

subsection \<open>Images of values\<close>

lemma image_storable:
  assumes "storable_value v"
  shows "Value_serialize v = ok (value_image v)" and "Value_storage_size v = ok (word_of_nat (length (value_image v)))"
    and "length (value_image v) < 2 ^ 32" and "\<exists>w. Value_deserialize (value_image v @ rest) (data_type v) = ok w \<and> same_value v w"
proof -
  have "\<not> is_null v" using assms by (simp add: storable_value_def)
  with column.enc_dec [OF assms] show "Value_serialize v = ok (value_image v)"
    "Value_storage_size v = ok (word_of_nat (length (value_image v)))" "length (value_image v) < 2 ^ 32"
    "\<exists>w. Value_deserialize (value_image v @ rest) (data_type v) = ok w \<and> same_value v w"
    by (auto simp: value_image_def)
qed

lemma image_varchar:
  assumes "storable_value v" and "data_type v = VARCHAR"
  shows "value_image v = le_bytes 4 (unat (len v)) @ payload v" and "length (value_image v) = 4 + unat (len v)"
    and "unat (len v) + 4 < 2 ^ 32"
proof -
  have v: "\<not> is_null v" "0 < len v" "unat (len v) \<le> length (varlen v)" "unat (len v) + 4 < 2 ^ 32"
    using assms by (auto simp: storable_value_def)
  show i: "value_image v = le_bytes 4 (unat (len v)) @ payload v"
    using varchar_roundtrip(1) [OF assms(2) v] v(1) by (simp add: value_image_def Value_serialize_def assms(2))
  show "length (value_image v) = 4 + unat (len v)" using v(3) by (simp add: i payload_def assms(2))
  show "unat (len v) + 4 < 2 ^ 32" by (rule v(4))
qed

lemma image_fixed:
  assumes "storable_value v" and "data_type v \<noteq> VARCHAR"
  shows "get_type_size (data_type v) = ok (length (value_image v))"
proof -
  have "Value_storage_size v = ok (word_of_nat (fixed_size (data_type v)))" "get_type_size (data_type v) = ok (fixed_size (data_type v))"
    "fixed_size (data_type v) < 2 ^ 32"
    using assms by (auto simp: storable_value_def Value_storage_size_def split: DataType.splits)
  moreover have "Value_storage_size v = ok (word_of_nat (length (value_image v)))" "length (value_image v) < 2 ^ 32"
    using image_storable [OF assms(1)] by auto
  ultimately have "(word_of_nat (length (value_image v)) :: u32) = word_of_nat (fixed_size (data_type v))" by simp
  then have "length (value_image v) = fixed_size (data_type v)"
    using \<open>length (value_image v) < 2 ^ 32\<close> \<open>fixed_size (data_type v) < 2 ^ 32\<close> by (simp add: word_of_nat_eq_iff take_bit_nat_eq_self)
  then show ?thesis using \<open>get_type_size (data_type v) = _\<close> by simp
qed

text \<open>One step of the offset computation, over a column that is not NULL.\<close>

lemma skip_column:
  assumes "storable_value v" and "col_type c = data_type v" and "drop offset mem = value_image v @ rest"
  shows "skip_columns mem (c # cs) offset = skip_columns mem cs (offset + length (value_image v))"
proof (cases "data_type v = VARCHAR")
  case True
  note im = image_varchar [OF assms(1) True]
  have "unat (len v) mod 256 ^ 4 = unat (len v)" using unat_u32 [of "len v"] by simp
  then have "load_bytes 4 (drop offset mem) = ok (unat (len v))"
    using load_stored [of 4 "unat (len v)" "payload v @ rest"] by (simp only: assms(3) im append_assoc)
  moreover have "unat (4 + len v) = length (value_image v)"
    using im(2,3) by (simp add: unat_word_ariths)
  ultimately show ?thesis using True assms(2) by simp
next
  case False
  then show ?thesis using image_fixed [OF assms(1) False] assms(2) by simp
qed

lemma values_size_row:
  "\<forall>v \<in> set vs. data_type v \<noteq> INVALID \<and> (is_null v \<or> storable_value v) \<Longrightarrow>
   values_size vs = ok (word_of_nat (sum_list (map size_in_tuple vs)))"
proof (induction vs)
  case (Cons v vs)
  have "Value_storage_size v = ok (word_of_nat (size_in_tuple v))"
    using Cons.prems image_storable(2) [of v]
    by (cases "is_null v")
      (auto simp: size_in_tuple_def Value_storage_size_def varchar_get_storage_size_def split: DataType.splits)
  with Cons show ?case by simp
qed simp

subsection \<open>The constructor\<close>

lemma null_bit_set: "i div 8 < length mem \<Longrightarrow> null_bit j (set_null_bit i mem) \<longleftrightarrow> null_bit j mem \<or> j = i"
proof -
  assume i: "i div 8 < length mem"
  have "bit (push_bit (i mod 8) 1 :: u8) (j mod 8) \<longleftrightarrow> j mod 8 = i mod 8"
    by (auto simp: bit_exp_iff)
  moreover have "j = i \<longleftrightarrow> j div 8 = i div 8 \<and> j mod 8 = i mod 8"
    by (metis div_mult_mod_eq)
  ultimately show ?thesis
    using i by (cases "j div 8 = i div 8") (auto simp: null_bit_def set_null_bit_def bit_or_iff)
qed

lemma length_set_null_bit [simp]: "length (set_null_bit i mem) = length mem"
  by (simp add: set_null_bit_def)

lemma nth_set_null_bit: "k \<noteq> i div 8 \<Longrightarrow> set_null_bit i mem ! k = mem ! k"
  by (simp add: set_null_bit_def)

lemma null_bit_write_at:
  "j div 8 < ptr \<Longrightarrow> ptr + length bs \<le> length mem \<Longrightarrow> null_bit j (write_at ptr bs mem) = null_bit j mem"
  by (simp add: null_bit_def nth_write_at)

text \<open>A block is split after a part of it that agrees with bs.\<close>

lemma drop_split:
  assumes "\<And>k. ptr \<le> k \<Longrightarrow> k < ptr + length bs \<Longrightarrow> mem ! k = bs ! (k - ptr)" and "ptr + length bs \<le> length mem"
  shows "drop ptr mem = bs @ drop (ptr + length bs) mem"
proof -
  have "take (length bs) (drop ptr mem) = bs"
    using assms by (intro nth_equalityI) auto
  then show ?thesis using append_take_drop_id [of "length bs" "drop ptr mem"] by (simp add: add.commute)
qed

definition values_image :: "Value list \<Rightarrow> u8 list" where
  "values_image vs = concat (map value_image vs)"

lemma values_image_simps [simp]:
  "values_image [] = []" "values_image (v # vs) = value_image v @ values_image vs"
  by (simp_all add: values_image_def)

lemma write_values_ok:
  assumes "\<forall>v \<in> set vs. is_null v \<or> storable_value v" and "i + length vs \<le> 8 * b" and "b \<le> ptr"
    and "ptr + length (values_image vs) \<le> length mem"
  shows "\<exists>mem'. write_values i ptr vs mem = ok mem' \<and> length mem' = length mem
    \<and> (\<forall>k. b \<le> k \<longrightarrow> k < ptr \<longrightarrow> mem' ! k = mem ! k)
    \<and> drop ptr mem' = values_image vs @ drop (ptr + length (values_image vs)) mem
    \<and> (\<forall>j < 8 * b. null_bit j mem' \<longleftrightarrow> null_bit j mem \<or> (i \<le> j \<and> j < i + length vs \<and> is_null (vs ! (j - i))))"
  using assms
proof (induction vs arbitrary: i ptr mem)
  case (Cons v vs)
  have i: "i div 8 < b" using Cons.prems(2) by (simp add: less_mult_imp_div_less mult.commute)
  have later: "i \<le> j \<and> j < i + length (v # vs) \<and> is_null ((v # vs) ! (j - i)) \<longleftrightarrow>
      (j = i \<and> is_null v) \<or> (Suc i \<le> j \<and> j < Suc i + length vs \<and> is_null (vs ! (j - Suc i)))" for j
    by (cases "j = i") (auto simp: nth_Cons' Suc_diff_le)
  show ?case
  proof (cases "is_null v")
    case True
    from Cons.prems have "\<forall>v \<in> set vs. is_null v \<or> storable_value v" "Suc i + length vs \<le> 8 * b"
      "ptr + length (values_image vs) \<le> length (set_null_bit i mem)"
      using True by (simp_all add: value_image_def)
    from Cons.IH [OF this(1,2) Cons.prems(3) this(3)] obtain mem' where
      mem': "write_values (Suc i) ptr vs (set_null_bit i mem) = ok mem'" "length mem' = length mem"
        "\<forall>k. b \<le> k \<longrightarrow> k < ptr \<longrightarrow> mem' ! k = set_null_bit i mem ! k"
        "drop ptr mem' = values_image vs @ drop (ptr + length (values_image vs)) (set_null_bit i mem)"
        "\<forall>j < 8 * b. null_bit j mem' \<longleftrightarrow> null_bit j (set_null_bit i mem) \<or>
          (Suc i \<le> j \<and> j < Suc i + length vs \<and> is_null (vs ! (j - Suc i)))"
      by (elim exE conjE) (rule that, simp_all)
    have "i div 8 < length mem" using i Cons.prems(3,4) by simp
    moreover have "drop n (set_null_bit i mem) = drop n mem" if "ptr \<le> n" for n
      using that i Cons.prems(3) by (simp add: set_null_bit_def)
    moreover have "set_null_bit i mem ! k = mem ! k" if "b \<le> k" for k
      using that i by (intro nth_set_null_bit) simp
    moreover have "i < 8 * b" using Cons.prems(2) by simp
    moreover have "null_bit j mem' \<longleftrightarrow> null_bit j mem \<or> (i \<le> j \<and> j < i + length (v # vs) \<and> is_null ((v # vs) ! (j - i)))"
      if "j < 8 * b" for j
      unfolding later using mem'(5) that True i Cons.prems(3,4) by (auto simp: null_bit_set)
    ultimately show ?thesis
      using mem' True by (intro exI [of _ mem'] conjI) (simp_all add: value_image_def)
  next
    case False
    then have v: "storable_value v" using Cons.prems(1) by simp
    let ?n = "length (value_image v)" and ?mem = "write_at ptr (value_image v) mem"
    have fit: "ptr + ?n \<le> length mem" using Cons.prems(4) by simp
    have n: "unat (word_of_nat ?n :: u32) = ?n" using image_storable(3) [OF v] by (simp add: unat_of_nat)
    from Cons.prems have "\<forall>v \<in> set vs. is_null v \<or> storable_value v" "Suc i + length vs \<le> 8 * b" "b \<le> ptr + ?n"
      "(ptr + ?n) + length (values_image vs) \<le> length ?mem"
      by (simp_all add: fit)
    from Cons.IH [OF this] obtain mem' where
      mem': "write_values (Suc i) (ptr + ?n) vs ?mem = ok mem'" "length mem' = length ?mem"
        "\<forall>k. b \<le> k \<longrightarrow> k < ptr + ?n \<longrightarrow> mem' ! k = ?mem ! k"
        "drop (ptr + ?n) mem' = values_image vs @ drop (ptr + ?n + length (values_image vs)) ?mem"
        "\<forall>j < 8 * b. null_bit j mem' \<longleftrightarrow> null_bit j ?mem \<or>
          (Suc i \<le> j \<and> j < Suc i + length vs \<and> is_null (vs ! (j - Suc i)))"
      by (elim exE conjE) (rule that, simp_all)
    have w: "write_values i ptr (v # vs) mem = ok mem'"
      using False fit mem'(1) by (simp add: image_storable [OF v] n)
    have "drop ptr mem' = value_image v @ drop (ptr + ?n) mem'"
      using mem'(2,3) fit Cons.prems(3) by (intro drop_split) (auto simp: nth_write_at)
    moreover have "drop (ptr + ?n + k) ?mem = drop (ptr + ?n + k) mem" for k
      using fit by (simp add: write_at_def add.commute)
    moreover have "j div 8 < ptr" if "j < 8 * b" for j
      using that Cons.prems(3) by (metis less_le_trans less_mult_imp_div_less mult.commute)
    moreover have "?mem ! k = mem ! k" if "k < ptr" for k
      using that fit by (simp add: nth_write_at)
    moreover have "null_bit j mem' \<longleftrightarrow> null_bit j mem \<or> (i \<le> j \<and> j < i + length (v # vs) \<and> is_null ((v # vs) ! (j - i)))"
      if "j < 8 * b" for j
      unfolding later using mem'(5) that False calculation(3) [OF that] fit by (auto simp: null_bit_write_at)
    ultimately show ?thesis
      using w mem' fit by (intro exI [of _ mem'] conjI) (simp_all add: add.assoc)
  qed
qed auto

lemma le_bytes_0: "le_bytes n 0 = replicate n 0"
  by (induction n) auto

lemma length_values_image: "length (values_image vs) \<le> sum_list (map size_in_tuple vs)"
  by (induction vs) (auto simp: size_in_tuple_def value_image_def)

lemma new_Tuple_layout:
  assumes "row_ok schema vs"
  shows "\<exists>mem. new_Tuple schema vs = ok \<lparr>allocated = True, bytes = mem, record_id = default_RecordId\<rparr>
    \<and> length mem = null_bitmap_size (length vs) + sum_list (map size_in_tuple vs)
    \<and> drop (null_bitmap_size (length vs)) mem
        = values_image vs @ replicate (sum_list (map size_in_tuple vs) - length (values_image vs)) 0
    \<and> (\<forall>j < length vs. null_bit j mem \<longleftrightarrow> is_null (vs ! j))"
proof -
  let ?b = "null_bitmap_size (length vs)" and ?n = "sum_list (map size_in_tuple vs)"
  have len: "length vs = length schema" using assms by (metis row_ok_def length_map)
  have rows: "\<forall>v \<in> set vs. data_type v \<noteq> INVALID \<and> (is_null v \<or> storable_value v)" and fit: "?b + ?n < 2 ^ 32"
    using assms by (auto simp: row_ok_def)
  have total: "unat (word_of_nat ?b + word_of_nat ?n :: u32) = ?b + ?n"
    using fit by (simp add: unat_of_nat flip: of_nat_add)
  let ?zero = "replicate (?b + ?n) (0 :: u8)"
  have b8: "0 + length vs \<le> 8 * ?b" by (simp add: null_bitmap_size_def)
  obtain mem where mem: "write_values 0 ?b vs ?zero = ok mem" "length mem = ?b + ?n"
    "drop ?b mem = values_image vs @ drop (?b + length (values_image vs)) ?zero"
    "\<forall>j < 8 * ?b. null_bit j mem \<longleftrightarrow> null_bit j ?zero \<or> (0 \<le> j \<and> j < 0 + length vs \<and> is_null (vs ! (j - 0)))"
    using write_values_ok [of vs 0 ?b ?b ?zero] rows b8 length_values_image [of vs] by auto
  have zero: "\<not> null_bit j ?zero" if "j < 8 * ?b" for j
    using that by (simp add: null_bit_def less_mult_imp_div_less mult.commute trans_less_add1)
  have "new_Tuple schema vs = ok \<lparr>allocated = True, bytes = mem, record_id = default_RecordId\<rparr>"
    using mem(1) total by (simp add: new_Tuple_def len values_size_row [OF rows] Let_def)
  moreover have "null_bit j mem \<longleftrightarrow> is_null (vs ! j)" if "j < length vs" for j
    using mem(4) zero [of j] that b8 by simp
  ultimately show ?thesis using mem(2,3) by auto
qed

lemma skip_rows:
  assumes "\<forall>v \<in> set vs. storable_value v" and "map data_type vs = map col_type cs" and "drop off mem = values_image vs @ rest"
  shows "skip_columns mem cs off = ok (off + length (values_image vs)) \<and> drop (off + length (values_image vs)) mem = rest"
  using assms
proof (induction vs arbitrary: cs off)
  case (Cons v vs)
  then obtain c cs' where c: "cs = c # cs'" "col_type c = data_type v" "map data_type vs = map col_type cs'"
    by (cases cs) auto
  have d: "drop off mem = value_image v @ (values_image vs @ rest)" using Cons.prems(3) by simp
  then have "drop (off + length (value_image v)) mem = values_image vs @ rest"
    by (metis add.commute append_eq_conv_conj drop_drop)
  with Cons.IH [OF _ c(3) this] Cons.prems(1) show ?case
    using skip_column [OF _ c(2) d, of cs'] by (simp add: c(1) add.assoc)
qed (cases cs; simp)

lemma values_image_append: "values_image (vs @ ws) = values_image vs @ values_image ws"
  by (simp add: values_image_def)

subsection \<open>Properties\<close>

text \<open>An example row.\<close>

definition example_schema :: ColumnSchema where
  "example_schema = [\<lparr>col_name = ''id'', col_type = BIGINT, col_length = 0\<rparr>, \<lparr>col_name = ''n'', col_type = INTEGER, col_length = 0\<rparr>]"

definition example_row :: "Value list" where
  "example_row = [Value_int64 BIGINT (- 3), Value_int32 INTEGER 7]"

lemma example_row_facts:
  "\<not> is_null (Value_int64 BIGINT (- 3))" "\<not> is_null (Value_int32 INTEGER 7)"
  "data_type (Value_int64 BIGINT (- 3)) = BIGINT" "data_type (Value_int32 INTEGER 7) = INTEGER"
  "int_value (Value_int32 INTEGER 7) = 7" "int_value (Value_int64 BIGINT (- 3)) = - 3"
  by code_simp+

lemma example_row_ok: "row_ok example_schema example_row"
proof -
  note n = example_row_facts
  then have s: "storable_value (Value_int64 BIGINT (- 3))" "storable_value (Value_int32 INTEGER 7)"
    using int_ok_examples(4,5) by (simp_all add: storable_value_def)
  have "size_in_tuple (Value_int64 BIGINT (- 3)) = 8" "size_in_tuple (Value_int32 INTEGER 7) = 4"
    using image_fixed [OF s(1)] image_fixed [OF s(2)] n by (simp_all add: size_in_tuple_def)
  then show ?thesis
    using n s by (simp add: row_ok_def example_schema_def example_row_def null_bitmap_size_def)
qed

text \<open>A row is stored in some tuple, from which every column with no NULL before it is read back.\<close>

lemma new_Tuple_stores:
  assumes "row_ok schema vs"
  obtains t where "new_Tuple schema vs = ok t"
    and "\<And>i. i < length vs \<Longrightarrow> \<forall>j < i. \<not> is_null (vs ! j) \<Longrightarrow>
      \<exists>w. tuple_value schema i t = ok w \<and> same_value (vs ! i) w"
proof -
  let ?b = "null_bitmap_size (length vs)"
  obtain rest mem where mem: "new_Tuple schema vs = ok \<lparr>allocated = True, bytes = mem, record_id = default_RecordId\<rparr>"
      "length mem = ?b + sum_list (map size_in_tuple vs)" "drop ?b mem = values_image vs @ rest"
      "\<forall>j < length vs. null_bit j mem \<longleftrightarrow> is_null (vs ! j)"
    using new_Tuple_layout [OF assms] by blast
  let ?t = "\<lparr>allocated = True, bytes = mem, record_id = default_RecordId\<rparr>"
  have types: "map data_type vs = map col_type schema" and rows: "\<forall>v \<in> set vs. is_null v \<or> storable_value v"
    using assms by (auto simp: row_ok_def)
  then have len: "length schema = length vs" by (metis length_map)
  show thesis
  proof (rule that [of ?t])
    fix i assume i: "i < length vs" "\<forall>j < i. \<not> is_null (vs ! j)"
    have ty: "col_type (schema ! i) = data_type (vs ! i)"
      using types i(1) len by (metis nth_map)
    have "take i vs @ vs ! i # drop (Suc i) vs = vs" using i(1) by (rule id_take_nth_drop [symmetric])
    then have d: "drop ?b mem = values_image (take i vs) @ value_image (vs ! i) @ values_image (drop (Suc i) vs) @ rest"
      by (metis append_assoc mem(3) values_image_append values_image_simps(2))
    have "\<forall>v \<in> set (take i vs). storable_value v"
      using i rows by (auto simp: in_set_conv_nth) (metis less_trans nth_mem)
    moreover have "map data_type (take i vs) = map col_type (take i schema)" using types by (metis take_map)
    ultimately have skip: "skip_columns mem (take i schema) ?b = ok (?b + length (values_image (take i vs)))"
        "drop (?b + length (values_image (take i vs))) mem = value_image (vs ! i) @ values_image (drop (Suc i) vs) @ rest"
      using skip_rows [OF _ _ d] by auto
    have "i div 8 < ?b" using i(1) by (simp add: null_bitmap_size_def)
    then have inside: "\<not> length mem \<le> i div 8" using mem(2) by simp
    have val: "tuple_value schema i ?t =
        (if is_null (vs ! i) then ok (Value_null (data_type (vs ! i)))
         else Value_deserialize (value_image (vs ! i) @ values_image (drop (Suc i) vs) @ rest) (data_type (vs ! i)))"
      using i(1) inside mem(4) skip by (simp add: tuple_value_def len ty)
    show "\<exists>w. tuple_value schema i ?t = ok w \<and> same_value (vs ! i) w"
    proof (cases "is_null (vs ! i)")
      case True
      then show ?thesis using val by (simp add: same_value_def)
    next
      case False
      then have "storable_value (vs ! i)" using rows i(1) by auto
      from image_storable(4) [OF this] val False show ?thesis by fastforce
    qed
  qed (rule mem(1))
qed

text \<open>
  C4. A tuple gives its values back. For a row whose values fit the schema and are NULL or storable, the
  constructor succeeds, and reading a column with no NULL column before it returns the value that was
  put there (NULL for NULL; the same type and the same stored bytes otherwise).
\<close>

theorem tuple_value_roundtrip:
  assumes "row_ok schema vs" and "i < length vs" and "\<forall>j < i. \<not> is_null (vs ! j)"
  shows "\<exists>t w. new_Tuple schema vs = ok t \<and> tuple_value schema i t = ok w \<and> same_value (vs ! i) w"
  using new_Tuple_stores [OF assms(1)] assms(2,3) by metis

lemma tuple_value_roundtrip_witness:
  "\<exists>t w. new_Tuple example_schema example_row = ok t \<and> tuple_value example_schema 1 t = ok w \<and> int_value w = 7"
proof -
  from tuple_value_roundtrip [OF example_row_ok, of 1] obtain t w where
    "new_Tuple example_schema example_row = ok t"
    "tuple_value example_schema 1 t = ok w" "same_value (Value_int32 INTEGER 7) w"
    by (auto simp: example_row_def example_row_facts)
  moreover from this(3) have "int_value w = 7"
    using same_value_int [OF _ example_row_facts(2)] int_ok_get(5) [OF int_ok_examples(4)] example_row_facts(5) by simp
  ultimately show ?thesis by blast
qed

text \<open>
  A NULL column displaces the columns after it. The constructor stores nothing for a NULL value, and
  the reader skips its full size: of a row that holds NULL and then the INTEGER x, the second column
  reads as 0 whatever x is.
\<close>

theorem tuple_null_shifts_columns:
  assumes "map col_type schema = [INTEGER, INTEGER]" and "in_range 4 x" and "x \<noteq> int_null 4"
  shows "\<exists>t w. new_Tuple schema [Value_int32 INTEGER (int_null 4), Value_int32 INTEGER x] = ok t
    \<and> tuple_value schema 1 t = ok w \<and> \<not> is_null w \<and> int_value w = 0"
proof -
  let ?v = "Value_int32 INTEGER x" and ?n = "Value_int32 INTEGER (int_null 4)"
  have "check_integer ?v" by (simp add: check_integer_def Value_int32_def)
  then have "int_ok ?v" using int_value_ctor [of INTEGER x] assms(2) by (simp add: Value_int32_def)
  then have v: "storable_value ?v" "\<not> is_null ?v" "data_type ?v = INTEGER"
    using assms(3) by (simp_all add: storable_value_def Value_int32_def)
  have n: "is_null ?n" "data_type ?n = INTEGER" by (simp_all add: Value_int32_def)
  have size: "length (value_image ?v) = 4" using image_fixed [OF v(1)] v(3) by simp
  have sizes: "size_in_tuple ?v = 4" "size_in_tuple ?n = 4" "value_image ?n = []"
    using v n size by (simp_all add: size_in_tuple_def value_image_def)
  have schema: "length schema = 2" "col_type (schema ! 0) = INTEGER" "col_type (schema ! 1) = INTEGER"
    using assms(1) by (auto simp: map_eq_Cons_conv)
  then have ok: "row_ok schema [?n, ?v]"
    using assms(1) v n sizes by (simp add: row_ok_def null_bitmap_size_def)
  obtain mem where mem: "new_Tuple schema [?n, ?v] = ok \<lparr>allocated = True, bytes = mem, record_id = default_RecordId\<rparr>"
    "length mem = 9" "drop 1 mem = value_image ?v @ replicate 4 0"
    "\<forall>j < 2. null_bit j mem \<longleftrightarrow> is_null ([?n, ?v] ! j)"
    using new_Tuple_layout [OF ok] sizes size by (auto simp: null_bitmap_size_def numeral_2_eq_2)
  have "drop 5 mem = replicate 4 0"
    using arg_cong [OF mem(3), of "drop 4"] size by simp
  moreover have "\<not> null_bit 1 mem" using mem(4) v(2) by (auto dest!: spec [of _ 1])
  moreover have "take 1 schema = [schema ! 0]" using schema(1) by (cases schema) auto
  ultimately have "tuple_value schema 1 \<lparr>allocated = True, bytes = mem, record_id = default_RecordId\<rparr>
      = Value_deserialize (replicate 4 0) INTEGER"
    using schema mem(2) by (simp add: tuple_value_def null_bitmap_size_def)
  moreover have "Value_deserialize (replicate 4 0) INTEGER = ok (Value_int32 INTEGER 0)"
    using load_int_stored [of 4 0 "[]"]
    by (simp add: Value_deserialize_def integer_deserialize_def le_bytes_0)
  moreover have "\<not> is_null (Value_int32 INTEGER 0)" by (simp add: Value_int32_def int_null_def)
  moreover have "check_integer (Value_int 4 INTEGER 0)" by (simp add: check_integer_def)
  then have "int_value (Value_int32 INTEGER 0) = 0"
    using int_value_ctor(1) [of INTEGER 0] in_range_0_1(1) by (simp add: Value_int32_def)
  ultimately show ?thesis using mem(1) by auto
qed

lemma tuple_null_shifts_columns_witness:
  "\<exists>t w. new_Tuple [\<lparr>col_name = ''a'', col_type = INTEGER, col_length = 0\<rparr>, \<lparr>col_name = ''b'', col_type = INTEGER, col_length = 0\<rparr>]
      [Value_int32 INTEGER (int_null 4), Value_int32 INTEGER 7] = ok t
    \<and> tuple_value [\<lparr>col_name = ''a'', col_type = INTEGER, col_length = 0\<rparr>, \<lparr>col_name = ''b'', col_type = INTEGER, col_length = 0\<rparr>] 1 t = ok w
    \<and> \<not> is_null w \<and> int_value w = 0"
  by (rule tuple_null_shifts_columns) (simp_all add: in_range_def int_null_def int_max_def)

end
