(* ===== verification/Heap_Properties.thy ===== *)
theory Heap_Properties
  imports Heap_Scan
begin

section \<open>Properties of table heaps\<close>

text \<open>
  Insertion, lookup and deletion as operations on the rows of the table, the end of the insertion loop,
  and its behaviour on a page that has lost all its tuples. The example is a table of one page, on
  disk, under a pool of one frame.
\<close>

subsection \<open>An example table\<close>

definition example_pool :: "pagebuf \<Rightarrow> BufferPoolManager" where
  "example_pool m = (new_BufferPoolManager 1 (fst (write_page 0 0 m disk_example)))\<lparr>next_page_id := 1\<rparr>"

definition example_heap :: TableHeap where
  "example_heap = \<lparr>heap_file_id = 0, first_page_id = 0, last_page_id = 0, free_space_map = Map.empty\<rparr>"

lemma example_table:
  assumes m: "sp_inv m" "sp_page_id m = 0" "get_next_page_id m = INVALID_PAGE_ID"
  shows "client_inv 0 (example_pool m) []" and "heap_ok (example_pool m) example_heap [0]"
    and "heap_page (example_pool m) example_heap 0 = Some m" and "spare (example_pool m) []"
    and "next_page_id (example_pool m) = 1" and "\<not> all_pinned (example_pool m)"
    and "client_inv (heap_file_id example_heap) (example_pool m) []"
proof -
  have len: "length m = PAGE_SIZE" using sp_invD(1) [OF m(1)] by (simp add: PAGE_SIZE_def)
  obtain d' where w: "write_page 0 0 m disk_example = (d', ok ())" "disk_inv d'" "disk_open_files d' = {0}"
    "disk_page d' 0 0 = Some m"
    using disk.write_ok [OF disk_example_inv(1) _ len, of 0 0] disk_example_inv(2) by auto
  have pool: "example_pool m = (new_BufferPoolManager 1 d')\<lparr>next_page_id := 1\<rparr>" by (simp add: example_pool_def w(1))
  have inv: "pool_inv {} (example_pool m) []"
    unfolding pool by (intro set_next_ok(1) pool_inv_new w(2)) simp
  show c: "client_inv 0 (example_pool m) []"
    using inv w(3) by (simp add: client_inv_def fresh_numbers_def pool new_BufferPoolManager_def)
  then show "client_inv (heap_file_id example_heap) (example_pool m) []" by (simp add: example_heap_def)
  show v: "heap_page (example_pool m) example_heap 0 = Some m"
    using w(4) by (simp add: heap_page_def bpm_view_def page_at_def pool new_BufferPoolManager_def example_heap_def)
  show n: "next_page_id (example_pool m) = 1" by (simp add: pool)
  show "heap_ok (example_pool m) example_heap [0]"
    using m v n by (simp add: heap_ok_def page_ok_def) (simp add: example_heap_def)
  show s: "spare (example_pool m) []" unfolding spare_def pool
    by (intro exI [of _ 0]) (simp add: new_BufferPoolManager_def)
  show "\<not> all_pinned (example_pool m)" by (rule spare_not_full [OF inv s])
qed

lemmas example_empty_table = example_table [OF fresh_page(1,3,4) [of 0]]

definition example_tuple :: Tuple where
  "example_tuple = tuple_of [7, 8, 9]"

lemma example_tuple_ok: "storable (Tuple_serialize example_tuple)" "Tuple_serialize example_tuple = [7, 8, 9]"
  by (simp_all add: example_tuple_def tuple_of_def Tuple_serialize_def storable_def)

lemma example_fits:
  "\<not> gives_up (example_pool (sp_init 0 zero_page)) example_heap (Tuple_serialize example_tuple)"
proof -
  have "heap_page (example_pool (sp_init 0 zero_page)) example_heap (last_page_id example_heap) = Some (sp_init 0 zero_page)"
    using example_empty_table(3) by (simp add: example_heap_def)
  then show ?thesis
    using fresh_page(8) [of 0] space_needed_fresh [of 0 "Tuple_serialize example_tuple"] by (simp add: gives_up_def example_tuple_ok)
qed

text \<open>A page whose only row is bs.\<close>

lemma page_with_row:
  assumes st: "storable bs" and small: "length bs \<le> 4064"
  obtains m rid where "sp_inv m" and "sp_page_id m = 0" and "get_next_page_id m = INVALID_PAGE_ID"
    and "heap_rows (example_pool m) example_heap [0] = [rid \<mapsto> bs]"
proof -
  have fits: "space_needed (sp_init 0 zero_page) bs \<le> unat (usable_space (sp_init 0 zero_page))"
    using small by (simp add: fresh_page space_needed_fresh)
  show thesis
  proof (rule insert_fits [OF fresh_page(1) st fits], rule that)
    fix m and rid :: RecordId assume m: "sp_inv m" "page_id rid = sp_page_id (sp_init 0 zero_page)"
      "sp_view m = (sp_view (sp_init 0 zero_page))(unat (slot_num rid) \<mapsto> bs)"
      "sp_page_id m = sp_page_id (sp_init 0 zero_page)" "get_next_page_id m = get_next_page_id (sp_init 0 zero_page)"
    show "sp_inv m" "sp_page_id m = 0" "get_next_page_id m = INVALID_PAGE_ID" using m by (simp_all add: fresh_page)
    then have v: "heap_page (example_pool m) example_heap 0 = Some m" by (rule example_table(3))
    have "heap_rows (example_pool m) example_heap [0] r = [rid \<mapsto> bs] r" for r
    proof (cases "page_id r = page_id rid \<and> unat (slot_num r) = unat (slot_num rid)")
      case True
      then have "r = rid" by (intro record_id_eq) simp_all
      then show ?thesis using m v by (simp add: heap_rows_def fresh_page)
    next
      case False
      then show ?thesis using m v by (auto simp: heap_rows_def fresh_page)
    qed
    then show "heap_rows (example_pool m) example_heap [0] = [rid \<mapsto> bs]" by blast
  qed
qed

subsection \<open>Construction\<close>

lemma new_table_page:
  assumes inv: "client_inv p b hs" and sp: "spare b hs" and ne: "next_page_id b \<noteq> INVALID_PAGE_ID"
  obtains b1 g b2 where "new_page p b = (b1, ok (Some (g, next_page_id b)))" and "lock g b1 = (b2, ok ())"
    and "holds p (next_page_id b) g b2 hs" and "guard_data g b2 = zero_page" and "next_page_id b < next_page_id b2"
    and "\<And>k x. k \<noteq> (p, next_page_id b) \<Longrightarrow> bpm_view b k = Some x \<Longrightarrow> bpm_view b2 k = Some x"
    and "pool_size b2 = pool_size b" and "\<And>p'. p' \<noteq> p \<Longrightarrow> fresh_numbers p' b \<Longrightarrow> fresh_numbers p' b2"
    and "next_page_id b2 = next_page_id b + 1"
proof -
  let ?n = "next_page_id b"
  have I: "pool_inv {} b hs" "unlatched hs" "fresh_numbers p b" using inv by (simp_all add: client_inv_def)
  have fr: "p \<in> disk_open_files (disk_manager b)" "page_table b (p, ?n) = None"
    using I(3) by (auto simp: fresh_numbers_def)
  from new_page_ok [OF I(1) fr ne] spare_not_full [OF I(1) sp] obtain b1 g where
    g: "new_page p b = (b1, ok (Some (g, ?n)))" "pool_inv {} b1 ((Pinned, g) # hs)" "next_page_id b1 = ?n + 1"
      "page_table b1 (p, ?n) = Some g" "\<forall>key x. key \<noteq> (p, ?n) \<longrightarrow> bpm_view b key = Some x \<longrightarrow> bpm_view b1 key = Some x"
    by blast
  note O = new_page_only [OF g(1)]
  have "rw_latch (pages b1 g) = Free" using latch_free [OF g(2), of g] unlatched_count [OF I(2), of g] by simp
  then obtain b2 where lk: "lock g b1 = (b2, ok ())" and b2: "b2 = upd_page g (\<lambda>p. p\<lparr>rw_latch := Exclusive\<rparr>) b1"
    by (simp add: lock_def)
  note L = lock_ok [OF g(2) _ lk, simplified]
  have k: "key_of (pages b1 g) = (p, ?n)" using tableD [OF pool_invD(2) [OF g(2)]] g(4) by blast
  have lt: "?n < ?n + 1" using ne by (simp add: INVALID_PAGE_ID_def word_less_nat_alt)
    (metis add.commute add.inverse_inverse eq_neg_iff_add_eq_0 lessI unatSuc)
  have f2: "page_table b2 = page_table b1" "disk_manager b2 = disk_manager b1" "next_page_id b2 = ?n + 1"
    "key_of (pages b2 g) = (p, ?n)" "guard_data g b2 = zero_page"
    using k g(3) O(3) by (simp_all add: b2 key_of_def guard_data_def)
  have "fresh_numbers p b1" using fresh_only [OF I(3) O(1)] lt g(3) by simp
  then have "holds p ?n g b2 hs"
    using L(1) I(2) lt f2 fresh_same [of b2 b1 p] g(3) by (simp add: holds_def turn_def)
  have sz: "pool_size b2 = pool_size b" using O(1) by (simp add: b2 only_frame_def)
  have "fresh_numbers p' b2" if "p' \<noteq> p" "fresh_numbers p' b" for p'
    using that O(1) lt g(3) f2(1-3) by (auto simp: fresh_numbers_def only_frame_def)
  with \<open>holds p ?n g b2 hs\<close> show thesis using g(1,5) lk f2 lt view_keptD [OF L(2)] sz by (intro that [of b1 g b2]) auto
qed

text \<open>
  The last page has a tuple or has never had one. Then insert_tuple does not give up on a tuple that fits in a page,
  and what it inserts keeps the condition.
\<close>

definition takes_rows :: "BufferPoolManager \<Rightarrow> TableHeap \<Rightarrow> bool" where
  "takes_rows b h \<longleftrightarrow> (\<exists>m. heap_page b h (last_page_id h) = Some m \<and> (tuple_count m = 0 \<longrightarrow> slot_count m = 0))"

lemma takes_rows_no_abort:
  assumes ok: "heap_ok b h ps" and t: "takes_rows b h" and len: "length bs \<le> 4064"
  shows "\<not> gives_up b h bs"
proof
  assume "gives_up b h bs"
  with t len obtain m where m: "heap_page b h (last_page_id h) = Some m" "slot_count m = 0" "unat (usable_space m) < space_needed m bs"
    by (auto simp: gives_up_def takes_rows_def)
  have "last_page_id h \<in> set ps" using ok by (metis heap_ok_def last_in_set)
  then have inv: "sp_inv m" using heap_ok_page [OF ok] m(1) by (metis option.inject)
  have "unat (usable_space m) = 4072" using m(2) by (simp add: unat_usable [OF inv] live_bytes_def)
  moreover have "space_needed m bs = length bs + 8"
    using find_slot_None [of m] m(2) by (simp add: space_needed_def slot_cost_def empty_slot_def)
  ultimately show False using m(3) len by simp
qed

text \<open>
  However many slots an emptied page keeps, it has room for 456 bytes, because a page never has more than 452 slots: a slot
  is added only when all the others are in use.
\<close>

lemma small_no_abort:
  assumes ok: "heap_ok b h ps" and len: "length bs \<le> 456"
  shows "\<not> gives_up b h bs"
proof
  assume "gives_up b h bs"
  with len obtain m where m: "heap_page b h (last_page_id h) = Some m" "tuple_count m = 0" "unat (usable_space m) < space_needed m bs"
    by (auto simp: gives_up_def)
  have "last_page_id h \<in> set ps" using ok by (metis heap_ok_def last_in_set)
  then have inv: "sp_inv m" using heap_ok_page [OF ok] m(1) by (metis option.inject)
  have "card {i. i < nslots m \<and> 0 < slen m i} = 0" using sp_invD(5) [OF inv] m(2) by simp
  then have dead: "slen m i = 0" if "i < nslots m" for i using that by simp
  then have room: "unat (usable_space m) = 4072 - 8 * nslots m" by (simp add: unat_usable [OF inv] live_bytes_def)
  show False
  proof (cases "nslots m = 0")
    case True
    then show False using room m(3) len by (simp add: space_needed_def slot_cost_def split: if_splits)
  next
    case False
    have "empty_slot m \<noteq> None"
    proof
      assume "empty_slot m = None"
      from find_slot_None [OF this [unfolded empty_slot_def], of 0] dead [of 0] False show False by simp
    qed
    then have "space_needed m bs = length bs" by (auto simp: space_needed_def slot_cost_def)
    then show False using room nslots_few [OF inv] m(3) len by simp
  qed
qed

lemma viewed_tuple_count:
  assumes inv: "sp_inv m" and v: "sp_view m j = Some bs"
  shows "tuple_count m \<noteq> 0"
proof -
  have "j \<in> {i. i < nslots m \<and> 0 < slen m i}" using v by (auto simp: sp_view_def split: if_splits)
  then have "card {i. i < nslots m \<and> 0 < slen m i} \<noteq> 0" by auto
  then show ?thesis using sp_invD(5) [OF inv] by auto
qed

lemma inserted_takes_rows:
  assumes "inserted b h ps rid bs b' h' ps'"
  shows "takes_rows b' h'"
proof -
  have i: "heap_ok b' h' ps'" "heap_rows b' h' ps' rid = Some bs" "page_id rid = last_page_id h'"
    using assms by (auto simp: inserted_def heap_ok_def)
  then obtain m where m: "heap_page b' h' (last_page_id h') = Some m" "sp_view m (unat (slot_num rid)) = Some bs" "last_page_id h' \<in> set ps'"
    by (auto simp: heap_rows_def bind_eq_Some_conv split: if_splits)
  then have "sp_inv m" using heap_ok_page [OF i(1)] by (metis option.inject)
  then show ?thesis using viewed_tuple_count m by (auto simp: takes_rows_def)
qed

text \<open>A new table on a pool with a free frame is well-formed, has one page and no rows; other files are left alone.\<close>

lemma new_table_empty:
  assumes "client_inv p b hs" and "spare b hs" and "next_page_id b \<noteq> INVALID_PAGE_ID"
  shows "\<exists>b' h. new_TableHeap p b = Some (b', ok h) \<and> heap_file_id h = p \<and> client_inv p b' hs \<and>
    heap_ok b' h [next_page_id b] \<and> heap_rows b' h [next_page_id b] = Map.empty \<and>
    pool_size b' = pool_size b \<and> next_page_id b \<le> next_page_id b' \<and> next_page_id b' = next_page_id b + 1 \<and> takes_rows b' h \<and>
    (\<forall>k x. k \<noteq> (p, next_page_id b) \<longrightarrow> bpm_view b k = Some x \<longrightarrow> bpm_view b' k = Some x) \<and>
    (\<forall>p'. p' \<noteq> p \<longrightarrow> fresh_numbers p' b \<longrightarrow> fresh_numbers p' b')"
proof (rule new_table_page [OF assms])
  fix b1 g b2 let ?n = "next_page_id b" and ?m = "sp_init (next_page_id b) zero_page"
  assume n: "new_page p b = (b1, ok (Some (g, ?n)))" "lock g b1 = (b2, ok ())" "holds p ?n g b2 hs"
    "guard_data g b2 = zero_page" "?n < next_page_id b2"
    and frame: "\<And>k x. k \<noteq> (p, ?n) \<Longrightarrow> bpm_view b k = Some x \<Longrightarrow> bpm_view b2 k = Some x" "pool_size b2 = pool_size b"
    "\<And>p'. p' \<noteq> p \<Longrightarrow> fresh_numbers p' b \<Longrightarrow> fresh_numbers p' b2"
    and next_id: "next_page_id b2 = ?n + 1"
  note P = holds_put [OF n(3) fresh_page(5)]
  note D = holds_drop [OF P(1)]
  let ?b = "fst (write_guard_drop (Some g) (guard_write g (\<lambda>_. ?m) b2))"
  let ?h = "\<lparr>heap_file_id = p, first_page_id = ?n, last_page_id = ?n,
    free_space_map = [?n \<mapsto> usable_space (guard_data g (guard_write g (\<lambda>_. ?m) b2))]\<rparr>"
  have run: "init_pages g ?n ?n (b1, \<lparr>heap_file_id = p, first_page_id = ?n, last_page_id = INVALID_PAGE_ID,
      free_space_map = Map.empty\<rparr>) = Some ((?b, ?h), ok ())"
    using assms(3) by (subst init_pages.simps, subst init_pages.simps)
      (simp add: n(2,4) fresh_page(4) Let_def note_space_def set_bytes_def drop_write_def)
  have v: "heap_page ?b ?h ?n = Some ?m" using view_keptD [OF D(2)] by (simp add: P(2) heap_page_def)
  have "heap_ok ?b ?h [?n]" using v fresh_page n(5) D(3) by (simp add: heap_ok_def page_ok_def)
  moreover have "heap_rows ?b ?h [?n] = Map.empty" using v fresh_page(2) by (auto simp: heap_rows_def fun_eq_iff)
  moreover have "takes_rows ?b ?h" using v fresh_page(7) [of ?n] by (simp add: takes_rows_def)
  moreover have "next_page_id ?b = next_page_id b2" "pool_size ?b = pool_size b2" "fresh_numbers p' ?b = fresh_numbers p' b2" for p'
    by (simp_all add: write_guard_drop_def fresh_numbers_def)
  moreover have "bpm_view ?b k = Some x" if "k \<noteq> (p, ?n)" "bpm_view b k = Some x" for k x
    using view_keptD [OF D(2)] frame(1) [OF that] that(1) by (simp add: P(2))
  ultimately show ?thesis using D(1) frame(2,3) n(5) next_id by (simp add: new_TableHeap_def n(1) run)
qed

lemma find_last_ok:
  assumes "client_inv p b hs" and "spare b hs" and "linked v (ps @ [q]) INVALID_PAGE_ID"
    and "\<forall>k \<in> set (ps @ [q]). k < next_page_id b \<and> bpm_view b (p, k) = v k"
  shows "\<exists>b'. find_last p (hd (ps @ [q])) b = Some (b', ok (Some q)) \<and> client_inv p b' hs \<and> view_kept b b' \<and>
    next_page_id b' = next_page_id b"
  using assms
proof (induction ps arbitrary: b)
  case Nil
  then obtain m where m: "bpm_view b (p, q) = Some m" "get_next_page_id m = INVALID_PAGE_ID" "q < next_page_id b"
    by (auto simp: page_ok_def)
  show ?case
  proof (rule read_access [OF Nil(1) m(1,3)])
    assume "all_pinned b"
    then show ?thesis using spare_not_full [OF _ Nil(2)] Nil(1) by (simp add: client_inv_def)
  next
    fix b1 f assume r: "bpm_read_page p q b = (b1, ok (Some f))" "guard_data f b1 = m" "client_inv p (drop_read f b1) hs"
      "view_kept b (drop_read f b1)" "next_page_id (drop_read f b1) = next_page_id b"
    then show ?thesis using m(2) by (subst find_last.simps) (simp add: Let_def)
  qed
next
  case (Cons k ps)
  let ?r = "hd (ps @ [q])"
  have r: "?r \<in> set (ps @ [q])" by (cases ps) auto
  from Cons.prems(3) have link: "page_ok v k ?r" by (cases ps) auto
  then obtain m where m: "bpm_view b (p, k) = Some m" "get_next_page_id m = ?r" "k < next_page_id b"
    using Cons.prems(4) by (auto simp: page_ok_def)
  have ne: "?r \<noteq> INVALID_PAGE_ID" using Cons.prems(4) r by (intro used_number [of _ "next_page_id b"]) auto
  show ?case
  proof (rule read_access [OF Cons.prems(1) m(1,3)])
    assume "all_pinned b"
    then show ?thesis using spare_not_full [OF _ Cons.prems(2)] Cons.prems(1) by (simp add: client_inv_def)
  next
    fix b1 f assume a: "bpm_read_page p k b = (b1, ok (Some f))" "guard_data f b1 = m" "client_inv p (drop_read f b1) hs"
      "view_kept b (drop_read f b1)" "next_page_id (drop_read f b1) = next_page_id b" "pool_size (drop_read f b1) = pool_size b"
    have l: "linked v (ps @ [q]) INVALID_PAGE_ID" using Cons.prems(3) by simp
    have "bpm_view (drop_read f b1) (p, x) = v x" if "x \<in> set (ps @ [q])" for x
      using linked_page [OF l that] view_keptD [OF a(4), of "(p, x)"] Cons.prems(4) that by auto
    then have "\<forall>x \<in> set (ps @ [q]). x < next_page_id (drop_read f b1) \<and> bpm_view (drop_read f b1) (p, x) = v x"
      using Cons.prems(4) a(5) by simp
    moreover have "spare (drop_read f b1) hs" using Cons.prems(2) a(6) by (simp add: spare_def)
    ultimately obtain b' where "find_last p ?r (drop_read f b1) = Some (b', ok (Some q))" "client_inv p b' hs"
      "view_kept (drop_read f b1) b'" "next_page_id b' = next_page_id (drop_read f b1)"
      using Cons.IH [OF a(3) _ l] by blast
    then show ?thesis using a(1,2,5) m(2) ne view_kept_trans [OF a(4)]
      by (intro exI [of _ b']) (simp add: find_last.simps [of p k] Let_def)
  qed
qed



subsection \<open>Insertion\<close>


lemma example_has_room: "has_room (example_pool (sp_init 0 zero_page)) example_heap (Tuple_serialize example_tuple)"
  using example_empty_table(3) fresh_page(8) [of 0] space_needed_fresh [of 0 "Tuple_serialize example_tuple"]
  by (simp add: has_room_def example_tuple_ok) (simp add: example_heap_def)

lemma insert_outcomes:
  fixes r :: "(heap_state \<times> RecordId option res) option"
  obtains "r = None" | b h e where "r = Some ((b, h), throw e)" | b h where "r = Some ((b, h), ok None)"
    | b h rid where "r = Some ((b, h), ok (Some rid))"
  by (cases r) (auto, metis obj_sumE option.exhaust)


lemma new_page_zero: "new_page p b = (b', ok (Some (f, q))) \<Longrightarrow> guard_data f b' = zero_page"
  by (simp add: new_page_only(3) guard_data_def)

lemma drop_write_data: "guard_data g (fst (drop_write f s)) = guard_data g (fst s)"
  by (simp add: drop_write_def write_guard_drop_def unpin_frame_def unpin_page_def unlock_def guard_data_def upd_page_def upd_replacer_def
      Let_def split: option.split)

lemma insert_full_same: "insert_tuple m bs = ok (m', None) \<Longrightarrow> m' = m"
  by (auto simp: insert_tuple_def res_bind_eq_Inr Let_def split: if_splits)

lemma insert_loop_empty: "tuple_count (guard_data f (fst s)) = 0 \<Longrightarrow> insert_loop f bs s \<noteq> None"
  using insert_full_same [of "guard_data f (fst s)" bs]
  by (subst insert_loop.simps) (auto split: sum.split prod.split option.split)

text \<open>C38. insert_tuple always returns or ends the process: its loop meets an empty page at the second round at the latest.\<close>

theorem heap_insert_terminates: "heap_insert_tuple t s \<noteq> None"
proof -
  have count: "tuple_count (sp_init q m) = 0" if "length m = PAGE_SIZE" for q m
    using that by (simp add: sp_init_def Let_def buf_simps PAGE_SIZE_def)
  have again: "insert_loop g bs (drop_write f (guard_write g (\<lambda>_. sp_init q (guard_data g b2)) b2, h)) \<noteq> None"
    if n: "new_page p b = (b1, ok (Some (g, q)))"
      and l: "lock g (guard_write f (\<lambda>_. set_next_page_id q (guard_data f b1)) b1) = (b2, ok ())" for p b b1 g q f b2 h bs
  proof (rule insert_loop_empty)
    have "guard_data g b2 = (if g = f then set_next_page_id q (guard_data f b1) else guard_data g b1)"
      using l by (auto simp: lock_def guard_data_def split: Latch.splits)
    then have "length (guard_data g b2) = PAGE_SIZE"
      using new_page_zero [OF n] set_next_page_id_def by (auto simp: zero_page_def PAGE_SIZE_def)
    then show "tuple_count (guard_data g (fst (drop_write f (guard_write g (\<lambda>_. sp_init q (guard_data g b2)) b2, h)))) = 0"
      using count unfolding drop_write_data by (simp add: guard_data_def)
  qed
  have "insert_loop f bs s \<noteq> None" for f bs s
    using again insert_full_same [of "guard_data f (fst s)" bs]
    by (subst insert_loop.simps)
      (auto simp: set_bytes_def note_space_def Let_def split: sum.split prod.split option.split)
  then show ?thesis by (simp add: heap_insert_tuple_def split: prod.split sum.split option.split)
qed

subsection \<open>Deletion\<close>

text \<open>
  Deleting a row of a well-formed table removes that row and no other, and from then on the row cannot be
  read: get_tuple throws for its record id.
\<close>

theorem heap_delete_removes:
  assumes "client_inv (heap_file_id h) b hs" and "heap_ok b h ps" and "heap_rows b h ps rid = Some bs" and "spare b hs"
  shows "\<exists>b' h'. mark_delete rid (b, h) = ((b', h'), ok True) \<and> client_inv (heap_file_id h') b' hs \<and> heap_ok b' h' ps \<and>
    heap_rows b' h' ps = (heap_rows b h ps)(rid := None) \<and> (\<exists>s e. heap_get_tuple rid t (b', h') = (s, throw (Runtime_error e)))"
proof (rule mark_delete_ok [OF assms(1-3)])
  assume "all_pinned b"
  then show ?thesis using spare_not_full [of b hs] assms(1,4) by (simp add: client_inv_def)
next
  fix b' h' assume d: "mark_delete rid (b, h) = ((b', h'), ok True)" "heap_file_id h' = heap_file_id h"
    "client_inv (heap_file_id h) b' hs" "heap_ok b' h' ps" "heap_rows b' h' ps = (heap_rows b h ps)(rid := None)"
    "pool_size b' = pool_size b"
  have c: "client_inv (heap_file_id h') b' hs" using d(2,3) by simp
  have rid: "page_id rid \<in> set ps" using assms(3) by (auto simp: heap_rows_def split: if_splits)
  have "spare b' hs" using assms(4) d(6) by (simp add: spare_def)
  then have "\<not> all_pinned b'" using spare_not_full [of b' hs] c by (simp add: client_inv_def)
  with heap_get_ok [OF c d(4) rid, of t] have "\<exists>s e. heap_get_tuple rid t (b', h') = (s, throw (Runtime_error e))"
    by cases (auto simp: d(5))
  with c d show ?thesis by blast
qed

lemma heap_delete_removes_witness:
  "\<exists>m rid b' h' s e. heap_rows (example_pool m) example_heap [0] rid = Some [7, 8, 9] \<and>
     mark_delete rid (example_pool m, example_heap) = ((b', h'), ok True) \<and>
     heap_get_tuple rid empty_Tuple (b', h') = (s, throw (Runtime_error e))"
proof -
  obtain m rid where m: "sp_inv m" "sp_page_id m = 0" "get_next_page_id m = INVALID_PAGE_ID"
    and "heap_rows (example_pool m) example_heap [0] = [rid \<mapsto> [7, 8, 9]]"
    by (rule page_with_row [of "[7, 8, 9]"]) (simp_all add: storable_def)
  then have row: "heap_rows (example_pool m) example_heap [0] rid = Some [7, 8, 9]" by simp
  note E = example_table [OF m]
  from heap_delete_removes [OF E(7,2) row E(4), of empty_Tuple] row show ?thesis by blast
qed

subsection \<open>The emptied page\<close>

text \<open>
  C40. A table whose last page has lost all its tuples but keeps n slots cannot take a tuple of between
  4072 - 8 n and 4064 bytes: insert_tuple ends the process with the message that the tuple is too
  large for a page, although the same tuple fits in a fresh page.
\<close>

theorem heap_insert_aborts_on_emptied_page:
  assumes "client_inv (heap_file_id h) b hs" and "heap_ok b h ps" and "spare b hs"
    and "heap_page b h (last_page_id h) = Some m" and "tuple_count m = 0" and "0 < slot_count m"
    and "storable (Tuple_serialize t)" and "4072 < length (Tuple_serialize t) + 8 * unat (slot_count m)"
    and "length (Tuple_serialize t) \<le> 4064"
  shows "(\<exists>s. heap_insert_tuple t (b, h) = Some (s, throw (Terminated ''Tuple too large to fit in a single page''))) \<and>
    (\<forall>q. \<exists>m' rid. insert_tuple (sp_init q zero_page) (Tuple_serialize t) = ok (m', Some rid))"
proof
  let ?bs = "Tuple_serialize t" and ?q = "last_page_id h"
  have "?q \<in> set ps" using assms(2) by (metis heap_ok_def last_in_set)
  then obtain m' where "bpm_view b (heap_file_id h, ?q) = Some m'" "heap_page b h ?q = Some m'" "sp_inv m'" "?q < next_page_id b"
    using heap_ok_page [OF assms(2)] by metis
  then have m: "bpm_view b (heap_file_id h, ?q) = Some m" "sp_inv m" "?q < next_page_id b" using assms(4) by simp_all
  have none: "card {i. i < nslots m \<and> 0 < slen m i} = 0" using sp_invD(5) [OF m(2)] assms(5) by simp
  then have dead: "slen m i = 0" if "i < nslots m" for i using that by simp
  then have "live_bytes m = 0" by (simp add: live_bytes_def)
  then have "unat (usable_space m) + 8 * nslots m = 4072"
    using sp_invD(2,3) [OF m(2)] by (simp add: unat_usable [OF m(2)])
  moreover have "space_needed m ?bs \<ge> length ?bs" by (simp add: space_needed_def)
  ultimately have small: "unat (usable_space m) < space_needed m ?bs" using assms(8) by linarith
  show "\<exists>s. heap_insert_tuple t (b, h) = Some (s, throw (Terminated ''Tuple too large to fit in a single page''))"
  proof (rule write_access [OF assms(1) m(1,3)])
    assume "all_pinned b"
    then show ?thesis using spare_not_full [of b hs] assms(1,3) by (simp add: client_inv_def)
  next
    fix b1 f assume w: "bpm_write_page (heap_file_id h) ?q b = (b1, ok (Some f))" "guard_data f b1 = m"
    then have "insert_loop f ?bs (b1, h) = Some ((b1, h), throw (Terminated ''Tuple too large to fit in a single page''))"
      using insert_loop_aborts [of f b1 ?bs h] m(2) assms(5,7) small by simp
    then show ?thesis using w(1) by (simp add: heap_insert_tuple_def)
  qed
  show "\<forall>q. \<exists>m' rid. insert_tuple (sp_init q zero_page) ?bs = ok (m', Some rid)"
  proof
    fix q
    have "space_needed (sp_init q zero_page) ?bs \<le> unat (usable_space (sp_init q zero_page))"
      using assms(9) by (simp add: fresh_page space_needed_fresh)
    from insert_fits [OF fresh_page(1) assms(7) this] show "\<exists>m' rid. insert_tuple (sp_init q zero_page) ?bs = ok (m', Some rid)" by metis
  qed
qed

text \<open>A page with two slots whose tuples are gone.\<close>

definition emptied_page :: pagebuf where
  "emptied_page = put_u32 8 2 (sp_init 0 zero_page)"

lemma emptied_page_ok:
  "sp_inv emptied_page" "sp_page_id emptied_page = 0" "get_next_page_id emptied_page = INVALID_PAGE_ID"
  "tuple_count emptied_page = 0" "slot_count emptied_page = 2"
proof -
  have len: "length (sp_init 0 zero_page) = 4096" using fresh_page(5) [of 0] by (simp add: PAGE_SIZE_def)
  have z: "length zero_page = 4096" by (simp add: zero_page_def PAGE_SIZE_def)
  show h: "sp_page_id emptied_page = 0" "get_next_page_id emptied_page = INVALID_PAGE_ID"
    "tuple_count emptied_page = 0" "slot_count emptied_page = 2"
    using len fresh_page [of 0] by (simp_all add: emptied_page_def buf_simps)
  have sl: "slot_length emptied_page i = 0" if "i < 2" for i
    using that z by (simp add: emptied_page_def slot_length_def sp_init_def Let_def buf_simps zero_header)
  have "free_space_pointer emptied_page = 4096" "dead_space emptied_page = 0"
    using z len by (simp_all add: emptied_page_def buf_simps) (simp_all add: sp_init_def Let_def buf_simps dead_space_def zero_header)
  then show "sp_inv emptied_page"
    using len h sl by (simp add: sp_inv_def payload_ranges_ok_def live_bytes_def PAGE_SIZE_def cong: conj_cong)
      (simp add: emptied_page_def)
qed

lemma heap_insert_aborts_on_emptied_page_witness:
  "\<exists>s. heap_insert_tuple (tuple_of (replicate 4060 1)) (example_pool emptied_page, example_heap) =
     Some (s, throw (Terminated ''Tuple too large to fit in a single page''))"
proof -
  note E = example_table [OF emptied_page_ok(1-3)]
  have "heap_page (example_pool emptied_page) example_heap (last_page_id example_heap) = Some emptied_page"
    using E(3) by (simp add: example_heap_def)
  from heap_insert_aborts_on_emptied_page [OF E(7,2,4) this emptied_page_ok(4), of "tuple_of (replicate 4060 1)"]
  show ?thesis by (simp add: emptied_page_ok(5) tuple_of_def Tuple_serialize_def storable_def)
qed

end
