(* ===== verification/Query_Properties.thy ===== *)
theory Query_Properties
  imports Executor_Contract TupleLayout Heap_Properties
begin

section \<open>Queries\<close>

text \<open>
  Trees of executors over a table: projection over filter over sequential scan, limit over a scan, and the sort.
  The executors of the tree are interpretations of the contract of the theory Executor_Contract.
\<close>

declare split_paired_All [simp del] split_paired_Ex [simp del]

subsection \<open>Select, from, where\<close>

interpretation filtered_scan: executor "filter_next predicate schema seq_scan_next"
  "filter_yields (scan_yields oid info hs ps v) (passes predicate schema)"
  by (rule table_scan.filter_executor)

interpretation select_query: executor "projection_next plan schema (filter_next predicate schema seq_scan_next)"
  "project_yields (filter_yields (scan_yields oid info hs ps v) (passes predicate schema)) (project_row plan schema)"
  by (rule filtered_scan.projection_executor)

text \<open>A scan leaves the table as it was.\<close>

lemma scanning_same:
  assumes "scanning h hs ps v b" and "scanning h hs ps v b'" and "heap_ok b h ps"
  shows "heap_ok b' h ps" and "heap_rows b' h ps = heap_rows b h ps"
proof -
  have p: "heap_page b' h q = v q \<and> heap_page b h q = v q \<and> q < next_page_id b'" if "q \<in> set ps" for q
    using assms(1,2) that by (simp add: scanning_def)
  have "linked v ps INVALID_PAGE_ID" using assms(1) by (simp add: scanning_def)
  then have "linked (heap_page b' h) ps INVALID_PAGE_ID" by (rule linked_keep) (simp add: p)
  then show "heap_ok b' h ps" using assms(3) p by (simp add: heap_ok_def)
  show "heap_rows b' h ps = heap_rows b h ps" by (auto simp: heap_rows_def p fun_eq_iff)
qed

lemma scan_ready:
  assumes t: "table_ready oid hs ps c info" and y: "scan_yields oid info hs ps (heap_page (bpm c) (ti_table info)) s rows"
  shows "table_ready oid hs ps (fst s) info" and "rows_of (fst s) info ps = rows_of c info ps"
proof -
  have S: "scanning (ti_table info) hs ps (heap_page (bpm c) (ti_table info)) (bpm c)" and H: "heap_ok (bpm c) (ti_table info) ps"
    using t by (auto simp: table_ready_def scanning_def heap_ok_def)
  have S': "scanning (ti_table info) hs ps (heap_page (bpm c) (ti_table info)) (bpm (fst s))" "get_table oid (fst s) = Some info"
    using y by (simp_all add: scan_yields_def)
  note same = scanning_same [OF S S'(1) H]
  show "table_ready oid hs ps (fst s) info" using same(1) S' by (simp add: table_ready_def scanning_def)
  show "rows_of (fst s) info ps = rows_of c info ps" using same(2) by (simp add: rows_of_def)
qed

text \<open>What init leaves to be yielded: the rows that satisfy the predicate, projected.\<close>

lemma select_start:
  assumes t: "table_ready oid hs ps c info"
    and fresh: "pr_child_offset x = 0" "f_child_offset (pr_child x) = 0"
    and total: "\<And>rid bs. rows_of c info ps rid = Some bs \<Longrightarrow> passes predicate schema (tuple_of bs) = ok (keep bs) \<and>
        (keep bs \<longrightarrow> project_row plan schema (tuple_of bs) = ok (image_of bs))"
  obtains live s where "map_of live = rows_of c info ps" and "distinct (map fst live)"
    and "projection_init (filter_init (seq_scan_init oid)) (c, x) = Some (s, ok ())"
    and "project_yields (filter_yields (scan_yields oid info hs ps (heap_page (bpm c) (ti_table info))) (passes predicate schema))
      (project_row plan schema) s (map (\<lambda>r. (image_of (snd r), fst r)) (filter (\<lambda>r. keep (snd r)) live))"
proof -
  let ?v = "heap_page (bpm c) (ti_table info)" and ?pass = "passes predicate schema" and ?f = "project_row plan schema"
  let ?live = "table_rows ?v ps" and ?scan = "scan_yields oid info hs ps ?v"
  let ?out = "map (\<lambda>r. (image_of (snd r), fst r)) (filter (\<lambda>r. keep (snd r)) ?live)"
  have ps: "distinct ps" using t by (simp add: table_ready_def heap_ok_def)
  have live: "map_of ?live = rows_of c info ps" "distinct (map fst ?live)"
    using table_rows_map [OF ps] distinct_table_rows [OF ps] by (simp_all add: rows_of_def)
  have row: "rows_of c info ps (fst r) = Some (snd r)" if "r \<in> set ?live" for r
    using live that by (metis map_of_is_SomeI prod.collapse)
  from seq_scan_init_ok [OF t] obtain b it where i: "seq_scan_init oid (c, f_child (pr_child x)) =
      Some ((c\<lparr>bpm := b\<rparr>, \<lparr>ss_table = oid, ss_iter = it\<rparr>), ok ())"
    "scanning (ti_table info) hs ps ?v b" "iter_at ?v ps it ?live" by blast
  let ?s = "\<lparr>ss_table = oid, ss_iter = it\<rparr>" and ?c = "c\<lparr>bpm := b\<rparr>"
  let ?x = "x\<lparr>pr_child := (pr_child x)\<lparr>f_child := ?s\<rparr>\<rparr>"
  have init: "projection_init (filter_init (seq_scan_init oid)) (c, x) = Some ((?c, ?x), ok ())"
    using i(1) by (simp add: projection_init_def filter_init_def on_child_def)
  have "?scan (?c, ?s) (map heap_row ?live)" using t i by (auto simp: scan_yields_def table_ready_def)
  moreover have "filter_rest ?pass (map heap_row ?live) = ok (map heap_row (filter (\<lambda>r. keep (snd r)) ?live))"
    using total row by (intro filter_rest_total) blast
  moreover have "project_rows ?f (map heap_row (filter (\<lambda>r. keep (snd r)) ?live)) = ok ?out"
    using total row by (intro project_rows_total) auto
  ultimately have "project_yields (filter_yields ?scan ?pass) ?f (?c, ?x) ?out"
    using fresh by (auto simp: project_yields_def filter_yields_def project_left_def filter_left_def)
  then show thesis by (rule that [OF live init])
qed

lemma select_ready:
  assumes t: "table_ready oid hs ps c info" and y: "project_yields (filter_yields (scan_yields oid info hs ps
      (heap_page (bpm c) (ti_table info))) p) f s rows"
  shows "table_ready oid hs ps (fst s) info" and "rows_of (fst s) info ps = rows_of c info ps"
  using y scan_ready [OF t, of "(fst s, f_child (pr_child (snd s)))"] by (auto simp: project_yields_def filter_yields_def)

text \<open>
  C7. A query of the form SELECT expressions FROM table WHERE predicate, built from the executors as projection over filter
  over scan, ends and returns exactly the rows of the table that satisfy the predicate, each projected once, in
  batches of any size, if the expressions evaluate on the rows.
\<close>

theorem select_returns_matching_rows:
  assumes t: "table_ready oid hs ps c info" and n: "0 < n"
    and fresh: "pr_child_offset x = 0" "f_child_offset (pr_child x) = 0"
    and total: "\<And>rid bs. rows_of c info ps rid = Some bs \<Longrightarrow> passes predicate schema (tuple_of bs) = ok (keep bs) \<and>
        (keep bs \<longrightarrow> project_row plan schema (tuple_of bs) = ok (image_of bs))"
  shows "\<exists>live s. map_of live = rows_of c info ps \<and> distinct (map fst live) \<and>
    run_query (projection_init (filter_init (seq_scan_init oid))) (projection_next plan schema (filter_next predicate schema seq_scan_next)) n (c, x) =
      Some ((s, map (\<lambda>r. (image_of (snd r), fst r)) (filter (\<lambda>r. keep (snd r)) live)), ok ())"
proof (rule select_start [OF t fresh total])
  fix live s
  assume l: "map_of live = rows_of c info ps" "distinct (map fst live)"
    "projection_init (filter_init (seq_scan_init oid)) (c, x) = Some (s, ok ())"
    "project_yields (filter_yields (scan_yields oid info hs ps (heap_page (bpm c) (ti_table info))) (passes predicate schema))
      (project_row plan schema) s (map (\<lambda>r. (image_of (snd r), fst r)) (filter (\<lambda>r. keep (snd r)) live))"
  from select_query.drain_all [OF l(4) n] show ?thesis using l(1-3) by (auto simp: run_query_def)
qed

text \<open>A catalog with one table, of one page.\<close>

definition example_info :: TableInfo where
  "example_info = \<lparr>ti_name = ''t'', ti_schema = [], ti_table = example_heap, ti_oid = 0\<rparr>"

definition example_catalog :: "pagebuf \<Rightarrow> Catalog" where
  "example_catalog m = \<lparr>bpm = example_pool m, catalog_file_path = ''catalog'', db_dir = ''data'', metadatas = [], databases = [],
     tables = [(0, example_info)], table_oids = [(''t'', 0)], next_table_oid = 1\<rparr>"

lemma example_ready:
  assumes "sp_inv m" and "sp_page_id m = 0" and "get_next_page_id m = INVALID_PAGE_ID"
  shows "table_ready 0 [] [0] (example_catalog m) example_info"
    and "rows_of (example_catalog m) example_info [0] = heap_rows (example_pool m) example_heap [0]"
  using example_table [OF assms] by (simp_all add: table_ready_def rows_of_def example_catalog_def example_info_def get_table_def)


text \<open>A row of one TINYINT column with the value 5, and the query SELECT a FROM t WHERE a > 3.\<close>

definition tiny_schema :: ColumnSchema where
  "tiny_schema = [\<lparr>col_name = ''a'', col_type = TINYINT, col_length = 0\<rparr>]"

definition column_a :: Expression where
  "column_a = Expression (ColumnValueExpression 0 0) [] (val_column TINYINT)"

definition a_above_3 :: Expression where
  "a_above_3 = Expression (ComparisonExpression GreaterThan)
     [column_a, Expression (ConstantValueExpression (Value_int8 TINYINT 3)) [] (val_column TINYINT)] (val_column BOOLEAN)"

lemma tiny_row:
  "passes (Some a_above_3) tiny_schema (tuple_of [0, 5]) = ok True"
  "project_row \<lparr>pp_schema = tiny_schema, pp_expressions = [column_a]\<rparr> tiny_schema (tuple_of [0, 5]) = ok (tuple_of [0, 5])"
  by code_simp+

definition new_scan :: SeqScanExecutor where
  "new_scan = \<lparr>ss_table = 0, ss_iter = \<lparr>current_id = default_RecordId, current_tuple = empty_Tuple\<rparr>\<rparr>"

lemma one_row:
  assumes "map_of live = [k \<mapsto> x]" and "distinct (map fst live)"
  obtains y where "live = [(k, y)]"
proof -
  have "set (map fst live) = {k}" using assms(1) by (metis dom_eq_singleton_conv dom_map_of_conv_image_fst list.set_map)
  then have "length live = 1" using distinct_card [OF assms(2)] by simp
  then obtain z where "live = [z]" by (cases live) auto
  then show thesis using that [of "snd z"] \<open>set (map fst live) = {k}\<close> by (cases z) simp
qed

lemma select_returns_matching_rows_witness:
  "\<exists>m rid s. run_query (projection_init (filter_init (seq_scan_init 0)))
     (projection_next \<lparr>pp_schema = tiny_schema, pp_expressions = [column_a]\<rparr> tiny_schema (filter_next (Some a_above_3) tiny_schema seq_scan_next))
     256 (example_catalog m, \<lparr>pr_child = \<lparr>f_child = new_scan, f_child_rows = [], f_child_offset = 0\<rparr>, pr_child_rows = [], pr_child_offset = 0\<rparr>) =
     Some ((s, [(tuple_of [0, 5], rid)]), ok ())"
proof -
  obtain m rid where m: "sp_inv m" "sp_page_id m = 0" "get_next_page_id m = INVALID_PAGE_ID"
    and row: "heap_rows (example_pool m) example_heap [0] = [rid \<mapsto> [0, 5]]"
    by (rule page_with_row [of "[0, 5]"]) (simp_all add: storable_def)
  note R = example_ready [OF m]
  let ?x = "\<lparr>pr_child = \<lparr>f_child = new_scan, f_child_rows = [], f_child_offset = 0\<rparr>, pr_child_rows = [], pr_child_offset = 0\<rparr>"
  have total: "passes (Some a_above_3) tiny_schema (tuple_of bs) = ok True \<and> (True \<longrightarrow>
      project_row \<lparr>pp_schema = tiny_schema, pp_expressions = [column_a]\<rparr> tiny_schema (tuple_of bs) = ok (tuple_of [0, 5]))"
    if "rows_of (example_catalog m) example_info [0] r = Some bs" for r bs
    using that R(2) row tiny_row by (simp split: if_splits)
  have fresh: "pr_child_offset ?x = 0" "f_child_offset (pr_child ?x) = 0" by simp_all
  obtain live :: "(RecordId \<times> u8 list) list" and s where l: "map_of live = [rid \<mapsto> [0, 5]]" "distinct (map fst live)"
    "run_query (projection_init (filter_init (seq_scan_init 0)))
       (projection_next \<lparr>pp_schema = tiny_schema, pp_expressions = [column_a]\<rparr> tiny_schema (filter_next (Some a_above_3) tiny_schema seq_scan_next))
       256 (example_catalog m, ?x) = Some ((s, map (\<lambda>r. (tuple_of [0, 5], fst r)) (filter (\<lambda>r. True) live)), ok ())"
    using select_returns_matching_rows [OF R(1) _ fresh, where n = 256 and predicate = "Some a_above_3" and schema = tiny_schema
        and plan = "\<lparr>pp_schema = tiny_schema, pp_expressions = [column_a]\<rparr>" and keep = "\<lambda>_. True" and image_of = "\<lambda>_. tuple_of [0, 5]"]
      total R(2) row by auto
  obtain y where "live = [(rid, y)]" by (rule one_row [OF l(1,2)])
  then show ?thesis using l(3) by auto
qed

subsection \<open>Limit\<close>

lemma limit_loop_ok:
  "e + k \<le> limit \<Longrightarrow> limit_loop limit k rows e = (if k \<le> length rows
     then (e + k, ok (map (\<lambda>r. (Tuple_copy (fst r), snd r)) (take k rows)))
     else (e + length rows, throw (Undefined ''vector index out of range'')))"
proof (induction k arbitrary: e rows)
  case (Suc k)
  show ?case
  proof (cases rows)
    case (Cons r rest)
    then show ?thesis using Suc.IH [of "e + 1" rest] Suc.prems by (cases r) auto
  qed (use Suc.prems in simp)
qed simp

context full_executor
begin

lemma limit_over:
  assumes y: "yields (c, l_child x) rows" and e: "emitted_count x \<le> limit" and n: "0 < n"
  defines "k \<equiv> min n (limit - emitted_count x)"
  shows "\<exists>s. limit_next limit next_rows n (c, x) = Some (s,
     if rows = [] then ok ([], False) else if k \<le> length rows then ok (take k rows, 0 < k)
     else throw (Undefined ''vector index out of range''))"
proof -
  from next_law [OF y n] obtain s' batch rest where nx: "next_rows n (c, l_child x) = Some (s', ok (batch, batch \<noteq> []))"
    "rows = batch @ rest" "rows \<noteq> [] \<longrightarrow> batch \<noteq> []" by blast
  obtain c2 z where s': "s' = (c2, z)" by (cases s')
  have len: "length batch = min n (length rows)" using full [OF y nx(1)] .
  have copy: "map (\<lambda>r. (Tuple_copy (fst r), snd r)) (take k batch) = take k batch"
    using stored [OF y] nx(2) by (intro map_idI) (auto simp: Tuple_copy_def dest: in_set_takeD)
  have L: "limit_loop limit k batch (emitted_count x) = (if k \<le> length batch then (emitted_count x + k, ok (take k batch))
      else (emitted_count x + length batch, throw (Undefined ''vector index out of range'')))"
    using limit_loop_ok [of "emitted_count x" k limit batch] e copy by (simp add: k_def)
  have k: "k \<le> length batch \<longleftrightarrow> k \<le> length rows" using len by (auto simp: k_def)
  have take: "k \<le> length batch \<Longrightarrow> take k rows = take k batch" using nx(2) by simp
  show ?thesis
  proof (cases "rows = []")
    case True
    then show ?thesis using nx(1,2) s' e by (simp add: limit_next_def k_def)
  next
    case False
    then have "batch \<noteq> []" using nx(3) by blast
    then show ?thesis using nx(1) s' e L k take False by (auto simp: limit_next_def k_def [symmetric] Let_def)
  qed
qed

end



end
