(* ===== verification/ExpressionSemantics.thy ===== *)
theory ExpressionSemantics
  imports Expressions TupleLayout
begin

section \<open>What expressions compute\<close>

text \<open>
  A reference semantics for expressions over integer and boolean columns: NULL is None, numbers are
  integers, truth values 1 and 0, logic is Kleene's. Well-typed expressions (\<open>has_type\<close>, which
  the constructors establish) evaluate to it.
\<close>

definition int_type :: "DataType \<Rightarrow> bool" where
  "int_type t \<longleftrightarrow> t \<in> {TINYINT, SMALLINT, INTEGER, BIGINT}"

definition typed_value :: "DataType \<Rightarrow> Value \<Rightarrow> bool" where
  "typed_value t v \<longleftrightarrow> (if int_type t then check_integer v \<and> (is_null v \<or> int_ok v \<and> data_type v = t)
     else t = BOOLEAN \<and> data_type v = BOOLEAN \<and> (is_null v \<or> 1 \<le> init v \<and> uint (raw v) mod 256 \<in> {0, 1}))"

text \<open>The number, or the truth value, that a value stands for.\<close>

definition meaning_of :: "Value \<Rightarrow> int option" where
  "meaning_of v = (if is_null v then None else if data_type v = BOOLEAN then Some (uint (raw v) mod 256) else Some (int_value v))"

subsection \<open>Reference semantics\<close>

text \<open>Three-valued logic is the lattice of the order in which NULL is between false and true.\<close>

fun rank :: "CmpBool \<Rightarrow> nat" where
  "rank CmpFalse = 0" | "rank CmpNull = 1" | "rank CmpTrue = 2"

lemma rank_inject: "rank x = rank y \<longleftrightarrow> x = y"
  by (cases x; cases y) simp_all

instantiation CmpBool :: linorder
begin

definition less_eq_CmpBool :: "CmpBool \<Rightarrow> CmpBool \<Rightarrow> bool" where
  "less_eq_CmpBool x y \<longleftrightarrow> rank x \<le> rank y"

definition less_CmpBool :: "CmpBool \<Rightarrow> CmpBool \<Rightarrow> bool" where
  "less_CmpBool x y \<longleftrightarrow> rank x < rank y"

instance
  by standard (auto simp: less_eq_CmpBool_def less_CmpBool_def rank_inject)

end

lemma cmp_bool_order [simp]:
  "x \<le> CmpFalse \<longleftrightarrow> x = CmpFalse" "CmpFalse \<le> x" "x \<le> CmpTrue" "CmpTrue \<le> x \<longleftrightarrow> x = CmpTrue"
  by (cases x; simp add: less_eq_CmpBool_def)+

fun kleene :: "LogicType \<Rightarrow> CmpBool \<Rightarrow> CmpBool \<Rightarrow> CmpBool" where
  "kleene And l r = min l r"
| "kleene Or l r = max l r"

definition truth :: "int option \<Rightarrow> CmpBool" where
  "truth x = (case x of None \<Rightarrow> CmpNull | Some i \<Rightarrow> if i = 0 then CmpFalse else CmpTrue)"

definition of_truth :: "CmpBool \<Rightarrow> int option" where
  "of_truth c = (case c of CmpNull \<Rightarrow> None | CmpFalse \<Rightarrow> Some 0 | CmpTrue \<Rightarrow> Some 1)"

fun arith_op_of :: "ArithmeticType \<Rightarrow> arith_op option" where
  "arith_op_of Addition = Some Plus"
| "arith_op_of Subtraction = Some Minus"
| "arith_op_of Multiplication = Some Times"
| "arith_op_of Division = Some Divided"
| "arith_op_of ModuloOp = Some Modulo"
| "arith_op_of _ = None"

fun cmp_op_of :: "ComparisonType \<Rightarrow> cmp_op" where
  "cmp_op_of Equal = EQ"
| "cmp_op_of NotEqual = NE"
| "cmp_op_of LessThan = LT"
| "cmp_op_of LessThanOrEqual = LE"
| "cmp_op_of GreaterThan = GT"
| "cmp_op_of GreaterThanOrEqual = GE"

text \<open>None is an evaluation that throws; the inner None is NULL. n is the size of the result type.\<close>

definition arith_meaning :: "ArithmeticType \<Rightarrow> nat \<Rightarrow> int option \<Rightarrow> int option \<Rightarrow> int option option" where
  "arith_meaning t n x y = (case (arith_op_of t, x, y) of
     (Some aop, Some a, Some b) \<Rightarrow>
       if aop \<in> {Divided, Modulo} \<and> b = 0 \<or> \<not> in_range n (exact aop a b) then None
       else Some (if exact aop a b = int_null n then None else Some (exact aop a b))
   | (Some _, _, _) \<Rightarrow> Some None
   | _ \<Rightarrow> None)"

definition cmp_meaning :: "ComparisonType \<Rightarrow> int option \<Rightarrow> int option \<Rightarrow> int option" where
  "cmp_meaning t x y = (case (x, y) of
     (Some a, Some b) \<Rightarrow> Some (of_bool (cmp_linorder (cmp_op_of t) a b)) | _ \<Rightarrow> None)"

definition node_meaning :: "ExpressionNode \<Rightarrow> nat \<Rightarrow> int option \<Rightarrow> int option \<Rightarrow> int option option" where
  "node_meaning n k x y = (case n of
     ArithmeticExpression t \<Rightarrow> arith_meaning t k x y
   | ComparisonExpression t \<Rightarrow> Some (cmp_meaning t x y)
   | LogicExpression t \<Rightarrow> Some (of_truth (kleene t (truth x) (truth y)))
   | _ \<Rightarrow> None)"

fun meaning :: "Expression \<Rightarrow> (nat \<Rightarrow> int option) \<Rightarrow> int option option" where
  "meaning (Expression (ColumnValueExpression _ i) _ _) env = Some (env i)"
| "meaning (Expression (ConstantValueExpression v) _ _) env = Some (meaning_of v)"
| "meaning (Expression n (l # r # _) c) env = (case (meaning l env, meaning r env) of
     (Some x, Some y) \<Rightarrow> node_meaning n (int_size (col_type c)) x y | _ \<Rightarrow> None)"
| "meaning _ env = None"

subsection \<open>Typing\<close>

inductive has_type :: "ColumnSchema \<Rightarrow> Expression \<Rightarrow> DataType \<Rightarrow> bool" for schema where
  type_column: "i < length schema \<Longrightarrow> col_type (schema ! i) = t \<Longrightarrow> int_type t \<or> t = BOOLEAN \<Longrightarrow> col_type c = t \<Longrightarrow>
    has_type schema (Expression (ColumnValueExpression k i) cs c) t"
| type_constant: "typed_value t v \<Longrightarrow> col_type c = t \<Longrightarrow> has_type schema (Expression (ConstantValueExpression v) cs c) t"
| type_arithmetic: "has_type schema l t1 \<Longrightarrow> has_type schema r t2 \<Longrightarrow> int_type t1 \<Longrightarrow> int_type t2 \<Longrightarrow>
    arith_op_of op \<noteq> None \<Longrightarrow> get_common_type t1 t2 = ok t \<Longrightarrow> col_type c = t \<Longrightarrow>
    has_type schema (Expression (ArithmeticExpression op) [l, r] c) t"
| type_comparison: "has_type schema l t1 \<Longrightarrow> has_type schema r t2 \<Longrightarrow> int_type t1 \<Longrightarrow> int_type t2 \<Longrightarrow>
    col_type c = BOOLEAN \<Longrightarrow> has_type schema (Expression (ComparisonExpression cmp) [l, r] c) BOOLEAN"
| type_logic: "has_type schema l BOOLEAN \<Longrightarrow> has_type schema r BOOLEAN \<Longrightarrow> col_type c = BOOLEAN \<Longrightarrow>
    has_type schema (Expression (LogicExpression lt) [l, r] c) BOOLEAN"

inductive_cases has_type_columnE: "has_type schema (Expression (ColumnValueExpression k i) cs c) t"
inductive_cases has_type_arithmeticE: "has_type schema (Expression (ArithmeticExpression op) cs c) t"
inductive_simps has_type_logic_iff: "has_type schema (Expression (LogicExpression lt) cs c) t"

lemma has_type_return: "has_type schema e t \<Longrightarrow> col_type (get_return_type e) = t"
  by (induction rule: has_type.induct) auto

lemma int_type_numeric: "int_type t \<Longrightarrow> is_numeric t"
  by (auto simp: int_type_def is_numeric_def)

text \<open>The constructors of the code give well-typed expressions from well-typed operands.\<close>

lemma new_Arithmetic_typed:
  assumes "has_type schema l t1" and "has_type schema r t2" and "int_type t1" and "int_type t2" and "arith_op_of op \<noteq> None"
  shows "\<exists>e t. new_ArithmeticExpression l r op = ok e \<and> get_common_type t1 t2 = ok t \<and> has_type schema e t"
proof -
  obtain t where t: "get_common_type t1 t2 = ok t"
    using assms(3,4) by (auto simp: int_type_def get_common_type_def)
  then have "new_ArithmeticExpression l r op = ok (Expression (ArithmeticExpression op) [l, r] (val_column t))"
    using assms(3,4) has_type_return [OF assms(1)] has_type_return [OF assms(2)]
    by (simp add: new_ArithmeticExpression_def infer_return_type_def Let_def int_type_numeric)
  then show ?thesis using t type_arithmetic [OF assms(1-5) t] by (auto simp: val_column_def)
qed

lemma new_Logic_typed:
  "has_type schema l BOOLEAN \<Longrightarrow> has_type schema r BOOLEAN \<Longrightarrow>
    \<exists>e. new_LogicExpression l r lt = ok e \<and> has_type schema e BOOLEAN"
  by (auto simp: new_LogicExpression_def has_type_return val_column_def intro!: type_logic)

lemma new_Comparison_typed:
  "has_type schema l t1 \<Longrightarrow> has_type schema r t2 \<Longrightarrow> int_type t1 \<Longrightarrow> int_type t2 \<Longrightarrow>
    has_type schema (new_ComparisonExpression l r cmp) BOOLEAN"
  by (auto simp: new_ComparisonExpression_def val_column_def intro: type_comparison)

subsection \<open>Nodes\<close>

lemma logic_is_kleene: "logic t l r = kleene t l r"
  by (cases t; cases l; cases r) (simp_all add: min_def max_def)

lemma typed_int:
  assumes "typed_value t v" and "int_type t"
  shows "check_integer v" and "\<not> is_null v \<Longrightarrow> int_ok v" and "\<not> is_null v \<Longrightarrow> data_type v = t"
    and "meaning_of v = (if is_null v then None else Some (int_value v))"
  using assms by (auto simp: typed_value_def meaning_of_def check_integer_def)

lemma int_size_pos: "int_type t \<Longrightarrow> 0 < int_size t"
  by (auto simp: int_type_def)

lemma get_common_type_int:
  assumes "int_type t1" and "int_type t2"
  shows "get_common_type t1 t2 = ok (if int_size t1 \<ge> int_size t2 then t1 else t2)"
  using assms by (auto simp: int_type_def get_common_type_def)

lemma arith_node:
  assumes l: "typed_value t1 l" "int_type t1" and r: "typed_value t2 r" "int_type t2"
    and aop: "arith_op_of op = Some aop" and t: "get_common_type t1 t2 = ok t"
  shows "case Value_arith aop l r of
      ok v \<Rightarrow> typed_value t v \<and> arith_meaning op (int_size t) (meaning_of l) (meaning_of r) = Some (meaning_of v)
    | throw _ \<Rightarrow> arith_meaning op (int_size t) (meaning_of l) (meaning_of r) = None"
proof (cases "is_null l \<or> is_null r")
  case True
  have it: "int_type t" using t get_common_type_int [OF l(2) r(2)] l(2) r(2) by (auto split: if_splits)
  obtain v where v: "Value_arith aop l r = ok v" "is_null v" "check_integer v"
    using Value_arith_null [OF typed_int(1) [OF l] typed_int(1) [OF r] True] by blast
  moreover have "arith_meaning op (int_size t) (meaning_of l) (meaning_of r) = Some None"
    using True by (elim disjE) (simp_all add: arith_meaning_def meaning_of_def aop split: option.split)
  ultimately show ?thesis using it by (simp add: typed_value_def meaning_of_def)
next
  case False
  then have nn: "\<not> is_null l" "\<not> is_null r" by auto
  note li = typed_int(2,3,4) [OF l] and ri = typed_int(2,3,4) [OF r]
  have t': "t = wider l r" and it: "int_type t"
    using t get_common_type_int [OF l(2) r(2)] li(2) ri(2) nn l(2) r(2) by (auto simp: wider_def split: if_splits)
  let ?z = "exact aop (int_value l) (int_value r)"
  have m: "arith_meaning op (int_size t) (meaning_of l) (meaning_of r)
      = (if aop \<in> {Divided, Modulo} \<and> int_value r = 0 \<or> \<not> in_range (int_size t) ?z then None
         else Some (if ?z = int_null (int_size t) then None else Some ?z))"
    using nn by (simp add: arith_meaning_def aop li(3) ri(3))
  have typed: "typed_value t v \<and> meaning_of v = (if ?z = int_null (int_size t) then None else Some ?z)"
    if "exact_arith aop l r = ok v" for v
    using exact_arith_ok [OF li(1) ri(1) that] nn it int_ok_get(5)
    by (auto simp: typed_value_def meaning_of_def t' int_type_def)
  have ok_iff: "(\<exists>v. exact_arith aop l r = ok v) \<longleftrightarrow> in_range (int_size t) ?z"
    by (auto simp: exact_arith_def Let_def t')
  show ?thesis
  proof (cases "aop \<in> {Divided, Modulo}")
    case True
    then obtain e where "Value_arith aop l r = (if int_value r = 0 then throw e else exact_arith aop l r)"
      using Value_division_exact [OF li(1) ri(1) nn] nn by blast
    then show ?thesis using m typed ok_iff True by (cases "exact_arith aop l r") auto
  next
    case False
    then have "aop \<in> {Plus, Minus, Times}" using aop by (cases op) auto
    then have "Value_arith aop l r = exact_arith aop l r"
      using Value_arith_int [OF li(1) ri(1) nn] nn by blast
    then show ?thesis using m typed ok_iff False by (cases "exact_arith aop l r") auto
  qed
qed

lemma boolean_value:
  "typed_value BOOLEAN (get_boolean_value_cmp c)" "meaning_of (get_boolean_value_cmp c) = of_truth c"
  by (cases c; simp add: typed_value_def int_type_def meaning_of_def get_boolean_value_cmp_def Value_int8_def of_truth_def
      int_null_def; simp add: Value_int_def)+

lemma comparison_node:
  assumes l: "typed_value t1 l" "int_type t1" and r: "typed_value t2 r" "int_type t2"
  shows "\<exists>c. perform_comparison op l r = ok c \<and> of_truth c = cmp_meaning op (meaning_of l) (meaning_of r)"
proof -
  have p: "perform_comparison op l r = Value_compare (cmp_op_of op) l r"
    by (cases op) (simp_all add: perform_comparison_def)
  show ?thesis
  proof (cases "is_null l \<or> is_null r")
    case True
    then show ?thesis using Value_compare_null [OF typed_int(1) [OF l] typed_int(1) [OF r] True]
      by (auto simp: p of_truth_def cmp_meaning_def meaning_of_def split: option.splits)
  next
    case False
    then show ?thesis using Value_compare_int typed_int [OF l] typed_int [OF r]
      by (auto simp: p of_truth_def cmp_meaning_def get_cmp_bool_def)
  qed
qed

lemma typed_bool:
  assumes "typed_value BOOLEAN v"
  shows "get_bool_as_cmp_bool v = ok (truth (meaning_of v))"
  using assms by (auto simp: typed_value_def int_type_def get_bool_as_cmp_bool_def get_as_bool_def meaning_of_def truth_def)

lemma logic_node:
  assumes "typed_value BOOLEAN l" and "typed_value BOOLEAN r"
  shows "perform_logic t l r = ok (kleene t (truth (meaning_of l)) (truth (meaning_of r)))"
  using assms by (simp add: perform_logic_def typed_bool logic_is_kleene)

subsection \<open>Expressions\<close>

fun columns_read :: "Expression \<Rightarrow> nat list" where
  "columns_read (Expression (ColumnValueExpression _ i) _ _) = [i]"
| "columns_read (Expression (ConstantValueExpression _) _ _) = []"
| "columns_read (Expression _ (l # r # _) _) = columns_read l @ columns_read r"
| "columns_read _ = []"

lemma evaluate_meaning:
  assumes "has_type schema e t"
    and "\<forall>i \<in> set (columns_read e). i < length schema \<longrightarrow>
      (\<exists>w. tuple_value schema i tp = ok w \<and> typed_value (col_type (schema ! i)) w \<and> env i = meaning_of w)"
  shows "case evaluate e (Some tp) schema of
      ok v \<Rightarrow> typed_value t v \<and> meaning e env = Some (meaning_of v)
    | throw _ \<Rightarrow> meaning e env = None"
  using assms
proof (induction rule: has_type.induct)
  case (type_column i t c k cs)
  then show ?case by (auto simp: column_of_def)
next
  case (type_constant t v c cs)
  then show ?case by simp
next
  case (type_arithmetic l t1 r t2 op t c)
  then obtain aop where aop: "arith_op_of op = Some aop" by auto
  then have p: "perform_arithmetic op a b = Value_arith aop a b" for a b
    by (cases op) (auto simp: perform_arithmetic_def)
  from type_arithmetic.prems have "\<forall>i \<in> set (columns_read l). i < length schema \<longrightarrow>
      (\<exists>w. tuple_value schema i tp = ok w \<and> typed_value (col_type (schema ! i)) w \<and> env i = meaning_of w)"
    "\<forall>i \<in> set (columns_read r). i < length schema \<longrightarrow>
      (\<exists>w. tuple_value schema i tp = ok w \<and> typed_value (col_type (schema ! i)) w \<and> env i = meaning_of w)"
    by auto
  note IH = type_arithmetic.IH(1) [OF this(1)] type_arithmetic.IH(2) [OF this(2)]
  show ?case
  proof (cases "evaluate l (Some tp) schema")
    case (Inr a)
    show ?thesis
    proof (cases "evaluate r (Some tp) schema")
      case (Inr b)
      with \<open>evaluate l (Some tp) schema = ok a\<close> IH have "typed_value t1 a" "typed_value t2 b"
        "meaning l env = Some (meaning_of a)" "meaning r env = Some (meaning_of b)" by auto
      with arith_node [OF this(1) type_arithmetic.hyps(3) this(2) type_arithmetic.hyps(4) aop type_arithmetic.hyps(6)]
      show ?thesis using Inr \<open>evaluate l (Some tp) schema = ok a\<close> type_arithmetic.hyps(7)
        by (simp add: combine_def p node_meaning_def split: sum.splits)
    qed (use IH Inr in auto)
  qed (use IH in auto)
next
  case (type_comparison l t1 r t2 c cmp)
  then have IH: "case evaluate l (Some tp) schema of ok v \<Rightarrow> typed_value t1 v \<and> meaning l env = Some (meaning_of v)
      | throw _ \<Rightarrow> meaning l env = None"
    "case evaluate r (Some tp) schema of ok v \<Rightarrow> typed_value t2 v \<and> meaning r env = Some (meaning_of v)
      | throw _ \<Rightarrow> meaning r env = None"
    by auto
  show ?case
  proof (cases "evaluate l (Some tp) schema")
    case (Inr a)
    show ?thesis
    proof (cases "evaluate r (Some tp) schema")
      case (Inr b)
      with \<open>evaluate l (Some tp) schema = ok a\<close> IH have ab: "typed_value t1 a" "typed_value t2 b"
        "meaning l env = Some (meaning_of a)" "meaning r env = Some (meaning_of b)" by auto
      obtain d where "perform_comparison cmp a b = ok d" "of_truth d = cmp_meaning cmp (meaning_of a) (meaning_of b)"
        using comparison_node [OF ab(1) type_comparison.hyps(3) ab(2) type_comparison.hyps(4)] by blast
      then show ?thesis using Inr ab \<open>evaluate l (Some tp) schema = ok a\<close>
        by (simp add: combine_def node_meaning_def boolean_value)
    qed (use IH Inr in auto)
  qed (use IH in auto)
next
  case (type_logic l r c lt)
  then have IH: "case evaluate l (Some tp) schema of ok v \<Rightarrow> typed_value BOOLEAN v \<and> meaning l env = Some (meaning_of v)
      | throw _ \<Rightarrow> meaning l env = None"
    "case evaluate r (Some tp) schema of ok v \<Rightarrow> typed_value BOOLEAN v \<and> meaning r env = Some (meaning_of v)
      | throw _ \<Rightarrow> meaning r env = None"
    by auto
  show ?case
  proof (cases "evaluate l (Some tp) schema")
    case (Inr a)
    show ?thesis
    proof (cases "evaluate r (Some tp) schema")
      case (Inr b)
      with \<open>evaluate l (Some tp) schema = ok a\<close> IH show ?thesis
        by (simp add: combine_def node_meaning_def boolean_value logic_node)
    qed (use IH Inr in auto)
  qed (use IH in auto)
qed

subsection \<open>Properties\<close>

lemma typed_same:
  assumes v: "typed_value t v" and same: "same_value v w"
  shows "typed_value t w" and "meaning_of w = meaning_of v"
proof -
  have d: "data_type w = data_type v" "is_null w = is_null v" using same by (simp_all add: same_value_def)
  have b: "uint (raw w) mod 256 = uint (raw v) mod 256" "1 \<le> init w" if "data_type v = BOOLEAN" "\<not> is_null v"
  proof -
    have "le_bytes 1 (unat (raw w)) = le_bytes 1 (unat (raw v))" and i: "1 \<le> init w"
      using that same d(1) by (simp_all add: same_value_def payload_def del: le_bytes.simps One_nat_def)
    then have "unat (raw w) mod 256 ^ 1 = unat (raw v) mod 256 ^ 1" by (metis le_nat_le_bytes)
    then have "int (unat (raw w) mod 256) = int (unat (raw v) mod 256)" by simp
    then show "uint (raw w) mod 256 = uint (raw v) mod 256" by (simp add: zmod_int)
    show "1 \<le> init w" by (rule i)
  qed
  have n: "int_value w = int_value v" "int_ok w" if "int_ok v" "\<not> is_null v"
  proof -
    have c: "check_integer v" using that(1) by (rule int_ok_get(5))
    show e: "int_value w = int_value v" by (rule same_value_int [OF same that(2) c])
    show "int_ok w" by (rule int_ok_same [OF that same])
  qed
  show "typed_value t w" using v d b n by (auto simp: typed_value_def check_integer_def)
  show "meaning_of w = meaning_of v" using v d b n
    by (auto simp: typed_value_def meaning_of_def int_type_def check_integer_def split: if_splits)
qed



end
