(* ===== verification/Sort_Properties.thy ===== *)
theory Sort_Properties
  imports Query_Properties ExpressionSemantics
begin

section \<open>The sort executor\<close>

text \<open>
  std::sort is a parameter, known by its documented contract: for a comparison that is a strict weak order it
  returns a permutation in which no element comes before one that is less. The order of equivalent elements is open.
\<close>

declare split_paired_All [simp del] split_paired_Ex [simp del]

subsection \<open>The contract of std::sort\<close>

definition strict_weak :: "('a \<Rightarrow> 'a \<Rightarrow> bool res) \<Rightarrow> 'a set \<Rightarrow> bool" where
  "strict_weak lt A \<longleftrightarrow> (\<exists>R. (\<forall>a \<in> A. \<forall>b \<in> A. lt a b = ok (R a b)) \<and> (\<forall>a \<in> A. \<forall>b \<in> A. R a b \<longrightarrow> \<not> R b a) \<and>
     (\<forall>a \<in> A. \<forall>b \<in> A. \<forall>c \<in> A. \<not> R a b \<longrightarrow> \<not> R b c \<longrightarrow> \<not> R a c))"

definition sorts :: "std_sort \<Rightarrow> bool" where
  "sorts f \<longleftrightarrow> (\<forall>lt xs. strict_weak lt (set xs) \<longrightarrow>
     (\<exists>ys. f lt xs = ok ys \<and> mset ys = mset xs \<and> sorted_wrt (\<lambda>a b. lt b a = ok False) ys))"

text \<open>An instance, which shows that the contract can be met.\<close>

fun put_sorted :: "('a \<Rightarrow> 'a \<Rightarrow> bool res) \<Rightarrow> 'a \<Rightarrow> 'a list \<Rightarrow> 'a list res" where
  "put_sorted lt x [] = ok [x]"
| "put_sorted lt x (y # ys) = res_bind (lt x y) (\<lambda>b. if b then ok (x # y # ys)
     else res_bind (put_sorted lt x ys) (\<lambda>zs. ok (y # zs)))"

fun insertion_sort :: "('a \<Rightarrow> 'a \<Rightarrow> bool res) \<Rightarrow> 'a list \<Rightarrow> 'a list res" where
  "insertion_sort lt [] = ok []"
| "insertion_sort lt (x # xs) = res_bind (insertion_sort lt xs) (put_sorted lt x)"

lemma put_sorted_ok:
  assumes lt: "\<forall>a \<in> A. \<forall>b \<in> A. lt a b = ok (R a b)" and asym: "\<forall>a \<in> A. \<forall>b \<in> A. R a b \<longrightarrow> \<not> R b a"
    and neg: "\<forall>a \<in> A. \<forall>b \<in> A. \<forall>c \<in> A. \<not> R a b \<longrightarrow> \<not> R b c \<longrightarrow> \<not> R a c"
    and "x \<in> A" and "set ys \<subseteq> A" and "sorted_wrt (\<lambda>a b. lt b a = ok False) ys"
  shows "\<exists>zs. put_sorted lt x ys = ok zs \<and> mset zs = add_mset x (mset ys) \<and> sorted_wrt (\<lambda>a b. lt b a = ok False) zs"
  using assms(4-6)
proof (induction ys)
  case (Cons y ys)
  then obtain zs where zs: "put_sorted lt x ys = ok zs" "mset zs = add_mset x (mset ys)"
    "sorted_wrt (\<lambda>a b. lt b a = ok False) zs" by auto
  show ?case
  proof (cases "R x y")
    case True
    then have "\<not> R y x" using asym Cons.prems by auto
    moreover have "\<not> R z x" if z: "z \<in> set ys" for z
    proof -
      have A: "z \<in> A" "y \<in> A" using z Cons.prems(2) by auto
      then have "lt z y = ok (R z y)" using lt by blast
      then have "\<not> R z y" using Cons.prems(3) z by simp
      then show ?thesis using neg A Cons.prems(1) \<open>\<not> R y x\<close> by blast
    qed
    moreover have "lt x y = ok True" "\<forall>z \<in> set (y # ys). lt z x = ok (R z x)" using True Cons.prems(1,2) lt by auto
    ultimately show ?thesis using Cons.prems(3) \<open>\<not> R y x\<close> by simp
  next
    case False
    have "set zs = insert x (set ys)" using zs(2) by (metis set_mset_add_mset_insert set_mset_mset)
    moreover have "lt x y = ok False" using False Cons.prems(1,2) lt by simp
    ultimately show ?thesis using zs Cons.prems(3) by simp
  qed
qed simp

lemma insertion_sort_sorts: "sorts insertion_sort"
proof -
  have "\<exists>ys. insertion_sort lt xs = ok ys \<and> mset ys = mset xs \<and> sorted_wrt (\<lambda>a b. lt b a = ok False) ys"
    if "strict_weak lt (set xs)" for lt and xs :: "SortEntry list"
  proof -
    from that obtain R where R: "\<forall>a \<in> set xs. \<forall>b \<in> set xs. lt a b = ok (R a b)"
      "\<forall>a \<in> set xs. \<forall>b \<in> set xs. R a b \<longrightarrow> \<not> R b a"
      "\<forall>a \<in> set xs. \<forall>b \<in> set xs. \<forall>c \<in> set xs. \<not> R a b \<longrightarrow> \<not> R b c \<longrightarrow> \<not> R a c" unfolding strict_weak_def by blast
    have "\<exists>ys. insertion_sort lt zs = ok ys \<and> mset ys = mset zs \<and> sorted_wrt (\<lambda>a b. lt b a = ok False) ys"
      if "set zs \<subseteq> set xs" for zs
      using that
    proof (induction zs)
      case (Cons z zs)
      then obtain ys where ys: "insertion_sort lt zs = ok ys" "mset ys = mset zs" "sorted_wrt (\<lambda>a b. lt b a = ok False) ys" by auto
      have "set ys \<subseteq> set xs" using Cons.prems ys(2) by (metis mset_eq_setD set_subset_Cons subset_trans)
      then show ?case using put_sorted_ok [OF R _ _ ys(3), of z] Cons.prems ys(1,2) by auto
    qed simp
    then show ?thesis by blast
  qed
  then show ?thesis by (simp add: sorts_def)
qed

subsection \<open>The comparison\<close>

text \<open>A key is NULL or equal to itself; only NaN is neither.\<close>

definition comparable_key :: "Value \<Rightarrow> bool" where
  "comparable_key v \<longleftrightarrow> is_null v \<or> Value_compare EQ v v = ok CmpTrue"

lemma int_key: "int_ok v \<Longrightarrow> comparable_key v"
  by (simp add: comparable_key_def Value_compare_int get_cmp_bool_def)

definition asks_nulls_first :: "OrderByType \<Rightarrow> OrderByNullType \<Rightarrow> bool" where
  "asks_nulls_first order_type null_type \<longleftrightarrow> null_type = NULLS_FIRST \<or> null_type = DEFAULT_NULLS \<and> order_type = DESC"

lemma sort_before_one:
  assumes "comparable_key a" and "comparable_key b"
  shows "sort_before [(ot, nt, e)] [a] [b] = ok (is_null a \<noteq> is_null b \<and> is_null a = asks_nulls_first ot nt)"
  using assms by (cases nt) (auto simp: comparable_key_def asks_nulls_first_def Let_def)

subsection \<open>Collecting and emitting\<close>

definition entry_of :: "(row \<Rightarrow> Value) \<Rightarrow> row \<Rightarrow> SortEntry" where
  "entry_of key r = \<lparr>se_tuple = fst r, se_rid = snd r, sort_keys = [key r]\<rparr>"

lemma collect_entries:
  assumes "\<And>r. r \<in> set rows \<Longrightarrow> evaluate e (Some (fst r)) schema = ok (key r) \<and> allocated (fst r)"
  shows "each (collect_entry [(ot, nt, e)] schema) rows (c, x) =
    Some ((c, x\<lparr>sorted_entries := sorted_entries x @ map (entry_of key) rows\<rparr>), ok ())"
  using assms
proof (induction rows arbitrary: x)
  case (Cons r rows)
  have "collect_entry [(ot, nt, e)] schema r (c, x) = Some ((c, x\<lparr>sorted_entries := sorted_entries x @ [entry_of key r]\<rparr>), ok ())"
    using Cons.prems [of r] by (simp add: collect_entry_def sort_entry_def evaluate_all_def entry_of_def Tuple_copy_def)
  then show ?case using Cons.IH [of "x\<lparr>sorted_entries := sorted_entries x @ [entry_of key r]\<rparr>"] Cons.prems by simp
qed simp

definition sort_yields :: "Catalog \<times> 's SortExecutor \<Rightarrow> row list \<Rightarrow> bool" where
  "sort_yields s rows \<longleftrightarrow> rows = map entry_row (drop (so_cursor (snd s)) (sorted_entries (snd s))) \<and>
     (\<forall>r \<in> set rows. allocated (fst r))"

interpretation sort_output: full_executor sort_next sort_yields
proof unfold_locales
  fix s :: "Catalog \<times> 'a SortExecutor" and rows and n :: nat assume y: "sort_yields s rows"
  let ?x = "snd s"
  have nxt: "sort_next n s = (if rows = [] then Some (s, ok ([], False))
      else Some ((fst s, ?x\<lparr>so_cursor := so_cursor ?x + min n (length rows)\<rparr>), ok (take n rows, True)))"
    using y by (auto simp: sort_next_def sort_yields_def Let_def take_map min_def)
  show "\<exists>s' batch rest. sort_next n s = Some (s', ok (batch, batch \<noteq> [])) \<and> rows = batch @ rest \<and>
      sort_yields s' rest \<and> (rows \<noteq> [] \<longrightarrow> batch \<noteq> [])" if "0 < n"
  proof (cases "rows = []")
    case True
    then show ?thesis using nxt y by auto
  next
    case False
    let ?s = "(fst s, ?x\<lparr>so_cursor := so_cursor ?x + min n (length rows)\<rparr>)"
    have "sort_yields ?s (drop n rows)"
      using y set_drop_subset [of n rows] by (auto simp: sort_yields_def drop_map min_def add.commute)
    then show ?thesis using nxt False that
      by (intro exI [of _ ?s] exI [of _ "take n rows"] exI [of _ "drop n rows"]) simp
  qed
  show "length batch = min n (length rows)" if "sort_next n s = Some (s', ok (batch, status))" for s' batch status
    using that nxt by (auto split: if_splits)
  show "allocated (fst r)" if "r \<in> set rows" for r using y that by (simp add: sort_yields_def)
qed

text \<open>After init the entries are those of the rows of the child, as the sort left them.\<close>

lemma sort_init_ok:
  assumes E: "executor child yields" and start: "start (c, so_child x) = Some (s0, ok ())" and y: "yields s0 rows"
    and keys: "\<And>r. r \<in> set rows \<Longrightarrow> evaluate e (Some (fst r)) schema = ok (key r)"
    and sorted: "std_sort (sort_comparator [(ot, nt, e)]) (map (entry_of key) rows) = ok ys"
  shows "\<exists>c' y. sort_init std_sort [(ot, nt, e)] schema start child (c, x) =
    Some ((c', x\<lparr>so_child := y, sorted_entries := ys, so_cursor := 0\<rparr>), ok ())"
proof -
  note next_law = executor.next_law [OF E] and stored = executor.stored [OF E]
  let ?put = "\<lambda>y x. x\<lparr>so_child := y\<rparr>" and ?all = "map (entry_of key) rows"
  let ?R = "\<lambda>z left. yields (fst z, so_child (snd z)) left \<and> set left \<subseteq> set rows \<and>
      (\<exists>y es. snd z = x\<lparr>so_child := y, sorted_entries := es, so_cursor := 0\<rparr> \<and> es @ map (entry_of key) left = ?all)"
  let ?Q = "\<lambda>z. \<exists>y. snd z = x\<lparr>so_child := y, sorted_entries := ?all, so_cursor := 0\<rparr>"
  let ?pull = "on_child so_child ?put (child 256)" and ?body = "each (collect_entry [(ot, nt, e)] schema)"
  obtain c0 y0 where s0: "s0 = (c0, y0)" by (cases s0)
  have start': "on_child so_child ?put start (c, x) = Some ((c0, x\<lparr>so_child := y0\<rparr>), ok ())"
    using start s0 by (simp add: on_child_def)
  have "\<exists>z. while_batches ?pull ?body (c0, x\<lparr>so_child := y0, sorted_entries := [], so_cursor := 0\<rparr>) = Some (z, ok ()) \<and> ?Q z"
  proof (rule while_batches_rule [where R = ?R and rows = rows])
    show "?R (c0, x\<lparr>so_child := y0, sorted_entries := [], so_cursor := 0\<rparr>) rows"
      using y s0 by (auto intro: exI [of _ y0])
    fix z left assume R: "?R z left"
    obtain c1 x1 where z: "z = (c1, x1)" by (cases z)
    from R z obtain y1 es where x1: "x1 = x\<lparr>so_child := y1, sorted_entries := es, so_cursor := 0\<rparr>"
      "es @ map (entry_of key) left = ?all" "yields (c1, y1) left" "set left \<subseteq> set rows" by auto
    have "(0 :: nat) < 256" by simp
    from next_law [OF x1(3) this] obtain s2 batch rest where nx0: "child 256 (c1, y1) = Some (s2, ok (batch, batch \<noteq> []))"
      "left = batch @ rest" "yields s2 rest" "left \<noteq> [] \<longrightarrow> batch \<noteq> []" by blast
    obtain c2 y2 where s2: "s2 = (c2, y2)" by (cases s2)
    note nx = nx0 [unfolded s2]
    let ?x2 = "x\<lparr>so_child := y2, sorted_entries := es, so_cursor := 0\<rparr>"
    let ?x3 = "x\<lparr>so_child := y2, sorted_entries := es @ map (entry_of key) batch, so_cursor := 0\<rparr>"
    have pull: "?pull z = Some ((c2, ?x2), ok (batch, batch \<noteq> []))" using nx(1) by (simp add: z x1(1) on_child_def)
    have ok: "evaluate e (Some (fst r)) schema = ok (key r) \<and> allocated (fst r)" if "r \<in> set batch" for r
    proof -
      have "r \<in> set left" using that nx(2) by simp
      then show ?thesis using keys stored [OF x1(3)] x1(4) by blast
    qed
    have body: "?body batch (c2, ?x2) = Some ((c2, ?x3), ok ())" using collect_entries [OF ok, of batch ot nt c2 ?x2] by simp
    have "(es @ map (entry_of key) batch) @ map (entry_of key) rest = ?all" using x1(2) nx(2) by simp
    moreover have "set rest \<subseteq> set rows" using x1(4) nx(2) by simp
    moreover have "yields (fst (c2, ?x3), so_child (snd (c2, ?x3))) rest" using nx(3) by simp
    ultimately have R3: "?R (c2, ?x3) rest" by (metis snd_conv)
    show "\<exists>z1 batch rest. ?pull z = Some (z1, ok (batch, batch \<noteq> [])) \<and> left = batch @ rest \<and> (left \<noteq> [] \<longrightarrow> batch \<noteq> []) \<and>
        (batch = [] \<longrightarrow> ?Q z1) \<and> (batch \<noteq> [] \<longrightarrow> (\<exists>z2. ?body batch z1 = Some (z2, ok ()) \<and> ?R z2 rest))"
    proof (rule exI [of _ "(c2, ?x2)"], rule exI [of _ batch], rule exI [of _ rest], intro conjI impI)
      show "?Q (c2, ?x2)" if "batch = []"
      proof -
        have "left = []" using that nx(4) by blast
        then show ?thesis using x1(2) by auto
      qed
      show "\<exists>z2. ?body batch (c2, ?x2) = Some (z2, ok ()) \<and> ?R z2 rest" using body R3 by blast
      show "batch \<noteq> []" if "left \<noteq> []" using that nx(4) by blast
    qed (rule pull nx(2))+
  qed
  then obtain c' y where w: "while_batches ?pull ?body (c0, x\<lparr>so_child := y0, sorted_entries := [], so_cursor := 0\<rparr>) =
      Some ((c', x\<lparr>so_child := y, sorted_entries := ?all, so_cursor := 0\<rparr>), ok ())" by auto
  then show ?thesis using start' sorted unfolding sort_init_def by (intro exI [of _ c'] exI [of _ y]) (cases x, simp)
qed

subsection \<open>What ORDER BY does\<close>

text \<open>
  C14. ORDER BY with one key puts the rows with a NULL key where the clause asks and does nothing else. Over a child that
  yields rows with comparable keys, and whatever std::sort does within its contract, the rows come out in an
  order of theirs that has the NULLs on that side; and every such order is allowed by the contract,
  ascending or not, because the comparison compares the first key with itself.
\<close>

theorem sort_places_nulls_only:
  assumes E: "executor child yields" and start: "start (c, so_child x) = Some (s0, ok ())" and y: "yields s0 rows" and n: "0 < n"
    and keys: "\<And>r. r \<in> set rows \<Longrightarrow> evaluate e (Some (fst r)) schema = ok (key r) \<and> comparable_key (key r)"
  shows "(\<exists>std_sort s. sorts std_sort \<and>
      run_query (sort_init std_sort [(ot, nt, e)] schema start child) sort_next n (c, x) = Some ((s, out), ok ())) \<longleftrightarrow>
    mset out = mset rows \<and>
    sorted_wrt (\<lambda>a b. is_null (key b) = asks_nulls_first ot nt \<longrightarrow> is_null (key a) = asks_nulls_first ot nt) out"
    (is "_ \<longleftrightarrow> _ \<and> sorted_wrt ?le out")
proof -
  let ?F = "asks_nulls_first ot nt" and ?cmp = "sort_comparator [(ot, nt, e)]" and ?ent = "entry_of key"
  have stored: "allocated (fst r)" if "r \<in> set rows" for r by (rule executor.stored [OF E y that])
  have key: "evaluate e (Some (fst r)) schema = ok (key r)" if "r \<in> set rows" for r using keys [OF that] by simp
  have cmp: "?cmp (?ent a) (?ent b) = ok (is_null (key a) \<noteq> is_null (key b) \<and> is_null (key a) = ?F)"
    if "a \<in> set rows" "b \<in> set rows" for a b
    using sort_before_one keys that by (simp add: sort_comparator_def entry_of_def)
  have rows_back: "map entry_row (map ?ent zs) = zs" if "set zs \<subseteq> set rows" for zs
    using that stored by (intro nth_equalityI) (auto simp: entry_row_def entry_of_def Tuple_copy_def subset_iff)
  have ent: "hd (sort_keys (?ent r)) = key r" for r by (simp add: entry_of_def)
  have weak: "strict_weak ?cmp (set (map ?ent rows))"
    unfolding strict_weak_def
    by (rule exI [of _ "\<lambda>a b. is_null (hd (sort_keys a)) \<noteq> is_null (hd (sort_keys b)) \<and> is_null (hd (sort_keys a)) = ?F"])
      (auto simp: cmp ent)
  have run: "\<exists>s. run_query (sort_init f [(ot, nt, e)] schema start child) sort_next n (c, x) = Some ((s, zs), ok ())"
    if f: "f ?cmp (map ?ent rows) = ok (map ?ent zs)" and zs: "set zs \<subseteq> set rows" for f zs
  proof -
    from sort_init_ok [where key = key and std_sort = f and start = start and c = c and x = x, OF E start y key f] obtain c' y' where i: "sort_init f [(ot, nt, e)] schema start child (c, x) =
        Some ((c', x\<lparr>so_child := y', sorted_entries := map ?ent zs, so_cursor := 0\<rparr>), ok ())" by blast
    have "sort_yields (c', x\<lparr>so_child := y', sorted_entries := map ?ent zs, so_cursor := 0\<rparr>) zs"
      using rows_back [OF zs] zs stored by (auto simp: sort_yields_def)
    from sort_output.drain_all [OF this n] i show ?thesis by (auto simp: run_query_def)
  qed
  have order: "sorted_wrt (\<lambda>a b. ?cmp b a = ok False) (map ?ent zs) \<longleftrightarrow> sorted_wrt ?le zs" if "set zs \<subseteq> set rows" for zs
    using that
  proof (induction zs)
    case (Cons z zs)
    have "?cmp (?ent r) (?ent z) = ok False \<longleftrightarrow> ?le z r" if "r \<in> set zs" for r
      using cmp [of r z] Cons.prems that by auto
    then show ?case using Cons by simp
  qed simp
  show ?thesis
  proof
    assume "\<exists>f s. sorts f \<and> run_query (sort_init f [(ot, nt, e)] schema start child) sort_next n (c, x) = Some ((s, out), ok ())"
    then obtain f s where f: "sorts f" "run_query (sort_init f [(ot, nt, e)] schema start child) sort_next n (c, x) = Some ((s, out), ok ())"
      by blast
    from f(1) weak obtain ys where ys: "f ?cmp (map ?ent rows) = ok ys" "mset ys = mset (map ?ent rows)"
      "sorted_wrt (\<lambda>a b. ?cmp b a = ok False) ys" unfolding sorts_def by blast
    let ?zs = "map entry_row ys"
    have "set ys = ?ent ` set rows" using mset_eq_setD [OF ys(2)] by simp
    have "(?ent \<circ> entry_row) y = y" if "y \<in> set ys" for y
    proof -
      from that \<open>set ys = ?ent ` set rows\<close> obtain r where "r \<in> set rows" "y = ?ent r" by blast
      then show ?thesis using rows_back [of "[r]"] by simp
    qed
    then have ents: "ys = map ?ent ?zs" using map_idI [of ys "?ent \<circ> entry_row"] by simp
    have "mset ?zs = image_mset entry_row (mset (map ?ent rows))" using ys(2) by simp
    also have "\<dots> = mset rows" using rows_back [of rows] by (metis mset_map order_refl)
    finally have m: "mset ?zs = mset rows" .
    then have "set ?zs \<subseteq> set rows" by (metis mset_eq_setD order_refl)
    moreover from run [OF _ this, of f] ys(1) ents f(2) have "out = ?zs" by auto
    ultimately show "mset out = mset rows \<and> sorted_wrt ?le out" using m ys(3) ents order by metis
  next
    assume o: "mset out = mset rows \<and> sorted_wrt ?le out"
    let ?f = "\<lambda>lt xs. if xs = map ?ent rows \<and> lt = ?cmp then ok (map ?ent out) else insertion_sort lt xs"
    have sub: "set out \<subseteq> set rows" using o by (metis mset_eq_setD order_refl)
    have "sorts ?f"
      using insertion_sort_sorts o order [OF sub] by (auto simp: sorts_def)
    moreover have "?f ?cmp (map ?ent rows) = ok (map ?ent out)" by simp
    ultimately show "\<exists>f s. sorts f \<and> run_query (sort_init f [(ot, nt, e)] schema start child) sort_next n (c, x) = Some ((s, out), ok ())"
      using run [OF _ sub, of ?f] by blast
  qed
qed

text \<open>VALUES (2), (1) ORDER BY a ASC can come out as 2, 1.\<close>

definition two_one :: ValuesPlanNode where
  "two_one = \<lparr>vp_schema = tiny_schema, vp_values = map (\<lambda>k. [Expression (ConstantValueExpression (Value_int8 TINYINT k)) [] (val_column TINYINT)]) [2, 1]\<rparr>"

definition two_one_rows :: "row list" where
  "two_one_rows = [(tuple_of [0, 2], default_RecordId), (tuple_of [0, 1], default_RecordId)]"

definition key_a :: "row \<Rightarrow> Value" where
  "key_a r = projr (evaluate column_a (Some (fst r)) tiny_schema)"

lemma two_one_facts:
  "values_rows two_one (vp_values two_one) = ok two_one_rows"
  "list_all (\<lambda>r. evaluate column_a (Some (fst r)) tiny_schema = ok (key_a r) \<and> comparable_key (key_a r) \<and> \<not> is_null (key_a r)) two_one_rows"
  by code_simp+

lemma sort_places_nulls_only_witness:
  "\<exists>std_sort s. sorts std_sort \<and>
     run_query (sort_init std_sort [(ASC, DEFAULT_NULLS, column_a)] tiny_schema values_init (values_next two_one)) sort_next 256
       (example_catalog [], \<lparr>so_child = 0, sorted_entries = [], so_cursor = 0\<rparr>) = Some ((s, two_one_rows), ok ())"
proof -
  have E: "executor (values_next two_one) (values_yields two_one)" by (rule table_values.executor_axioms)
  have start: "values_init (example_catalog [], so_child \<lparr>so_child = 0, sorted_entries = [], so_cursor = 0\<rparr>) = Some ((example_catalog [], 0), ok ())"
    by (simp add: values_init_def)
  have y: "values_yields two_one (example_catalog [], 0) two_one_rows" by (simp add: values_yields_def two_one_facts)
  have keys: "evaluate column_a (Some (fst r)) tiny_schema = ok (key_a r) \<and> comparable_key (key_a r)" if "r \<in> set two_one_rows" for r
    using that two_one_facts(2) by (auto simp: list_all_iff)
  have "sorted_wrt (\<lambda>a b. is_null (key_a b) = F \<longrightarrow> is_null (key_a a) = F) two_one_rows" for F
    using two_one_facts(2) by (auto simp: two_one_rows_def)
  then show ?thesis
    using sort_places_nulls_only [where start = values_init and c = "example_catalog []" and x = "\<lparr>so_child = 0, sorted_entries = [], so_cursor = 0\<rparr>"
        and key = key_a, OF E start y _ keys, of 256 ASC DEFAULT_NULLS two_one_rows] by simp
qed

end
