(* ===== verification/Dml_Properties.thy ===== *)
theory Dml_Properties
  imports Query_Properties
begin

section \<open>Statements that change tables\<close>

text \<open>
  DELETE over a filtered scan of the same table: the relation between a scan and the table that it deletes from,
  the lemmas that keep it, and the statement.
\<close>

declare split_paired_All [simp del] split_paired_Ex [simp del]

subsection \<open>Deleting while scanning\<close>

text \<open>What a deletion does to the catalog: the table at oid becomes the heap h.\<close>

definition put_heap :: "TableOid \<Rightarrow> TableInfo \<Rightarrow> BufferPoolManager \<Rightarrow> TableHeap \<Rightarrow> Catalog \<Rightarrow> Catalog" where
  "put_heap oid info b h c = c\<lparr>bpm := b, tables := AList.update oid (info\<lparr>ti_table := h\<rparr>) (tables c)\<rparr>"

lemma put_heap_simps [simp]:
  "get_table oid (put_heap oid info b h c) = Some (info\<lparr>ti_table := h\<rparr>)"
  "bpm (put_heap oid info b h c) = b"
  by (simp_all add: put_heap_def get_table_def update_conv')

lemma on_table_run:
  assumes "get_table oid c = Some info" and "m (bpm c, ti_table info) = Some ((b, h), r)"
  shows "on_table oid m (c, x) = Some ((put_heap oid info b h c, x), r)"
  using assms by (simp add: on_table_def on_heap_def put_heap_def)

text \<open>
  The state of a scan of the table oid between two batches: the rows that are left in the scan are rows of the
  table.
\<close>

definition mid_scan :: "TableOid \<Rightarrow> handles \<Rightarrow> PageId list \<Rightarrow> Catalog \<Rightarrow> SeqScanExecutor \<Rightarrow> (RecordId \<rightharpoonup> u8 list) \<Rightarrow> (RecordId \<times> u8 list) list \<Rightarrow> bool" where
  "mid_scan oid hs ps c x live rs \<longleftrightarrow> ss_table x = oid \<and> (\<exists>info v. get_table oid c = Some info \<and>
     scanning (ti_table info) hs ps v (bpm c) \<and> iter_at v ps (ss_iter x) rs \<and> heap_ok (bpm c) (ti_table info) ps \<and>
     rows_of c info ps = live)"

lemma delete_step:
  assumes M: "mid_scan oid hs ps c x live rs" and live: "live rid = Some bs" and rid: "rid \<notin> fst ` set rs"
  shows "\<exists>c'. delete_row oid (t, rid) (c, d) = Some ((c', d\<lparr>total_rows_deleted := total_rows_deleted d + 1\<rparr>), ok ()) \<and>
    mid_scan oid hs ps c' x (live(rid := None)) rs"
proof -
  from M obtain info v where i: "get_table oid c = Some info" "scanning (ti_table info) hs ps v (bpm c)"
    "iter_at v ps (ss_iter x) rs" "heap_ok (bpm c) (ti_table info) ps" "rows_of c info ps = live" "ss_table x = oid"
    by (auto simp: mid_scan_def)
  show ?thesis
  proof (rule delete_keeps_scan [OF i(2,3,4) _ rid])
    show "heap_rows (bpm c) (ti_table info) ps rid = Some bs" using i(5) live by (simp add: rows_of_def)
    fix b' h' assume d: "mark_delete rid (bpm c, ti_table info) = ((b', h'), ok True)"
      "scanning h' hs ps (heap_page b' h') b'" "iter_at (heap_page b' h') ps (ss_iter x) rs" "heap_ok b' h' ps"
      "heap_rows b' h' ps = (heap_rows (bpm c) (ti_table info) ps)(rid := None)"
    have "on_table oid (\<lambda>s. Some (mark_delete rid s)) (c, d) = Some ((put_heap oid info b' h' c, d), ok True)"
      using i(1) d(1) by (intro on_table_run) simp_all
    then have "delete_row oid (t, rid) (c, d) = Some ((put_heap oid info b' h' c, d\<lparr>total_rows_deleted := total_rows_deleted d + 1\<rparr>), ok ())"
      by (simp add: delete_row_def)
    moreover have "mid_scan oid hs ps (put_heap oid info b' h' c) x (live(rid := None)) rs"
      using d i(5,6) by (auto simp: mid_scan_def rows_of_def)
    ultimately show ?thesis by blast
  qed
qed

lemma delete_steps:
  assumes "mid_scan oid hs ps c x live rs" and "distinct (map snd rows)"
    and "\<And>r. r \<in> set rows \<Longrightarrow> live (snd r) \<noteq> None \<and> snd r \<notin> fst ` set rs"
  shows "\<exists>c'. each (delete_row oid) rows (c, d) = Some ((c', d\<lparr>total_rows_deleted := total_rows_deleted d + of_nat (length rows)\<rparr>), ok ()) \<and>
    mid_scan oid hs ps c' x (live |` (- snd ` set rows)) rs"
  using assms
proof (induction rows arbitrary: c d live)
  case Nil
  then show ?case by (auto simp: restrict_map_def)
next
  case (Cons r rows)
  from Cons.prems(3) [of r] obtain bs where "live (snd r) = Some bs" "snd r \<notin> fst ` set rs" by auto
  from delete_step [OF Cons.prems(1) this, of "fst r" d] obtain c1 where s: "delete_row oid r (c, d) =
      Some ((c1, d\<lparr>total_rows_deleted := total_rows_deleted d + 1\<rparr>), ok ())" "mid_scan oid hs ps c1 x (live(snd r := None)) rs" by auto
  have "(live(snd r := None)) (snd q) \<noteq> None \<and> snd q \<notin> fst ` set rs" if "q \<in> set rows" for q
  proof -
    have "snd r \<notin> snd ` set rows" using Cons.prems(2) by simp
    then have "snd q \<noteq> snd r" using that by (metis imageI)
    then show ?thesis using Cons.prems(3) [of q] that by simp
  qed
  moreover have "distinct (map snd rows)" using Cons.prems(2) by simp
  ultimately obtain c2 where
    "each (delete_row oid) rows (c1, d\<lparr>total_rows_deleted := total_rows_deleted d + 1\<rparr>) =
      Some ((c2, (d\<lparr>total_rows_deleted := total_rows_deleted d + 1\<rparr>)\<lparr>total_rows_deleted :=
        total_rows_deleted (d\<lparr>total_rows_deleted := total_rows_deleted d + 1\<rparr>) + of_nat (length rows)\<rparr>), ok ())"
    "mid_scan oid hs ps c2 x ((live(snd r := None)) |` (- snd ` set rows)) rs" using Cons.IH [OF s(2)] by blast
  moreover have "(live(snd r := None)) |` (- snd ` set rows) = live |` (- snd ` set (r # rows))"
    by (auto simp: restrict_map_def fun_eq_iff)
  ultimately show ?case using s(1) by (auto simp: add.assoc)
qed

text \<open>
  The child of the delete executor is a filter over the scan. out are the rows it will still yield; the rows still in
  the scan or waiting in the batch of the filter have record ids of their own.
\<close>

definition deleting :: "TableOid \<Rightarrow> handles \<Rightarrow> PageId list \<Rightarrow> (Tuple \<Rightarrow> bool res) \<Rightarrow> Catalog \<Rightarrow> SeqScanExecutor FilterExecutor \<Rightarrow>
    (RecordId \<rightharpoonup> u8 list) \<Rightarrow> row list \<Rightarrow> bool" where
  "deleting oid hs ps p c x live out \<longleftrightarrow> (\<exists>rs. mid_scan oid hs ps c (f_child x) live rs \<and>
     filter_rest p (filter_left x @ map heap_row rs) = ok out \<and> distinct (map snd (filter_left x @ map heap_row rs)) \<and>
     (\<forall>r \<in> set (filter_left x @ map heap_row rs). allocated (fst r) \<and> live (snd r) \<noteq> None))"

lemma filter_rest_rids:
  "filter_rest p rows = ok out \<Longrightarrow> set (map snd out) \<subseteq> set (map snd rows) \<and> (distinct (map snd rows) \<longrightarrow> distinct (map snd out))"
proof (induction p rows arbitrary: out rule: filter_rest.induct)
  case (2 p t rid rows)
  then obtain b out1 where "p t = ok b" "filter_rest p rows = ok out1" "out = (if b then (Tuple_copy t, rid) # out1 else out1)"
    by (auto simp: res_bind_eq_Inr)
  then show ?case using "2.IH" by (cases b) auto
qed simp

text \<open>One batch of the child, and the deletion of its rows.\<close>

lemma delete_batch:
  assumes D: "deleting oid hs ps (passes predicate schema) c x live out" and n: "0 < n"
  shows "\<exists>c' x' batch rest. filter_next predicate schema seq_scan_next n (c, x) = Some ((c', x'), ok (batch, batch \<noteq> [])) \<and>
    out = batch @ rest \<and> (out \<noteq> [] \<longrightarrow> batch \<noteq> []) \<and> (\<forall>d. \<exists>c2. each (delete_row oid) batch (c', d) =
      Some ((c2, d\<lparr>total_rows_deleted := total_rows_deleted d + of_nat (length batch)\<rparr>), ok ()) \<and>
      deleting oid hs ps (passes predicate schema) c2 x' (live |` (- snd ` set batch)) rest)"
proof -
  let ?p = "passes predicate schema"
  from D obtain rs where M: "mid_scan oid hs ps c (f_child x) live rs" and f: "filter_rest ?p (filter_left x @ map heap_row rs) = ok out"
    and dist: "distinct (map snd (filter_left x @ map heap_row rs))"
    and rows: "\<And>r. r \<in> set (filter_left x @ map heap_row rs) \<Longrightarrow> allocated (fst r) \<and> live (snd r) \<noteq> None"
    unfolding deleting_def by blast
  from M obtain info v where i: "get_table oid c = Some info" "scanning (ti_table info) hs ps v (bpm c)"
    "iter_at v ps (ss_iter (f_child x)) rs" "heap_ok (bpm c) (ti_table info) ps" "rows_of c info ps = live" "ss_table (f_child x) = oid"
    by (auto simp: mid_scan_def)
  have "scan_yields oid info hs ps v (c, f_child x) (map heap_row rs)" using i by (auto simp: scan_yields_def)
  from table_scan.filter_loop_ok [OF this f n, of "[]"] obtain s' pre left batch where l:
    "filter_loop seq_scan_next ?p n [] (c, x) = Some (s', ok (batch, batch \<noteq> []))"
    "filter_left x @ map heap_row rs = pre @ filter_left (snd s') @ left" "filter_rest ?p pre = ok batch"
    "scan_yields oid info hs ps v (fst s', f_child (snd s')) left" "out \<noteq> [] \<longrightarrow> batch \<noteq> []" unfolding append_Nil by blast
  obtain c' x' where s': "s' = (c', x')" by (cases s')
  from l(4) obtain rs' where y: "ss_table (f_child x') = oid" "get_table oid c' = Some info" "scanning (ti_table info) hs ps v (bpm c')"
    "iter_at v ps (ss_iter (f_child x')) rs'" "left = map heap_row rs'" by (auto simp: scan_yields_def s')
  note same = scanning_same [OF i(2) y(3) i(4)]
  have M': "mid_scan oid hs ps c' (f_child x') live rs'"
    unfolding mid_scan_def using y same i(5) by (auto simp: rows_of_def)
  from f l(3) obtain rest where rest: "filter_rest ?p (filter_left x' @ left) = ok rest" "out = batch @ rest"
    unfolding l(2) filter_rest_append [of _ pre] by (auto simp: res_bind_eq_Inr s')
  have ids: "set (map snd batch) \<subseteq> set (map snd pre)" "distinct (map snd batch)"
    using filter_rest_rids [OF l(3)] dist unfolding l(2) by auto
  have apart: "snd q \<notin> snd ` set batch \<and> allocated (fst q) \<and> live (snd q) \<noteq> None" if "q \<in> set (filter_left x' @ left)" for q
  proof -
    have "q \<in> set (filter_left x @ map heap_row rs)" unfolding l(2) s' using that by simp
    moreover have "snd q \<notin> snd ` set pre" using dist that unfolding l(2) s' by (auto simp: image_iff)
    ultimately show ?thesis using rows ids(1) by auto
  qed
  have del: "live (snd r) \<noteq> None \<and> snd r \<notin> fst ` set rs'" if "r \<in> set batch" for r
  proof -
    have "snd r \<in> snd ` set pre" using that ids(1) by auto
    then obtain q where "q \<in> set pre" "snd r = snd q" by blast
    then have "live (snd r) \<noteq> None" using rows [of q] unfolding l(2) by simp
    moreover have "snd r \<notin> snd ` set left"
    proof
      assume "snd r \<in> snd ` set left"
      then obtain q where "q \<in> set left" "snd q = snd r" by auto
      then have "snd r \<notin> snd ` set batch" using apart [of q] by simp
      then show False using that by simp
    qed
    moreover have "snd ` set left = fst ` set rs'" by (simp add: y(5) image_image heap_row_def)
    ultimately show ?thesis by simp
  qed
  have dist': "distinct (map snd (filter_left x' @ left))" using dist unfolding l(2) s' by simp
  have "\<exists>c2. each (delete_row oid) batch (c', d) = Some ((c2, d\<lparr>total_rows_deleted := total_rows_deleted d + of_nat (length batch)\<rparr>), ok ()) \<and>
      deleting oid hs ps ?p c2 x' (live |` (- snd ` set batch)) rest" for d :: "'z DeleteExecutor"
  proof -
    from delete_steps [OF M' ids(2) del, of d] obtain c2 where c2: "each (delete_row oid) batch (c', d) =
        Some ((c2, d\<lparr>total_rows_deleted := total_rows_deleted d + of_nat (length batch)\<rparr>), ok ())"
      "mid_scan oid hs ps c2 (f_child x') (live |` (- snd ` set batch)) rs'" by blast
    have "deleting oid hs ps ?p c2 x' (live |` (- snd ` set batch)) rest"
      unfolding deleting_def
      by (rule exI [of _ rs']) (use c2(2) rest(1) dist' apart y(5) in \<open>auto simp: restrict_map_def\<close>)
    with c2(1) show ?thesis by blast
  qed
  moreover have "filter_next predicate schema seq_scan_next n (c, x) = Some ((c', x'), ok (batch, batch \<noteq> []))"
    by (simp add: filter_next_def l(1) s')
  ultimately show ?thesis using rest(2) l(5) by blast
qed

subsection \<open>The count\<close>

lemma count_row_ok:
  assumes "map col_type schema = [INTEGER]"
  obtains t w where "count_row schema k = ok (t, default_RecordId)" and "tuple_value schema 0 t = ok w"
    and "same_value (Value_int32 INTEGER (sint k)) w"
proof -
  let ?v = "Value_int32 INTEGER (sint k)"
  have r: "in_range 4 (sint k)" using sint_greater_eq [of k] sint_less [of k] by (simp add: in_range_def int_null_def int_max_def)
  have "check_integer ?v" by (simp add: check_integer_def Value_int32_def)
  then have "int_ok ?v" using int_value_ctor [of INTEGER "sint k"] r by (simp add: Value_int32_def)
  then have "is_null ?v \<or> storable_value ?v" and ty: "data_type ?v = INTEGER" by (auto simp: storable_value_def Value_int32_def)
  moreover have "size_in_tuple ?v \<le> 4"
    using image_fixed [of ?v] calculation by (auto simp: size_in_tuple_def)
  ultimately have "row_ok schema [?v]" using assms by (auto simp: row_ok_def null_bitmap_size_def)
  from new_Tuple_stores [OF this] obtain t where t: "new_Tuple schema [?v] = ok t"
    and "\<exists>w. tuple_value schema 0 t = ok w \<and> same_value ?v w" by (metis length_Cons less_nat_zero_code nth_Cons_0 zero_less_Suc)
  then show thesis using that new_Tuple_allocated [OF t] by (auto simp: count_row_def Tuple_copy_def)
qed

text \<open>The rows that match, in the order of a scan, and their record ids.\<close>

lemma matching_rids:
  assumes live: "map_of rs = live" "distinct (map fst rs)"
  shows "distinct (map snd (map heap_row (filter (\<lambda>r. keep (snd r)) rs)))"
    and "snd ` set (map heap_row (filter (\<lambda>r. keep (snd r)) rs)) = {rid. \<exists>bs. live rid = Some bs \<and> keep bs}"
proof -
  have "map snd (map heap_row (filter (\<lambda>r. keep (snd r)) rs)) = map fst (filter (\<lambda>r. keep (snd r)) rs)" by (simp add: heap_row_def)
  then show "distinct (map snd (map heap_row (filter (\<lambda>r. keep (snd r)) rs)))" using distinct_map_filter [OF live(2)] by metis
  have "(live rid = Some bs) = ((rid, bs) \<in> set rs)" for rid bs using live by (metis map_of_eq_Some_iff)
  then show "snd ` set (map heap_row (filter (\<lambda>r. keep (snd r)) rs)) = {rid. \<exists>bs. live rid = Some bs \<and> keep bs}"
    by (force simp: heap_row_def)
qed

text \<open>The run of the statement; afterwards the executor has given its count.\<close>

lemma delete_where:
  assumes t: "table_ready oid hs ps c info" and plan: "mp_table_oid plan = oid" "map col_type (mp_schema plan) = [INTEGER]"
    and n: "0 < n" and fresh: "f_child_offset (de_child x) = 0"
    and total: "\<forall>rid bs. rows_of c info ps rid = Some bs \<longrightarrow> passes predicate schema (tuple_of bs) = ok (keep bs)"
  shows "\<exists>s0 c' y t w info'. delete_init plan (filter_init (seq_scan_init oid)) (c, x) = Some (s0, ok ()) \<and>
    delete_next plan (filter_next predicate schema seq_scan_next) n s0 = Some ((c', y), ok ([(t, default_RecordId)], True)) \<and>
    tuple_value (mp_schema plan) 0 t = ok w \<and>
    same_value (Value_int32 INTEGER (sint (of_nat (card {rid. \<exists>bs. rows_of c info ps rid = Some bs \<and> keep bs}) :: u32))) w \<and>
    table_ready oid hs ps c' info' \<and>
    rows_of c' info' ps = (\<lambda>rid. case rows_of c info ps rid of Some bs \<Rightarrow> if keep bs then None else Some bs | None \<Rightarrow> None) \<and>
    de_has_emitted_count y"
proof -
  let ?p = "passes predicate schema" and ?v = "heap_page (bpm c) (ti_table info)" and ?live = "rows_of c info ps"
  let ?rs = "table_rows ?v ps" and ?put = "\<lambda>y x. x\<lparr>de_child := y\<rparr>"
  let ?out = "map heap_row (filter (\<lambda>r. keep (snd r)) ?rs)"
  have ps: "distinct ps" and H: "heap_ok (bpm c) (ti_table info) ps" using t by (simp_all add: table_ready_def heap_ok_def)
  have rs: "map_of ?rs = ?live" "distinct (map fst ?rs)"
    using table_rows_map [OF ps] distinct_table_rows [OF ps] by (simp_all add: rows_of_def)
  have row: "?live (fst r) = Some (snd r)" if "r \<in> set ?rs" for r
    using rs that by (metis map_of_is_SomeI prod.collapse)
  from seq_scan_init_ok [OF t] obtain b it where i: "seq_scan_init oid (c, f_child (de_child x)) =
      Some ((c\<lparr>bpm := b\<rparr>, \<lparr>ss_table = oid, ss_iter = it\<rparr>), ok ())"
    "scanning (ti_table info) hs ps ?v b" "iter_at ?v ps it ?rs" by blast
  let ?c = "c\<lparr>bpm := b\<rparr>" and ?x = "(de_child x)\<lparr>f_child := \<lparr>ss_table = oid, ss_iter = it\<rparr>\<rparr>"
  let ?d = "x\<lparr>de_child := ?x, total_rows_deleted := 0, de_has_emitted_count := False\<rparr>"
  have init: "delete_init plan (filter_init (seq_scan_init oid)) (c, x) = Some ((?c, ?d), ok ())"
    using i(1) t plan(1) by (cases x) (simp add: delete_init_def resolve_table_def run_bind_def table_ready_def filter_init_def on_child_def)
  have S: "scanning (ti_table info) hs ps ?v (bpm c)" using t by (auto simp: table_ready_def scanning_def heap_ok_def)
  have "mid_scan oid hs ps ?c (f_child ?x) ?live ?rs"
    using t i scanning_same [OF S i(2) H] by (auto simp: mid_scan_def table_ready_def rows_of_def)
  moreover have "filter_rest ?p (map heap_row ?rs) = ok ?out" using total row by (intro filter_rest_total) blast
  moreover have "distinct (map snd (map heap_row ?rs))" using rs(2) by (simp add: comp_def heap_row_def)
  ultimately have D: "deleting oid hs ps ?p ?c ?x ?live ?out"
    using fresh row by (auto simp: deleting_def filter_left_def heap_row_def tuple_of_def)
  let ?gone = "snd ` set ?out"
  let ?R = "\<lambda>(z :: Catalog \<times> SeqScanExecutor FilterExecutor DeleteExecutor) left. \<exists>live. deleting oid hs ps ?p (fst z) (de_child (snd z)) live left \<and>
      live |` (- snd ` set left) = ?live |` (- ?gone) \<and> total_rows_deleted (snd z) + of_nat (length left) = of_nat (length ?out)"
  let ?Q = "\<lambda>z :: Catalog \<times> SeqScanExecutor FilterExecutor DeleteExecutor. (\<exists>x rs. mid_scan oid hs ps (fst z) x (?live |` (- ?gone)) rs) \<and> total_rows_deleted (snd z) = of_nat (length ?out)"
  let ?pull = "on_child de_child ?put (filter_next predicate schema seq_scan_next n)" and ?body = "each (delete_row oid)"
  have "\<exists>z. while_batches ?pull ?body (?c, ?d) = Some (z, ok ()) \<and> ?Q z"
  proof (rule while_batches_rule [where R = ?R and rows = ?out])
    show "?R (?c, ?d) ?out" using D by auto
    fix z :: "Catalog \<times> SeqScanExecutor FilterExecutor DeleteExecutor" and left assume "?R z left"
    then obtain live where R: "deleting oid hs ps ?p (fst z) (de_child (snd z)) live left"
      "live |` (- snd ` set left) = ?live |` (- ?gone)" "total_rows_deleted (snd z) + of_nat (length left) = of_nat (length ?out)" by blast
    from delete_batch [OF R(1) n] obtain c' x' batch rest where b: "filter_next predicate schema seq_scan_next n (fst z, de_child (snd z)) =
        Some ((c', x'), ok (batch, batch \<noteq> []))" "left = batch @ rest" "left \<noteq> [] \<longrightarrow> batch \<noteq> []"
      "\<forall>d :: SeqScanExecutor FilterExecutor DeleteExecutor. \<exists>c2. each (delete_row oid) batch (c', d) = Some ((c2, d\<lparr>total_rows_deleted := total_rows_deleted d + of_nat (length batch)\<rparr>), ok ()) \<and>
        deleting oid hs ps ?p c2 x' (live |` (- snd ` set batch)) rest" by blast
    let ?d1 = "(snd z)\<lparr>de_child := x'\<rparr>"
    from b(4) obtain c2 where c2: "?body batch (c', ?d1) = Some ((c2, ?d1\<lparr>total_rows_deleted := total_rows_deleted ?d1 + of_nat (length batch)\<rparr>), ok ())"
      "deleting oid hs ps ?p c2 x' (live |` (- snd ` set batch)) rest" by blast
    let ?z2 = "(c2, ?d1\<lparr>total_rows_deleted := total_rows_deleted ?d1 + of_nat (length batch)\<rparr>)"
    have restrict: "(live |` (- snd ` set batch)) |` (- snd ` set rest) = live |` (- snd ` set left)"
      by (simp add: b(2) image_Un)
    show "\<exists>z1 batch rest. ?pull z = Some (z1, ok (batch, batch \<noteq> [])) \<and> left = batch @ rest \<and> (left \<noteq> [] \<longrightarrow> batch \<noteq> []) \<and>
        (batch = [] \<longrightarrow> ?Q z1) \<and> (batch \<noteq> [] \<longrightarrow> (\<exists>z2. ?body batch z1 = Some (z2, ok ()) \<and> ?R z2 rest))"
    proof (rule exI [of _ "(c', ?d1)"], rule exI [of _ batch], rule exI [of _ rest], intro conjI impI)
      show "?pull z = Some ((c', ?d1), ok (batch, batch \<noteq> []))" using b(1) by (simp add: on_child_def)
      have "?R ?z2 rest" using c2(2) R(2,3) restrict b(2) by (intro exI [of _ "live |` (- snd ` set batch)"]) (simp add: add.assoc)
      then show "\<exists>z2. ?body batch (c', ?d1) = Some (z2, ok ()) \<and> ?R z2 rest" using c2(1) by blast
      assume e: "batch = []"
      then have left: "left = []" using b(3) by blast
      from e c2(1) have "c2 = c'" by simp
      then show "\<exists>x rs. mid_scan oid hs ps (fst (c', ?d1)) x (?live |` (- ?gone)) rs"
        using c2(2) R(2) e left by (auto simp: deleting_def)
      show "total_rows_deleted (snd (c', ?d1)) = of_nat (length ?out)" using R(3) left by simp
    qed (use b(2,3) in blast)+
  qed
  then obtain c' d x' rs' where w: "while_batches ?pull ?body (?c, ?d) = Some ((c', d), ok ())"
    "mid_scan oid hs ps c' x' (?live |` (- ?gone)) rs'" "total_rows_deleted d = of_nat (length ?out)" by auto
  obtain t w where tw: "count_row (mp_schema plan) (of_nat (length ?out)) = ok (t, default_RecordId)"
    "tuple_value (mp_schema plan) 0 t = ok w" "same_value (Value_int32 INTEGER (sint (of_nat (length ?out) :: u32))) w"
    by (rule count_row_ok [OF plan(2)])
  have run: "delete_next plan (filter_next predicate schema seq_scan_next) n (?c, ?d) =
      Some ((c', d\<lparr>de_has_emitted_count := True\<rparr>), ok ([(t, default_RecordId)], True))"
    using w(1,3) tw(1) plan(1) by (simp add: delete_next_def run_bind_def ucast_count)
  note set = matching_rids(2) [OF rs, of keep]
  from distinct_card [OF matching_rids(1) [OF rs, of keep]] have "card ?gone = length ?out" by (simp only: set_map length_map)
  then have card: "length ?out = card {rid. \<exists>bs. ?live rid = Some bs \<and> keep bs}" unfolding set by (rule sym)
  from w(2) obtain info' where "table_ready oid hs ps c' info'" "rows_of c' info' ps = ?live |` (- ?gone)"
    by (auto simp: mid_scan_def scanning_def table_ready_def)
  moreover have "?live |` (- ?gone) = (\<lambda>rid. case ?live rid of Some bs \<Rightarrow> if keep bs then None else Some bs | None \<Rightarrow> None)"
    unfolding set by (auto simp: restrict_map_def fun_eq_iff split: option.splits)
  ultimately have "table_ready oid hs ps c' info' \<and> rows_of c' info' ps =
      (\<lambda>rid. case ?live rid of Some bs \<Rightarrow> if keep bs then None else Some bs | None \<Rightarrow> None)" by simp
  moreover have "de_has_emitted_count (d\<lparr>de_has_emitted_count := True\<rparr>)" by simp
  ultimately show ?thesis using init run tw(2) tw(3) [unfolded card] by blast
qed

text \<open>
  C10. DELETE FROM table WHERE predicate, as the delete executor over a filter over a scan of the same table, ends,
  removes exactly the rows that satisfy the predicate, although it deletes from the pages that the scan is still
  reading, and returns one row with their number (as a signed 32-bit count).
\<close>

theorem delete_where_removes_matching:
  assumes t: "table_ready oid hs ps c info" and plan: "mp_table_oid plan = oid" "map col_type (mp_schema plan) = [INTEGER]"
    and n: "0 < n" and fresh: "f_child_offset (de_child x) = 0"
    and total: "\<And>rid bs. rows_of c info ps rid = Some bs \<Longrightarrow> passes predicate schema (tuple_of bs) = ok (keep bs)"
  shows "\<exists>s0 c' y t w info'. delete_init plan (filter_init (seq_scan_init oid)) (c, x) = Some (s0, ok ()) \<and>
    delete_next plan (filter_next predicate schema seq_scan_next) n s0 = Some ((c', y), ok ([(t, default_RecordId)], True)) \<and>
    tuple_value (mp_schema plan) 0 t = ok w \<and>
    same_value (Value_int32 INTEGER (sint (of_nat (card {rid. \<exists>bs. rows_of c info ps rid = Some bs \<and> keep bs}) :: u32))) w \<and>
    table_ready oid hs ps c' info' \<and>
    rows_of c' info' ps = (\<lambda>rid. case rows_of c info ps rid of Some bs \<Rightarrow> if keep bs then None else Some bs | None \<Rightarrow> None)"
proof -
  have "\<forall>rid bs. rows_of c info ps rid = Some bs \<longrightarrow> passes predicate schema (tuple_of bs) = ok (keep bs)" using total by blast
  from delete_where [OF t plan n fresh this] show ?thesis by (elim exE conjE) (intro exI conjI; assumption)
qed

lemma delete_where_removes_matching_witness:
  fixes x :: "SeqScanExecutor FilterExecutor DeleteExecutor"
  defines "x \<equiv> \<lparr>de_child = \<lparr>f_child = new_scan, f_child_rows = [], f_child_offset = 0\<rparr>, total_rows_deleted = 0, de_has_emitted_count = False\<rparr>"
    and "plan \<equiv> \<lparr>mp_schema = [val_column INTEGER], mp_table_oid = 0\<rparr>"
  shows "\<exists>m rid s0 c' y t info'. rows_of (example_catalog m) example_info [0] = [rid \<mapsto> [0, 5]] \<and>
     delete_init plan (filter_init (seq_scan_init 0)) (example_catalog m, x) = Some (s0, ok ()) \<and>
     delete_next plan (filter_next (Some a_above_3) tiny_schema seq_scan_next) 256 s0 = Some ((c', y), ok ([(t, default_RecordId)], True)) \<and>
     rows_of c' info' [0] = Map.empty"
proof -
  obtain m rid where m: "sp_inv m" "sp_page_id m = 0" "get_next_page_id m = INVALID_PAGE_ID"
    and row: "heap_rows (example_pool m) example_heap [0] = [rid \<mapsto> [0, 5]]"
    by (rule page_with_row [of "[0, 5]"]) (simp_all add: storable_def)
  note R = example_ready [OF m]
  have total: "passes (Some a_above_3) tiny_schema (tuple_of bs) = ok True"
    if "rows_of (example_catalog m) example_info [0] r = Some bs" for r bs
    using that R(2) row tiny_row by (simp split: if_splits)
  have plan: "mp_table_oid plan = 0" "map col_type (mp_schema plan) = [INTEGER]" by (simp_all add: plan_def val_column_def)
  have fresh: "f_child_offset (de_child x) = 0" "(0::nat) < 256" by (simp_all add: x_def)
  obtain s0 c' y t info' where "delete_init plan (filter_init (seq_scan_init 0)) (example_catalog m, x) = Some (s0, ok ())"
    "delete_next plan (filter_next (Some a_above_3) tiny_schema seq_scan_next) 256 s0 = Some ((c', y), ok ([(t, default_RecordId)], True))"
    "rows_of c' info' [0] = (\<lambda>rid. case rows_of (example_catalog m) example_info [0] rid of Some bs \<Rightarrow> if True then None else Some bs | None \<Rightarrow> None)"
    using delete_where_removes_matching [OF R(1) plan fresh(2,1), of "Some a_above_3" tiny_schema "\<lambda>_. True"] total by blast
  moreover from this(3) have "rows_of c' info' [0] = Map.empty" by (auto simp: fun_eq_iff split: option.splits)
  moreover have "rows_of (example_catalog m) example_info [0] = [rid \<mapsto> [0, 5]]" using R(2) row by simp
  ultimately show ?thesis by blast
qed

end
