(* ===== verification/Catalog_File.thy ===== *)
theory Catalog_File
  imports Catalog TypeInstances
begin

section \<open>The catalog file\<close>

text \<open>
  src/common/util/binary_serializer.cpp, and \<open>load\<close>, \<open>flush\<close> and their helpers in src/catalog/catalog.cpp. An ifstream
  is the bytes that it has not read and its failbit; an ofstream is the bytes written to it, which reach the file when
  it is closed. The files are those of the disk manager's file system. Two parameters stand for the
  machine: \<open>alloc\<close> tells which string lengths cannot be allocated, and the clock gives the time of its k-th reading.
\<close>

definition MAGIC_NUMBER :: u32 where "MAGIC_NUMBER = 0xDEADBEEF"

definition DATABASE_VERSION :: u32 where "DATABASE_VERSION = 1"

subsection \<open>Binary streams\<close>

record IfStream =
  unread :: "u8 list"
  in_failed :: bool

type_synonym string_alloc = "nat \<Rightarrow> error option"
type_synonym clock = "nat \<Rightarrow> u64"

text \<open>\<open>istream::read\<close>: a stream that is not good reads nothing; a read that meets the end of the file fails.\<close>

definition stream_read :: "nat \<Rightarrow> IfStream \<Rightarrow> u8 list \<times> IfStream" where
  "stream_read n s = (if in_failed s then ([], s)
     else (take n (unread s), \<lparr>unread = drop n (unread s), in_failed = length (unread s) < n\<rparr>))"

text \<open>None is the result false, after which the variable has not got a value.\<close>

definition read_binary :: "nat \<Rightarrow> IfStream \<Rightarrow> nat option \<times> IfStream" where
  "read_binary n s = (case stream_read n s of (bs, s') \<Rightarrow> (if in_failed s' then None else Some (le_nat bs), s'))"

definition read_string :: "string_alloc \<Rightarrow> (IfStream, string) op" where
  "read_string alloc s = (case read_binary 8 s of
     (None, s1) \<Rightarrow> (s1, ok [])
   | (Some n, s1) \<Rightarrow> (case alloc n of
        Some e \<Rightarrow> (s1, throw e)
      | None \<Rightarrow> (case stream_read n s1 of (bs, s2) \<Rightarrow>
          (s2, ok (string_of (bs @ replicate (n - length bs) 0))))))"

definition write_binary :: "nat \<Rightarrow> nat \<Rightarrow> u8 list \<Rightarrow> u8 list" where
  "write_binary n x out = out @ le_bytes n x"

definition write_string :: "string \<Rightarrow> u8 list \<Rightarrow> u8 list" where
  "write_string str out = write_binary 8 (length str) out @ bytes_of str"

text \<open>\<open>is_open\<close> of an ofstream that truncates, and the file that it leaves when it is closed.\<close>

definition ofstream_opens :: "string \<Rightarrow> Catalog \<Rightarrow> bool" where
  "ofstream_opens path c \<longleftrightarrow> os_permits (disk_manager (bpm c)) path"

definition ofstream_close :: "string \<Rightarrow> u8 list \<Rightarrow> Catalog \<Rightarrow> Catalog" where
  "ofstream_close path out c = fst (cat_disk (\<lambda>d. (d\<lparr>file_system := (file_system d)(path \<mapsto> out)\<rparr>, ok ())) c)"

definition ifstream_open :: "string \<Rightarrow> Catalog \<Rightarrow> IfStream option" where
  "ifstream_open path c = (let d = disk_manager (bpm c) in
     if can_open d path then Some \<lparr>unread = the (file_system d path), in_failed = False\<rparr> else None)"

subsection \<open>Writing\<close>

definition namespace_bytes :: "Metadata \<Rightarrow> (string \<times> Namespace) list \<Rightarrow> u8 list \<Rightarrow> u8 list" where
  "namespace_bytes m nss out = foldl (\<lambda>out (n, _). write_binary 4 (unat (ucast (table_count m) :: u32)) (write_string n out)) out nss"

definition metadata_bytes :: "Metadata \<Rightarrow> Database \<Rightarrow> u8 list" where
  "metadata_bytes m db = namespace_bytes m (namespaces db)
     (write_binary 4 (unat (ucast (namespace_count m) :: u32))
     (write_binary 8 (unat (updated_at m))
     (write_binary 8 (unat (created_at m))
     (write_string (db_file_path m)
     (write_string (meta_file_path m)
     (write_string (db_name m)
     (write_binary 4 (unat MAGIC_NUMBER) [])))))))"

definition save_database_metadata :: "Metadata \<Rightarrow> Database \<Rightarrow> string \<Rightarrow> (Catalog, unit) op" where
  "save_database_metadata m db meta_file c = (if \<not> ofstream_opens meta_file c
     then (c, throw (Runtime_error (''Cannot open metadata file for writing: '' @ meta_file)))
     else (ofstream_close meta_file (metadata_bytes m db) c, ok ()))"

text \<open>The loop of flush, with the bytes of the catalog file so far; an exception leaves them written.\<close>

fun flush_databases :: "(string \<times> Database) list \<Rightarrow> u8 list \<Rightarrow> (Catalog, unit) op" where
  "flush_databases [] out c = (ofstream_close (catalog_file_path c) out c, ok ())"
| "flush_databases ((n, db) # dbs) out c = (case map_of (metadatas c) (meta db) of
     None \<Rightarrow> (ofstream_close (catalog_file_path c) out c, throw (Undefined ''reference to destroyed metadata''))
   | Some m \<Rightarrow>
       (let out1 = write_string (meta_file_path m) (write_string (db_file_path m) (write_string n out))
        in case save_database_metadata m db (meta_file_path m) c of
             (c1, Inl e) \<Rightarrow> (ofstream_close (catalog_file_path c1) out1 c1, Inl e)
           | (c1, Inr _) \<Rightarrow> flush_databases dbs out1 c1))"

definition catalog_flush :: "(Catalog, unit) op" where
  "catalog_flush c = (if \<not> ofstream_opens (catalog_file_path c) c then (c, ok ())
     else flush_databases (databases c)
       (write_binary 4 (unat (word_of_nat (length (databases c)) :: u32))
       (write_binary 4 (unat DATABASE_VERSION)
       (write_binary 4 (unat MAGIC_NUMBER) []))) c)"

text \<open>std::exception, which the handlers of the catalog catch.\<close>

fun is_std_exception :: "error \<Rightarrow> bool" where
  "is_std_exception (Exception _ _) = True"
| "is_std_exception (Runtime_error _) = True"
| "is_std_exception (Logic_error _) = True"
| "is_std_exception _ = False"

text \<open>A destructor lets no exception out.\<close>

definition destroy_Catalog :: "(Catalog, unit) op" where
  "destroy_Catalog c = (case catalog_flush c of
     (c1, Inl e) \<Rightarrow> (c1, throw (if is_std_exception e then Terminated ''exception in a destructor'' else e))
   | (c1, Inr _) \<Rightarrow> (c1, ok ()))"

subsection \<open>Reading\<close>

text \<open>What load_database_metadata changes: its stream, the database, its metadata and the readings of the clock.\<close>

record LoadState =
  ls_in :: IfStream
  ls_db :: "Database \<times> Metadata"
  ls_tick :: nat

definition from_stream :: "(IfStream, 'a) op \<Rightarrow> (LoadState, 'a) op" where
  "from_stream m l = (case m (ls_in l) of (s, r) \<Rightarrow> (l\<lparr>ls_in := s\<rparr>, r))"

definition skip_binary :: "nat \<Rightarrow> (IfStream, unit) op" where
  "skip_binary n s = (snd (read_binary n s), ok ())"

text \<open>\<open>create_namespace\<close> reads the clock when the name is new.\<close>

definition load_namespace :: "clock \<Rightarrow> string \<Rightarrow> (LoadState, unit) op" where
  "load_namespace clock n l = (l\<lparr>ls_db := create_namespace n (clock (ls_tick l)) (ls_db l),
     ls_tick := (if get_namespace n (fst (ls_db l)) = None then ls_tick l + 1 else ls_tick l)\<rparr>, ok ())"

fun load_namespaces :: "string_alloc \<Rightarrow> clock \<Rightarrow> nat \<Rightarrow> (LoadState, unit) op" where
  "load_namespaces alloc clock 0 = op_return ()"
| "load_namespaces alloc clock (Suc k) = op_bind (from_stream (read_string alloc)) (\<lambda>n.
     op_bind (load_namespace clock n) (\<lambda>_.
     op_bind (from_stream (skip_binary 4)) (\<lambda>_.
     load_namespaces alloc clock k)))"

definition touch_loaded :: "clock \<Rightarrow> (LoadState, unit) op" where
  "touch_loaded clock l = (case ls_db l of (db, m) \<Rightarrow>
     (l\<lparr>ls_db := (db, touch (clock (ls_tick l)) m), ls_tick := ls_tick l + 1\<rparr>, ok ()))"

definition load_metadata_stream :: "string_alloc \<Rightarrow> clock \<Rightarrow> string \<Rightarrow> (LoadState, unit) op" where
  "load_metadata_stream alloc clock meta_file =
     op_bind (from_stream (\<lambda>s. case read_binary 4 s of (x, s1) \<Rightarrow> (s1, ok x))) (\<lambda>magic.
     if magic \<noteq> Some (unat MAGIC_NUMBER)
     then op_throw (Runtime_error (''Invalid or corrupted metadata file: '' @ meta_file))
     else op_bind (from_stream (read_string alloc)) (\<lambda>_.
       op_bind (from_stream (read_string alloc)) (\<lambda>_.
       op_bind (from_stream (read_string alloc)) (\<lambda>_.
       op_bind (from_stream (skip_binary 8)) (\<lambda>_.
       op_bind (from_stream (skip_binary 8)) (\<lambda>_.
       op_bind (from_stream (\<lambda>s. case read_binary 4 s of
           (None, s1) \<Rightarrow> (s1, throw (Undefined ''uninitialised namespace_count''))
         | (Some k, s1) \<Rightarrow> (s1, ok k))) (\<lambda>k.
       op_bind (load_namespaces alloc clock k) (\<lambda>_.
       touch_loaded clock))))))))"

definition load_database_metadata :: "string_alloc \<Rightarrow> clock \<Rightarrow> string \<Rightarrow> Catalog \<Rightarrow>
    ((Database \<times> Metadata) \<times> nat, unit) op" where
  "load_database_metadata alloc clock meta_file c = (\<lambda>(dm, k). (case ifstream_open meta_file c of
     None \<Rightarrow> ((dm, k), throw (Runtime_error (''Cannot open metadata file for reading: '' @ meta_file)))
   | Some s \<Rightarrow> (case load_metadata_stream alloc clock meta_file \<lparr>ls_in = s, ls_db = dm, ls_tick = k\<rparr> of
        (l, r) \<Rightarrow> ((ls_db l, ls_tick l), r))))"

text \<open>The loop of load: k databases are left, the clock has been read t times.\<close>

fun load_databases :: "string_alloc \<Rightarrow> clock \<Rightarrow> nat \<Rightarrow> nat \<Rightarrow> IfStream \<Rightarrow> (Catalog, unit) op" where
  "load_databases alloc clock 0 t s c = (c, ok ())"
| "load_databases alloc clock (Suc k) t s c =
     (case op_bind (read_string alloc) (\<lambda>n. op_bind (read_string alloc) (\<lambda>file. op_bind (read_string alloc) (\<lambda>mfile.
         op_return (n, file, mfile)))) s of
        (s1, Inl e) \<Rightarrow> (c, Inl e)
      | (s1, Inr (n, file, mfile)) \<Rightarrow>
          (case load_database_metadata alloc clock mfile c
              ((\<lparr>meta = n, namespaces = []\<rparr>, new_Metadata n file mfile (clock t)), t + 1) of
             (((db, m), t1), r) \<Rightarrow> (case r of
                Inl e \<Rightarrow> if is_std_exception e
                  then load_databases alloc clock k t1 s1
                    (c\<lparr>metadatas := emplace n m (metadatas c), databases := emplace n db (databases c)\<rparr>)
                  else (c, Inl e)
              | Inr _ \<Rightarrow> load_databases alloc clock k t1 s1
                    (c\<lparr>metadatas := emplace n m (metadatas c), databases := emplace n db (databases c)\<rparr>))))"

definition catalog_load :: "string_alloc \<Rightarrow> clock \<Rightarrow> (Catalog, unit) op" where
  "catalog_load alloc clock c = (case ifstream_open (catalog_file_path c) c of
     None \<Rightarrow> (c, ok ())
   | Some s \<Rightarrow> (case read_binary 4 s of (magic, s1) \<Rightarrow>
       if magic \<noteq> Some (unat MAGIC_NUMBER) then (c, ok ())
       else case read_binary 4 s1 of (version, s2) \<Rightarrow>
         if version \<noteq> Some (unat DATABASE_VERSION) then (c, ok ())
         else case read_binary 4 s2 of
           (None, _) \<Rightarrow> (c, throw (Runtime_error ''Failed to read database count from catalog.''))
         | (Some k, s3) \<Rightarrow> load_databases alloc clock k 0 s3 c))"

definition new_Catalog :: "string_alloc \<Rightarrow> clock \<Rightarrow> BufferPoolManager \<Rightarrow> string \<Rightarrow> string \<Rightarrow> Catalog \<times> unit res" where
  "new_Catalog alloc clock b path dir = catalog_load alloc clock
     \<lparr>bpm = b, catalog_file_path = path, db_dir = dir, metadatas = [], databases = [], tables = [], table_oids = [], next_table_oid = 0\<rparr>"

end
