(* ===== verification/Catalog_Properties.thy ===== *)
theory Catalog_Properties
  imports Catalog_File Query_Properties
begin

section \<open>The catalog and its files\<close>

text \<open>
  The invariant of the catalog, what a new catalog object knows after it has loaded the files that another one wrote, and the
  registration of tables.
\<close>

subsection \<open>Reading back what was written\<close>

definition good :: "u8 list \<Rightarrow> IfStream" where
  "good bs = \<lparr>unread = bs, in_failed = False\<rparr>"

definition string_bytes :: "string \<Rightarrow> u8 list" where
  "string_bytes s = le_bytes 8 (length s) @ bytes_of s"

lemma write_appends: "write_binary n x out = out @ le_bytes n x" "write_string s out = out @ string_bytes s"
  by (simp_all add: write_binary_def write_string_def string_bytes_def)

lemma read_binary_good: "read_binary n (good (le_bytes n x @ rest)) = (Some (x mod 256 ^ n), good rest)"
  by (simp add: read_binary_def stream_read_def good_def le_nat_le_bytes)

text \<open>A string that can be read back.\<close>

definition readable :: "string_alloc \<Rightarrow> string \<Rightarrow> bool" where
  "readable alloc s \<longleftrightarrow> length s < 2 ^ 64 \<and> alloc (length s) = None"

lemma read_string_good: "readable alloc s \<Longrightarrow> read_string alloc (good (string_bytes s @ rest)) = (good rest, ok s)"
proof -
  assume r: "readable alloc s"
  have l: "length (bytes_of s) = length s" by (simp add: bytes_of_def)
  have "read_binary 8 (good (string_bytes s @ rest)) = (Some (length s), good (bytes_of s @ rest))"
    using read_binary_good [of 8 "length s" "bytes_of s @ rest"] r by (simp add: string_bytes_def readable_def)
  moreover have "stream_read (length s) (good (bytes_of s @ rest)) = (bytes_of s, good rest)"
    using l by (simp add: stream_read_def good_def)
  ultimately show ?thesis using r by (simp add: read_string_def readable_def l string_of_bytes_of)
qed

subsection \<open>Namespaces\<close>

text \<open>Two names for the k-th namespace and its table count in a metadata file.\<close>

definition namespaces_bytes :: "nat \<Rightarrow> string list \<Rightarrow> u8 list" where
  "namespaces_bytes tc ns = concat (map (\<lambda>n. string_bytes n @ le_bytes 4 tc) ns)"

lemma namespace_bytes_alt:
  "namespace_bytes m nss out = out @ namespaces_bytes (unat (ucast (table_count m) :: u32)) (map fst nss)"
  unfolding namespace_bytes_def
  by (induction nss arbitrary: out) (auto simp: write_appends namespaces_bytes_def)

text \<open>A database with empty namespaces, as load makes it.\<close>

definition with_namespaces :: "string \<Rightarrow> string list \<Rightarrow> Database" where
  "with_namespaces n ns = \<lparr>meta = n, namespaces = map (\<lambda>k. (k, new_Namespace k)) ns\<rparr>"

lemma load_namespaces_ok:
  assumes "\<forall>n \<in> set ns. readable alloc n" and "distinct (done @ ns)"
    and "fst (ls_db l) = with_namespaces d done" and "ls_in l = good (namespaces_bytes tc ns @ rest)"
  shows "\<exists>l'. load_namespaces alloc clock (length ns) l = (l', ok ()) \<and> fst (ls_db l') = with_namespaces d (done @ ns) \<and>
    (\<exists>t. snd (ls_db l') = (snd (ls_db l))\<lparr>namespace_count := namespace_count (snd (ls_db l)) + of_nat (length ns), updated_at := t\<rparr>)"
  using assms
proof (induction ns arbitrary: l "done")
  case Nil
  then show ?case by (intro exI [of _ l]) (auto simp: op_return_def intro!: exI [of _ "updated_at (snd (ls_db l))"])
next
  case (Cons n ns)
  obtain db m where db: "ls_db l = (db, m)" by (cases "ls_db l")
  have new: "map_of (namespaces db) n = None"
    using Cons.prems(2,3) db by (auto simp: with_namespaces_def map_of_eq_None_iff)
  let ?db = "with_namespaces d (done @ [n])"
  let ?m = "touch (clock (ls_tick l)) (increase_namespace m)"
  let ?l = "l\<lparr>ls_db := (?db, ?m), ls_tick := ls_tick l + 1, ls_in := good (namespaces_bytes tc ns @ rest)\<rparr>"
  have "read_string alloc (ls_in l) = (good (le_bytes 4 tc @ namespaces_bytes tc ns @ rest), ok n)"
    using Cons.prems(1,4) by (simp add: namespaces_bytes_def read_string_good)
  moreover have "create_namespace n (clock (ls_tick l)) (db, m) = (?db, ?m)"
    using new Cons.prems(3) db by (simp add: create_namespace_def emplace_def with_namespaces_def)
  moreover have "skip_binary 4 (good (le_bytes 4 tc @ namespaces_bytes tc ns @ rest)) = (good (namespaces_bytes tc ns @ rest), ok ())"
    by (simp add: skip_binary_def read_binary_good)
  ultimately have step: "load_namespaces alloc clock (Suc (length ns)) l = load_namespaces alloc clock (length ns) ?l"
    using new db by (simp add: op_bind_def from_stream_def load_namespace_def get_namespace_def)
  have "distinct ((done @ [n]) @ ns)" "\<forall>n \<in> set ns. readable alloc n" using Cons.prems(1,2) by auto
  from Cons.IH [OF this(2,1), of ?l] obtain l' t where l': "load_namespaces alloc clock (length ns) ?l = (l', ok ())"
    "fst (ls_db l') = with_namespaces d ((done @ [n]) @ ns)"
    "snd (ls_db l') = ?m\<lparr>namespace_count := namespace_count ?m + of_nat (length ns), updated_at := t\<rparr>" by auto
  then show ?case using step db by (auto simp: touch_def increase_namespace_def add.assoc intro!: exI [of _ t])
qed

subsection \<open>Metadata files\<close>

text \<open>The strings of a database's metadata and of its namespaces can be read back.\<close>

definition metadata_readable :: "string_alloc \<Rightarrow> Metadata \<Rightarrow> Database \<Rightarrow> bool" where
  "metadata_readable alloc m db \<longleftrightarrow> readable alloc (db_name m) \<and> readable alloc (db_file_path m) \<and> readable alloc (meta_file_path m) \<and>
     (\<forall>n \<in> set (map fst (namespaces db)). readable alloc n)"

text \<open>The invariant of one database.\<close>

definition database_ok :: "Metadata \<Rightarrow> Database \<Rightarrow> bool" where
  "database_ok m db \<longleftrightarrow> db_name m = meta db \<and> distinct (map fst (namespaces db)) \<and>
     namespace_count m = of_nat (length (namespaces db)) \<and> (\<forall>(n, ns) \<in> set (namespaces db). ns_name ns = n)"

lemma metadata_bytes_alt:
  "metadata_bytes m db = le_bytes 4 (unat MAGIC_NUMBER) @ string_bytes (db_name m) @ string_bytes (meta_file_path m) @
     string_bytes (db_file_path m) @ le_bytes 8 (unat (created_at m)) @ le_bytes 8 (unat (updated_at m)) @
     le_bytes 4 (unat (ucast (namespace_count m) :: u32)) @
     namespaces_bytes (unat (ucast (table_count m) :: u32)) (map fst (namespaces db))"
  by (simp add: metadata_bytes_def namespace_bytes_alt write_appends)

lemma from_stream_read:
  "from_stream (read_string alloc) l = (l\<lparr>ls_in := fst (read_string alloc (ls_in l))\<rparr>, snd (read_string alloc (ls_in l)))"
  "from_stream (skip_binary n) l = (l\<lparr>ls_in := snd (read_binary n (ls_in l))\<rparr>, ok ())"
  by (simp_all add: from_stream_def skip_binary_def split: prod.splits)

lemma load_metadata_stream_ok:
  assumes "metadata_readable alloc m db" and "database_ok m db" and "length (namespaces db) < 2 ^ 32"
    and "ls_in l = good (metadata_bytes m db)" and "ls_db l = (with_namespaces d [], m0)"
  shows "\<exists>l' t. load_metadata_stream alloc clock path l = (l', ok ()) \<and>
    ls_db l' = (with_namespaces d (map fst (namespaces db)), m0\<lparr>namespace_count := namespace_count m0 + namespace_count m, updated_at := t\<rparr>)"
proof -
  let ?ns = "map fst (namespaces db)" and ?tc = "unat (ucast (table_count m) :: u32)"
  let ?l = "l\<lparr>ls_in := good (namespaces_bytes ?tc ?ns)\<rparr>"
  have magic: "unat MAGIC_NUMBER mod 256 ^ 4 = unat MAGIC_NUMBER" by (simp add: MAGIC_NUMBER_def)
  have count: "unat (ucast (namespace_count m) :: u32) mod 256 ^ 4 = length ?ns"
    using assms(2,3) by (simp add: database_ok_def ucast_count unat_of_nat)
  have read: "readable alloc (db_name m)" "readable alloc (meta_file_path m)" "readable alloc (db_file_path m)" "\<forall>n \<in> set ?ns. readable alloc n"
    using assms(1) by (simp_all add: metadata_readable_def)
  have dist: "distinct ([] @ ?ns)" using assms(2) by (simp add: database_ok_def)
  from load_namespaces_ok [OF read(4) dist, of ?l d ?tc "[]" clock] assms(5) obtain l' t where
    l': "load_namespaces alloc clock (length ?ns) ?l = (l', ok ())" "fst (ls_db l') = with_namespaces d ?ns"
    "snd (ls_db l') = m0\<lparr>namespace_count := namespace_count m0 + of_nat (length ?ns), updated_at := t\<rparr>" by auto
  have "load_metadata_stream alloc clock path l = op_bind (load_namespaces alloc clock (length ?ns)) (\<lambda>_. touch_loaded clock) ?l"
    using assms(4) read(1-3) magic count
    by (simp add: load_metadata_stream_def op_bind_def from_stream_def skip_binary_def metadata_bytes_alt read_binary_good read_string_good)
  then show ?thesis using l' assms(2)
    by (cases "ls_db l'") (auto simp: op_bind_def touch_loaded_def touch_def database_ok_def)
qed

subsection \<open>Writing the catalog\<close>

definition file_sys :: "Catalog \<Rightarrow> string \<Rightarrow> u8 list option" where
  "file_sys c = file_system (disk_manager (bpm c))"

definition set_file_sys :: "(string \<Rightarrow> u8 list option) \<Rightarrow> Catalog \<Rightarrow> Catalog" where
  "set_file_sys fs c = c\<lparr>bpm := (bpm c)\<lparr>disk_manager := (disk_manager (bpm c))\<lparr>file_system := fs\<rparr>\<rparr>\<rparr>"

lemma set_file_sys_simps [simp]:
  "file_sys (set_file_sys fs c) = fs" "set_file_sys fs (set_file_sys fs' c) = set_file_sys fs c"
  "databases (set_file_sys fs c) = databases c" "metadatas (set_file_sys fs c) = metadatas c"
  "catalog_file_path (set_file_sys fs c) = catalog_file_path c" "ofstream_opens p (set_file_sys fs c) = ofstream_opens p c"
  by (simp_all add: file_sys_def set_file_sys_def ofstream_opens_def)

lemma ofstream_close_alt: "ofstream_close p out c = set_file_sys ((file_sys c)(p \<mapsto> out)) c"
  by (simp add: ofstream_close_def cat_disk_def on_disk_def set_file_sys_def file_sys_def)

definition metadata_of :: "Catalog \<Rightarrow> Database \<Rightarrow> Metadata" where
  "metadata_of c db = the (map_of (metadatas c) (meta db))"

definition meta_path :: "Catalog \<Rightarrow> string \<times> Database \<Rightarrow> string" where
  "meta_path c e = meta_file_path (metadata_of c (snd e))"

definition entry_bytes :: "Catalog \<Rightarrow> string \<times> Database \<Rightarrow> u8 list" where
  "entry_bytes c e = string_bytes (fst e) @ string_bytes (db_file_path (metadata_of c (snd e))) @ string_bytes (meta_path c e)"

text \<open>The invariant: every database has its metadata, under the same name.\<close>

definition catalog_ok :: "Catalog \<Rightarrow> bool" where
  "catalog_ok c \<longleftrightarrow> distinct (map fst (databases c)) \<and> dom (map_of (metadatas c)) = fst ` set (databases c) \<and>
     (\<forall>e \<in> set (databases c). meta (snd e) = fst e \<and> database_ok (metadata_of c (snd e)) (snd e))"

text \<open>The files can be written, are different files, and their strings can be read back.\<close>

definition persistable :: "string_alloc \<Rightarrow> Catalog \<Rightarrow> bool" where
  "persistable alloc c \<longleftrightarrow> distinct (catalog_file_path c # map (meta_path c) (databases c)) \<and> length (databases c) < 2 ^ 32 \<and>
     (\<forall>p \<in> set (catalog_file_path c # map (meta_path c) (databases c)). ofstream_opens p c) \<and>
     (\<forall>e \<in> set (databases c). metadata_readable alloc (metadata_of c (snd e)) (snd e) \<and> length (namespaces (snd e)) < 2 ^ 32)"

lemma flush_databases_ok:
  assumes "\<forall>e \<in> set dbs. map_of (metadatas c) (meta (snd e)) \<noteq> None \<and> ofstream_opens (meta_path c e) c"
    and "distinct (catalog_file_path c # map (meta_path c) dbs)"
  shows "\<exists>fs'. flush_databases dbs out (set_file_sys fs c) = (set_file_sys fs' c, ok ()) \<and>
    fs' (catalog_file_path c) = Some (out @ concat (map (entry_bytes c) dbs)) \<and>
    (\<forall>e \<in> set dbs. fs' (meta_path c e) = Some (metadata_bytes (metadata_of c (snd e)) (snd e))) \<and>
    (\<forall>p. p \<noteq> catalog_file_path c \<longrightarrow> p \<notin> meta_path c ` set dbs \<longrightarrow> fs' p = fs p)"
  using assms
proof (induction dbs arbitrary: out fs)
  case Nil
  then show ?case by (intro exI [of _ "fs(catalog_file_path c \<mapsto> out)"]) (simp add: ofstream_close_alt fun_upd_def)
next
  case (Cons e dbs)
  obtain n db where e: "e = (n, db)" by (cases e)
  obtain m where m: "map_of (metadatas c) (meta db) = Some m" using Cons.prems(1) e by auto
  then have mo: "metadata_of c db = m" "meta_path c (n, db) = meta_file_path m" by (simp_all add: metadata_of_def meta_path_def)
  let ?out = "out @ entry_bytes c e" and ?fs = "fs(meta_path c e \<mapsto> metadata_bytes m db)"
  have "flush_databases (e # dbs) out (set_file_sys fs c) = flush_databases dbs ?out (set_file_sys ?fs c)"
    using Cons.prems(1) m by (simp add: e mo save_database_metadata_def ofstream_close_alt write_appends entry_bytes_def Let_def)
  moreover have pre: "\<forall>e \<in> set dbs. map_of (metadatas c) (meta (snd e)) \<noteq> None \<and> ofstream_opens (meta_path c e) c"
    "distinct (catalog_file_path c # map (meta_path c) dbs)" using Cons.prems by auto
  from Cons.IH [OF pre, of ?out ?fs] obtain fs' where fs': "flush_databases dbs ?out (set_file_sys ?fs c) = (set_file_sys fs' c, ok ())"
    "fs' (catalog_file_path c) = Some (?out @ concat (map (entry_bytes c) dbs))"
    "\<forall>e \<in> set dbs. fs' (meta_path c e) = Some (metadata_bytes (metadata_of c (snd e)) (snd e))"
    "\<forall>p. p \<noteq> catalog_file_path c \<longrightarrow> p \<notin> meta_path c ` set dbs \<longrightarrow> fs' p = ?fs p" by blast
  moreover have "fs' (meta_path c e) = Some (metadata_bytes m db)"
    using fs'(4) Cons.prems(2) by auto
  ultimately show ?case using Cons.prems(2) by (intro exI [of _ fs']) (auto simp: e mo(1))
qed

subsection \<open>Loading the catalog\<close>

definition empty_Catalog :: "BufferPoolManager \<Rightarrow> string \<Rightarrow> string \<Rightarrow> Catalog" where
  "empty_Catalog b path dir = \<lparr>bpm = b, catalog_file_path = path, db_dir = dir, metadatas = [], databases = [],
     tables = [], table_oids = [], next_table_oid = 0\<rparr>"

text \<open>What a database and its metadata become: the namespaces without their tables, the times of the load.\<close>

definition reloaded :: "string \<times> Database \<Rightarrow> string \<times> Database" where
  "reloaded e = (fst e, with_namespaces (fst e) (map fst (namespaces (snd e))))"

definition same_metadata :: "Metadata \<Rightarrow> Metadata \<Rightarrow> bool" where
  "same_metadata m m' \<longleftrightarrow> (\<exists>t u. m' = m\<lparr>created_at := t, updated_at := u, table_count := 0\<rparr>)"

definition load_rel :: "Catalog \<Rightarrow> (string \<times> Database) list \<Rightarrow> Catalog \<Rightarrow> bool" where
  "load_rel c es c' \<longleftrightarrow> databases c' = map reloaded es \<and>
     list_all2 (\<lambda>e (n, m'). n = fst e \<and> same_metadata (metadata_of c (snd e)) m') es (metadatas c')"

lemma load_rel_names:
  assumes "load_rel c es c'"
  shows "map fst (databases c') = map fst es" and "map fst (metadatas c') = map fst es"
proof -
  show "map fst (databases c') = map fst es" using assms by (simp add: load_rel_def reloaded_def)
  have "list_all2 (\<lambda>e (n, m'). n = fst e \<and> same_metadata (metadata_of c (snd e)) m') es (metadatas c')"
    using assms by (simp add: load_rel_def)
  then show "map fst (metadatas c') = map fst es" by (induction rule: list_all2_induct) auto
qed

lemma load_databases_ok:
  assumes c: "catalog_ok c" "persistable alloc c" and es: "databases c = done @ dbs"
    and disk: "os_permits (disk_manager (bpm c')) = os_permits (disk_manager (bpm c))"
    and fs: "\<forall>e \<in> set dbs. file_sys c' (meta_path c e) = Some (metadata_bytes (metadata_of c (snd e)) (snd e))"
    and rel: "load_rel c done c'"
  shows "\<exists>ms. load_databases alloc clock (length dbs) t (good (concat (map (entry_bytes c) dbs) @ rest)) c' =
      (c'\<lparr>databases := map reloaded (databases c), metadatas := ms\<rparr>, ok ()) \<and>
    load_rel c (databases c) (c'\<lparr>databases := map reloaded (databases c), metadatas := ms\<rparr>)"
  using es disk fs rel
proof (induction dbs arbitrary: "done" c' t)
  case Nil
  then show ?case by (intro exI [of _ "metadatas c'"]) (simp add: load_rel_def)
next
  case (Cons e dbs)
  obtain n db where e: "e = (n, db)" by (cases e)
  let ?m = "metadata_of c db" and ?in = "concat (map (entry_bytes c) dbs) @ rest"
  have in_c: "e \<in> set (databases c)" using Cons.prems(1) by simp
  have ok_e: "database_ok ?m db" "meta db = n" using c(1) in_c by (auto simp: catalog_ok_def e)
  have p_e: "metadata_readable alloc ?m db" "length (namespaces db) < 2 ^ 32" "ofstream_opens (meta_path c e) c"
    using c(2) in_c by (auto simp: persistable_def e)
  have "readable alloc n" "readable alloc (db_file_path ?m)" "readable alloc (meta_path c e)"
    using p_e(1) ok_e by (simp_all add: metadata_readable_def database_ok_def meta_path_def e)
  then have strings: "op_bind (read_string alloc) (\<lambda>n. op_bind (read_string alloc) (\<lambda>file. op_bind (read_string alloc) (\<lambda>mfile.
      op_return (n, file, mfile)))) (good (entry_bytes c e @ ?in)) = (good ?in, ok (n, db_file_path ?m, meta_path c e))"
    by (simp add: op_bind_def op_return_def entry_bytes_def read_string_good e)
  have opens: "ifstream_open (meta_path c e) c' = Some (good (metadata_bytes ?m db))"
    using Cons.prems(2,3) p_e(3) by (simp add: ifstream_open_def can_open_def file_sys_def ofstream_opens_def good_def e Let_def)
  let ?new = "new_Metadata n (db_file_path ?m) (meta_path c e) (clock t)"
  let ?l = "\<lparr>ls_in = good (metadata_bytes ?m db), ls_db = (\<lparr>meta = n, namespaces = []\<rparr>, ?new), ls_tick = t + 1\<rparr>"
  have "ls_db ?l = (with_namespaces n [], ?new)" by (simp add: with_namespaces_def)
  from load_metadata_stream_ok [OF p_e(1) ok_e(1) p_e(2) _ this, of clock "meta_path c e"] obtain l' u where
    l': "load_metadata_stream alloc clock (meta_path c e) ?l = (l', ok ())"
    "ls_db l' = (snd (reloaded e), ?new\<lparr>namespace_count := namespace_count ?new + namespace_count ?m, updated_at := u\<rparr>)"
    by (auto simp: reloaded_def e)
  let ?upd = "?new\<lparr>namespace_count := namespace_count ?new + namespace_count ?m, updated_at := u\<rparr>"
  have load: "load_database_metadata alloc clock (meta_path c e) c' ((\<lparr>meta = n, namespaces = []\<rparr>, ?new), t + 1) =
      (((snd (reloaded e), ?upd), ls_tick l'), ok ())"
    using opens l' by (simp add: load_database_metadata_def)
  have fresh: "n \<notin> fst ` set done" using c(1) Cons.prems(1) by (auto simp: catalog_ok_def e)
  have names: "map fst (databases c') = map fst done" "map fst (metadatas c') = map fst done"
    using load_rel_names [OF Cons.prems(4)] by simp_all
  then have "n \<notin> fst ` set (databases c')" "n \<notin> fst ` set (metadatas c')" using fresh by (metis list.set_map)+
  then have emplace: "emplace n ?upd (metadatas c') = metadatas c' @ [(n, ?upd)]"
    "emplace n (snd (reloaded e)) (databases c') = map reloaded (done @ [e])"
    using Cons.prems(4) by (auto simp: emplace_def map_of_eq_None_iff load_rel_def reloaded_def e)
  let ?c = "c'\<lparr>metadatas := metadatas c' @ [(n, ?upd)], databases := map reloaded (done @ [e])\<rparr>"
  have "same_metadata ?m ?upd"
    unfolding same_metadata_def using ok_e
    by (intro exI [of _ "clock t"] exI [of _ u]) (cases ?m, simp add: new_Metadata_def database_ok_def meta_path_def e)
  then have "load_rel c (done @ [e]) ?c" using Cons.prems(4) by (simp add: load_rel_def e list_all2_appendI)
  moreover have "databases c = (done @ [e]) @ dbs" using Cons.prems(1) by simp
  moreover have "\<forall>e \<in> set dbs. file_sys ?c (meta_path c e) = Some (metadata_bytes (metadata_of c (snd e)) (snd e))"
    using Cons.prems(3) by (simp add: file_sys_def)
  ultimately obtain ms where ih: "load_databases alloc clock (length dbs) (ls_tick l') (good ?in) ?c =
      (?c\<lparr>databases := map reloaded (databases c), metadatas := ms\<rparr>, ok ())"
    "load_rel c (databases c) (?c\<lparr>databases := map reloaded (databases c), metadatas := ms\<rparr>)"
    using Cons.IH [of "done @ [e]" ?c "ls_tick l'"] Cons.prems(2) by auto
  have "load_databases alloc clock (length (e # dbs)) t (good (concat (map (entry_bytes c) (e # dbs)) @ rest)) c' =
      load_databases alloc clock (length dbs) (ls_tick l') (good ?in) ?c"
    using strings load emplace by simp
  then show ?case using ih by (intro exI [of _ ms]) (simp add: load_rel_def)
qed

lemma load_rel_metadata:
  assumes "list_all2 (\<lambda>e (n, m'). n = fst e \<and> same_metadata (metadata_of c (snd e)) m') es ms" and "distinct (map fst es)" and "e \<in> set es"
  shows "\<exists>m'. map_of ms (fst e) = Some m' \<and> same_metadata (metadata_of c (snd e)) m'"
  using assms by (induction rule: list_all2_induct) (auto simp: image_iff)

lemma reloaded_ok:
  assumes "catalog_ok c" and "load_rel c (databases c) c'"
  shows "catalog_ok c'"
proof -
  note names = load_rel_names [OF assms(2)]
  have dist: "distinct (map fst (databases c))" using assms(1) by (simp add: catalog_ok_def)
  have "dom (map_of (metadatas c')) = fst ` set (databases c')" by (metis dom_map_of_conv_image_fst list.set_map names)
  moreover have "meta (snd e') = fst e' \<and> database_ok (metadata_of c' (snd e')) (snd e')" if "e' \<in> set (databases c')" for e'
  proof -
    from that obtain e where e: "e \<in> set (databases c)" "e' = reloaded e" using assms(2) by (auto simp: load_rel_def)
    then obtain m' where m': "map_of (metadatas c') (fst e) = Some m'" "same_metadata (metadata_of c (snd e)) m'"
      using load_rel_metadata [OF _ dist e(1), of c] assms(2) by (auto simp: load_rel_def)
    have "database_ok (metadata_of c (snd e)) (snd e)" "meta (snd e) = fst e" using assms(1) e(1) by (simp_all add: catalog_ok_def)
    then show ?thesis using m'
      by (auto simp: e(2) reloaded_def with_namespaces_def metadata_of_def database_ok_def same_metadata_def new_Namespace_def comp_def)
  qed
  ultimately show ?thesis using dist names by (simp add: catalog_ok_def)
qed

text \<open>
  C23. A catalog that is flushed and loaded by a new catalog object has the same databases with the same namespaces, in the
  same files; the metadata are the same but for the two times, which become those of the load, and the count of tables. No
  table comes back: neither the tables of the namespaces nor the registered heaps are in the files.
\<close>

theorem catalog_reload:
  assumes "catalog_ok c" and "persistable alloc c"
  shows "\<exists>c1 c2. catalog_flush c = (c1, ok ()) \<and> new_Catalog alloc clock (bpm c1) (catalog_file_path c) dir = (c2, ok ()) \<and>
    databases c2 = map (\<lambda>(n, db). (n, with_namespaces n (map fst (namespaces db)))) (databases c) \<and>
    (\<forall>n \<in> fst ` set (databases c). \<exists>m t u. map_of (metadatas c) n = Some m \<and>
       map_of (metadatas c2) n = Some (m\<lparr>created_at := t, updated_at := u, table_count := 0\<rparr>)) \<and>
    catalog_ok c2 \<and> tables c2 = [] \<and> table_oids c2 = []"
proof -
  let ?path = "catalog_file_path c" and ?n = "length (databases c)"
  let ?head = "le_bytes 4 (unat MAGIC_NUMBER) @ le_bytes 4 (unat DATABASE_VERSION) @ le_bytes 4 (unat (word_of_nat ?n :: u32))"
  have same: "set_file_sys (file_sys c) c = c" by (simp add: set_file_sys_def file_sys_def)
  have meta: "map_of (metadatas c) (fst e) = Some (metadata_of c (snd e))" "meta (snd e) = fst e" if "e \<in> set (databases c)" for e
  proof -
    show "meta (snd e) = fst e" using assms(1) that by (simp add: catalog_ok_def)
    have "fst e \<in> dom (map_of (metadatas c))" using assms(1) that by (simp add: catalog_ok_def)
    then show "map_of (metadatas c) (fst e) = Some (metadata_of c (snd e))"
      using \<open>meta (snd e) = fst e\<close> by (auto simp: metadata_of_def)
  qed
  have pre: "\<forall>e \<in> set (databases c). map_of (metadatas c) (meta (snd e)) \<noteq> None \<and> ofstream_opens (meta_path c e) c"
    "distinct (?path # map (meta_path c) (databases c))" "ofstream_opens ?path c" "?n < 2 ^ 32"
    using assms(2) meta by (auto simp: persistable_def)
  from flush_databases_ok [OF pre(1,2), of ?head "file_sys c"] obtain fs where fs:
    "flush_databases (databases c) ?head c = (set_file_sys fs c, ok ())"
    "fs ?path = Some (?head @ concat (map (entry_bytes c) (databases c)))"
    "\<forall>e \<in> set (databases c). fs (meta_path c e) = Some (metadata_bytes (metadata_of c (snd e)) (snd e))"
    unfolding same by blast
  let ?c1 = "set_file_sys fs c"
  have flush: "catalog_flush c = (?c1, ok ())" using fs(1) pre(3) by (simp add: catalog_flush_def write_appends)
  let ?c = "empty_Catalog (bpm ?c1) ?path dir"
  have disk: "os_permits (disk_manager (bpm ?c)) = os_permits (disk_manager (bpm c))" "file_sys ?c = fs"
    by (simp_all add: empty_Catalog_def set_file_sys_def file_sys_def)
  have "ifstream_open ?path ?c = Some (good (?head @ concat (map (entry_bytes c) (databases c)) @ []))"
    using disk fs(2) pre(3) by (simp add: ifstream_open_def can_open_def file_sys_def ofstream_opens_def good_def Let_def)
  moreover have "unat (word_of_nat ?n :: u32) = ?n" using pre(4) by (simp add: unat_of_nat)
  moreover have "unat MAGIC_NUMBER < 256 ^ 4" "unat DATABASE_VERSION < 256 ^ 4" "catalog_file_path ?c = ?path"
    by (simp_all add: MAGIC_NUMBER_def DATABASE_VERSION_def empty_Catalog_def)
  ultimately have load: "new_Catalog alloc clock (bpm ?c1) ?path dir =
      load_databases alloc clock ?n 0 (good (concat (map (entry_bytes c) (databases c)) @ [])) ?c"
    using pre(4) by (simp add: new_Catalog_def catalog_load_def read_binary_good flip: empty_Catalog_def)
  have "load_rel c [] ?c" by (simp add: load_rel_def empty_Catalog_def)
  from load_databases_ok [OF assms _ disk(1) _ this, of "databases c" clock 0 "[]"] fs(3) disk(2) obtain ms where l:
    "new_Catalog alloc clock (bpm ?c1) ?path dir = (?c\<lparr>databases := map reloaded (databases c), metadatas := ms\<rparr>, ok ())"
    "load_rel c (databases c) (?c\<lparr>databases := map reloaded (databases c), metadatas := ms\<rparr>)"
    unfolding load by auto
  let ?c2 = "?c\<lparr>databases := map reloaded (databases c), metadatas := ms\<rparr>"
  have "\<exists>m t u. map_of (metadatas c) n = Some m \<and> map_of (metadatas ?c2) n = Some (m\<lparr>created_at := t, updated_at := u, table_count := 0\<rparr>)"
    if "n \<in> fst ` set (databases c)" for n
  proof -
    from that obtain e where e: "e \<in> set (databases c)" "n = fst e" by auto
    have "distinct (map fst (databases c))" using assms(1) by (simp add: catalog_ok_def)
    from load_rel_metadata [OF _ this e(1), of c ms] l(2) meta [OF e(1)] show ?thesis
      by (auto simp: load_rel_def same_metadata_def e(2))
  qed
  moreover have "databases ?c2 = map (\<lambda>(n, db). (n, with_namespaces n (map fst (namespaces db)))) (databases c)"
    by (simp add: reloaded_def case_prod_unfold)
  moreover have "tables ?c2 = []" "table_oids ?c2 = []" by (simp_all add: empty_Catalog_def)
  ultimately show ?thesis using flush l(1) reloaded_ok [OF assms(1) l(2)]
    by (intro exI [of _ ?c1] exI [of _ ?c2] conjI ballI) simp_all
qed

subsection \<open>Registering a table\<close>

text \<open>Creating a file under the pool: cached pages and pages on disk stay, and the new id is known to the disk manager.\<close>

lemma create_file_pool:
  assumes inv: "pool_inv {} b hs" and fresh_file: "os_permits (disk_manager b) path"
    "\<forall>f s. files (disk_manager b) f = Some s \<longrightarrow> stream_path s \<noteq> path" "files (disk_manager b) (next_file_id (disk_manager b)) = None"
  shows "\<exists>d'. create_file path (disk_manager b) = (d', ok (next_file_id (disk_manager b))) \<and> pool_inv {} (b\<lparr>disk_manager := d'\<rparr>) hs \<and>
    view_kept b (b\<lparr>disk_manager := d'\<rparr>) \<and> fresh_numbers (next_file_id (disk_manager b)) (b\<lparr>disk_manager := d'\<rparr>) \<and>
    (\<forall>p. fresh_numbers p b \<longrightarrow> p \<noteq> next_file_id (disk_manager b) \<and> fresh_numbers p (b\<lparr>disk_manager := d'\<rparr>))"
proof -
  let ?d = "disk_manager b" and ?new = "next_file_id (disk_manager b)"
  note P = pool_invD [OF inv]
  have "disk_inv ?d" using P(5) by (simp add: content_ok_def)
  from create_file_ok [OF this fresh_file] obtain d' where d': "create_file path ?d = (d', ok ?new)" "disk_inv d'"
    "disk_open_files d' = insert ?new (disk_open_files ?d)" "\<forall>f p bs. disk_page ?d f p = Some bs \<longrightarrow> disk_page d' f p = Some bs" by blast
  let ?b = "b\<lparr>disk_manager := d'\<rparr>"
  have at: "page_at b k = Some x \<Longrightarrow> page_at ?b k = Some x" for k x using d'(4) by (simp add: page_at_def)
  have "content_ok ?b hs" unfolding content_ok_def
  proof (intro conjI ballI)
    show "disk_inv (disk_manager ?b)" using d'(2) by simp
    fix f assume "f \<in> tracked ?b"
    then have f: "length (page_data (pages b f)) = PAGE_SIZE" "page_at b (key_of (pages b f)) \<noteq> None"
      "\<not> is_dirty (pages b f) \<longrightarrow> \<not> modifying f hs \<longrightarrow> page_at b (key_of (pages b f)) = Some (page_data (pages b f))"
      using P(5) by (simp_all add: content_ok_def)
    then obtain x where x: "page_at b (key_of (pages b f)) = Some x" by blast
    show "length (page_data (pages ?b f)) = PAGE_SIZE" using f(1) by simp
    show "page_at ?b (key_of (pages ?b f)) \<noteq> None" using at [OF x] by simp
    show "\<not> is_dirty (pages ?b f) \<longrightarrow> \<not> modifying f hs \<longrightarrow> page_at ?b (key_of (pages ?b f)) = Some (page_data (pages ?b f))"
      using f(3) at by simp
  qed
  then have "pool_inv {} ?b hs" using inv by (simp add: pool_inv_def frames_ok_def table_ok_def pins_ok_def latch_ok_def)
  moreover have "view_kept b ?b" using at by (auto simp: view_kept_def bpm_view_def split: option.splits)
  moreover have "page_table b (?new, q) = None" for q
  proof (rule ccontr)
    assume "page_table b (?new, q) \<noteq> None"
    then obtain f where "f \<in> tracked b" "key_of (pages b f) = (?new, q)" using P(2) by (auto simp: table_ok_def)
    then have "disk_page ?d ?new q \<noteq> None" using P(5) by (auto simp: content_ok_def page_at_def)
    then show False using fresh_file(3) by (simp add: disk_page_def)
  qed
  moreover have "?new \<notin> disk_open_files ?d" using fresh_file(3) by (auto simp: disk_open_files_def)
  ultimately show ?thesis using d'(1,3) by (auto simp: fresh_numbers_def)
qed

lemma rows_kept_by_file:
  assumes "heap_ok b h ps" and "\<forall>q x. bpm_view b (heap_file_id h, q) = Some x \<longrightarrow> bpm_view b' (heap_file_id h, q) = Some x"
    and "next_page_id b \<le> next_page_id b'"
  shows "heap_ok b' h ps" and "heap_rows b' h ps = heap_rows b h ps"
proof -
  have same: "heap_page b' h q = heap_page b h q" if q: "q \<in> set ps" for q
  proof (rule heap_ok_page [OF assms(1) q])
    fix m assume "bpm_view b (heap_file_id h, q) = Some m" "heap_page b h q = Some m"
    then show ?thesis using assms(2) by (simp add: heap_page_def)
  qed
  show "heap_ok b' h ps"
    using assms(1,3) linked_keep [of "heap_page b h" ps _ "heap_page b' h"] same by (auto simp: heap_ok_def)
  show "heap_rows b' h ps = heap_rows b h ps" using same by (simp add: heap_rows_def fun_eq_iff)
qed

text \<open>A new table is ready and takes rows; the other tables are left as they were.\<close>

lemma create_table_ok:
  assumes new: "map_of (table_oids c) n = None" "map_of (tables c) (next_table_oid c) = None"
    and fresh_file: "os_permits (disk_manager (bpm c)) path" "\<forall>f s. files (disk_manager (bpm c)) f = Some s \<longrightarrow> stream_path s \<noteq> path"
      "files (disk_manager (bpm c)) (next_file_id (disk_manager (bpm c))) = None"
    and path: "path = path_join (db_dir c) (n @ ''.tbl'')"
    and pool: "pool_inv {} (bpm c) hs" "unlatched hs" "spare (bpm c) hs" "next_page_id (bpm c) \<noteq> INVALID_PAGE_ID"
  shows "\<exists>c' info ps. create_table n schema c = Some (c', ok (next_table_oid c)) \<and>
    get_table_named n c' = Some info \<and> ti_name info = n \<and> ti_schema info = schema \<and> ti_oid info = next_table_oid c \<and>
    table_ready (next_table_oid c) hs ps c' info \<and> rows_of c' info ps = Map.empty \<and>
    pool_size (bpm c') = pool_size (bpm c) \<and> next_page_id (bpm c') = next_page_id (bpm c) + 1 \<and> takes_rows (bpm c') (ti_table info) \<and>
    (\<forall>oid info' ps'. table_ready oid hs ps' c info' \<longrightarrow> table_ready oid hs ps' c' info' \<and> rows_of c' info' ps' = rows_of c info' ps') \<and>
    (\<forall>schema'. create_table n schema' c' = Some (c', ok (next_table_oid c)))"
proof -
  let ?oid = "next_table_oid c" and ?d = "disk_manager (bpm c)"
  from create_file_pool [OF pool(1) fresh_file] obtain d' where d': "create_file path ?d = (d', ok (next_file_id ?d))"
    "pool_inv {} ((bpm c)\<lparr>disk_manager := d'\<rparr>) hs" "view_kept (bpm c) ((bpm c)\<lparr>disk_manager := d'\<rparr>)"
    "fresh_numbers (next_file_id ?d) ((bpm c)\<lparr>disk_manager := d'\<rparr>)"
    "\<forall>p. fresh_numbers p (bpm c) \<longrightarrow> p \<noteq> next_file_id ?d \<and> fresh_numbers p ((bpm c)\<lparr>disk_manager := d'\<rparr>)" by blast
  let ?b = "(bpm c)\<lparr>disk_manager := d'\<rparr>" and ?p = "next_file_id ?d"
  have "client_inv ?p ?b hs" "spare ?b hs" "next_page_id ?b \<noteq> INVALID_PAGE_ID"
    using d'(2,4) pool(2-4) by (simp_all add: client_inv_def spare_def)
  from new_table_empty [OF this] obtain b' h where h: "new_TableHeap ?p ?b = Some (b', ok h)" "heap_file_id h = ?p" "client_inv ?p b' hs"
    "heap_ok b' h [next_page_id ?b]" "heap_rows b' h [next_page_id ?b] = Map.empty" "pool_size b' = pool_size ?b" "next_page_id ?b \<le> next_page_id b'"
    "next_page_id b' = next_page_id ?b + 1" "takes_rows b' h"
    "\<forall>k x. k \<noteq> (?p, next_page_id ?b) \<longrightarrow> bpm_view ?b k = Some x \<longrightarrow> bpm_view b' k = Some x"
    "\<forall>p'. p' \<noteq> ?p \<longrightarrow> fresh_numbers p' ?b \<longrightarrow> fresh_numbers p' b'" by (elim exE conjE) (rule that)
  let ?info = "\<lparr>ti_name = n, ti_schema = schema, ti_table = h, ti_oid = ?oid\<rparr>"
  let ?c = "c\<lparr>next_table_oid := ?oid + 1, bpm := b', tables := tables c @ [(?oid, ?info)], table_oids := table_oids c @ [(n, ?oid)]\<rparr>"
  have create: "create_table n schema c = Some (?c, ok ?oid)"
    using new d'(1) h(1) path by (simp add: create_table_def cat_disk_def on_disk_def emplace_def Let_def)
  have found: "get_table ?oid ?c = Some ?info" "map_of (table_oids ?c) n = Some ?oid"
    using new by (simp_all add: get_table_def map_add_def)
  have ready: "table_ready ?oid hs [next_page_id ?b] ?c ?info" "rows_of ?c ?info [next_page_id ?b] = Map.empty"
    using found(1) h(2-6) pool(3) by (simp_all add: table_ready_def rows_of_def spare_def)
  have more: "pool_size (bpm ?c) = pool_size (bpm c)" "next_page_id (bpm ?c) = next_page_id (bpm c) + 1" "takes_rows (bpm ?c) h"
    using h(6,8,9) by simp_all
  have others: "table_ready oid hs ps' ?c info' \<and> rows_of ?c info' ps' = rows_of c info' ps'" if r: "table_ready oid hs ps' c info'" for oid info' ps'
  proof -
    let ?h = "ti_table info'"
    have old: "get_table oid c = Some info'" "heap_ok (bpm c) ?h ps'" "fresh_numbers (heap_file_id ?h) (bpm c)"
      using r by (simp_all add: table_ready_def client_inv_def)
    then have ne: "heap_file_id ?h \<noteq> ?p" "fresh_numbers (heap_file_id ?h) b'" using d'(5) h(11) by auto
    have "\<forall>q x. bpm_view (bpm c) (heap_file_id ?h, q) = Some x \<longrightarrow> bpm_view b' (heap_file_id ?h, q) = Some x"
      using view_keptD [OF d'(3)] h(10) ne(1) by auto
    note kept = rows_kept_by_file [OF old(2) this]
    have "get_table oid ?c = Some info'" using old(1) new(2) by (auto simp: get_table_def map_add_def)
    moreover have "heap_ok b' ?h ps'" "heap_rows b' ?h ps' = heap_rows (bpm c) ?h ps'" using kept h(7) by simp_all
    moreover have "client_inv (heap_file_id ?h) b' hs" "spare b' hs"
      using h(3,6) ne(2) pool(3) by (simp_all add: client_inv_def spare_def)
    ultimately show ?thesis by (simp add: table_ready_def rows_of_def)
  qed
  have again: "create_table n schema' ?c = Some (?c, ok ?oid)" for schema'
    using found by (simp add: create_table_def)
  have named: "get_table_named n ?c = Some ?info" using found by (simp add: get_table_named_def)
  show ?thesis
    by (rule exI [of _ ?c], rule exI [of _ ?info], rule exI [of _ "[next_page_id ?b]"], intro conjI allI impI)
      (simp_all only: create named ready more others again TableInfo.simps)
qed

text \<open>
  C22. CREATE TABLE with a new name, when the operating system lets the file be created, the file is not open and a frame can be had:
  the call returns a fresh table id, under which and under its name the table is found; the table can be scanned and written, and has no
  rows. Every other table that was ready stays ready with its rows, and creating the same name again gives back the same table.
\<close>

theorem create_table_ready:
  assumes new: "map_of (table_oids c) n = None" "map_of (tables c) (next_table_oid c) = None"
    and fresh_file: "os_permits (disk_manager (bpm c)) path" "\<forall>f s. files (disk_manager (bpm c)) f = Some s \<longrightarrow> stream_path s \<noteq> path"
      "files (disk_manager (bpm c)) (next_file_id (disk_manager (bpm c))) = None"
    and path: "path = path_join (db_dir c) (n @ ''.tbl'')"
    and pool: "pool_inv {} (bpm c) hs" "unlatched hs" "spare (bpm c) hs" "next_page_id (bpm c) \<noteq> INVALID_PAGE_ID"
  shows "\<exists>c' info ps. create_table n schema c = Some (c', ok (next_table_oid c)) \<and>
    get_table_named n c' = Some info \<and> ti_name info = n \<and> ti_schema info = schema \<and> ti_oid info = next_table_oid c \<and>
    table_ready (next_table_oid c) hs ps c' info \<and> rows_of c' info ps = Map.empty \<and>
    (\<forall>oid info' ps'. table_ready oid hs ps' c info' \<longrightarrow> table_ready oid hs ps' c' info' \<and> rows_of c' info' ps' = rows_of c info' ps') \<and>
    (\<forall>schema'. create_table n schema' c' = Some (c', ok (next_table_oid c)))"
  using create_table_ok [OF assms, of schema] by (elim exE conjE) (intro exI conjI; assumption)

lemma create_table_ready_witness:
  "\<exists>c' info ps. create_table ''u'' tiny_schema (example_catalog (sp_init 0 zero_page)) = Some (c', ok 1) \<and>
     table_ready 1 [] ps c' info \<and> rows_of c' info ps = Map.empty \<and>
     table_ready 0 [] [0] c' example_info"
proof -
  let ?m = "sp_init 0 zero_page" let ?c = "example_catalog ?m" let ?d = "disk_manager (example_pool ?m)"
  have len: "length ?m = PAGE_SIZE" by (rule fresh_page(5))
  have w: "?d = fst (write_page 0 0 ?m disk_example)" by (simp add: example_pool_def new_BufferPoolManager_def)
  have disk: "os_permits ?d = (\<lambda>_. True)" "next_file_id ?d = 1" "files ?d = [0 \<mapsto> \<lparr>stream_path = ''a.db'', stream_failed = False\<rparr>]"
    by (simp_all add: w write_page_def stream_write_def disk_example_def create_file_def new_DiskManager_def Let_def append_create_def can_open_def)
  have b: "bpm ?c = example_pool ?m" "next_table_oid ?c = 1" "db_dir ?c = ''data''" by (simp_all add: example_catalog_def)
  have I: "pool_inv {} (bpm ?c) []" "unlatched []" "spare (bpm ?c) []" "next_page_id (bpm ?c) \<noteq> INVALID_PAGE_ID"
    using example_empty_table(1,4,5) by (simp_all add: b client_inv_def INVALID_PAGE_ID_def)
  have new: "map_of (table_oids ?c) ''u'' = None" "map_of (tables ?c) (next_table_oid ?c) = None" by (simp_all add: example_catalog_def)
  have "path_join ''data'' (''u'' @ ''.tbl'') = ''data/u.tbl''" by code_simp
  then have path: "''data/u.tbl'' = path_join (db_dir ?c) (''u'' @ ''.tbl'')" by (simp add: b)
  have f: "os_permits (disk_manager (bpm ?c)) ''data/u.tbl''"
    "\<forall>f s. files (disk_manager (bpm ?c)) f = Some s \<longrightarrow> stream_path s \<noteq> ''data/u.tbl''"
    "files (disk_manager (bpm ?c)) (next_file_id (disk_manager (bpm ?c))) = None"
    by (auto simp: b disk split: if_splits)
  have "table_ready 0 [] [0] ?c example_info" by (rule example_ready(1)) (rule fresh_page(1,3,4))+
  with create_table_ready [OF new f path I, of tiny_schema] show ?thesis unfolding b(2)
    by (elim exE conjE) blast
qed

subsection \<open>Creating a database\<close>

lemma create_file_outcome:
  "\<exists>d' r. create_file path d = (d', r) \<and> os_permits d' = os_permits d \<and> (if os_permits d path then \<exists>i. r = ok i else \<exists>s. r = throw (Runtime_error s))"
  by (auto simp: create_file_def Let_def can_open_def append_create_def)

lemma cat_disk_simps:
  "cat_disk m c = (case m (disk_manager (bpm c)) of (d, r) \<Rightarrow> (c\<lparr>bpm := (bpm c)\<lparr>disk_manager := d\<rparr>\<rparr>, r))"
  by (simp add: cat_disk_def on_disk_def split: prod.splits)

lemma create_files:
  "\<exists>b r. op_bind (cat_disk (create_file p)) (\<lambda>_. cat_disk (create_file q)) c = (c\<lparr>bpm := b\<rparr>, r) \<and>
     (if ofstream_opens p c \<and> ofstream_opens q c then \<exists>i. r = ok i else \<exists>e. r = throw e)"
proof -
  let ?d = "disk_manager (bpm c)"
  obtain d1 r1 where d1: "create_file p ?d = (d1, r1)" "os_permits d1 = os_permits ?d"
    "if os_permits ?d p then \<exists>i. r1 = ok i else \<exists>s. r1 = throw (Runtime_error s)"
    using create_file_outcome [of p ?d] by blast
  obtain d2 r2 where d2: "create_file q d1 = (d2, r2)"
    "if os_permits d1 q then \<exists>i. r2 = ok i else \<exists>s. r2 = throw (Runtime_error s)"
    using create_file_outcome [of q d1] by blast
  show ?thesis
    using d1 d2 by (cases "os_permits ?d p"; cases "os_permits ?d q")
      (auto simp: op_bind_def cat_disk_simps ofstream_opens_def)
qed

text \<open>
  C26. CREATE DATABASE keeps the catalog invariant: every database has metadata of its own with the right number of namespaces.
  A name in use is refused without any effect. A new name is registered with the namespace public, with
  files of its own in the database directory and with new times, all other databases stay; if the system refuses one of its files
  nothing is registered.
\<close>

theorem create_database_ok:
  fixes n :: string
  assumes "catalog_ok c"
  defines "data_file \<equiv> path_join (db_dir c) (n @ ''.db'')" and "meta_file \<equiv> path_join (db_dir c) (n @ ''.meta'')"
  shows "case create_database n now now' c of (c', r) \<Rightarrow> catalog_ok c' \<and>
    (if get_database n c \<noteq> None then c' = c \<and> r = None
     else if ofstream_opens data_file c \<and> ofstream_opens meta_file c
     then r = Some n \<and> databases c' = databases c @ [(n, with_namespaces n [''public''])] \<and>
       get_database_info n c' = ok \<lparr>db_name = n, db_file_path = data_file, meta_file_path = meta_file, created_at = now,
         updated_at = now', namespace_count = 1, table_count = 0\<rparr> \<and>
       (\<forall>k. k \<noteq> n \<longrightarrow> get_database_info k c' = get_database_info k c)
     else r = None \<and> databases c' = databases c \<and> metadatas c' = metadatas c)"
proof (cases "get_database n c")
  case (Some db)
  then show ?thesis using assms(1) by (simp add: create_database_def get_database_def)
next
  case None
  then have fresh: "n \<notin> fst ` set (databases c)" "map_of (databases c) n = None" "map_of (metadatas c) n = None"
    using assms(1) by (auto simp: get_database_def catalog_ok_def map_of_eq_None_iff dom_def)
  let ?files = "op_bind (cat_disk (create_file data_file)) (\<lambda>_. cat_disk (create_file meta_file)) c"
  show ?thesis
  proof (cases "ofstream_opens data_file c \<and> ofstream_opens meta_file c")
    case False
    then obtain b e where "?files = (c\<lparr>bpm := b\<rparr>, Inl e)" using create_files [of data_file meta_file c] by auto
    then have "create_database n now now' c = (c\<lparr>bpm := b\<rparr>, None)"
      using fresh by (simp add: create_database_def data_file_def meta_file_def)
    then show ?thesis using assms(1) None False by (auto simp: catalog_ok_def metadata_of_def)
  next
    case True
    then obtain b i where f: "?files = (c\<lparr>bpm := b\<rparr>, ok i)" using create_files [of data_file meta_file c] by auto
    let ?m = "\<lparr>db_name = n, db_file_path = data_file, meta_file_path = meta_file, created_at = now, updated_at = now',
      namespace_count = 1, table_count = 0\<rparr>" and ?db = "with_namespaces n [''public'']"
    let ?c = "c\<lparr>bpm := b, metadatas := metadatas c @ [(n, ?m)], databases := databases c @ [(n, ?db)]\<rparr>"
    have "create_namespace ''public'' now' (\<lparr>meta = n, namespaces = []\<rparr>, new_Metadata n data_file meta_file now) = (?db, ?m)"
      by (simp add: create_namespace_def emplace_def with_namespaces_def new_Metadata_def touch_def increase_namespace_def)
    then have create: "create_database n now now' c = (?c, Some n)"
      using fresh f by (simp add: create_database_def emplace_def data_file_def meta_file_def Let_def)
    have "metadata_of ?c (snd e) = metadata_of c (snd e)" if "e \<in> set (databases c)" for e
    proof -
      have "meta (snd e) = fst e" "fst e \<in> dom (map_of (metadatas c))" using that assms(1) by (simp_all add: catalog_ok_def)
      then show ?thesis using fresh(3) by (auto simp: metadata_of_def map_add_def)
    qed
    moreover have "metadata_of ?c ?db = ?m" using fresh(3) by (simp add: metadata_of_def with_namespaces_def map_add_def)
    ultimately have "catalog_ok ?c"
      using assms(1) fresh(1) by (auto simp: catalog_ok_def database_ok_def with_namespaces_def new_Namespace_def)
    moreover have "get_database_info k ?c = (if k = n then ok ?m else get_database_info k c)" for k
      using fresh(3) by (auto simp: get_database_info_def map_add_def split: option.splits)
    ultimately show ?thesis using create True None by simp
  qed
qed

lemma example_opens: "ofstream_opens p (example_catalog m)"
  by (simp add: ofstream_opens_def example_catalog_def example_pool_def new_BufferPoolManager_def write_page_def stream_write_def
      disk_example_def create_file_def new_DiskManager_def Let_def append_create_def can_open_def)

lemma create_database_ok_witness:
  "\<exists>c. create_database ''shop'' 1 2 (example_catalog []) = (c, Some ''shop'') \<and> catalog_ok c \<and>
     databases c = [(''shop'', with_namespaces ''shop'' [''public''])]"
proof -
  have "catalog_ok (example_catalog [])" "get_database ''shop'' (example_catalog []) = None" "databases (example_catalog []) = []"
    by (simp_all add: catalog_ok_def example_catalog_def get_database_def)
  then show ?thesis using create_database_ok [of "example_catalog []" "''shop''" 1 2] example_opens by (auto split: prod.splits)
qed

definition shop_metadata :: Metadata where
  "shop_metadata = \<lparr>db_name = ''shop'', db_file_path = ''data/shop.db'', meta_file_path = ''data/shop.meta'', created_at = 1, updated_at = 2,
     namespace_count = 2, table_count = 0\<rparr>"

definition shop_catalog :: Catalog where
  "shop_catalog = (example_catalog [])\<lparr>databases := [(''shop'', with_namespaces ''shop'' [''public'', ''old''])],
     metadatas := [(''shop'', shop_metadata)]\<rparr>"

lemma catalog_reload_witness:
  "\<exists>c1 c2. catalog_flush shop_catalog = (c1, ok ()) \<and> new_Catalog (\<lambda>_. None) (\<lambda>_. 9) (bpm c1) ''catalog'' ''data'' = (c2, ok ()) \<and>
     databases c2 = [(''shop'', with_namespaces ''shop'' [''public'', ''old''])] \<and> tables c2 = []"
proof -
  have dbs: "databases shop_catalog = [(''shop'', with_namespaces ''shop'' [''public'', ''old''])]" "catalog_file_path shop_catalog = ''catalog''"
    "metadatas shop_catalog = [(''shop'', shop_metadata)]"
    by (simp_all add: shop_catalog_def example_catalog_def)
  have m: "metadata_of shop_catalog (with_namespaces ''shop'' [''public'', ''old'']) = shop_metadata"
    by (simp add: metadata_of_def dbs with_namespaces_def)
  have "catalog_ok shop_catalog"
    by (simp add: catalog_ok_def dbs m) (simp add: database_ok_def with_namespaces_def new_Namespace_def shop_metadata_def)
  moreover have "ofstream_opens p shop_catalog" for p
    using example_opens [of p "[]"] by (simp add: shop_catalog_def ofstream_opens_def)
  then have "persistable (\<lambda>_. None) shop_catalog"
    by (simp add: persistable_def dbs m meta_path_def)
      (simp add: metadata_readable_def readable_def shop_metadata_def with_namespaces_def)
  ultimately show ?thesis
    using catalog_reload [of shop_catalog "\<lambda>_. None" "\<lambda>_. 9" "''data''"]
    by (auto simp: dbs with_namespaces_def)
qed

end
