(* ===== verification/Insert_Properties.thy ===== *)
theory Insert_Properties
  imports Dml_Properties Catalog_Properties
begin

section \<open>Inserting rows\<close>

text \<open>
  INSERT of a list of value rows into a table. A table whose last page has a tuple or has never had one takes
  every tuple that fits in a page, as long as two frames of the pool are not pinned: one for the last page, one for the page
  that may have to follow it.
\<close>

declare split_paired_All [simp del] split_paired_Ex [simp del]

definition insertable :: "TableOid \<Rightarrow> handles \<Rightarrow> PageId list \<Rightarrow> Catalog \<Rightarrow> TableInfo \<Rightarrow> bool" where
  "insertable oid hs ps c info \<longleftrightarrow> table_ready oid hs ps c info \<and> two_spare (bpm c) hs \<and> takes_rows (bpm c) (ti_table info)"

text \<open>The rows that a statement adds, in the order of their record ids.\<close>

definition added :: "TableOid \<Rightarrow> handles \<Rightarrow> Catalog \<Rightarrow> TableInfo \<Rightarrow> PageId list \<Rightarrow> u8 list list \<Rightarrow>
    Catalog \<Rightarrow> TableInfo \<Rightarrow> PageId list \<Rightarrow> bool" where
  "added oid hs c info ps images c' info' ps' \<longleftrightarrow> insertable oid hs ps' c' info' \<and> ti_schema info' = ti_schema info \<and>
     (\<exists>rids. length rids = length images \<and> distinct rids \<and> (\<forall>rid \<in> set rids. rows_of c info ps rid = None) \<and>
        rows_of c' info' ps' = rows_of c info ps ++ map_of (zip rids images))"

definition fits_page :: "u8 list \<Rightarrow> bool" where
  "fits_page bs \<longleftrightarrow> bs \<noteq> [] \<and> length bs \<le> 4064"

lemma fits_storable: "fits_page bs \<Longrightarrow> storable bs"
  by (simp add: fits_page_def storable_def)

text \<open>One insertion into a table, for the executors that insert.\<close>

lemma store_step:
  assumes R: "table_ready oid hs ps c info" "two_spare (bpm c) hs" and t: "storable (bytes t)" "\<not> gives_up (bpm c) (ti_table info) (bytes t)"
    and n: "unat (next_page_id (bpm c)) < 2 ^ 32 - 1"
  shows "\<exists>c' info' ps' rid. on_table oid (heap_insert_tuple t) (c, x) = Some ((c', x), ok (Some rid)) \<and>
    insertable oid hs ps' c' info' \<and> ti_schema info' = ti_schema info \<and> rows_of c info ps rid = None \<and>
    rows_of c' info' ps' = (rows_of c info ps)(rid \<mapsto> bytes t) \<and> unat (next_page_id (bpm c')) \<le> unat (next_page_id (bpm c)) + 1"
proof -
  have T: "get_table oid c = Some info" "heap_ok (bpm c) (ti_table info) ps" "client_inv (heap_file_id (ti_table info)) (bpm c) hs"
    "spare (bpm c) hs" using R(1) by (simp_all add: table_ready_def)
  have s: "storable (Tuple_serialize t)" using t(1) by (simp add: Tuple_serialize_def)
  have ne: "next_page_id (bpm c) \<noteq> INVALID_PAGE_ID" using n by (auto simp: INVALID_PAGE_ID_def unsigned_minus_1_eq_mask mask_eq_exp_minus_1)
  show ?thesis
  proof (rule heap_insert_ok [OF T(3,2) s ne], goal_cases)
    case (1 b h rid ps')
    let ?c = "put_heap oid info b h c" and ?info = "info\<lparr>ti_table := h\<rparr>"
    have run: "on_table oid (heap_insert_tuple t) (c, x) = Some ((?c, x), ok (Some rid))"
      using T(1) 1(1) by (intro on_table_run) simp_all
    have i: "heap_ok b h ps'" "heap_rows (bpm c) (ti_table info) ps rid = None"
      "heap_rows b h ps' = (heap_rows (bpm c) (ti_table info) ps)(rid \<mapsto> bytes t)" "pool_size b = pool_size (bpm c)"
      using 1(4) by (simp_all add: inserted_def Tuple_serialize_def)
    have "insertable oid hs ps' ?c ?info"
      using i(1,4) 1(2,3) R(2) T(4) inserted_takes_rows [OF 1(4)] by (simp add: insertable_def table_ready_def spare_def two_spare_def)
    moreover have "unat (next_page_id b) \<le> unat (next_page_id (bpm c)) + 1" using 1(6) by (auto simp: unat_word_ariths)
    ultimately show ?case using run i(2,3)
      by (intro exI [of _ ?c] exI [of _ ?info] exI [of _ ps'] exI [of _ rid] conjI) (simp_all add: rows_of_def)
  next
    case (2 b)
    then show ?case using R(2) by simp
  next
    case (3 s)
    then show ?case using t(2) by (simp add: Tuple_serialize_def)
  qed
qed

lemma insert_step:
  assumes I: "insertable oid hs ps c info" and t: "fits_page (bytes t)" and n: "unat (next_page_id (bpm c)) < 2 ^ 32 - 1"
  shows "\<exists>c' info' ps' rid. insert_row oid (t, r) (c, d) = Some ((c', d\<lparr>total_rows_inserted := total_rows_inserted d + 1\<rparr>), ok ()) \<and>
    insertable oid hs ps' c' info' \<and> ti_schema info' = ti_schema info \<and> rows_of c info ps rid = None \<and>
    rows_of c' info' ps' = (rows_of c info ps)(rid \<mapsto> bytes t) \<and> unat (next_page_id (bpm c')) \<le> unat (next_page_id (bpm c)) + 1"
proof -
  have R: "table_ready oid hs ps c info" "two_spare (bpm c) hs" "takes_rows (bpm c) (ti_table info)" "heap_ok (bpm c) (ti_table info) ps"
    using I by (simp_all add: insertable_def table_ready_def)
  have "length (bytes t) \<le> 4064" using t by (simp add: fits_page_def)
  from store_step [OF R(1,2) fits_storable [OF t] takes_rows_no_abort [OF R(4,3) this] n, of d] obtain c' info' ps' rid where
    "on_table oid (heap_insert_tuple t) (c, d) = Some ((c', d), ok (Some rid))"
    "insertable oid hs ps' c' info' \<and> ti_schema info' = ti_schema info \<and> rows_of c info ps rid = None \<and>
      rows_of c' info' ps' = (rows_of c info ps)(rid \<mapsto> bytes t) \<and> unat (next_page_id (bpm c')) \<le> unat (next_page_id (bpm c)) + 1" by blast
  then show ?thesis by (intro exI [of _ c'] exI [of _ info'] exI [of _ ps'] exI [of _ rid]) (simp add: insert_row_def run_bind_def)
qed

lemma map_add_insert: "map_of xs rid = None \<Longrightarrow> m(rid \<mapsto> y) ++ map_of xs = m ++ map_of ((rid, y) # xs)"
  by (auto simp: map_add_def fun_eq_iff split: option.splits)

lemma insert_steps:
  assumes "insertable oid hs ps c info" and "\<And>r. r \<in> set rows \<Longrightarrow> fits_page (bytes (fst r))"
    and "unat (next_page_id (bpm c)) + length rows < 2 ^ 32"
  shows "\<exists>c' info' ps'. each (insert_row oid) rows (c, d) =
      Some ((c', d\<lparr>total_rows_inserted := total_rows_inserted d + of_nat (length rows)\<rparr>), ok ()) \<and>
    added oid hs c info ps (map (\<lambda>r. bytes (fst r)) rows) c' info' ps' \<and> unat (next_page_id (bpm c')) \<le> unat (next_page_id (bpm c)) + length rows"
  using assms
proof (induction rows arbitrary: c d info ps)
  case Nil
  have "added oid hs c info ps [] c info ps" using Nil(1) by (auto simp: added_def)
  then show ?case by (intro exI [of _ c] exI [of _ info] exI [of _ ps]) simp
next
  case (Cons r rows)
  let ?d = "d\<lparr>total_rows_inserted := total_rows_inserted d + 1\<rparr>"
  have "fits_page (bytes (fst r))" "unat (next_page_id (bpm c)) < 2 ^ 32 - 1" using Cons.prems(2) [of r] Cons.prems(3) by simp_all
  from insert_step [OF Cons.prems(1) this, of "snd r" d] obtain c1 info1 ps1 rid where s: "insert_row oid r (c, d) = Some ((c1, ?d), ok ())"
    "insertable oid hs ps1 c1 info1" "ti_schema info1 = ti_schema info" "rows_of c info ps rid = None"
    "rows_of c1 info1 ps1 = (rows_of c info ps)(rid \<mapsto> bytes (fst r))" "unat (next_page_id (bpm c1)) \<le> unat (next_page_id (bpm c)) + 1"
    by auto
  have "unat (next_page_id (bpm c1)) + length rows < 2 ^ 32" using s(6) Cons.prems(3) by simp
  moreover have "fits_page (bytes (fst q))" if "q \<in> set rows" for q using Cons.prems(2) [of q] that by simp
  ultimately have "\<exists>c' info' ps'. each (insert_row oid) rows (c1, ?d) =
      Some ((c', ?d\<lparr>total_rows_inserted := total_rows_inserted ?d + of_nat (length rows)\<rparr>), ok ()) \<and>
      added oid hs c1 info1 ps1 (map (\<lambda>r. bytes (fst r)) rows) c' info' ps' \<and>
      unat (next_page_id (bpm c')) \<le> unat (next_page_id (bpm c1)) + length rows"
    using Cons.IH [OF s(2)] by blast
  then obtain c2 info2 ps2 where e: "each (insert_row oid) rows (c1, ?d) =
      Some ((c2, ?d\<lparr>total_rows_inserted := total_rows_inserted ?d + of_nat (length rows)\<rparr>), ok ())"
    "added oid hs c1 info1 ps1 (map (\<lambda>r. bytes (fst r)) rows) c2 info2 ps2"
    "unat (next_page_id (bpm c2)) \<le> unat (next_page_id (bpm c1)) + length rows" by blast
  from e(2) obtain rids where r: "length rids = length rows" "distinct rids" "\<forall>q \<in> set rids. rows_of c1 info1 ps1 q = None"
    "rows_of c2 info2 ps2 = rows_of c1 info1 ps1 ++ map_of (zip rids (map (\<lambda>r. bytes (fst r)) rows))" by (auto simp: added_def)
  have nin: "rid \<notin> set rids" using r(3) s(5) by auto
  then have "map_of (zip rids (map (\<lambda>r. bytes (fst r)) rows)) rid = None"
    using set_zip_leftD by (fastforce simp: map_of_eq_None_iff)
  note m = map_add_insert [OF this]
  have "added oid hs c info ps (map (\<lambda>r. bytes (fst r)) (r # rows)) c2 info2 ps2"
    unfolding added_def
  proof (intro conjI exI [of _ "rid # rids"])
    show "insertable oid hs ps2 c2 info2" "ti_schema info2 = ti_schema info" using e(2) s(3) by (simp_all add: added_def)
    show "\<forall>q \<in> set (rid # rids). rows_of c info ps q = None" using r(3) s(4,5) by (auto split: if_splits)
    show "rows_of c2 info2 ps2 = rows_of c info ps ++ map_of (zip (rid # rids) (map (\<lambda>r. bytes (fst r)) (r # rows)))"
      using r(4) m by (simp add: s(5))
  qed (use r(1,2) nin in simp_all)
  moreover have "unat (next_page_id (bpm c2)) \<le> unat (next_page_id (bpm c)) + length (r # rows)" using e(3) s(6) by simp
  ultimately show ?case using s(1) e(1) by (intro exI [of _ c2] exI [of _ info2] exI [of _ ps2]) (simp add: add.assoc)
qed

lemma added_trans:
  assumes "added oid hs c info ps xs c1 info1 ps1" and "added oid hs c1 info1 ps1 ys c2 info2 ps2"
  shows "added oid hs c info ps (xs @ ys) c2 info2 ps2"
proof -
  from assms(1) obtain as where a: "length as = length xs" "distinct as" "\<forall>q \<in> set as. rows_of c info ps q = None"
    "rows_of c1 info1 ps1 = rows_of c info ps ++ map_of (zip as xs)" by (auto simp: added_def)
  from assms(2) obtain bs where b: "length bs = length ys" "distinct bs" "\<forall>q \<in> set bs. rows_of c1 info1 ps1 q = None"
    "rows_of c2 info2 ps2 = rows_of c1 info1 ps1 ++ map_of (zip bs ys)" by (auto simp: added_def)
  have new: "map_of (zip as xs) q = None \<and> rows_of c info ps q = None" if "q \<in> set bs" for q
    using b(3) that a(4) by (auto simp: map_add_None)
  have apart: "set as \<inter> set bs = {}" using new a(1) by (auto simp: map_of_zip_is_None)
  then have "map_of (zip as xs) ++ map_of (zip bs ys) = map_of (zip bs ys) ++ map_of (zip as xs)"
    using a(1) b(1) by (intro map_add_comm) simp
  then have "rows_of c2 info2 ps2 = rows_of c info ps ++ map_of (zip (as @ bs) (xs @ ys))"
    using a(1,4) b(4) by (simp flip: map_add_assoc)
  then show ?thesis using assms a b new apart
    unfolding added_def by (intro conjI exI [of _ "as @ bs"]) auto
qed

subsection \<open>The statement\<close>

lemma values_init_run: "values_init (c, i) = Some ((c, 0), ok ())"
  by (simp add: values_init_def)

lemma values_next_catalog: "values_next plan n (c, i) = Some ((c', j), r) \<Longrightarrow> c' = c"
  by (auto simp: values_next_def split: prod.splits)

text \<open>The run of the statement; afterwards the executor has given its count.\<close>

lemma insert_values:
  assumes t: "insertable oid hs ps c info" and plan: "mp_table_oid plan = oid" "map col_type (mp_schema plan) = [INTEGER]"
    and n: "0 < n" and rows: "values_rows vplan (vp_values vplan) = ok rows" "\<forall>r \<in> set rows. fits_page (bytes (fst r))"
    and pages: "unat (next_page_id (bpm c)) + length rows < 2 ^ 32"
  shows "\<exists>s0 c' y t w info' ps'. insert_init plan values_init (c, x) = Some (s0, ok ()) \<and>
    insert_next plan (values_next vplan) n s0 = Some ((c', y), ok ([(t, default_RecordId)], True)) \<and>
    tuple_value (mp_schema plan) 0 t = ok w \<and> same_value (Value_int32 INTEGER (sint (of_nat (length rows) :: u32))) w \<and>
    added oid hs c info ps (map (\<lambda>r. bytes (fst r)) rows) c' info' ps' \<and>
    in_has_emitted_count y"
proof -
  let ?put = "\<lambda>y x. x\<lparr>in_child := y\<rparr>" and ?images = "map (\<lambda>r. bytes (fst r))"
  let ?d = "x\<lparr>total_rows_inserted := 0, in_has_emitted_count := False, in_child := 0\<rparr>"
  have init: "insert_init plan values_init (c, x) = Some ((c, ?d), ok ())"
    using t plan(1) by (simp add: insert_init_def resolve_table_def insertable_def table_ready_def on_child_def values_init_run)
  let ?pull = "on_child in_child ?put (values_next vplan n)" and ?body = "each (insert_row oid)"
  let ?R = "\<lambda>(z :: Catalog \<times> ValuesExecutor InsertExecutor) left. \<exists>done info' ps'. done @ left = rows \<and>
      values_yields vplan (fst z, in_child (snd z)) left \<and> added oid hs c info ps (?images done) (fst z) info' ps' \<and>
      unat (next_page_id (bpm (fst z))) + length left < 2 ^ 32 \<and> total_rows_inserted (snd z) = of_nat (length done)"
  let ?Q = "\<lambda>z :: Catalog \<times> ValuesExecutor InsertExecutor. \<exists>info' ps'. added oid hs c info ps (?images rows) (fst z) info' ps' \<and>
      total_rows_inserted (snd z) = of_nat (length rows)"
  have "\<exists>z. while_batches ?pull ?body (c, ?d) = Some (z, ok ()) \<and> ?Q z"
  proof (rule while_batches_rule [where R = ?R and rows = rows])
    have "added oid hs c info ps [] c info ps" using t by (auto simp: added_def)
    then show "?R (c, ?d) rows" using rows(1) pages by (intro exI [of _ "[]"] exI [of _ info] exI [of _ ps]) (simp add: values_yields_def)
    fix z :: "Catalog \<times> ValuesExecutor InsertExecutor" and left assume "?R z left"
    then obtain dn info1 ps1 where R: "dn @ left = rows" "values_yields vplan (fst z, in_child (snd z)) left"
      "added oid hs c info ps (?images dn) (fst z) info1 ps1" "unat (next_page_id (bpm (fst z))) + length left < 2 ^ 32"
      "total_rows_inserted (snd z) = of_nat (length dn)" by blast
    from table_values.next_law [OF R(2) n] obtain c1 j batch rest where b: "values_next vplan n (fst z, in_child (snd z)) = Some ((c1, j), ok (batch, batch \<noteq> []))"
      "left = batch @ rest" "values_yields vplan (c1, j) rest" "left \<noteq> [] \<longrightarrow> batch \<noteq> []" by (metis prod.collapse)
    have c1: "c1 = fst z" using values_next_catalog [OF b(1)] .
    let ?d1 = "(snd z)\<lparr>in_child := j\<rparr>"
    have "insertable oid hs ps1 (fst z) info1" using R(3) by (simp add: added_def)
    moreover have "fits_page (bytes (fst r))" if "r \<in> set batch" for r using rows(2) R(1) b(2) that by auto
    moreover have "unat (next_page_id (bpm (fst z))) + length batch < 2 ^ 32" using R(4) b(2) by simp
    ultimately obtain c2 info2 ps2 where e: "?body batch (fst z, ?d1) = Some ((c2, ?d1\<lparr>total_rows_inserted := total_rows_inserted ?d1 + of_nat (length batch)\<rparr>), ok ())"
      "added oid hs (fst z) info1 ps1 (?images batch) c2 info2 ps2" "unat (next_page_id (bpm c2)) \<le> unat (next_page_id (bpm (fst z))) + length batch"
      using insert_steps by blast
    let ?z2 = "(c2, ?d1\<lparr>total_rows_inserted := total_rows_inserted ?d1 + of_nat (length batch)\<rparr>)"
    show "\<exists>z1 batch rest. ?pull z = Some (z1, ok (batch, batch \<noteq> [])) \<and> left = batch @ rest \<and> (left \<noteq> [] \<longrightarrow> batch \<noteq> []) \<and>
        (batch = [] \<longrightarrow> ?Q z1) \<and> (batch \<noteq> [] \<longrightarrow> (\<exists>z2. ?body batch z1 = Some (z2, ok ()) \<and> ?R z2 rest))"
    proof (rule exI [of _ "(c1, ?d1)"], rule exI [of _ batch], rule exI [of _ rest], intro conjI impI)
      show "?pull z = Some ((c1, ?d1), ok (batch, batch \<noteq> []))" using b(1) by (simp add: on_child_def)
      have "?R ?z2 rest"
        using R e(3) b(2,3) added_trans [OF R(3) e(2)]
        by (intro exI [of _ "dn @ batch"] exI [of _ info2] exI [of _ ps2]) (simp add: values_yields_def)
      then show "\<exists>z2. ?body batch (c1, ?d1) = Some (z2, ok ()) \<and> ?R z2 rest" using e(1) c1 by blast
      assume "batch = []"
      then have "left = []" using b(4) by blast
      then show "?Q (c1, ?d1)" using R(1,3,5) c1 by auto
    qed (use b(2,4) in blast)+
  qed
  then obtain c' d info' ps' where w: "while_batches ?pull ?body (c, ?d) = Some ((c', d), ok ())"
    "added oid hs c info ps (?images rows) c' info' ps'" "total_rows_inserted d = of_nat (length rows)" by auto
  obtain t w where tw: "count_row (mp_schema plan) (of_nat (length rows)) = ok (t, default_RecordId)"
    "tuple_value (mp_schema plan) 0 t = ok w" "same_value (Value_int32 INTEGER (sint (of_nat (length rows) :: u32))) w"
    by (rule count_row_ok [OF plan(2)])
  have "insert_next plan (values_next vplan) n (c, ?d) = Some ((c', d\<lparr>in_has_emitted_count := True\<rparr>), ok ([(t, default_RecordId)], True))"
    using w(1,3) tw(1) plan(1) by (simp add: insert_next_def run_bind_def ucast_count)
  then show ?thesis using init tw(2,3) w(2) by (intro exI conjI) (assumption | simp)+
qed

text \<open>
  C8. INSERT INTO table VALUES rows: for a table whose last page has a tuple or has never had one, under a pool with two
  frames that are not pinned, the statement ends, stores every row under a record id of its own that was free, leaves the
  rows that were there, and returns one row with the number of rows (as a signed 32-bit count). The table is ready
  for the next statement.
\<close>

theorem insert_values_adds_rows:
  assumes t: "insertable oid hs ps c info" and plan: "mp_table_oid plan = oid" "map col_type (mp_schema plan) = [INTEGER]"
    and n: "0 < n" and rows: "values_rows vplan (vp_values vplan) = ok rows" "\<forall>r \<in> set rows. fits_page (bytes (fst r))"
    and pages: "unat (next_page_id (bpm c)) + length rows < 2 ^ 32"
  shows "\<exists>s0 c' y t w info' ps'. insert_init plan values_init (c, x) = Some (s0, ok ()) \<and>
    insert_next plan (values_next vplan) n s0 = Some ((c', y), ok ([(t, default_RecordId)], True)) \<and>
    tuple_value (mp_schema plan) 0 t = ok w \<and> same_value (Value_int32 INTEGER (sint (of_nat (length rows) :: u32))) w \<and>
    added oid hs c info ps (map (\<lambda>r. bytes (fst r)) rows) c' info' ps'"
  using insert_values [OF assms, of x] by blast

subsection \<open>A new table in a new database\<close>

text \<open>The catalog of a database whose catalog file does not exist yet.\<close>

definition start_catalog :: "nat \<Rightarrow> DiskManager \<Rightarrow> string \<Rightarrow> string \<Rightarrow> Catalog" where
  "start_catalog n d path dir = \<lparr>bpm = new_BufferPoolManager n d, catalog_file_path = path, db_dir = dir, metadatas = [], databases = [],
     tables = [], table_oids = [], next_table_oid = 0\<rparr>"

lemma new_Catalog_start:
  assumes "\<not> can_open d path"
  shows "new_Catalog alloc clock (new_BufferPoolManager n d) path dir = (start_catalog n d path dir, ok ())"
  using assms by (auto simp: new_Catalog_def catalog_load_def ifstream_open_def start_catalog_def new_BufferPoolManager_def split: option.splits)

lemma new_disk_inv: "disk_inv (new_DiskManager fs permits)"
  by (simp add: disk_inv_def new_DiskManager_def)

text \<open>CREATE TABLE in a new database with at least two frames gives an empty table that takes rows.\<close>

lemma created_insertable:
  assumes d: "d = new_DiskManager fs permits" and n: "2 \<le> n" "n < 2 ^ 32" and permits: "permits (path_join dir (name @ ''.tbl''))"
  shows "\<exists>c info ps. create_table name schema (start_catalog n d path dir) = Some (c, ok 0) \<and> insertable 0 [] ps c info \<and>
    ti_schema info = schema \<and> rows_of c info ps = Map.empty \<and> next_page_id (bpm c) = 1"
proof -
  let ?c = "start_catalog n d path dir"
  have b: "bpm ?c = new_BufferPoolManager n d" "next_table_oid ?c = 0" "tables ?c = []" "table_oids ?c = []" "db_dir ?c = dir"
    by (simp_all add: start_catalog_def)
  have dm: "disk_manager (bpm ?c) = d" "pool_size (bpm ?c) = n" "next_page_id (bpm ?c) = 0" by (simp_all add: b new_BufferPoolManager_def)
  have I: "pool_inv {} (bpm ?c) []" unfolding b(1) unfolding d by (rule pool_inv_new [OF new_disk_inv n(2)])
  have two: "two_spare (bpm ?c) []"
    unfolding two_spare_def using n by (intro exI [of _ 0] exI [of _ 1]) (simp add: dm pins_def)
  have f: "os_permits (disk_manager (bpm ?c)) (path_join dir (name @ ''.tbl''))" "\<forall>f s. files (disk_manager (bpm ?c)) f = Some s \<longrightarrow> stream_path s \<noteq> path_join dir (name @ ''.tbl'')"
    "files (disk_manager (bpm ?c)) (next_file_id (disk_manager (bpm ?c))) = None"
    using permits by (simp_all add: dm(1)) (simp_all add: d new_DiskManager_def)
  have new: "map_of (table_oids ?c) name = None" "map_of (tables ?c) (next_table_oid ?c) = None" by (simp_all add: b)
  have "path_join dir (name @ ''.tbl'') = path_join (db_dir ?c) (name @ ''.tbl'')" by (simp add: b)
  from create_table_ok [OF new f this I _ two_spare_spare [OF two], of schema] obtain c info ps where
    "create_table name schema ?c = Some (c, ok 0)" "ti_schema info = schema" "table_ready 0 [] ps c info" "rows_of c info ps = Map.empty"
    "pool_size (bpm c) = n" "next_page_id (bpm c) = 1" "takes_rows (bpm c) (ti_table info)"
    by (auto simp: dm INVALID_PAGE_ID_def b(2))
  then show ?thesis using two by (auto simp: insertable_def two_spare_def dm)
qed

lemma insert_values_adds_rows_witness:
  "\<exists>c info ps s0 c' y t info' ps' rid.
    insert_init \<lparr>mp_schema = [val_column INTEGER], mp_table_oid = 0\<rparr> values_init (c, \<lparr>in_child = 7, total_rows_inserted = 5, in_has_emitted_count = True\<rparr>) =
      Some (s0, ok ()) \<and> rows_of c info ps = Map.empty \<and>
    insert_next \<lparr>mp_schema = [val_column INTEGER], mp_table_oid = 0\<rparr>
      (values_next \<lparr>vp_schema = tiny_schema, vp_values = [[Expression (ConstantValueExpression (Value_int8 TINYINT 5)) [] (val_column TINYINT)]]\<rparr>) 256 s0 =
      Some ((c', y), ok ([(t, default_RecordId)], True)) \<and>
    rows_of c' info' ps' = [rid \<mapsto> [0, 5]]"
proof -
  let ?plan = "\<lparr>mp_schema = [val_column INTEGER], mp_table_oid = 0\<rparr>" and ?x = "\<lparr>in_child = 7, total_rows_inserted = 5, in_has_emitted_count = True\<rparr>"
  let ?v = "\<lparr>vp_schema = tiny_schema, vp_values = [[Expression (ConstantValueExpression (Value_int8 TINYINT 5)) [] (val_column TINYINT)]]\<rparr>"
  have "2 \<le> (2 :: nat)" "(2 :: nat) < 2 ^ 32" by simp_all
  from created_insertable [OF HOL.refl this, where permits = "\<lambda>_. True" and dir = "''data''" and name = "''t''"
      and fs = Map.empty and schema = tiny_schema and path = "''data/cat''"] obtain c info ps where
    c: "insertable 0 [] ps c info" "rows_of c info ps = Map.empty" "next_page_id (bpm c) = 1" by auto
  have rows: "values_rows ?v (vp_values ?v) = ok [(tuple_of [0, 5], default_RecordId)]" by code_simp
  have plan: "mp_table_oid ?plan = 0" "map col_type (mp_schema ?plan) = [INTEGER]" by (simp_all add: val_column_def)
  have fits: "\<forall>r \<in> set [(tuple_of [0, 5], default_RecordId)]. fits_page (bytes (fst r))" by (simp add: fits_page_def tuple_of_def)
  have "unat (next_page_id (bpm c)) + length [(tuple_of [0, 5], default_RecordId)] < 2 ^ 32" by (simp add: c(3))
  from insert_values_adds_rows [OF c(1) plan _ rows fits this, of 256 ?x] obtain s0 c' y t info' ps' where
    r: "insert_init ?plan values_init (c, ?x) = Some (s0, ok ())" "insert_next ?plan (values_next ?v) 256 s0 = Some ((c', y), ok ([(t, default_RecordId)], True))"
    "added 0 [] c info ps [[0, 5]] c' info' ps'" by (auto simp: tuple_of_def)
  from r(3) obtain rids where "length rids = 1" "rows_of c' info' ps' = map_of (zip rids [[0, 5]])" by (auto simp: added_def c(2))
  then obtain rid where "rows_of c' info' ps' = [rid \<mapsto> [0, 5]]" by (cases rids) auto
  then show ?thesis using r(1,2) c(2) by blast
qed

end
