(* ===== verification/Update_Properties.thy ===== *)
theory Update_Properties
  imports Insert_Properties
begin

section \<open>Updating rows\<close>

text \<open>
  UPDATE over a filtered scan of the same table. The executor reads all rows first; then it takes them one by one, deletes
  the row and inserts its image, which may get the record id of a row that is gone.
\<close>

declare split_paired_All [simp del] split_paired_Ex [simp del]

subsection \<open>Reading leaves the pool as large as it was\<close>

definition same_size :: "BufferPoolManager \<Rightarrow> BufferPoolManager \<Rightarrow> bool" where
  "same_size b b' \<longleftrightarrow> pool_size b' = pool_size b \<and> next_page_id b' = next_page_id b"

named_theorems sizes \<open>operations that keep the number of frames and the next page number\<close>

lemma same_size_refl [sizes]: "same_size b b"
  by (simp add: same_size_def)

lemma same_size_trans: "same_size b b' \<Longrightarrow> same_size b' b'' \<Longrightarrow> same_size b b''"
  by (simp add: same_size_def)

lemma upd_sizes [simp]:
  "pool_size (upd_page f g b) = pool_size b" "next_page_id (upd_page f g b) = next_page_id b"
  "pool_size (upd_replacer u b) = pool_size b" "next_page_id (upd_replacer u b) = next_page_id b"
  by (simp_all add: upd_page_def upd_replacer_def)

lemma on_disk_size [sizes]: "same_size b (fst (on_disk m b))"
  by (simp add: on_disk_def same_size_def split: prod.splits)

lemma op_bind_size [sizes]:
  assumes "same_size b (fst (m b))" and "\<And>x b'. same_size b b' \<Longrightarrow> same_size b' (fst (f x b'))"
  shows "same_size b (fst (op_bind m f b))"
  using assms by (auto simp: op_bind_def split: prod.splits sum.splits intro: same_size_trans)

lemma acquire_size [sizes]: "same_size b (fst (acquire_frame b))"
  by (simp add: acquire_frame_def same_size_def split: list.splits prod.splits)

lemma op_modify_size [sizes]: "same_size b (g b) \<Longrightarrow> same_size b (fst (op_modify g b))"
  by (simp add: op_modify_def)

lemma op_return_size [sizes]: "same_size b (fst (op_return x b))"
  by (simp add: op_return_def same_size_def)

lemma plain_sizes [sizes]:
  "same_size b (upd_page f g b)" "same_size b (b\<lparr>page_table := t\<rparr>)" "same_size b (pin_in_replacer f q b)"
  "same_size b (install_page f k b)" "same_size b (fst (lock_shared f b))"
  by (simp_all add: same_size_def pin_in_replacer_def install_page_def lock_shared_def Let_def split: Latch.split)

lemma case_option_size [sizes]:
  assumes "same_size b (fst (m b))" and "\<And>x. same_size b (fst (f x b))"
  shows "same_size b (fst ((case v of None \<Rightarrow> m | Some x \<Rightarrow> f x) b))"
  using assms by (cases v) simp_all

lemma case_if_size [sizes]:
  assumes "same_size b (fst (m b))" and "same_size b (fst (m' b))"
  shows "same_size b (fst ((if c then m else m') b))"
  using assms by simp

lemma vacate_size [sizes]: "same_size b (fst (vacate_frame f b))"
  by (auto simp: vacate_frame_def write_frame_def intro!: sizes)

lemma fetch_size [sizes]: "same_size b (fst (fetch_page p q b))"
  by (cases "page_table b (p, q)")
    (auto simp: fetch_page_def intro!: sizes intro: same_size_trans [OF plain_sizes(1)])

lemma read_page_size [sizes]: "same_size b (fst (bpm_read_page p q b))"
  unfolding bpm_read_page_def by (intro sizes)

lemma drop_read_size [sizes]: "same_size b (drop_read f b)"
  by (simp add: drop_read_def read_guard_drop_def unpin_frame_def unpin_page_def unlock_shared_def Let_def same_size_def split: option.splits)

text \<open>The loops, by induction on their runs.\<close>

lemma res_option_cases:
  obtains e where "r = Inl e" | "r = Inr None" | x where "r = Inr (Some x)"
  using that by (cases r) (simp, metis option.exhaust)

lemma advance_size:
  assumes "advance_to_valid k s = Some z"
  shows "same_size (fst s) (fst (fst z))"
proof (rule advance_to_valid.raw_induct [where P = "\<lambda>p s z. same_size (fst s) (fst (fst z))", OF _ assms], goal_cases)
  case (1 loop p s z)
  note IH = 1(1)
  obtain b it where s: "s = (b, it)" by (cases s)
  let ?q = "page_id (current_id it)"
  obtain b1 v where r: "bpm_read_page p ?q b = (b1, v)" by (metis prod.exhaust)
  have s1: "same_size b b1" using read_page_size [of b p ?q] by (simp add: r)
  then have s2: "same_size b (drop_read f b1)" for f using drop_read_size [of b1 f] same_size_trans by blast
  note run = 1(2) [unfolded s Let_def prod.case r]
  show ?case
  proof (cases "?q = INVALID_PAGE_ID")
    case True
    then show ?thesis using run same_size_refl by (auto simp: s)
  next
    case False
    show ?thesis
    proof (cases v rule: res_option_cases)
      case (1 e)
      then show ?thesis using run False s1 by (auto simp: s)
    next
      case 2
      then show ?thesis using run False s1 by (auto simp: s)
    next
      case (3 f)
      let ?m = "guard_data f b1"
      have next_pages: "same_size b (fst (fst z))" if "loop p (drop_read f b1, it1) = Some z" for it1
        using IH [OF that] same_size_trans [OF s2 [of f]] by simp
      show ?thesis
      proof (cases "skip_deleted ?m (slot_count ?m) (slot_num (current_id it))")
        case (Inl e)
        then show ?thesis using run False s2 by (auto simp: s 3)
      next
        case (Inr i)
        show ?thesis
        proof (cases "i < slot_count ?m")
          case True
          then show ?thesis using run False s2 Inr by (auto simp: s 3 split: sum.splits)
        next
          case less: False
          show ?thesis using run False less Inr by (auto simp: s 3 intro: next_pages)
        qed
      qed
    qed
  qed
qed

lemma seq_scan_loop_size: "seq_scan_loop p n s = Some z \<Longrightarrow> same_size (fst s) (fst (fst z))"
proof (induction n arbitrary: s z)
  case 0
  then show ?case by (auto simp: same_size_refl)
next
  case (Suc n)
  obtain b it where s: "s = (b, it)" by (cases s)
  show ?case
  proof (cases "iterator_next p s")
    case None
    then show ?thesis using Suc.prems by (auto simp: s same_size_refl split: if_splits)
  next
    case (Some y)
    from advance_size [OF this [unfolded iterator_next_def s prod.case]] have y: "same_size b (fst (fst y))" by simp
    show ?thesis using Suc.prems Some y Suc.IH [of "fst y"]
      by (auto simp: s same_size_refl split: if_splits sum.splits option.splits prod.splits intro: same_size_trans)
  qed
qed

lemma seq_scan_init_size: "seq_scan_init oid s = Some z \<Longrightarrow> same_size (bpm (fst s)) (bpm (fst (fst z)))"
  by (auto simp: seq_scan_init_def heap_begin_def new_TableIterator_def Let_def same_size_refl dest!: advance_size
      split: option.splits prod.splits sum.splits if_splits)

lemma seq_scan_next_size: "seq_scan_next n s = Some z \<Longrightarrow> same_size (bpm (fst s)) (bpm (fst (fst z)))"
  by (auto simp: seq_scan_next_def same_size_refl dest!: seq_scan_loop_size split: option.splits prod.splits)

lemma filter_next_size:
  assumes child: "\<And>n s z. child n s = Some z \<Longrightarrow> same_size (bpm (fst s)) (bpm (fst (fst z)))"
    and run: "filter_next predicate schema child n s = Some z"
  shows "same_size (bpm (fst s)) (bpm (fst (fst z)))"
proof (rule filter_loop.raw_induct [where P = "\<lambda>child p n out s z. (\<forall>n s z. child n s = Some z \<longrightarrow> same_size (bpm (fst s)) (bpm (fst (fst z)))) \<longrightarrow>
    same_size (bpm (fst s)) (bpm (fst (fst z)))", OF _ run [unfolded filter_next_def], rule_format], goal_cases)
  case (1 loop child p n out s z)
  note IH = 1(1) and children = 1(3)
  obtain c x where s: "s = (c, x)" by (cases s)
  note run = 1(2) [unfolded s Let_def prod.case]
  let ?x = "x\<lparr>f_child_offset := 0\<rparr>"
  show ?case
  proof (cases "if f_child_offset x \<noteq> 0 then filter_rest p (drop (f_child_offset x) (f_child_rows x)) else ok []")
    case (Inl e)
    then show ?thesis using run by (auto simp: s same_size_refl)
  next
    case (Inr rest)
    show ?thesis
    proof (cases "child n (c, f_child ?x)")
      case None
      then show ?thesis using run Inr by simp
    next
      case (Some r)
      obtain c2 y v where r: "r = ((c2, y), v)" by (cases r) auto
      have c2: "same_size (bpm c) (bpm c2)" using children [OF Some] by (simp add: r)
      have later: "same_size (bpm c) (bpm (fst (fst z)))" if "loop child p n out2 (c2, x2) = Some z" for out2 x2
        using IH [OF that children] same_size_trans [OF c2] by simp
      show ?thesis
        using run c2 Inr Some by (auto simp: s r split: sum.splits if_splits option.splits prod.splits intro: later)
    qed
  qed
qed (fact child)

subsection \<open>Room for small tuples\<close>

lemma table_with_row:
  obtains c info ps rid where "insertable 0 [] ps c info" and "ti_schema info = tiny_schema" and "rows_of c info ps = [rid \<mapsto> [0, 5]]"
    and "unat (next_page_id (bpm c)) \<le> 2"
proof -
  have "2 \<le> (2 :: nat)" "(2 :: nat) < 2 ^ 32" by simp_all
  from created_insertable [OF HOL.refl this, where permits = "\<lambda>_. True" and dir = "''data''" and name = "''t''"
      and fs = Map.empty and schema = tiny_schema and path = "''data/cat''"] obtain c info ps where
    c: "insertable 0 [] ps c info" "ti_schema info = tiny_schema" "rows_of c info ps = Map.empty" "next_page_id (bpm c) = 1" by auto
  have "fits_page (bytes (tuple_of [0, 5]))" "unat (next_page_id (bpm c)) < 2 ^ 32 - 1" by (simp_all add: fits_page_def tuple_of_def c(4))
  from insert_step [OF c(1) this, of default_RecordId "\<lparr>in_child = 0 :: ValuesExecutor, total_rows_inserted = 0, in_has_emitted_count = False\<rparr>"]
  obtain c' info' ps' rid where "insertable 0 [] ps' c' info'" "ti_schema info' = ti_schema info"
    "rows_of c' info' ps' = (rows_of c info ps)(rid \<mapsto> bytes (tuple_of [0, 5]))" "unat (next_page_id (bpm c')) \<le> unat (next_page_id (bpm c)) + 1"
    by blast
  then show thesis using c(2-4) that [of ps' c' info' rid] by (simp add: tuple_of_def)
qed

text \<open>
  C29. A tuple of at most 456 bytes is always taken: on a well-formed table, with two frames of the pool that are not pinned,
  insert_tuple stores it, whatever was deleted before; the bound is what a page has left for payloads when all its
  slots, of which there are never more than 452, are kept.
\<close>

theorem heap_insert_small:
  assumes "client_inv (heap_file_id h) b hs" and "heap_ok b h ps" and "two_spare b hs" and "next_page_id b \<noteq> INVALID_PAGE_ID"
    and "storable (Tuple_serialize t)" and "length (Tuple_serialize t) \<le> 456"
  shows "\<exists>b' h' rid ps'. heap_insert_tuple t (b, h) = Some ((b', h'), ok (Some rid)) \<and> client_inv (heap_file_id h') b' hs \<and>
    inserted b h ps rid (Tuple_serialize t) b' h' ps'"
proof (rule heap_insert_ok [OF assms(1,2,5,4)], goal_cases)
  case (1 b' h' rid ps')
  then show ?case by auto
next
  case (2 b')
  then show ?case using assms(3) by simp
next
  case (3 s)
  then show ?case using small_no_abort [OF assms(2,6)] by simp
qed

lemma heap_insert_small_witness:
  "\<exists>b h b' h' ps rid rid'. heap_rows b h ps = [rid \<mapsto> [0, 5]] \<and>
     heap_insert_tuple (tuple_of [7, 8, 9]) (b, h) = Some ((b', h'), ok (Some rid')) \<and> rid' \<noteq> rid"
proof -
  obtain c info ps rid where c: "insertable 0 [] ps c info" "ti_schema info = tiny_schema" "rows_of c info ps = [rid \<mapsto> [0, 5]]"
    "unat (next_page_id (bpm c)) \<le> 2" by (rule table_with_row)
  then have t: "client_inv (heap_file_id (ti_table info)) (bpm c) []" "heap_ok (bpm c) (ti_table info) ps" "two_spare (bpm c) []"
    by (simp_all add: insertable_def table_ready_def)
  have ne: "next_page_id (bpm c) \<noteq> INVALID_PAGE_ID" using c(4) by (auto simp: INVALID_PAGE_ID_def unsigned_minus_1_eq_mask mask_eq_exp_minus_1)
  have s: "storable (Tuple_serialize (tuple_of [7, 8, 9]))" "length (Tuple_serialize (tuple_of [7, 8, 9])) \<le> 456"
    by (simp_all add: storable_def Tuple_serialize_def tuple_of_def)
  from heap_insert_small [OF t ne s] obtain b' h' rid' where
    "heap_insert_tuple (tuple_of [7, 8, 9]) (bpm c, ti_table info) = Some ((b', h'), ok (Some rid'))"
    "heap_rows (bpm c) (ti_table info) ps rid' = None" by (auto simp: inserted_def)
  moreover have "heap_rows (bpm c) (ti_table info) ps = [rid \<mapsto> [0, 5]]" using c(3) by (simp add: rows_of_def)
  ultimately show ?thesis by force
qed

subsection \<open>One row\<close>

definition update_image :: "UpdatePlanNode \<Rightarrow> ColumnSchema \<Rightarrow> Tuple \<Rightarrow> Tuple res" where
  "update_image plan schema t = res_bind (evaluate_all (target_expressions plan) (Some t) schema) (new_Tuple schema)"

text \<open>
  The rows under olds are gone and the images have record ids of their own; no other row has changed. An image may have
  the record id of a row that is gone.
\<close>

definition replaced :: "TableOid \<Rightarrow> handles \<Rightarrow> Catalog \<Rightarrow> TableInfo \<Rightarrow> PageId list \<Rightarrow> RecordId list \<Rightarrow> u8 list list \<Rightarrow>
    Catalog \<Rightarrow> TableInfo \<Rightarrow> PageId list \<Rightarrow> bool" where
  "replaced oid hs c info ps olds images c' info' ps' \<longleftrightarrow>
     table_ready oid hs ps' c' info' \<and> two_spare (bpm c') hs \<and> ti_schema info' = ti_schema info \<and>
     (\<exists>rids. length rids = length images \<and> distinct rids \<and>
        (\<forall>rid \<in> set rids. rows_of c info ps rid = None \<or> rid \<in> set olds) \<and>
        rows_of c' info' ps' = (rows_of c info ps |` (- set olds)) ++ map_of (zip rids images))"

lemma erase_step:
  assumes t: "table_ready oid hs ps c info" and row: "rows_of c info ps rid = Some bs"
  shows "\<exists>c' info'. on_table oid (\<lambda>h. Some (mark_delete rid h)) (c, x) = Some ((c', x), ok True) \<and> table_ready oid hs ps c' info' \<and>
    ti_schema info' = ti_schema info \<and> rows_of c' info' ps = (rows_of c info ps)(rid := None) \<and> same_size (bpm c) (bpm c')"
proof -
  have T: "get_table oid c = Some info" "heap_ok (bpm c) (ti_table info) ps" "client_inv (heap_file_id (ti_table info)) (bpm c) hs"
    "spare (bpm c) hs" using t by (simp_all add: table_ready_def)
  have r: "heap_rows (bpm c) (ti_table info) ps rid = Some bs" using row by (simp add: rows_of_def)
  show ?thesis
  proof (rule mark_delete_ok [OF T(3,2) r], goal_cases)
    case 1
    then show ?case using T(3,4) spare_not_full by (auto simp: client_inv_def)
  next
    case (2 b h)
    let ?c = "put_heap oid info b h c" and ?info = "info\<lparr>ti_table := h\<rparr>"
    have "on_table oid (\<lambda>h. Some (mark_delete rid h)) (c, x) = Some ((?c, x), ok True)"
      using T(1) 2(1) by (intro on_table_run) simp_all
    moreover have "table_ready oid hs ps ?c ?info" using 2 T(4) by (simp add: table_ready_def spare_def)
    ultimately show ?case using 2(5,6,7) by (intro exI [of _ ?c] exI [of _ ?info]) (simp add: rows_of_def same_size_def)
  qed
qed

text \<open>The contents of the table when the row under rid gives way to the image u under rid'.\<close>

lemma replace_rows:
  fixes m :: "RecordId \<rightharpoonup> 'a"
  assumes l: "length rids = length images" and gone: "\<forall>q \<in> set rids. m q = None \<or> q \<in> A"
    and rid: "m rid \<noteq> None" "rid \<notin> A"
    and free: "(((m |` (- A)) ++ map_of (zip rids images))(rid := None)) rid' = None"
  shows "rid' \<notin> set rids" and "m rid' = None \<or> rid' \<in> insert rid A"
    and "(((m |` (- A)) ++ map_of (zip rids images))(rid := None, rid' \<mapsto> u)) =
      (m |` (- insert rid A)) ++ map_of (zip (rids @ [rid']) (images @ [u]))"
proof -
  have nin: "rid \<notin> set rids" using gone rid by auto
  have z: "map_of (zip rids images) q = None \<longleftrightarrow> q \<notin> set rids" for q using l by (simp add: map_of_zip_is_None)
  show new: "rid' \<notin> set rids" using free nin z [of rid'] by (auto simp: map_add_None split: if_splits)
  show "m rid' = None \<or> rid' \<in> insert rid A"
    using free by (auto simp: map_add_None restrict_map_def split: if_splits)
  have zr: "map_of (zip rids images) rid = None" using z nin by simp
  have "map_of (zip (rids @ [rid']) (images @ [u])) = [rid' \<mapsto> u] ++ map_of (zip rids images)" using l by simp
  also have "\<dots> = (map_of (zip rids images))(rid' \<mapsto> u)" using new z [of rid'] by (subst map_add_comm) auto
  finally have snoc: "map_of (zip (rids @ [rid']) (images @ [u])) = (map_of (zip rids images))(rid' \<mapsto> u)" .
  have "(f ++ map_of (zip rids images))(rid := None) = (f(rid := None)) ++ map_of (zip rids images)" for f
    using zr by (auto simp: fun_eq_iff map_add_def split: option.split)
  note gap = this [of "m |` (- A)"]
  have "(m |` (- A))(rid := None) = m |` (- insert rid A)" by (auto simp: fun_eq_iff restrict_map_def)
  then show "(((m |` (- A)) ++ map_of (zip rids images))(rid := None, rid' \<mapsto> u)) =
      (m |` (- insert rid A)) ++ map_of (zip (rids @ [rid']) (images @ [u]))"
    unfolding snoc gap by simp
qed

lemma update_step:
  assumes P: "replaced oid hs c info ps olds images c1 info1 ps1" and plan: "mp_table_oid plan = oid"
    and row: "rows_of c info ps rid \<noteq> None" "rid \<notin> set olds"
    and image: "update_image plan (ti_schema info) t = ok u" "bytes u \<noteq> []" "length (bytes u) \<le> 456"
    and n: "unat (next_page_id (bpm c1)) < 2 ^ 32 - 1"
  shows "\<exists>c2 info2 ps2. update_row plan (t, rid) ((c1, x), k) = Some (((c2, x), k + 1), ok ()) \<and>
    replaced oid hs c info ps (olds @ [rid]) (images @ [bytes u]) c2 info2 ps2 \<and>
    unat (next_page_id (bpm c2)) \<le> unat (next_page_id (bpm c1)) + 1"
proof -
  let ?old = "rows_of c info ps"
  from P obtain rids where T: "table_ready oid hs ps1 c1 info1" "two_spare (bpm c1) hs" "ti_schema info1 = ti_schema info"
    and rids: "length rids = length images" "distinct rids" "\<forall>q \<in> set rids. ?old q = None \<or> q \<in> set olds"
    and rows: "rows_of c1 info1 ps1 = (?old |` (- set olds)) ++ map_of (zip rids images)" by (auto simp: replaced_def)
  have tab: "get_table oid c1 = Some info1" using T(1) by (simp add: table_ready_def)
  have "rid \<notin> set rids" using rids(3) row by auto
  then have "rows_of c1 info1 ps1 rid = ?old rid" using row(2) rids(1) by (simp add: rows map_add_def map_of_zip_is_None [THEN iffD2])
  then obtain bs where "rows_of c1 info1 ps1 rid = Some bs" using row(1) by auto
  from erase_step [OF T(1) this, of x] obtain c2 info2 where d: "on_table oid (\<lambda>h. Some (mark_delete rid h)) (c1, x) = Some ((c2, x), ok True)"
    "table_ready oid hs ps1 c2 info2" "ti_schema info2 = ti_schema info1" "rows_of c2 info2 ps1 = (rows_of c1 info1 ps1)(rid := None)"
    "same_size (bpm c1) (bpm c2)" by blast
  have two: "two_spare (bpm c2) hs" and n2: "next_page_id (bpm c2) = next_page_id (bpm c1)"
    using T(2) d(5) by (simp_all add: two_spare_def same_size_def)
  have "storable (bytes u)" using image(2,3) by (simp add: storable_def)
  moreover have "\<not> gives_up (bpm c2) (ti_table info2) (bytes u)"
    using d(2) image(3) by (intro small_no_abort [where ps = ps1]) (simp_all add: table_ready_def)
  ultimately obtain c3 info3 ps3 rid' where i: "on_table oid (heap_insert_tuple u) (c2, x) = Some ((c3, x), ok (Some rid'))"
    "insertable oid hs ps3 c3 info3" "ti_schema info3 = ti_schema info2" "rows_of c2 info2 ps1 rid' = None"
    "rows_of c3 info3 ps3 = (rows_of c2 info2 ps1)(rid' \<mapsto> bytes u)" "unat (next_page_id (bpm c3)) \<le> unat (next_page_id (bpm c2)) + 1"
    using store_step [OF d(2) two, of u x] n n2 by metis
  note R = replace_rows [OF rids(1,3) row i(4) [unfolded d(4) rows]]
  have "update_row plan (t, rid) ((c1, x), k) = Some (((c3, x), k + 1), ok ())"
    using image(1) by (simp add: update_row_def plan tab T(3) update_image_def with_local_def run_bind_def d(1) i(1))
  moreover have "replaced oid hs c info ps (olds @ [rid]) (images @ [bytes u]) c3 info3 ps3"
    unfolding replaced_def
  proof (intro conjI exI [of _ "rids @ [rid']"])
    show "\<forall>q \<in> set (rids @ [rid']). ?old q = None \<or> q \<in> set (olds @ [rid])" using rids(3) R(2) by auto
    show "rows_of c3 info3 ps3 = (?old |` (- set (olds @ [rid]))) ++ map_of (zip (rids @ [rid']) (images @ [bytes u]))"
      unfolding i(5) d(4) rows R(3) [where u = "bytes u"] by simp
  qed (use i(2,3) d(3) T(3) rids R(1) in \<open>simp_all add: insertable_def\<close>)
  ultimately show ?thesis using i(6) n2 by (intro exI [of _ c3] exI [of _ info3] exI [of _ ps3]) simp
qed

lemma update_steps:
  assumes "replaced oid hs c info ps olds images c1 info1 ps1" and "mp_table_oid plan = oid"
    and "distinct (olds @ map snd rows)"
    and "\<And>r. r \<in> set rows \<Longrightarrow> rows_of c info ps (snd r) \<noteq> None \<and> (\<exists>u. update_image plan (ti_schema info) (fst r) = ok u \<and>
        bytes u = img r \<and> img r \<noteq> [] \<and> length (img r) \<le> 456)"
    and "unat (next_page_id (bpm c1)) + length rows < 2 ^ 32"
  shows "\<exists>c2 info2 ps2. each (update_row plan) rows ((c1, x), k) = Some (((c2, x), k + of_nat (length rows)), ok ()) \<and>
    replaced oid hs c info ps (olds @ map snd rows) (images @ map img rows) c2 info2 ps2"
  using assms
proof (induction rows arbitrary: olds images c1 info1 ps1 k)
  case Nil
  then show ?case by auto
next
  case (Cons r rows)
  from Cons.prems(4) [of r] obtain u where r: "rows_of c info ps (snd r) \<noteq> None" "update_image plan (ti_schema info) (fst r) = ok u"
    "bytes u = img r" "bytes u \<noteq> []" "length (bytes u) \<le> 456" by auto
  have "snd r \<notin> set olds" "unat (next_page_id (bpm c1)) < 2 ^ 32 - 1" using Cons.prems(3,5) by auto
  from update_step [OF Cons.prems(1,2) r(1) this(1) r(2,4,5) this(2), of x k] obtain c2 info2 ps2 where s:
    "update_row plan r ((c1, x), k) = Some (((c2, x), k + 1), ok ())"
    "replaced oid hs c info ps (olds @ [snd r]) (images @ [img r]) c2 info2 ps2"
    "unat (next_page_id (bpm c2)) \<le> unat (next_page_id (bpm c1)) + 1" by (auto simp: r(3))
  have "distinct ((olds @ [snd r]) @ map snd rows)" using Cons.prems(3) by simp
  moreover have "unat (next_page_id (bpm c2)) + length rows < 2 ^ 32" using Cons.prems(5) s(3) by simp
  ultimately have "\<exists>c3 info3 ps3. each (update_row plan) rows ((c2, x), k + 1) = Some (((c3, x), k + 1 + of_nat (length rows)), ok ()) \<and>
      replaced oid hs c info ps ((olds @ [snd r]) @ map snd rows) ((images @ [img r]) @ map img rows) c3 info3 ps3"
    using Cons.IH [OF s(2) Cons.prems(2)] Cons.prems(4) by simp
  then show ?case using s(1) by (auto simp: run_bind_def add.assoc)
qed

subsection \<open>The statement\<close>

text \<open>The rows that the executor collects before it changes anything.\<close>

lemma update_collects:
  fixes x :: "SeqScanExecutor FilterExecutor UpdateExecutor"
  assumes y: "filter_yields (scan_yields oid info hs ps v) (passes predicate schema) (c, up_child x) out" and n: "0 < n"
  shows "\<exists>c' x'. while_batches (with_local (on_child up_child (\<lambda>y x. x\<lparr>up_child := y\<rparr>) (filter_next predicate schema seq_scan_next n)))
      collect_rows ((c, x), []) = Some (((c', x'), out), ok ()) \<and>
    filter_yields (scan_yields oid info hs ps v) (passes predicate schema) (c', up_child x') [] \<and> same_size (bpm c) (bpm c')"
proof -
  let ?yields = "filter_yields (scan_yields oid info hs ps v) (passes predicate schema)"
  let ?pull = "with_local (on_child up_child (\<lambda>y x. x\<lparr>up_child := y\<rparr>) (filter_next predicate schema seq_scan_next n))"
  let ?R = "\<lambda>(z :: (Catalog \<times> SeqScanExecutor FilterExecutor UpdateExecutor) \<times> row list) left.
    ?yields (fst (fst z), up_child (snd (fst z))) left \<and> same_size (bpm c) (bpm (fst (fst z))) \<and> snd z @ left = out"
  let ?Q = "\<lambda>z. ?R z []"
  have "\<exists>z. while_batches ?pull collect_rows ((c, x), []) = Some (z, ok ()) \<and> ?Q z"
  proof (rule while_batches_rule [where R = ?R and rows = out])
    show "?R ((c, x), []) out" using y same_size_refl by simp
    fix z :: "(Catalog \<times> SeqScanExecutor FilterExecutor UpdateExecutor) \<times> row list" and left assume R: "?R z left"
    obtain c1 x1 rows where z: "z = ((c1, x1), rows)" by (metis prod.exhaust)
    from R filtered_scan.next_law [of oid info hs ps v predicate schema "(c1, up_child x1)" left n] n obtain c2 y2 batch rest where
      b: "filter_next predicate schema seq_scan_next n (c1, up_child x1) = Some ((c2, y2), ok (batch, batch \<noteq> []))"
      "left = batch @ rest" "?yields (c2, y2) rest" "left \<noteq> [] \<longrightarrow> batch \<noteq> []" unfolding z by (metis fst_conv snd_conv prod.collapse)
    have "same_size (bpm c1) (bpm c2)" using filter_next_size [OF seq_scan_next_size b(1)] by simp
    then have size: "same_size (bpm c) (bpm c2)" using R same_size_trans unfolding z by auto
    let ?z1 = "((c2, x1\<lparr>up_child := y2\<rparr>), rows)"
    have pull: "?pull z = Some (?z1, ok (batch, batch \<noteq> []))" by (simp add: z with_local_def on_child_def b(1))
    have "?R ((c2, x1\<lparr>up_child := y2\<rparr>), rows @ batch) rest" using b(2,3) size R by (simp add: z)
    moreover have "collect_rows batch ?z1 = Some (((c2, x1\<lparr>up_child := y2\<rparr>), rows @ batch), ok ())" by (simp add: collect_rows_def)
    moreover have "?Q ?z1" if "batch = []" using b(2-4) size R that by (auto simp: z)
    ultimately show "\<exists>z1 batch rest. ?pull z = Some (z1, ok (batch, batch \<noteq> [])) \<and> left = batch @ rest \<and> (left \<noteq> [] \<longrightarrow> batch \<noteq> []) \<and>
        (batch = [] \<longrightarrow> ?Q z1) \<and> (batch \<noteq> [] \<longrightarrow> (\<exists>z2. collect_rows batch z1 = Some (z2, ok ()) \<and> ?R z2 rest))"
      using pull b(2,4) by blast
  qed
  then show ?thesis by (auto simp: split_paired_Ex)
qed

lemma update_where:
  fixes x :: "SeqScanExecutor FilterExecutor UpdateExecutor"
  assumes t: "table_ready oid hs ps c info" "two_spare (bpm c) hs" and plan: "mp_table_oid plan = oid" "map col_type (mp_schema plan) = [INTEGER]"
    and n: "0 < n" and fresh: "f_child_offset (up_child x) = 0"
    and total: "\<And>rid bs. rows_of c info ps rid = Some bs \<Longrightarrow> passes predicate schema (tuple_of bs) = ok (keep bs) \<and>
        (keep bs \<longrightarrow> (\<exists>u. update_image plan (ti_schema info) (tuple_of bs) = ok u \<and> bytes u = img bs \<and> img bs \<noteq> [] \<and> length (img bs) \<le> 456))"
    and pages: "unat (next_page_id (bpm c)) + card {rid. \<exists>bs. rows_of c info ps rid = Some bs \<and> keep bs} < 2 ^ 32"
  shows "\<exists>s0 c' y t w info' ps' olds. update_init plan (filter_init (seq_scan_init oid)) (c, x) = Some (s0, ok ()) \<and>
    update_next plan (filter_next predicate schema seq_scan_next) n s0 = Some ((c', y), ok ([(t, default_RecordId)], True)) \<and>
    tuple_value (mp_schema plan) 0 t = ok w \<and> same_value (Value_int32 INTEGER (sint (of_nat (length olds) :: u32))) w \<and>
    distinct olds \<and> set olds = {rid. \<exists>bs. rows_of c info ps rid = Some bs \<and> keep bs} \<and>
    replaced oid hs c info ps olds (map (\<lambda>rid. img (the (rows_of c info ps rid))) olds) c' info' ps'"
proof -
  let ?v = "heap_page (bpm c) (ti_table info)" and ?live = "rows_of c info ps" and ?p = "passes predicate schema"
  let ?rs = "table_rows ?v ps" let ?out = "map heap_row (filter (\<lambda>r. keep (snd r)) ?rs)"
  have ps: "distinct ps" and tab: "get_table oid c = Some info" using t by (simp_all add: table_ready_def heap_ok_def)
  have rs: "map_of ?rs = ?live" "distinct (map fst ?rs)"
    using table_rows_map [OF ps] distinct_table_rows [OF ps] by (simp_all add: rows_of_def)
  have row: "?live (fst r) = Some (snd r)" if "r \<in> set ?rs" for r using rs that by (metis map_of_is_SomeI prod.collapse)
  note M = matching_rids [OF rs, of keep]
  have len: "length ?out = card {rid. \<exists>bs. ?live rid = Some bs \<and> keep bs}"
    using distinct_card [OF M(1)] M(2) by (simp only: set_map length_map)
  from seq_scan_init_ok [OF t(1)] obtain b it where i: "seq_scan_init oid (c, f_child (up_child x)) =
      Some ((c\<lparr>bpm := b\<rparr>, \<lparr>ss_table = oid, ss_iter = it\<rparr>), ok ())"
    "scanning (ti_table info) hs ps ?v b" "iter_at ?v ps it ?rs" by blast
  let ?c = "c\<lparr>bpm := b\<rparr>" let ?x = "x\<lparr>up_executed := False, up_child := (up_child x)\<lparr>f_child := \<lparr>ss_table = oid, ss_iter = it\<rparr>\<rparr>\<rparr>"
  have init: "update_init plan (filter_init (seq_scan_init oid)) (c, x) = Some ((?c, ?x), ok ())"
    using i(1) plan(1) tab by (simp add: update_init_def resolve_table_def run_bind_def filter_init_def on_child_def)
  have "scan_yields oid info hs ps ?v (?c, f_child (up_child ?x)) (map heap_row ?rs)" using i tab by (auto simp: scan_yields_def get_table_def)
  moreover have "filter_rest ?p (map heap_row ?rs) = ok ?out" using total row by (intro filter_rest_total) blast
  ultimately have "filter_yields (scan_yields oid info hs ps ?v) ?p (?c, up_child ?x) ?out"
    using fresh by (auto simp: filter_yields_def filter_left_def)
  from update_collects [OF this n] obtain c1 x1 where w:
    "while_batches (with_local (on_child up_child (\<lambda>y x. x\<lparr>up_child := y\<rparr>) (filter_next predicate schema seq_scan_next n)))
      collect_rows ((?c, ?x), []) = Some (((c1, x1), ?out), ok ())"
    "filter_yields (scan_yields oid info hs ps ?v) ?p (c1, up_child x1) []" "same_size (bpm ?c) (bpm c1)" by blast
  obtain left where "scan_yields oid info hs ps ?v (c1, f_child (up_child x1)) left" using w(2) by (auto simp: filter_yields_def)
  note R = scan_ready [OF t(1) this, simplified]
  have size: "same_size (bpm c) (bpm c1)" using seq_scan_init_size [OF i(1)] w(3) same_size_trans by simp
  have e0: "replaced oid hs c info ps [] [] c1 info ps"
    using R t(2) size by (simp add: replaced_def two_spare_def same_size_def) (simp add: restrict_map_def)
  have each_row: "rows_of c info ps (snd r) \<noteq> None \<and> (\<exists>u. update_image plan (ti_schema info) (fst r) = ok u \<and>
      bytes u = img (the (?live (snd r))) \<and> img (the (?live (snd r))) \<noteq> [] \<and> length (img (the (?live (snd r)))) \<le> 456)" if "r \<in> set ?out" for r
  proof -
    from that obtain q where q: "q \<in> set ?rs" "keep (snd q)" "r = heap_row q" unfolding set_map set_filter by blast
    show ?thesis using total [OF row [OF q(1)]] q(2) row [OF q(1)] by (simp add: q(3) heap_row_def)
  qed
  have e1: "distinct ([] @ map snd ?out)" using M(1) by simp
  have e3: "unat (next_page_id (bpm c1)) + length ?out < 2 ^ 32" using pages size unfolding len by (simp add: same_size_def)
  obtain c2 info2 ps2 where e: "each (update_row plan) ?out ((c1, x1), 0) = Some (((c2, x1), 0 + of_nat (length ?out)), ok ())"
    "replaced oid hs c info ps ([] @ map snd ?out) ([] @ map (\<lambda>r. img (the (?live (snd r)))) ?out) c2 info2 ps2"
    using update_steps [OF e0 plan(1) e1 each_row e3, where x = x1 and k = 0] by blast
  obtain t w where tw: "count_row (mp_schema plan) (of_nat (length ?out)) = ok (t, default_RecordId)"
    "tuple_value (mp_schema plan) 0 t = ok w" "same_value (Value_int32 INTEGER (sint (of_nat (length ?out) :: u32))) w"
    by (rule count_row_ok [OF plan(2)])
  have run: "update_next plan (filter_next predicate schema seq_scan_next) n (?c, ?x) = Some ((c2, x1\<lparr>up_executed := True\<rparr>), ok ([(t, default_RecordId)], True))"
    using w(1) e(1) tw(1) by (simp add: update_next_def)
  have "replaced oid hs c info ps (map snd ?out) (map (\<lambda>rid. img (the (?live rid))) (map snd ?out)) c2 info2 ps2"
    using e(2) by (simp add: comp_def)
  moreover have "set (map snd ?out) = {rid. \<exists>bs. ?live rid = Some bs \<and> keep bs}" using M(2) by (simp only: set_map)
  moreover have "same_value (Value_int32 INTEGER (sint (of_nat (length (map snd ?out)) :: u32))) w" using tw(3) by simp
  ultimately show ?thesis using init run tw(2) M(1) by blast
qed


text \<open>UPDATE t SET a = 7 WHERE a > 3 on a table with one row.\<close>

definition set_a_7 :: UpdatePlanNode where
  "set_a_7 = \<lparr>mp_schema = [val_column INTEGER], mp_table_oid = 0,
     target_expressions = [Expression (ConstantValueExpression (Value_int8 TINYINT 7)) [] (val_column TINYINT)]\<rparr>"


end
