(* ===== verification/Aggregation.thy ===== *)
theory Aggregation
  imports Executor
begin

unbundle bit_operations_syntax

section \<open>Aggregation\<close>

text \<open>
  include/turtle/execution/aggregation, src/execution/aggregation and the aggregation executor. The classes of
  functions are the constructors of \<open>AggregateFunction\<close>, their virtual methods are dispatched on them, and the
  two accumulator structs are the constructors of \<open>AggregateState\<close>; a static_cast of a state to the other struct is
  undefined. The unordered_map is the list of its entries in the order of their insertion; a lookup compares the key
  with the entries of equal hash. std::hash of strings is a parameter, and so is the order in which the finished map
  is iterated.
\<close>

subsection \<open>States\<close>

record BasicAccumulatorState =
  basic_value :: Value
  basic_count :: u64
  basic_is_null :: CmpBool

record MomentAccumulatorState =
  moment_sum :: Value
  moment_count :: u64
  moment_is_null :: CmpBool

datatype AggregateState = Basic BasicAccumulatorState | Moment MomentAccumulatorState

datatype AggregateFunction = CountFunction | CountStarFunction | SumFunction | MinFunction | MaxFunction | AvgFunction

definition new_BasicAccumulatorState :: BasicAccumulatorState where
  "new_BasicAccumulatorState = \<lparr>basic_value = Value_null INVALID, basic_count = 0, basic_is_null = CmpTrue\<rparr>"

definition new_MomentAccumulatorState :: MomentAccumulatorState where
  "new_MomentAccumulatorState = \<lparr>moment_sum = Value_null INVALID, moment_count = 0, moment_is_null = CmpTrue\<rparr>"

fun create_state :: "AggregateFunction \<Rightarrow> AggregateState" where
  "create_state AvgFunction = Moment new_MomentAccumulatorState"
| "create_state _ = Basic new_BasicAccumulatorState"

definition check_cmp_is_null :: "Value \<Rightarrow> bool" where
  "check_cmp_is_null v \<longleftrightarrow> get_cmp_bool (is_null v) = CmpTrue"

subsection \<open>Counting\<close>

definition count_star_update :: "BasicAccumulatorState \<Rightarrow> Value list \<Rightarrow> BasicAccumulatorState" where
  "count_star_update st args = st\<lparr>basic_count := basic_count st + 1, basic_is_null := CmpFalse\<rparr>"

definition count_update :: "BasicAccumulatorState \<Rightarrow> Value list \<Rightarrow> BasicAccumulatorState" where
  "count_update st args = (if args = [] \<or> check_cmp_is_null (args ! 0) then st
     else st\<lparr>basic_count := basic_count st + 1, basic_is_null := CmpFalse\<rparr>)"

definition count_merge :: "BasicAccumulatorState \<Rightarrow> BasicAccumulatorState \<Rightarrow> BasicAccumulatorState" where
  "count_merge d s = (if basic_is_null s = CmpNull then d
     else if basic_is_null d = CmpNull
     then d\<lparr>basic_value := basic_value s, basic_count := basic_count s, basic_is_null := CmpFalse\<rparr>
     else d\<lparr>basic_count := basic_count d + basic_count s\<rparr>)"

definition count_star_merge :: "BasicAccumulatorState \<Rightarrow> BasicAccumulatorState \<Rightarrow> BasicAccumulatorState" where
  "count_star_merge d s = (if basic_is_null s = CmpNull then d
     else if basic_is_null d = CmpNull
     then d\<lparr>basic_value := basic_value s, basic_count := basic_count s, basic_is_null := CmpFalse\<rparr>
     else d\<lparr>basic_count := basic_count d + basic_count s\<rparr>)"

definition count_finalize :: "BasicAccumulatorState \<Rightarrow> Value" where
  "count_finalize st = get_integer_value (sint (ucast (basic_count st) :: u32))"

definition count_star_finalize :: "BasicAccumulatorState \<Rightarrow> Value" where
  "count_star_finalize st = get_big_int_value (sint (basic_count st))"

subsection \<open>Sum, minimum, maximum\<close>

text \<open>The three classes differ in the method of Value that combines two arguments.\<close>

definition value_update :: "(Value \<Rightarrow> Value \<Rightarrow> Value res) \<Rightarrow> BasicAccumulatorState \<Rightarrow> Value list \<Rightarrow> BasicAccumulatorState res" where
  "value_update op st args = (if args = [] \<or> check_cmp_is_null (args ! 0) then ok st
     else if basic_is_null st = CmpTrue then ok (st\<lparr>basic_value := args ! 0, basic_is_null := CmpFalse\<rparr>)
     else res_bind (op (basic_value st) (args ! 0)) (\<lambda>v. ok (st\<lparr>basic_value := v\<rparr>)))"

definition value_merge :: "(Value \<Rightarrow> Value \<Rightarrow> Value res) \<Rightarrow> BasicAccumulatorState \<Rightarrow> BasicAccumulatorState \<Rightarrow> BasicAccumulatorState res" where
  "value_merge op d s = (if basic_is_null s = CmpTrue then ok d
     else if basic_is_null d = CmpTrue then ok (d\<lparr>basic_value := basic_value s, basic_is_null := CmpFalse\<rparr>)
     else res_bind (op (basic_value d) (basic_value s)) (\<lambda>v. ok (d\<lparr>basic_value := v\<rparr>)))"

definition value_finalize :: "BasicAccumulatorState \<Rightarrow> Value res" where
  "value_finalize st = (if basic_is_null st = CmpTrue then get_null_value_by_type (data_type (basic_value st))
     else ok (basic_value st))"

definition sum_update :: "BasicAccumulatorState \<Rightarrow> Value list \<Rightarrow> BasicAccumulatorState res" where
  "sum_update = value_update (Value_arith Plus)"

definition min_update :: "BasicAccumulatorState \<Rightarrow> Value list \<Rightarrow> BasicAccumulatorState res" where
  "min_update = value_update Value_min"

definition max_update :: "BasicAccumulatorState \<Rightarrow> Value list \<Rightarrow> BasicAccumulatorState res" where
  "max_update = value_update Value_max"

definition sum_merge :: "BasicAccumulatorState \<Rightarrow> BasicAccumulatorState \<Rightarrow> BasicAccumulatorState res" where
  "sum_merge = value_merge (Value_arith Plus)"

definition min_merge :: "BasicAccumulatorState \<Rightarrow> BasicAccumulatorState \<Rightarrow> BasicAccumulatorState res" where
  "min_merge = value_merge Value_min"

definition max_merge :: "BasicAccumulatorState \<Rightarrow> BasicAccumulatorState \<Rightarrow> BasicAccumulatorState res" where
  "max_merge = value_merge Value_max"

definition sum_finalize :: "BasicAccumulatorState \<Rightarrow> Value res" where "sum_finalize = value_finalize"

definition min_finalize :: "BasicAccumulatorState \<Rightarrow> Value res" where "min_finalize = value_finalize"

definition max_finalize :: "BasicAccumulatorState \<Rightarrow> Value res" where "max_finalize = value_finalize"

subsection \<open>Average\<close>

definition avg_update :: "MomentAccumulatorState \<Rightarrow> Value list \<Rightarrow> MomentAccumulatorState res" where
  "avg_update st args = (if args = [] \<or> check_cmp_is_null (args ! 0) then ok st
     else res_bind (if moment_is_null st = CmpTrue then ok (st\<lparr>moment_sum := args ! 0, moment_is_null := CmpFalse\<rparr>)
         else res_bind (Value_arith Plus (moment_sum st) (args ! 0)) (\<lambda>v. ok (st\<lparr>moment_sum := v\<rparr>)))
       (\<lambda>st. ok (st\<lparr>moment_count := moment_count st + 1\<rparr>)))"

definition avg_merge :: "MomentAccumulatorState \<Rightarrow> MomentAccumulatorState \<Rightarrow> MomentAccumulatorState res" where
  "avg_merge d s = (if moment_is_null s = CmpTrue then ok d
     else res_bind (if moment_is_null d = CmpTrue then ok (d\<lparr>moment_sum := moment_sum s, moment_is_null := CmpFalse\<rparr>)
         else res_bind (Value_arith Plus (moment_sum d) (moment_sum s)) (\<lambda>v. ok (d\<lparr>moment_sum := v\<rparr>)))
       (\<lambda>d. ok (d\<lparr>moment_count := moment_count d + moment_count s\<rparr>)))"

definition avg_finalize :: "MomentAccumulatorState \<Rightarrow> Value res" where
  "avg_finalize st = (if moment_is_null st = CmpTrue \<or> moment_count st = 0
     then get_null_value_by_type (data_type (moment_sum st))
     else Value_arith Divided (moment_sum st) (get_decimal_value (fp_of_int (uint (moment_count st)))))"

subsection \<open>Dispatch\<close>

abbreviation wrong_state :: error where "wrong_state \<equiv> Undefined ''state of another aggregate function''"

fun agg_update :: "AggregateFunction \<Rightarrow> AggregateState \<Rightarrow> Value list \<Rightarrow> AggregateState res" where
  "agg_update CountFunction (Basic st) args = ok (Basic (count_update st args))"
| "agg_update CountStarFunction (Basic st) args = ok (Basic (count_star_update st args))"
| "agg_update SumFunction (Basic st) args = res_bind (sum_update st args) (\<lambda>st. ok (Basic st))"
| "agg_update MinFunction (Basic st) args = res_bind (min_update st args) (\<lambda>st. ok (Basic st))"
| "agg_update MaxFunction (Basic st) args = res_bind (max_update st args) (\<lambda>st. ok (Basic st))"
| "agg_update AvgFunction (Moment st) args = res_bind (avg_update st args) (\<lambda>st. ok (Moment st))"
| "agg_update _ _ _ = throw wrong_state"

fun agg_merge :: "AggregateFunction \<Rightarrow> AggregateState \<Rightarrow> AggregateState \<Rightarrow> AggregateState res" where
  "agg_merge CountFunction (Basic d) (Basic s) = ok (Basic (count_merge d s))"
| "agg_merge CountStarFunction (Basic d) (Basic s) = ok (Basic (count_star_merge d s))"
| "agg_merge SumFunction (Basic d) (Basic s) = res_bind (sum_merge d s) (\<lambda>st. ok (Basic st))"
| "agg_merge MinFunction (Basic d) (Basic s) = res_bind (min_merge d s) (\<lambda>st. ok (Basic st))"
| "agg_merge MaxFunction (Basic d) (Basic s) = res_bind (max_merge d s) (\<lambda>st. ok (Basic st))"
| "agg_merge AvgFunction (Moment d) (Moment s) = res_bind (avg_merge d s) (\<lambda>st. ok (Moment st))"
| "agg_merge _ _ _ = throw wrong_state"

fun agg_finalize :: "AggregateFunction \<Rightarrow> AggregateState \<Rightarrow> Value res" where
  "agg_finalize CountFunction (Basic st) = ok (count_finalize st)"
| "agg_finalize CountStarFunction (Basic st) = ok (count_star_finalize st)"
| "agg_finalize AvgFunction (Moment st) = avg_finalize st"
| "agg_finalize SumFunction (Basic st) = sum_finalize st"
| "agg_finalize MinFunction (Basic st) = min_finalize st"
| "agg_finalize MaxFunction (Basic st) = max_finalize st"
| "agg_finalize AvgFunction (Basic st) = throw wrong_state"
| "agg_finalize _ (Moment st) = throw wrong_state"

text \<open>\<open>AggregateFunctionRegistry::get\<close>; None is nullptr.\<close>

definition registry_get :: "string \<Rightarrow> AggregateFunction option" where
  "registry_get = map_of [(''count'', CountFunction), (''count_star'', CountStarFunction), (''sum'', SumFunction),
     (''min'', MinFunction), (''max'', MaxFunction), (''avg'', AvgFunction)]"

subsection \<open>The hash table\<close>

type_synonym AggregateKey = "Value list"

text \<open>The equality of keys looks at the values of the left key only.\<close>

fun key_eq :: "AggregateKey \<Rightarrow> AggregateKey \<Rightarrow> bool res" where
  "key_eq [] other = ok True"
| "key_eq (v # vs) [] = throw (Undefined ''vector index out of range'')"
| "key_eq (v # vs) (w # ws) = res_bind (Value_compare EQ v w) (\<lambda>c. if c \<noteq> CmpTrue then ok False else key_eq vs ws)"

fun key_hash :: "(string \<Rightarrow> u64) \<Rightarrow> u64 \<Rightarrow> AggregateKey \<Rightarrow> u64 res" where
  "key_hash std_hash h [] = ok h"
| "key_hash std_hash h (v # vs) = (if is_null v then key_hash std_hash h vs
     else res_bind (Value_to_string v) (\<lambda>s.
       key_hash std_hash (h XOR (std_hash s + 0x9e3779b9 + push_bit 6 h + drop_bit 2 h)) vs))"

record AggregationHashTable =
  ht :: "(AggregateKey \<times> AggregateState list) list"
  agg_funcs :: "AggregateFunction list"

text \<open>\<open>find\<close>: the position of the entry for a key with hash h, from position i on.\<close>

fun ht_find :: "(string \<Rightarrow> u64) \<Rightarrow> u64 \<Rightarrow> AggregateKey \<Rightarrow> nat \<Rightarrow> (AggregateKey \<times> AggregateState list) list \<Rightarrow> nat option res" where
  "ht_find std_hash h key i [] = ok None"
| "ht_find std_hash h key i ((k, st) # es) = res_bind (key_hash std_hash 0 k) (\<lambda>h'.
     if h' \<noteq> h then ht_find std_hash h key (Suc i) es
     else res_bind (key_eq key k) (\<lambda>e. if e then ok (Some i) else ht_find std_hash h key (Suc i) es))"

text \<open>The loop over the functions; one without an argument is not updated.\<close>

fun update_states :: "AggregateFunction list \<Rightarrow> AggregateState list \<Rightarrow> Value list \<Rightarrow> AggregateState list \<times> unit res" where
  "update_states (f # fs) (st # sts) (a # as) = (case agg_update f st [a] of
     Inl e \<Rightarrow> (st # sts, Inl e)
   | Inr st' \<Rightarrow> (case update_states fs sts as of (sts', r) \<Rightarrow> (st' # sts', r)))"
| "update_states (f # fs) [] (a # as) = ([], throw (Undefined ''vector index out of range''))"
| "update_states fs sts as = (sts, ok ())"

definition insert_combine :: "(string \<Rightarrow> u64) \<Rightarrow> AggregateKey \<Rightarrow> Value list \<Rightarrow> (AggregationHashTable, unit) op" where
  "insert_combine std_hash key args t = (case res_bind (key_hash std_hash 0 key) (\<lambda>h. ht_find std_hash h key 0 (ht t)) of
     Inl e \<Rightarrow> (t, Inl e)
   | Inr found \<Rightarrow>
       (let es = (case found of Some _ \<Rightarrow> ht t | None \<Rightarrow> ht t @ [(key, map create_state (agg_funcs t))]);
            i = (case found of Some i \<Rightarrow> i | None \<Rightarrow> length (ht t))
        in case update_states (agg_funcs t) (snd (es ! i)) args of
             (sts, r) \<Rightarrow> (t\<lparr>ht := es[i := (fst (es ! i), sts)]\<rparr>, r)))"

subsection \<open>The executor\<close>

record AggregationPlanNode =
  ap_schema :: ColumnSchema
  group_bys :: "Expression list"
  aggregates :: "Expression list"
  ap_agg_funcs :: "AggregateFunction list"

record 's AggregationExecutor =
  ag_child :: 's
  aht :: AggregationHashTable
  aht_iterator :: nat

definition make_aggregate_key :: "AggregationPlanNode \<Rightarrow> ColumnSchema \<Rightarrow> Tuple \<Rightarrow> AggregateKey res" where
  "make_aggregate_key plan schema t = evaluate_all (group_bys plan) (Some t) schema"

definition make_aggregate_values :: "AggregationPlanNode \<Rightarrow> ColumnSchema \<Rightarrow> Tuple \<Rightarrow> Value list res" where
  "make_aggregate_values plan schema t = evaluate_all (aggregates plan) (Some t) schema"

definition on_aht :: "(AggregationHashTable, unit) op \<Rightarrow> (Catalog \<times> 's AggregationExecutor, unit) run" where
  "on_aht m s = (case m (aht (snd s)) of (t, r) \<Rightarrow> Some ((fst s, (snd s)\<lparr>aht := t\<rparr>), r))"

definition combine_row :: "(string \<Rightarrow> u64) \<Rightarrow> AggregationPlanNode \<Rightarrow> ColumnSchema \<Rightarrow> row \<Rightarrow> (Catalog \<times> 's AggregationExecutor, unit) run" where
  "combine_row std_hash plan schema r s =
     (case res_bind (make_aggregate_key plan schema (fst r)) (\<lambda>key.
         res_bind (make_aggregate_values plan schema (fst r)) (\<lambda>args. ok (key, args))) of
        Inl e \<Rightarrow> Some (s, Inl e)
      | Inr (key, args) \<Rightarrow> on_aht (insert_combine std_hash key args) s)"

type_synonym iteration_order = "(AggregateKey \<times> AggregateState list) list \<Rightarrow> (AggregateKey \<times> AggregateState list) list"

definition aggregation_init :: "(string \<Rightarrow> u64) \<Rightarrow> iteration_order \<Rightarrow> AggregationPlanNode \<Rightarrow> ColumnSchema \<Rightarrow> (Catalog \<times> 's, unit) run \<Rightarrow> 's exec_next \<Rightarrow>
    (Catalog \<times> 's AggregationExecutor, unit) run" where
  "aggregation_init std_hash order plan schema child_init child s =
     run_bind (on_child ag_child (\<lambda>y x. x\<lparr>ag_child := y\<rparr>) child_init) (\<lambda>_.
     run_bind (while_batches (on_child ag_child (\<lambda>y x. x\<lparr>ag_child := y\<rparr>) (child 256)) (each (combine_row std_hash plan schema))) (\<lambda>_ s.
     run_bind (if ht (aht (snd s)) = [] \<and> group_bys plan = []
        then on_aht (insert_combine std_hash [] (replicate (length (ap_agg_funcs plan)) (Value_null INVALID)))
        else (\<lambda>s. Some (s, ok ())))
       (\<lambda>_ s. Some ((fst s, (snd s)\<lparr>aht := (aht (snd s))\<lparr>ht := order (ht (aht (snd s)))\<rparr>, aht_iterator := 0\<rparr>), ok ())) s))
     (fst s, (snd s)\<lparr>aht := (aht (snd s))\<lparr>ht := []\<rparr>\<rparr>)"

fun finalize_all :: "AggregateFunction list \<Rightarrow> AggregateState list \<Rightarrow> Value list res" where
  "finalize_all [] sts = ok []"
| "finalize_all (f # fs) [] = throw (Undefined ''vector index out of range'')"
| "finalize_all (f # fs) (st # sts) = res_bind (agg_finalize f st) (\<lambda>v. res_bind (finalize_all fs sts) (\<lambda>vs. ok (v # vs)))"

definition group_row :: "AggregationPlanNode \<Rightarrow> AggregateKey \<times> AggregateState list \<Rightarrow> row res" where
  "group_row plan e = res_bind (finalize_all (ap_agg_funcs plan) (snd e)) (\<lambda>vs.
     res_bind (new_Tuple (ap_schema plan) (fst e @ vs)) (\<lambda>t. ok (Tuple_copy t, default_RecordId)))"

text \<open>The loop with room for k more rows and the iterator at position i.\<close>

fun aggregation_loop :: "AggregationPlanNode \<Rightarrow> (AggregateKey \<times> AggregateState list) list \<Rightarrow> nat \<Rightarrow> nat \<Rightarrow> nat \<times> row list res" where
  "aggregation_loop plan es 0 i = (i, ok [])"
| "aggregation_loop plan es (Suc k) i = (if i < length es
     then case group_row plan (es ! i) of
         Inl e \<Rightarrow> (i, Inl e)
       | Inr r \<Rightarrow> (case aggregation_loop plan es k (i + 1) of
           (j, rs) \<Rightarrow> (j, res_bind rs (\<lambda>rows. ok (r # rows))))
     else (i, ok []))"

definition aggregation_next :: "AggregationPlanNode \<Rightarrow> 's AggregationExecutor exec_next" where
  "aggregation_next plan n s = (case aggregation_loop plan (ht (aht (snd s))) n (aht_iterator (snd s)) of
     (i, r) \<Rightarrow> Some ((fst s, (snd s)\<lparr>aht_iterator := i\<rparr>), res_bind r (\<lambda>rows. ok (rows, rows \<noteq> []))))"

text \<open>The hash table gets its functions from the plan when the executor is constructed.\<close>

definition new_AggregationExecutor :: "AggregationPlanNode \<Rightarrow> 's \<Rightarrow> 's AggregationExecutor" where
  "new_AggregationExecutor plan child = \<lparr>ag_child = child, aht = \<lparr>ht = [], agg_funcs = ap_agg_funcs plan\<rparr>, aht_iterator = 0\<rparr>"

end
