(* ===== verification/ValueCasts.thy ===== *)
theory ValueCasts
  imports TypeDispatch
begin

section \<open>The casts of ValueFactory\<close>

text \<open>
  The static cast functions of include/turtle/datatype/value_factory.hpp. Each asks the instance of the target type whether it
  is coercable from the type of the value; the base class answers no, and only TimestampType overrides it.
  std::stod is a parameter: it gives a double, or one of its two exceptions. sscanf is called on a string whose
  digits and separators have been checked, so it reads the fields at their places.
\<close>

subsection \<open>Coercion\<close>

definition is_coercable_from :: "DataType \<Rightarrow> DataType \<Rightarrow> bool" where
  "is_coercable_from target source \<longleftrightarrow> target = TIMESTAMP \<and> timestamp_is_coercable_from source"

definition not_coercable :: "Value \<Rightarrow> string \<Rightarrow> Value res" where
  "not_coercable v name = res_bind (Value_to_string v) (\<lambda>s. throw (exception_msg (s @ '' is not coercable to '' @ name @ ''.'')))"

subsection \<open>Numbers in strings\<close>

text \<open>std::stoi and std::stoll, with their exceptions as the handlers of the casts translate them.\<close>

definition is_space :: "char \<Rightarrow> bool" where
  "is_space c \<longleftrightarrow> c = CHR '' '' \<or> 9 \<le> (of_char c :: nat) \<and> (of_char c :: nat) \<le> 13"

definition is_digit :: "char \<Rightarrow> bool" where
  "is_digit c \<longleftrightarrow> 48 \<le> (of_char c :: nat) \<and> (of_char c :: nat) \<le> 57"

definition digit_value :: "char \<Rightarrow> nat" where
  "digit_value c = of_char c - 48"

definition number :: "string \<Rightarrow> nat" where
  "number cs = foldl (\<lambda>x c. 10 * x + digit_value c) 0 cs"

definition c_str :: "string \<Rightarrow> string" where
  "c_str s = takeWhile (\<lambda>c. of_char c \<noteq> (0 :: nat)) s"

definition strtol :: "string \<Rightarrow> int option" where
  "strtol s = (let body = dropWhile is_space (c_str s);
       sign = (if body \<noteq> [] \<and> hd body = CHR ''-'' then - 1 else 1);
       digits = takeWhile is_digit (if body \<noteq> [] \<and> (hd body = CHR ''-'' \<or> hd body = CHR ''+'') then tl body else body)
     in if digits = [] then None else Some (sign * int (number digits)))"

definition parse_int :: "nat \<Rightarrow> string \<Rightarrow> string \<Rightarrow> int res" where
  "parse_int n name s = (case strtol s of
     None \<Rightarrow> throw (exception_msg (''Invalid input syntax for '' @ name @ '': '' @ [CHR 0x27] @ s @ [CHR 0x27]))
   | Some x \<Rightarrow> if int_null n \<le> x \<and> x \<le> int_max n then ok x else throw out_of_range)"

text \<open>The range check of a double, with the conversion that C++ defines only inside the range of the target.\<close>

definition double_in :: "nat \<Rightarrow> dbl \<Rightarrow> int res" where
  "double_in n x = (if fp_less (fp_of_int (int_max n)) x \<or> fp_less x (fp_of_int (int_min n)) then throw out_of_range
     else case fp_to_int x of
       Some i \<Rightarrow> if int_null n \<le> i \<and> i \<le> int_max n then ok i else throw (Undefined ''conversion out of range'')
     | None \<Rightarrow> throw (Undefined ''conversion of a NaN''))"

definition int_in :: "nat \<Rightarrow> int \<Rightarrow> int res" where
  "int_in n x = (if x > int_max n \<or> x < int_min n then throw out_of_range else ok x)"

subsection \<open>Casts to integers\<close>

definition cast_as_big_int :: "Value \<Rightarrow> Value res" where
  "cast_as_big_int v = (if is_coercable_from BIGINT (data_type v) \<and> is_null v then ok (get_big_int_value (int_null 8))
     else if is_coercable_from BIGINT (data_type v) then (case data_type v of
       TINYINT \<Rightarrow> res_bind (get_as_int 1 v) (\<lambda>x. ok (get_big_int_value x))
     | SMALLINT \<Rightarrow> res_bind (get_as_int 2 v) (\<lambda>x. ok (get_big_int_value x))
     | INTEGER \<Rightarrow> res_bind (get_as_int 4 v) (\<lambda>x. ok (get_big_int_value x))
     | BIGINT \<Rightarrow> res_bind (get_as_int 8 v) (\<lambda>x. ok (get_big_int_value x))
     | DECIMAL \<Rightarrow> res_bind (get_as_double v) (\<lambda>d. res_bind (double_in 8 d) (\<lambda>x. ok (get_big_int_value x)))
     | VARCHAR \<Rightarrow> res_bind (Value_to_string v) (\<lambda>s. res_bind (parse_int 8 ''bigint'' s) (\<lambda>x.
         res_bind (int_in 8 x) (\<lambda>x. ok (get_big_int_value x))))
     | _ \<Rightarrow> not_coercable v ''BIGINT'')
     else not_coercable v ''BIGINT'')"

definition cast_as_integer :: "Value \<Rightarrow> Value res" where
  "cast_as_integer v = (if is_coercable_from INTEGER (data_type v) \<and> is_null v then ok (get_integer_value (int_null 4))
     else if is_coercable_from INTEGER (data_type v) then (case data_type v of
       TINYINT \<Rightarrow> res_bind (get_as_int 1 v) (\<lambda>x. ok (get_integer_value x))
     | SMALLINT \<Rightarrow> res_bind (get_as_int 2 v) (\<lambda>x. ok (get_integer_value x))
     | INTEGER \<Rightarrow> res_bind (get_as_int 4 v) (\<lambda>x. ok (get_integer_value x))
     | BIGINT \<Rightarrow> res_bind (get_as_int 8 v) (\<lambda>x. res_bind (int_in 4 x) (\<lambda>x. ok (get_integer_value x)))
     | DECIMAL \<Rightarrow> res_bind (get_as_double v) (\<lambda>d. res_bind (double_in 4 d) (\<lambda>x. ok (get_integer_value x)))
     | VARCHAR \<Rightarrow> res_bind (Value_to_string v) (\<lambda>s. res_bind (parse_int 4 ''integer'' s) (\<lambda>x.
         res_bind (int_in 4 x) (\<lambda>x. ok (get_integer_value x))))
     | _ \<Rightarrow> not_coercable v ''INTEGER'')
     else not_coercable v ''INTEGER'')"

text \<open>The number of a string is narrowed before it is compared with the minimum.\<close>

definition cast_as_small_int :: "Value \<Rightarrow> Value res" where
  "cast_as_small_int v = (if is_coercable_from SMALLINT (data_type v) \<and> is_null v then ok (get_small_int_value (int_null 2))
     else if is_coercable_from SMALLINT (data_type v) then (case data_type v of
       TINYINT \<Rightarrow> res_bind (get_as_int 1 v) (\<lambda>x. ok (get_small_int_value x))
     | SMALLINT \<Rightarrow> res_bind (get_as_int 2 v) (\<lambda>x. ok (get_small_int_value x))
     | INTEGER \<Rightarrow> res_bind (get_as_int 4 v) (\<lambda>x. res_bind (int_in 2 x) (\<lambda>x. ok (get_small_int_value x)))
     | BIGINT \<Rightarrow> res_bind (get_as_int 8 v) (\<lambda>x. res_bind (int_in 2 x) (\<lambda>x. ok (get_small_int_value x)))
     | DECIMAL \<Rightarrow> res_bind (get_as_double v) (\<lambda>d. res_bind (double_in 2 d) (\<lambda>x. ok (get_small_int_value x)))
     | VARCHAR \<Rightarrow> res_bind (Value_to_string v) (\<lambda>s. res_bind (parse_int 4 ''smallint'' s) (\<lambda>x.
         let y = cast_int 2 x in if y < int_min 2 then throw out_of_range else ok (get_small_int_value y)))
     | _ \<Rightarrow> not_coercable v ''SMALLINT'')
     else not_coercable v ''SMALLINT'')"

definition cast_as_tiny_int :: "Value \<Rightarrow> Value res" where
  "cast_as_tiny_int v = (if is_coercable_from TINYINT (data_type v) \<and> is_null v then ok (get_tiny_int_value (int_null 1))
     else if is_coercable_from TINYINT (data_type v) then (case data_type v of
       TINYINT \<Rightarrow> res_bind (get_as_int 1 v) (\<lambda>x. ok (get_tiny_int_value x))
     | SMALLINT \<Rightarrow> res_bind (get_as_int 2 v) (\<lambda>x. res_bind (int_in 1 x) (\<lambda>x. ok (get_tiny_int_value x)))
     | INTEGER \<Rightarrow> res_bind (get_as_int 4 v) (\<lambda>x. res_bind (int_in 1 x) (\<lambda>x. ok (get_tiny_int_value x)))
     | BIGINT \<Rightarrow> res_bind (get_as_int 8 v) (\<lambda>x. res_bind (int_in 1 x) (\<lambda>x. ok (get_tiny_int_value x)))
     | DECIMAL \<Rightarrow> res_bind (get_as_double v) (\<lambda>d. res_bind (double_in 1 d) (\<lambda>x. ok (get_tiny_int_value x)))
     | VARCHAR \<Rightarrow> res_bind (Value_to_string v) (\<lambda>s. res_bind (parse_int 4 ''tinyint'' s) (\<lambda>x.
         let y = cast_int 1 x in if y < int_min 1 then throw out_of_range else ok (get_tiny_int_value y)))
     | _ \<Rightarrow> not_coercable v ''TINYINT'')
     else not_coercable v ''TINYINT'')"

subsection \<open>Casts to DECIMAL, VARCHAR and BOOLEAN\<close>

definition TURTLE_DECIMAL_MAX :: dbl where "TURTLE_DECIMAL_MAX = fp_pack False 2046 (2 ^ 52 - 1)"

text \<open>The least float, not the least double.\<close>

definition TURTLE_DECIMAL_MIN :: dbl where "TURTLE_DECIMAL_MIN = fp_pack True 1150 ((2 ^ 23 - 1) * 2 ^ 29)"

datatype stod_result = Stod_value dbl | Stod_out_of_range | Stod_invalid_argument

definition cast_as_decimal :: "(string \<Rightarrow> stod_result) \<Rightarrow> Value \<Rightarrow> Value res" where
  "cast_as_decimal stod v = (if is_coercable_from DECIMAL (data_type v) \<and> is_null v then ok (get_decimal_value TURTLE_DECIMAL_NULL)
     else if is_coercable_from DECIMAL (data_type v) then (case data_type v of
       TINYINT \<Rightarrow> res_bind (get_as_int 1 v) (\<lambda>x. ok (get_decimal_value (fp_of_int x)))
     | SMALLINT \<Rightarrow> res_bind (get_as_int 2 v) (\<lambda>x. ok (get_decimal_value (fp_of_int x)))
     | INTEGER \<Rightarrow> res_bind (get_as_int 4 v) (\<lambda>x. ok (get_decimal_value (fp_of_int x)))
     | BIGINT \<Rightarrow> res_bind (get_as_int 8 v) (\<lambda>x. ok (get_decimal_value (fp_of_int x)))
     | DECIMAL \<Rightarrow> res_bind (get_as_double v) (\<lambda>d. ok (get_decimal_value d))
     | VARCHAR \<Rightarrow> res_bind (Value_to_string v) (\<lambda>s. case stod s of
         Stod_out_of_range \<Rightarrow> throw out_of_range
       | Stod_invalid_argument \<Rightarrow> throw (exception_msg (''Invalid input syntax for decimal: '' @ [CHR 0x27] @ s @ [CHR 0x27]))
       | Stod_value d \<Rightarrow> if fp_less TURTLE_DECIMAL_MAX d \<or> fp_less d TURTLE_DECIMAL_MIN then throw out_of_range
           else ok (get_decimal_value d))
     | _ \<Rightarrow> not_coercable v ''DECIMAL'')
     else not_coercable v ''DECIMAL'')"

text \<open>\<open>get_varchar_value(const char *, bool)\<close> counts the terminating zero.\<close>

definition get_varchar_value_chars :: "u8 list option \<Rightarrow> bool \<Rightarrow> Value res" where
  "get_varchar_value_chars p manage = (case p of
     None \<Rightarrow> Value_chars VARCHAR None 0 manage
   | Some bs \<Rightarrow> Value_chars VARCHAR (Some bs) (word_of_nat (length (takeWhile (\<lambda>b. b \<noteq> 0) bs) + 1)) manage)"

definition get_varchar_value :: "u8 list \<Rightarrow> Value" where
  "get_varchar_value s = Value_string VARCHAR s"

definition cast_as_varchar :: "Value \<Rightarrow> Value res" where
  "cast_as_varchar v = (if is_coercable_from VARCHAR (data_type v) \<and> is_null v then get_varchar_value_chars None False
     else if is_coercable_from VARCHAR (data_type v) \<and> data_type v \<noteq> INVALID \<and> data_type v \<noteq> TIMESTAMP
     then res_bind (Value_to_string v) (\<lambda>s. get_varchar_value_chars (Some (bytes_of s @ [0])) False)
     else not_coercable v ''VARCHAR'')"

definition lower :: "char \<Rightarrow> char" where
  "lower c = (if 65 \<le> (of_char c :: nat) \<and> (of_char c :: nat) \<le> 90 then char_of (of_char c + 32 :: nat) else c)"

definition cast_as_boolean :: "Value \<Rightarrow> Value res" where
  "cast_as_boolean v = (if is_coercable_from BOOLEAN (data_type v) \<and> is_null v then ok (get_boolean_value (int_null 1))
     else if is_coercable_from BOOLEAN (data_type v) then (case data_type v of
       BOOLEAN \<Rightarrow> res_bind (get_as_int 1 v) (\<lambda>x. ok (get_boolean_value x))
     | VARCHAR \<Rightarrow> res_bind (Value_to_string v) (\<lambda>s. let t = map lower s in
         if t \<in> {''true'', ''1'', ''t''} then ok (get_boolean_value 1)
         else if t \<in> {''false'', ''0'', ''f''} then ok (get_boolean_value 0)
         else throw (exception_msg ''Boolean value format error.''))
     | _ \<Rightarrow> not_coercable v ''BOOLEAN'')
     else not_coercable v ''BOOLEAN'')"

subsection \<open>Casts to TIMESTAMP\<close>

definition field :: "nat \<Rightarrow> nat \<Rightarrow> string \<Rightarrow> string" where
  "field i n s = take n (drop i s)"

abbreviation timestamp_format :: error where
  "timestamp_format \<equiv> exception_msg ''Timestamp format error.''"

abbreviation timestamp_range :: error where
  "timestamp_range \<equiv> Exception OUT_OF_RANGE ''Timestamp value out of range.''"

text \<open>A text without microseconds gets six zeros.\<close>

definition with_micro :: "string \<Rightarrow> string" where
  "with_micro s = (if length s = 22 then take 19 s @ ''.000000'' @ field 19 3 s else s)"

definition separators_ok :: "string \<Rightarrow> bool" where
  "separators_ok s \<longleftrightarrow> s ! 10 = CHR '' '' \<and> s ! 4 = CHR ''-'' \<and> s ! 7 = CHR ''-'' \<and> s ! 13 = CHR '':'' \<and> s ! 16 = CHR '':'' \<and>
     s ! 19 = CHR ''.'' \<and> (s ! 26 = CHR ''+'' \<or> s ! 26 = CHR ''-'')"

definition digits_ok :: "string \<Rightarrow> bool" where
  "digits_ok s \<longleftrightarrow> list_all (\<lambda>i. i \<in> {4, 7, 10, 13, 16, 19, 26} \<or> is_digit (s ! i)) [0..<29]"

definition leap_year :: "nat \<Rightarrow> bool" where
  "leap_year year \<longleftrightarrow> year mod 4 = 0 \<and> year mod 100 \<noteq> 0 \<or> year mod 400 = 0"

definition max_day :: "nat \<Rightarrow> nat \<Rightarrow> nat" where
  "max_day year month = [0, 31, if leap_year year then 29 else 28, 31, 30, 31, 30, 31, 31, 30, 31, 30, 31] ! month"

record timestamp_fields =
  ts_year :: nat
  ts_month :: nat
  ts_day :: nat
  ts_hour :: nat
  ts_min :: nat
  ts_sec :: nat
  ts_micro :: nat
  ts_tz :: int

text \<open>The eight conversions of sscanf.\<close>

definition scan_timestamp :: "string \<Rightarrow> timestamp_fields" where
  "scan_timestamp s = \<lparr>ts_year = number (field 0 4 s), ts_month = number (field 5 2 s), ts_day = number (field 8 2 s),
     ts_hour = number (field 11 2 s), ts_min = number (field 14 2 s), ts_sec = number (field 17 2 s), ts_micro = number (field 20 6 s),
     ts_tz = (if s ! 26 = CHR ''-'' then - 1 else 1) * int (number (field 27 2 s))\<rparr>"

definition fields_ok :: "timestamp_fields \<Rightarrow> bool" where
  "fields_ok f \<longleftrightarrow> ts_year f \<le> 9999 \<and> ts_month f \<le> 12 \<and> ts_day f \<le> 31 \<and> ts_hour f \<le> 23 \<and> ts_min f \<le> 59 \<and> ts_sec f \<le> 59 \<and>
     ts_micro f \<le> 999999 \<and> ts_day f \<noteq> 0 \<and> ts_month f \<noteq> 0 \<and> ts_day f \<le> max_day (ts_year f) (ts_month f)"

text \<open>The number of a timestamp, in 64 bits; the time zone goes through a uint32_t.\<close>

definition encode_timestamp :: "timestamp_fields \<Rightarrow> u64" where
  "encode_timestamp f = (let timezone = (word_of_int (ts_tz f + 12) :: u32)
     in (((((of_nat (ts_month f) * 32 + of_nat (ts_day f)) * 27 + ucast timezone) * 10000 + of_nat (ts_year f)) * 100000
          + of_nat (ts_hour f * 3600 + ts_min f * 60 + ts_sec f)) * 1000000 + of_nat (ts_micro f)))"

definition parse_timestamp :: "string \<Rightarrow> u64 res" where
  "parse_timestamp text = (let s = with_micro text in
     if length s \<noteq> 29 \<or> \<not> separators_ok s \<or> \<not> digits_ok s then throw timestamp_format
     else let f = scan_timestamp s in
       if \<not> fields_ok f then throw timestamp_range
       else if ts_tz f > 26 then throw timestamp_format
       else ok (encode_timestamp f))"

definition cast_as_timestamp :: "Value \<Rightarrow> Value res" where
  "cast_as_timestamp v = (if is_coercable_from TIMESTAMP (data_type v) \<and> is_null v then ok (get_timestamp_value (sint TURTLE_TIMESTAMP_NULL))
     else if is_coercable_from TIMESTAMP (data_type v) then (case data_type v of
       TIMESTAMP \<Rightarrow> res_bind (get_as_uint64 v) (\<lambda>w. ok (get_timestamp_value (sint w)))
     | VARCHAR \<Rightarrow> res_bind (Value_to_string v) (\<lambda>s. res_bind (parse_timestamp s) (\<lambda>w. ok (get_timestamp_value (sint w))))
     | _ \<Rightarrow> not_coercable v ''TIMESTAMP'')
     else not_coercable v ''TIMESTAMP'')"

definition factory_cast_as :: "(string \<Rightarrow> stod_result) \<Rightarrow> Value \<Rightarrow> DataType \<Rightarrow> Value res" where
  "factory_cast_as stod v t = (case t of
     BOOLEAN \<Rightarrow> cast_as_boolean v
   | TINYINT \<Rightarrow> cast_as_tiny_int v
   | SMALLINT \<Rightarrow> cast_as_small_int v
   | INTEGER \<Rightarrow> cast_as_integer v
   | BIGINT \<Rightarrow> cast_as_big_int v
   | DECIMAL \<Rightarrow> cast_as_decimal stod v
   | VARCHAR \<Rightarrow> cast_as_varchar v
   | TIMESTAMP \<Rightarrow> cast_as_timestamp v
   | INVALID \<Rightarrow> throw (Exception UNKNOWN_TYPE ''Unsupported target data type for dynamic cast.''))"

subsection \<open>Everything but TIMESTAMP is refused\<close>

lemmas factory_casts = cast_as_boolean_def cast_as_tiny_int_def cast_as_small_int_def cast_as_integer_def cast_as_big_int_def
  cast_as_decimal_def cast_as_varchar_def

lemma not_coercable_throws: "\<exists>e. not_coercable v name = throw e"
  by (cases "Value_to_string v") (simp_all add: not_coercable_def)

text \<open>
  ValueFactory::cast_as converts to TIMESTAMP only: with any other target type it throws for every value, also for a value that
  already has that type, because only TimestampType says what it is coercable from. The parsers of numbers and truth
  values behind these casts are never reached.
\<close>

theorem factory_cast_refuses:
  assumes "t \<noteq> TIMESTAMP"
  shows "\<exists>e. factory_cast_as stod v t = throw e \<and>
    (t \<noteq> INVALID \<longrightarrow> (\<forall>s. Value_to_string v = ok s \<longrightarrow> e = exception_msg (s @ '' is not coercable to '' @ data_type_to_string t @ ''.'')))"
  using not_coercable_throws [of v "data_type_to_string t"] assms
  by (cases t) (auto simp: factory_cast_as_def factory_casts is_coercable_from_def not_coercable_def)

lemma factory_cast_refuses_witness:
  "factory_cast_as (\<lambda>_. Stod_invalid_argument) (Value_int32 INTEGER 7) BIGINT = throw (exception_msg ''7 is not coercable to BIGINT.'')"
proof -
  have "Value_to_string (Value_int32 INTEGER 7) = ok ''7''" by code_simp
  then show ?thesis using factory_cast_refuses [of BIGINT "\<lambda>_. Stod_invalid_argument" "Value_int32 INTEGER 7"] by auto
qed

subsection \<open>Digits\<close>

lemma number_snoc: "number (cs @ [c]) = 10 * number cs + digit_value c"
  by (simp add: number_def)

lemma number_bound: "list_all is_digit cs \<Longrightarrow> number cs < 10 ^ length cs"
proof (induction cs rule: rev_induct)
  case (snoc c cs)
  then have "digit_value c < 10" "number cs < 10 ^ length cs" by (auto simp: is_digit_def digit_value_def)
  then show ?case by (simp add: number_snoc)
qed (simp add: number_def)

lemma digit_char_value: "is_digit c \<Longrightarrow> digit_char (int (digit_value c)) = c"
proof -
  assume d: "is_digit c"
  then have "48 + int (digit_value c) = int (of_char c)" by (simp add: is_digit_def digit_value_def)
  also have "\<dots> = of_char c" by (simp only: of_nat_of_char)
  finally have "48 + int (digit_value c) = of_char c" .
  then show ?thesis by (simp add: digit_char_def)
qed

lemma zero_padded_snoc:
  assumes "0 \<le> x" and "0 \<le> d" and "d < 10" and "0 < k"
  shows "zero_padded (Suc k) (10 * x + d) = zero_padded k x @ [digit_char d]"
proof (cases "x = 0")
  case True
  have "digit_char 0 = CHR ''0''" by code_simp
  then show ?thesis using assms True
    by (simp add: zero_padded_def digits.simps [of d] digits.simps [of 0]) (cases k; simp add: replicate_append_same)
next
  case False
  then have "digits (10 * x + d) = digits x @ [digit_char d]"
    using assms by (subst digits.simps) simp
  then show ?thesis by (simp add: zero_padded_def)
qed

lemma zero_padded_number:
  assumes "list_all is_digit cs" and "cs \<noteq> []"
  shows "zero_padded (length cs) (int (number cs)) = cs"
  using assms
proof (induction cs rule: rev_induct)
  case (snoc c cs)
  have ds: "is_digit c" "list_all is_digit cs" using snoc.prems by auto
  then have d: "digit_value c < 10" "is_digit c" "list_all is_digit cs" by (auto simp: is_digit_def digit_value_def)
  show ?case
  proof (cases "cs = []")
    case True
    then show ?thesis using d digit_char_value [OF d(2)]
      by (simp add: number_def zero_padded_def digits.simps [of "int (digit_value c)"])
  next
    case False
    have "int (number (cs @ [c])) = 10 * int (number cs) + int (digit_value c)" by (simp add: number_snoc)
    then show ?thesis
      using zero_padded_snoc [of "int (number cs)" "int (digit_value c)" "length cs"] snoc.IH d False digit_char_value [OF d(2)]
      by simp
  qed
qed simp

subsection \<open>Texts and numbers of timestamps\<close>

definition well_formed :: "string \<Rightarrow> bool" where
  "well_formed s \<longleftrightarrow> length s = 29 \<and> separators_ok s \<and> digits_ok s"

lemma drop_field: "i + n < length s \<Longrightarrow> drop i s = field i n s @ s ! (i + n) # drop (Suc (i + n)) s"
  by (metis Cons_nth_drop_Suc add.commute append_take_drop_id drop_drop field_def)

lemma text_of_fields:
  assumes "well_formed s"
  shows "s = field 0 4 s @ ''-'' @ field 5 2 s @ ''-'' @ field 8 2 s @ '' '' @ field 11 2 s @ '':'' @ field 14 2 s @ '':'' @
    field 17 2 s @ ''.'' @ field 20 6 s @ [s ! 26] @ field 27 2 s"
proof -
  have len: "length s = 29" and sep: "s ! 10 = CHR '' ''" "s ! 4 = CHR ''-''" "s ! 7 = CHR ''-''" "s ! 13 = CHR '':''"
    "s ! 16 = CHR '':''" "s ! 19 = CHR ''.''" using assms by (simp_all add: well_formed_def separators_ok_def)
  have "s = drop 0 s" by simp
  also have "\<dots> = field 0 4 s @ ''-'' @ drop 5 s" using drop_field [of 0 4 s] len sep by simp
  also have "drop 5 s = field 5 2 s @ ''-'' @ drop 8 s" using drop_field [of 5 2 s] len sep by simp
  also have "drop 8 s = field 8 2 s @ '' '' @ drop 11 s" using drop_field [of 8 2 s] len sep by simp
  also have "drop 11 s = field 11 2 s @ '':'' @ drop 14 s" using drop_field [of 11 2 s] len sep by simp
  also have "drop 14 s = field 14 2 s @ '':'' @ drop 17 s" using drop_field [of 14 2 s] len sep by simp
  also have "drop 17 s = field 17 2 s @ ''.'' @ drop 20 s" using drop_field [of 17 2 s] len sep by simp
  also have "drop 20 s = field 20 6 s @ [s ! 26] @ drop 27 s" using drop_field [of 20 6 s] len by simp
  also have "drop 27 s = field 27 2 s" using len by (simp add: field_def)
  finally show ?thesis by simp
qed

lemma field_digits:
  assumes "well_formed s" and "(i, n) \<in> {(0, 4), (5, 2), (8, 2), (11, 2), (14, 2), (17, 2), (20, 6), (27, 2)}"
  shows "list_all is_digit (field i n s)" and "length (field i n s) = n" and "zero_padded n (int (number (field i n s))) = field i n s"
    and "number (field i n s) < 10 ^ n"
proof -
  have len: "length s = 29" and d: "\<And>j. j < 29 \<Longrightarrow> j \<notin> {4, 7, 10, 13, 16, 19, 26} \<Longrightarrow> is_digit (s ! j)"
    using assms(1) by (auto simp: well_formed_def digits_ok_def list_all_iff)
  show l: "length (field i n s) = n" using assms(2) len by (auto simp: field_def)
  have "field i n s ! k = s ! (i + k)" "i + k < 29" "i + k \<notin> {4, 7, 10, 13, 16, 19, 26}" if "k < n" for k
    using assms(2) len that by (auto simp: field_def)
  then show D: "list_all is_digit (field i n s)" using l d by (simp add: list_all_length)
  have "field i n s \<noteq> []" using l assms(2) by auto
  from zero_padded_number [OF D this] show "zero_padded n (int (number (field i n s))) = field i n s" by (simp add: l)
  show "number (field i n s) < 10 ^ n" using number_bound [OF D] by (simp add: l)
qed

text \<open>The number of a timestamp as an integer; its fields can be read back while the time zone is in range.\<close>

definition ts_number :: "timestamp_fields \<Rightarrow> int" where
  "ts_number f = ((((int (ts_month f) * 32 + int (ts_day f)) * 27 + (ts_tz f + 12)) * 10000 + int (ts_year f)) * 100000 +
     int (ts_hour f * 3600 + ts_min f * 60 + ts_sec f)) * 1000000 + int (ts_micro f)"

definition zone_ok :: "timestamp_fields \<Rightarrow> bool" where
  "zone_ok f \<longleftrightarrow> - 12 \<le> ts_tz f \<and> ts_tz f \<le> 14"

lemma mixed_radix_bound:
  fixes a b n m :: int
  assumes "0 \<le> a" and "a \<le> m" and "0 \<le> b" and "b < n"
  shows "0 \<le> a * n + b" and "a * n + b \<le> (m + 1) * n - 1"
proof -
  show "0 \<le> a * n + b" using assms by simp
  have "a * n \<le> m * n" using assms by (intro mult_right_mono) simp_all
  then show "a * n + b \<le> (m + 1) * n - 1" using assms(4) by (simp add: distrib_right)
qed

lemma ts_number_bounds:
  assumes "fields_ok f" and "zone_ok f"
  shows "0 \<le> ts_number f" and "ts_number f < 2 ^ 64"
proof -
  note F = assms [unfolded fields_ok_def zone_ok_def]
  let ?S = "int (ts_hour f * 3600 + ts_min f * 60 + ts_sec f)" and ?Y = "int (ts_year f)" and ?Z = "ts_tz f + 12" and ?D = "int (ts_day f)" and ?M = "int (ts_month f)"
  let ?d = "?M * 32 + ?D" let ?z = "?d * 27 + ?Z" let ?y = "?z * 10000 + ?Y" let ?s = "?y * 100000 + ?S"
  have d: "0 \<le> ?d" "?d \<le> 415" using F by auto
  have z: "0 \<le> ?z" "?z \<le> 11231" using mixed_radix_bound [OF d, of ?Z 27] F by simp_all
  have y: "0 \<le> ?y" "?y \<le> 112319999" using mixed_radix_bound [OF z, of ?Y 10000] F by simp_all
  have s: "0 \<le> ?s" "?s \<le> 11231999999999" using mixed_radix_bound [OF y, of ?S 100000] F by simp_all
  show "0 \<le> ts_number f" "ts_number f < 2 ^ 64"
    using mixed_radix_bound [OF s, of "int (ts_micro f)" 1000000] F by (simp_all add: ts_number_def)
qed

lemma uint_encode:
  assumes "fields_ok f" and "zone_ok f"
  shows "uint (encode_timestamp f) = ts_number f"
proof -
  define z where "z = ts_tz f + 12"
  have "take_bit 32 z = z"
    using assms(2) by (intro take_bit_int_eq_self) (auto simp: zone_ok_def z_def)
  moreover have "0 \<le> z" using assms(2) by (simp add: zone_ok_def z_def)
  ultimately have "(ucast (word_of_int z :: u32) :: u64) = word_of_int z" by (simp add: unsigned_of_int)
  then have "encode_timestamp f = word_of_int (ts_number f)"
    by (simp add: encode_timestamp_def ts_number_def Let_def flip: z_def)
  then show ?thesis using ts_number_bounds [OF assms] by (simp add: uint_word_of_int_eq take_bit_int_eq_self)
qed

lemma split_last:
  fixes a b n :: int
  assumes "0 \<le> b" and "b < n"
  shows "(a * n + b) mod n = b" and "(a * n + b) div n = a"
  using assms by simp_all

text \<open>What \<open>to_string\<close> computes from the number.\<close>

lemma ts_number_fields:
  assumes "fields_ok f" and "zone_ok f"
  defines "tm \<equiv> ts_number f"
  shows "tm mod 1000000 = int (ts_micro f)" and "tm div 1000000 mod 100000 mod 60 = int (ts_sec f)"
    and "tm div 1000000 mod 100000 div 60 mod 60 = int (ts_min f)" and "tm div 1000000 mod 100000 div 60 div 60 mod 24 = int (ts_hour f)"
    and "tm div 1000000 div 100000 mod 10000 = int (ts_year f)" and "tm div 1000000 div 100000 div 10000 mod 27 - 12 = ts_tz f"
    and "tm div 1000000 div 100000 div 10000 div 27 mod 32 = int (ts_day f)"
    and "take_bit 16 (tm div 1000000 div 100000 div 10000 div 27 div 32) = int (ts_month f)"
proof -
  note F = assms(1,2) [unfolded fields_ok_def zone_ok_def]
  let ?S = "int (ts_hour f * 3600 + ts_min f * 60 + ts_sec f)" and ?Y = "int (ts_year f)" and ?Z = "ts_tz f + 12" and ?D = "int (ts_day f)" and ?M = "int (ts_month f)"
  let ?d = "?M * 32 + ?D" let ?z = "?d * 27 + ?Z" let ?y = "?z * 10000 + ?Y" let ?s = "?y * 100000 + ?S"
  have "tm = ?s * 1000000 + int (ts_micro f)" by (simp add: tm_def ts_number_def)
  then have 1: "tm mod 1000000 = int (ts_micro f)" "tm div 1000000 = ?s" using split_last [of "int (ts_micro f)" 1000000 ?s] F by simp_all
  have 2: "?s mod 100000 = ?S" "?s div 100000 = ?y" using split_last [of ?S 100000 ?y] F by simp_all
  have 3: "?y mod 10000 = ?Y" "?y div 10000 = ?z" using split_last [of ?Y 10000 ?z] F by simp_all
  have 4: "?z mod 27 = ?Z" "?z div 27 = ?d" using split_last [of ?Z 27 ?d] F by simp_all
  have 5: "?d mod 32 = ?D" "?d div 32 = ?M" using split_last [of ?D 32 ?M] F by simp_all
  have S: "?S = (int (ts_hour f) * 60 + int (ts_min f)) * 60 + int (ts_sec f)" by simp
  have 6: "?S mod 60 = int (ts_sec f)" "?S div 60 = int (ts_hour f) * 60 + int (ts_min f)"
    unfolding S using split_last [of "int (ts_sec f)" 60 "int (ts_hour f) * 60 + int (ts_min f)"] F by auto
  have 7: "(int (ts_hour f) * 60 + int (ts_min f)) mod 60 = int (ts_min f)" "(int (ts_hour f) * 60 + int (ts_min f)) div 60 = int (ts_hour f)"
    using split_last [of "int (ts_min f)" 60 "int (ts_hour f)"] F by simp_all
  have 8: "int (ts_hour f) mod 24 = int (ts_hour f)" "take_bit 16 ?M = ?M" using F by (simp_all add: take_bit_int_eq_self)
  note all = 1 2 3 4 5 6 7 8
  show "tm mod 1000000 = int (ts_micro f)" by (rule 1)
  show "tm div 1000000 mod 100000 mod 60 = int (ts_sec f)" by (simp only: all)
  show "tm div 1000000 mod 100000 div 60 mod 60 = int (ts_min f)" by (simp only: all)
  show "tm div 1000000 mod 100000 div 60 div 60 mod 24 = int (ts_hour f)" by (simp only: all)
  show "tm div 1000000 div 100000 mod 10000 = int (ts_year f)" by (simp only: all)
  show "tm div 1000000 div 100000 div 10000 mod 27 - 12 = ts_tz f" by (simp only: all)
  show "tm div 1000000 div 100000 div 10000 div 27 mod 32 = int (ts_day f)" by (simp only: all)
  show "take_bit 16 (tm div 1000000 div 100000 div 10000 div 27 div 32) = int (ts_month f)" by (simp only: all)
qed

subsection \<open>From text to timestamp and back\<close>

lemma length_bytes_of: "length (bytes_of s) = length s"
  by (simp add: bytes_of_def)

lemma length_not_null: "n < 2 ^ 32 - 1 \<Longrightarrow> (word_of_nat n :: u32) \<noteq> TURTLE_VALUE_NULL"
proof
  assume n: "n < 2 ^ 32 - 1" and eq: "(word_of_nat n :: u32) = TURTLE_VALUE_NULL"
  have "unat (word_of_nat n :: u32) = n" using n by (simp add: unat_of_nat)
  moreover have "unat TURTLE_VALUE_NULL = 2 ^ 32 - 1" by (simp add: TURTLE_VALUE_NULL_def unsigned_minus_1_eq_mask mask_eq_exp_minus_1)
  ultimately show False using n eq by simp
qed

lemma text_value:
  assumes "length s < 2 ^ 32 - 1"
  shows "Value_to_string (get_varchar_value (bytes_of s)) = ok s"
  using length_not_null [OF assms] assms
  by (simp add: get_varchar_value_def Value_string_def Value_to_string_def Value_to_string_as_def varchar_to_string_def is_null_def
      varchar_string_def varchar_chars_def varchar_get_storage_size_def unat_of_nat length_bytes_of string_of_bytes_of)

definition valid_timestamp :: "string \<Rightarrow> bool" where
  "valid_timestamp s \<longleftrightarrow> (let f = scan_timestamp (with_micro s) in well_formed (with_micro s) \<and> fields_ok f \<and> zone_ok f)"

definition timestamp_number :: "string \<Rightarrow> int" where
  "timestamp_number s = ts_number (scan_timestamp (with_micro s))"

text \<open>The text with its microseconds, and with a plus sign if the time zone is zero.\<close>

definition canonical :: "string \<Rightarrow> string" where
  "canonical s = (let t = with_micro s in take 26 t @ (if drop 26 t = ''-00'' then ''+00'' else drop 26 t))"

lemma cast_timestamp_text:
  assumes "valid_timestamp s"
  obtains w :: u64 where "cast_as_timestamp (get_varchar_value (bytes_of s)) = ok (get_timestamp_value (sint w))" and "uint w = timestamp_number s"
proof (rule that)
  let ?f = "scan_timestamp (with_micro s)"
  have v: "well_formed (with_micro s)" "fields_ok ?f" "zone_ok ?f" using assms by (simp_all add: valid_timestamp_def Let_def)
  have len: "length s < 30" using v(1) by (auto simp: well_formed_def with_micro_def split: if_splits)
  have "\<not> is_null (get_varchar_value (bytes_of s))"
    using length_not_null [of "length s"] len by (simp add: get_varchar_value_def Value_string_def is_null_def length_bytes_of)
  moreover have "data_type (get_varchar_value (bytes_of s)) = VARCHAR" by (simp add: get_varchar_value_def)
  moreover have "parse_timestamp s = ok (encode_timestamp ?f)"
    using v by (simp add: parse_timestamp_def Let_def well_formed_def zone_ok_def)
  ultimately show "cast_as_timestamp (get_varchar_value (bytes_of s)) = ok (get_timestamp_value (sint (encode_timestamp ?f)))"
    using text_value [of s] len by (simp add: cast_as_timestamp_def is_coercable_from_def)
  show "uint (encode_timestamp ?f) = timestamp_number s" using uint_encode [OF v(2,3)] by (simp add: timestamp_number_def)
qed

lemma get_timestamp_facts:
  fixes w :: u64
  shows "data_type (get_timestamp_value (sint w)) = TIMESTAMP" and "init (get_timestamp_value (sint w)) = 8"
    and "get_as_uint64 (get_timestamp_value (sint w)) = ok w" and "is_null (get_timestamp_value (sint w)) \<longleftrightarrow> uint w = 2 ^ 63"
proof -
  show "data_type (get_timestamp_value (sint w)) = TIMESTAMP" "init (get_timestamp_value (sint w)) = 8"
    by (simp_all add: get_timestamp_value_def Value_int64_def)
  have "word_of_int (take_bit 64 (sint w)) = w" using word_of_int_uint [of w] by (simp add: uint_sint)
  then show "get_as_uint64 (get_timestamp_value (sint w)) = ok w"
    by (simp add: get_as_uint64_def get_timestamp_value_def Value_int64_def Value_int_def)
  have "sint w = sint (9223372036854775808 :: u64) \<longleftrightarrow> uint w = uint (9223372036854775808 :: u64)" by (metis signed_word_eqI unsigned_word_eqI)
  then have "sint w = - (2 ^ 63) \<longleftrightarrow> uint w = 2 ^ 63" by simp
  then show "is_null (get_timestamp_value (sint w)) \<longleftrightarrow> uint w = 2 ^ 63"
    by (simp add: get_timestamp_value_def Value_int64_def int_null_def)
qed

lemma month_bound: "fields_ok f \<Longrightarrow> ts_month f \<le> 12" "fields_ok f \<Longrightarrow> ts_year f \<le> 9999"
  by (simp_all add: fields_ok_def)

lemma with_fields:
  assumes "well_formed t"
  defines "f \<equiv> scan_timestamp t"
  shows "zero_padded 4 (int (ts_year f)) = field 0 4 t" and "zero_padded 2 (int (ts_month f)) = field 5 2 t"
    and "zero_padded 2 (int (ts_day f)) = field 8 2 t" and "zero_padded 2 (int (ts_hour f)) = field 11 2 t"
    and "zero_padded 2 (int (ts_min f)) = field 14 2 t" and "zero_padded 2 (int (ts_sec f)) = field 17 2 t"
    and "zero_padded 6 (int (ts_micro f)) = field 20 6 t" and "zero_padded 2 \<bar>ts_tz f\<bar> = field 27 2 t"
    and "(if 0 \<le> ts_tz f then ''+'' else ''-'') @ field 27 2 t = (if drop 26 t = ''-00'' then ''+00'' else drop 26 t)"
proof -
  show "zero_padded 4 (int (ts_year f)) = field 0 4 t" "zero_padded 2 (int (ts_month f)) = field 5 2 t"
    "zero_padded 2 (int (ts_day f)) = field 8 2 t" "zero_padded 2 (int (ts_hour f)) = field 11 2 t"
    "zero_padded 2 (int (ts_min f)) = field 14 2 t" "zero_padded 2 (int (ts_sec f)) = field 17 2 t"
    "zero_padded 6 (int (ts_micro f)) = field 20 6 t" 
    by (simp_all add: f_def scan_timestamp_def field_digits(3) [OF assms(1)])
  show z: "zero_padded 2 \<bar>ts_tz f\<bar> = field 27 2 t"
    by (simp add: f_def scan_timestamp_def field_digits(3) [OF assms(1)] abs_mult)
  have d: "drop 26 t = t ! 26 # field 27 2 t" using assms(1) drop_field [of 26 0 t]
    by (simp add: well_formed_def field_def)
  have s: "t ! 26 = CHR ''+'' \<or> t ! 26 = CHR ''-''" using assms(1) by (simp add: well_formed_def separators_ok_def)
  have "number (field 27 2 t) = 0 \<longleftrightarrow> field 27 2 t = ''00''"
  proof
    assume "number (field 27 2 t) = 0"
    moreover have "zero_padded 2 0 = ''00''" by code_simp
    ultimately show "field 27 2 t = ''00''" using field_digits(3) [OF assms(1), of 27 2] by simp
  next
    show "number (field 27 2 t) = 0" if "field 27 2 t = ''00''" unfolding that by code_simp
  qed
  then show "(if 0 \<le> ts_tz f then ''+'' else ''-'') @ field 27 2 t = (if drop 26 t = ''-00'' then ''+00'' else drop 26 t)"
    using s d by (auto simp: f_def scan_timestamp_def)
qed

lemma take_same: "length b = n \<Longrightarrow> t = b @ c \<Longrightarrow> take n b = take n t"
  by simp

lemma timestamp_text:
  fixes w :: u64
  assumes "valid_timestamp s" and "uint w = timestamp_number s" and "uint w \<noteq> 2 ^ 63"
  shows "Value_to_string (get_timestamp_value (sint w)) = ok (canonical s)"
proof -
  let ?t = "with_micro s" let ?f = "scan_timestamp ?t"
  have v: "well_formed ?t" "fields_ok ?f" "zone_ok ?f" using assms(1) by (simp_all add: valid_timestamp_def Let_def)
  have w: "uint w = ts_number ?f" using assms(2) by (simp add: timestamp_number_def)
  have len: "length ?t = 29" using v(1) by (simp add: well_formed_def)
  let ?b = "field 0 4 ?t @ ''-'' @ field 5 2 ?t @ ''-'' @ field 8 2 ?t @ '' '' @ field 11 2 ?t @ '':'' @ field 14 2 ?t @ '':'' @
    field 17 2 ?t @ ''.'' @ field 20 6 ?t"
  have "length ?b = 26" using len by (simp add: field_def)
  moreover have "?t = ?b @ [?t ! 26] @ field 27 2 ?t" using text_of_fields [OF v(1)] by simp
  ultimately have b: "take 26 ?b = take 26 ?t" by (rule take_same)
  have "Value_to_string (get_timestamp_value (sint w)) = timestamp_to_string (get_timestamp_value (sint w))"
    by (simp add: Value_to_string_def Value_to_string_as_def get_timestamp_facts(1))
  also have "\<dots> = ok (take 26 ?b @ (if 0 \<le> ts_tz ?f then ''+'' else ''-'') @ field 27 2 ?t)"
    using assms(3) by (simp only: timestamp_to_string_def get_timestamp_facts res_bind_Inr Let_def if_False w ts_number_fields [OF v(2,3)] with_fields(1-8) [OF v(1)])
  also have "\<dots> = ok (canonical s)" by (simp only: with_fields(9) [OF v(1)] b canonical_def Let_def)
  finally show ?thesis .
qed

lemmas timestamp_evaluation = valid_timestamp_def well_formed_def with_micro_def separators_ok_def canonical_def field_def
  scan_timestamp_def number_def digit_value_def fields_ok_def zone_ok_def max_day_def leap_year_def timestamp_number_def ts_number_def

text \<open>
  C24. For a VARCHAR value with the text of a date, a time of day and a time zone from -12 to 14 (microseconds are optional), ValueFactory's cast to TIMESTAMP
  succeeds, and the timestamp prints the same text, with its microseconds and with a zero time zone as +00. One number
  is lost: the timestamp that is encoded as 2 to the 63 is taken for the NULL value.
\<close>

theorem timestamp_roundtrip:
  assumes "valid_timestamp s"
  shows "\<exists>t. factory_cast_as stod (get_varchar_value (bytes_of s)) TIMESTAMP = ok t \<and> data_type t = TIMESTAMP \<and>
    (if timestamp_number s = 2 ^ 63 then is_null t else Value_to_string t = ok (canonical s))"
proof -
  obtain w :: u64 where w: "cast_as_timestamp (get_varchar_value (bytes_of s)) = ok (get_timestamp_value (sint w))" "uint w = timestamp_number s"
    using cast_timestamp_text [OF assms] .
  then show ?thesis using timestamp_text [OF assms w(2)] get_timestamp_facts [of w]
    by (intro exI [of _ "get_timestamp_value (sint w)"]) (simp add: factory_cast_as_def)
qed

lemma timestamp_roundtrip_witness:
  "\<exists>t. factory_cast_as (\<lambda>_. Stod_invalid_argument) (get_varchar_value (bytes_of ''2024-02-29 23:59:58-07'')) TIMESTAMP = ok t \<and>
    Value_to_string t = ok ''2024-02-29 23:59:58.000000-07''"
proof -
  have digits: "digits_ok ''2024-02-29 23:59:58.000000-07''" by code_simp
  have "valid_timestamp ''2024-02-29 23:59:58-07''" "timestamp_number ''2024-02-29 23:59:58-07'' \<noteq> 2 ^ 63"
    "canonical ''2024-02-29 23:59:58-07'' = ''2024-02-29 23:59:58.000000-07''"
    using digits by (simp_all add: timestamp_evaluation)
  then show ?thesis
    using timestamp_roundtrip [of "''2024-02-29 23:59:58-07''" "\<lambda>_. Stod_invalid_argument"] by auto
qed

subsection \<open>The order of timestamps\<close>

text \<open>The fields in the order of their weights.\<close>

definition timestamp_key :: "string \<Rightarrow> int list" where
  "timestamp_key s = (let f = scan_timestamp (with_micro s) in
     [int (ts_month f), int (ts_day f), ts_tz f, int (ts_year f), int (ts_hour f * 3600 + ts_min f * 60 + ts_sec f), int (ts_micro f)])"

lemma mixed_radix_less:
  fixes a a' b b' n :: int
  assumes "0 \<le> b" and "b < n" and "0 \<le> b'" and "b' < n"
  shows "a * n + b < a' * n + b' \<longleftrightarrow> a < a' \<or> a = a' \<and> b < b'"
proof -
  have "a * n + b < a' * n + b'" if "a < a'"
  proof -
    have "(a + 1) * n \<le> a' * n" using that assms by (intro mult_right_mono) simp_all
    then show ?thesis using assms by (simp add: distrib_right)
  qed
  moreover have "a' * n + b' < a * n + b" if "a' < a"
  proof -
    have "(a' + 1) * n \<le> a * n" using that assms by (intro mult_right_mono) simp_all
    then show ?thesis using assms by (simp add: distrib_right)
  qed
  ultimately show ?thesis by (cases a a' rule: linorder_cases) auto
qed

lemma timestamp_number_less:
  assumes "valid_timestamp s" and "valid_timestamp t"
  shows "timestamp_number s < timestamp_number t \<longleftrightarrow> timestamp_key s < timestamp_key t"
proof -
  let ?f = "scan_timestamp (with_micro s)" and ?g = "scan_timestamp (with_micro t)"
  have F: "fields_ok ?f" "zone_ok ?f" "fields_ok ?g" "zone_ok ?g" using assms by (simp_all add: valid_timestamp_def Let_def)
  have B: "0 \<le> int (ts_micro f) \<and> int (ts_micro f) < 1000000" "0 \<le> int (ts_hour f * 3600 + ts_min f * 60 + ts_sec f) \<and>
      int (ts_hour f * 3600 + ts_min f * 60 + ts_sec f) < 100000" "0 \<le> int (ts_year f) \<and> int (ts_year f) < 10000"
      "0 \<le> ts_tz f + 12 \<and> ts_tz f + 12 < 27" "0 \<le> int (ts_day f) \<and> int (ts_day f) < 32" if "fields_ok f" "zone_ok f" for f
    using that [unfolded fields_ok_def zone_ok_def] by simp_all
  note f = B [OF F(1,2)] note g = B [OF F(3,4)]
  show ?thesis
    unfolding timestamp_number_def timestamp_key_def Let_def ts_number_def Cons_less_Cons
    using f g by (simp only: mixed_radix_less) auto
qed

lemma sint_of_uint:
  fixes w :: u64
  shows "sint w = (if uint w < 2 ^ 63 then uint w else uint w - 2 ^ 64)"
proof -
  have u: "0 \<le> uint w" "uint w < 2 ^ 64" using uint_bounded [of w] by simp_all
  have "bit (uint w) 63 \<longleftrightarrow> \<not> uint w < 2 ^ 63"
  proof (cases "uint w < 2 ^ 63")
    case False
    then have "uint w div 2 ^ 63 = 1" using u by (intro int_div_pos_eq [of _ _ _ "uint w - 2 ^ 63"]) simp_all
    then show ?thesis using False by (simp add: bit_iff_odd)
  qed (use u in \<open>simp add: bit_iff_odd\<close>)
  then show ?thesis using u by (simp add: sint_uint signed_take_bit_eq_take_bit_minus take_bit_int_eq_self)
qed

lemma compare_timestamps:
  fixes w z :: u64
  assumes "uint w \<noteq> 2 ^ 63" and "uint z \<noteq> 2 ^ 63"
  shows "Value_compare LT (get_timestamp_value (sint w)) (get_timestamp_value (sint z)) = ok (get_cmp_bool (uint w < uint z))"
    and "Value_compare GT (get_timestamp_value (sint w)) (get_timestamp_value (sint z)) = ok (get_cmp_bool (sint z < sint w))"
proof -
  have i: "get_as_int 8 (get_timestamp_value (sint v)) = ok (sint v)" for v :: u64
  proof -
    have "raw (get_timestamp_value (sint v)) = v"
      using get_timestamp_facts(3) [of v] by (simp add: get_as_uint64_def get_timestamp_facts(2))
    then have "get_as_int 8 (get_timestamp_value (sint v)) = ok (signed_take_bit 63 (uint v))"
      by (simp add: get_as_int_def get_timestamp_facts(2))
    then show ?thesis by (simp add: sint_uint)
  qed
  show "Value_compare LT (get_timestamp_value (sint w)) (get_timestamp_value (sint z)) = ok (get_cmp_bool (uint w < uint z))"
    using assms by (simp add: Value_compare_def timestamp_compare_def get_timestamp_facts check_comparable_def word_less_def)
  show "Value_compare GT (get_timestamp_value (sint w)) (get_timestamp_value (sint z)) = ok (get_cmp_bool (sint z < sint w))"
    using assms by (simp add: Value_compare_def timestamp_compare_def get_timestamp_facts check_comparable_def i)
qed

text \<open>
  C35. Two timestamps are compared field by field in the order month, day, time zone, year, time of day: a day of January
  is less than a day of February of any year. The greater-than operator reads the numbers as signed: a number from 2 to the
  63 on (late October to December) is not greater than any number below it, so that there greater-than and less-than are both
  true, or both false, of different timestamps.
\<close>

theorem timestamp_order:
  assumes "valid_timestamp s" and "valid_timestamp t" and "timestamp_number s \<noteq> 2 ^ 63" and "timestamp_number t \<noteq> 2 ^ 63"
  shows "\<exists>v w. cast_as_timestamp (get_varchar_value (bytes_of s)) = ok v \<and> cast_as_timestamp (get_varchar_value (bytes_of t)) = ok w \<and>
    Value_compare LT v w = ok (get_cmp_bool (timestamp_key s < timestamp_key t)) \<and>
    Value_compare GT v w = ok (get_cmp_bool (if timestamp_number s < 2 ^ 63 \<longleftrightarrow> timestamp_number t < 2 ^ 63
      then timestamp_key t < timestamp_key s else timestamp_key s < timestamp_key t))"
proof -
  obtain x :: u64 where x: "cast_as_timestamp (get_varchar_value (bytes_of s)) = ok (get_timestamp_value (sint x))" "uint x = timestamp_number s"
    using cast_timestamp_text [OF assms(1)] .
  obtain y :: u64 where y: "cast_as_timestamp (get_varchar_value (bytes_of t)) = ok (get_timestamp_value (sint y))" "uint y = timestamp_number t"
    using cast_timestamp_text [OF assms(2)] .
  note less = timestamp_number_less [OF assms(1,2)] timestamp_number_less [OF assms(2,1)]
  have "0 \<le> timestamp_number s" "timestamp_number s < 2 ^ 64" "0 \<le> timestamp_number t" "timestamp_number t < 2 ^ 64"
    using uint_nonnegative [of x] uint_nonnegative [of y] uint_bounded [of x] uint_bounded [of y] by (simp_all only: x(2) y(2)) simp_all
  then have "sint y < sint x \<longleftrightarrow> (if timestamp_number s < 2 ^ 63 \<longleftrightarrow> timestamp_number t < 2 ^ 63
      then timestamp_key t < timestamp_key s else timestamp_key s < timestamp_key t)"
    by (auto simp: sint_of_uint x y simp flip: less)
  then show ?thesis using x y compare_timestamps [of x y] assms(3,4) less by auto
qed

lemma timestamp_order_witness:
  "\<exists>v w. cast_as_timestamp (get_varchar_value (bytes_of ''2024-12-31 23:59:59+00'')) = ok v \<and>
    cast_as_timestamp (get_varchar_value (bytes_of ''2025-01-01 00:00:00+00'')) = ok w \<and>
    Value_compare LT v w = ok CmpFalse \<and> Value_compare GT v w = ok CmpFalse"
proof -
  have digits: "digits_ok ''2024-12-31 23:59:59.000000+00''" "digits_ok ''2025-01-01 00:00:00.000000+00''" by code_simp+
  have "valid_timestamp ''2024-12-31 23:59:59+00''" "valid_timestamp ''2025-01-01 00:00:00+00''"
    "timestamp_number ''2024-12-31 23:59:59+00'' > 2 ^ 63" "timestamp_number ''2025-01-01 00:00:00+00'' < 2 ^ 63"
    "\<not> timestamp_key ''2024-12-31 23:59:59+00'' < timestamp_key ''2025-01-01 00:00:00+00''"
    using digits by (simp_all add: timestamp_evaluation timestamp_key_def)
  then show ?thesis
    using timestamp_order [of "''2024-12-31 23:59:59+00''" "''2025-01-01 00:00:00+00''"] by (auto simp: get_cmp_bool_def)
qed

end
