(* ===== verification/Demo.thy ===== *)
theory Demo
  imports Aggregation Catalog_File ValueCasts
begin

section \<open>The program\<close>

text \<open>
  src/main.cpp: a table with generated rows, and the pipelines of executors that insert, query, sort, delete, update and
  aggregate them. The random numbers, std::sort, std::hash and the iteration order of the hash table are arguments. What
  the program prints through std::cout and fmt::print, which share stdout, is one string.
\<close>

subsection \<open>Columns and rows\<close>

definition k_row_count :: nat where "k_row_count = 1000"
definition k_batch_size :: nat where "k_batch_size = 256"

definition new_column :: "string \<Rightarrow> DataType \<Rightarrow> Column" where
  "new_column n t = \<lparr>col_name = n, col_type = t, col_length = 0\<rparr>"

definition make_people_columns :: "Column list" where
  "make_people_columns = [new_column ''id'' BIGINT, new_column ''name'' VARCHAR, new_column ''age'' SMALLINT, new_column ''weight'' INTEGER,
     new_column ''height'' INTEGER, new_column ''amount'' DECIMAL, new_column ''is_lived'' TINYINT, new_column ''is_active'' BOOLEAN,
     new_column ''date_of_birth'' TIMESTAMP]"

definition cmp_of_int :: "int \<Rightarrow> CmpBool" where
  "cmp_of_int i = (if i = 0 then CmpFalse else if i = 1 then CmpTrue else CmpNull)"

text \<open>The values of one row; lived and active are the two numbers drawn for it.\<close>

definition people_values :: "int \<Rightarrow> int \<Rightarrow> int \<Rightarrow> Value list res" where
  "people_values i lived active = res_bind (cast_as_timestamp (get_varchar_value (bytes_of ''2026-09-07 12:30:00.000000+07''))) (\<lambda>dob.
     ok [get_big_int_value i, get_varchar_value (bytes_of (''user_'' @ int_to_string i)), get_small_int_value (cast_int 2 (i + 1)),
       get_integer_value (i * 7), get_integer_value (i * 10), get_decimal_value (fp_of_int (i * 1000)),
       get_tiny_int_value (cast_int 1 lived), get_boolean_value_cmp (cmp_of_int active), dob])"

definition build_value_rows :: "(int \<Rightarrow> int \<times> int) \<Rightarrow> nat \<Rightarrow> Expression list list res" where
  "build_value_rows dist row_count = res_map (\<lambda>i. res_bind (people_values i (fst (dist i)) (snd (dist i)))
     (res_map new_ConstantValueExpression)) [1..int row_count]"

definition make_projection_columns :: "Column list" where
  "make_projection_columns = [new_column ''id'' BIGINT, new_column ''name'' VARCHAR, new_column ''weight'' INTEGER, new_column ''height'' INTEGER,
     new_column ''is_lived'' TINYINT, new_column ''is_active'' BOOLEAN, new_column ''date_of_birth'' TIMESTAMP, new_column ''weight_height'' INTEGER]"

definition count_schema :: ColumnSchema where
  "count_schema = [new_column ''count'' INTEGER]"

subsection \<open>Expressions\<close>

definition build_predicate :: "Column list \<Rightarrow> Expression res" where
  "build_predicate cols =
     res_bind (new_ConstantValueExpression (get_boolean_value 1)) (\<lambda>true.
     res_bind (new_ConstantValueExpression (get_tiny_int_value 1)) (\<lambda>one.
     new_LogicExpression (new_ComparisonExpression (new_ColumnValueExpression 0 7 (cols ! 7)) true Equal)
       (new_ComparisonExpression (new_ColumnValueExpression 0 6 (cols ! 6)) one Equal) And))"

text \<open>The projections of run_query and of run_sort; they differ in the columns given as return types.\<close>

definition projections :: "Column list \<Rightarrow> Column list \<Rightarrow> Expression list res" where
  "projections returns cols =
     res_bind (new_ArithmeticExpression (new_ColumnValueExpression 0 3 (cols ! 3)) (new_ColumnValueExpression 0 4 (cols ! 4)) Addition) (\<lambda>sum.
     ok (map (\<lambda>(i, c). new_ColumnValueExpression 0 i c) (zip [0, 1, 3, 4, 6, 7, 8] returns) @ [sum]))"

definition query_projections :: "Column list \<Rightarrow> Expression list res" where
  "query_projections cols = (let out = make_projection_columns in
     projections [out ! 0, out ! 1, out ! 2, out ! 3, out ! 3, out ! 4, out ! 5] cols)"

definition sort_projections :: "Column list \<Rightarrow> Expression list res" where
  "sort_projections cols = (let out = make_projection_columns in
     projections [out ! 0, out ! 1, out ! 2, out ! 3, out ! 4, out ! 5, out ! 6] cols)"

definition odd_age :: "Column list \<Rightarrow> Expression res" where
  "odd_age cols =
     res_bind (new_ConstantValueExpression (get_small_int_value 2)) (\<lambda>two.
     res_bind (new_ConstantValueExpression (get_small_int_value 0)) (\<lambda>zero.
     res_bind (new_ArithmeticExpression (new_ColumnValueExpression 0 2 (cols ! 2)) two ModuloOp) (\<lambda>rest.
     ok (new_ComparisonExpression rest zero NotEqual))))"

definition update_targets :: "Column list \<Rightarrow> Expression list res" where
  "update_targets cols = res_map (\<lambda>i. if i = 1
       then new_ConstantValueExpression (get_varchar_value (bytes_of (''updated_'' @ int_to_string (int i))))
       else ok (new_ColumnValueExpression 0 i (cols ! i)))
     [0..<length cols]"

subsection \<open>Output\<close>

text \<open>The text printed so far, and the local variable count of print_rows.\<close>

record Console =
  out :: string
  row_number :: nat

definition nl :: string where "nl = [CHR 0x0A]"

definition say :: "string \<Rightarrow> ('z \<times> Console, unit) run" where
  "say t s = Some ((fst s, (snd s)\<lparr>out := out (snd s) @ t\<rparr>), ok ())"

definition attempt :: "'a res \<Rightarrow> ('z, 'a) run" where
  "attempt r s = Some (s, r)"

text \<open>An executor that lives as long as the call.\<close>

definition with_executor :: "'x \<Rightarrow> ((Catalog \<times> 'x) \<times> Console, unit) run \<Rightarrow> (Catalog \<times> Console, unit) run" where
  "with_executor x m s = (case m ((fst s, x), snd s) of
     None \<Rightarrow> None | Some (((c, _), l), r) \<Rightarrow> Some ((c, l), r))"

fun schema_header :: "Column list \<Rightarrow> string" where
  "schema_header [] = nl"
| "schema_header (c # cols) = col_name c @ '' '' @ data_type_to_string (col_type c) @ ''  '' @ schema_header cols"

definition value_text :: "ColumnSchema \<Rightarrow> Tuple \<Rightarrow> nat \<Rightarrow> string res" where
  "value_text schema t i = res_bind (tuple_value schema i t) Value_to_string"

definition print_value :: "ColumnSchema \<Rightarrow> Tuple \<Rightarrow> nat \<Rightarrow> ('z \<times> Console, unit) run" where
  "print_value schema t i = run_bind (attempt (value_text schema t i)) (\<lambda>text.
     say (text @ (if i < length schema - 1 then '', '' else '''')))"

definition RecordId_to_string :: "RecordId \<Rightarrow> string" where
  "RecordId_to_string r = ''RecordId('' @ int_to_string (uint (page_id r)) @ '', '' @ int_to_string (uint (slot_num r)) @ '')''"

definition print_row :: "ColumnSchema \<Rightarrow> row \<Rightarrow> ('z \<times> Console, unit) run" where
  "print_row schema r s = run_bind (say (''row '' @ int_to_string (int (row_number (snd s))) @ '': [''))
     (\<lambda>_ s. run_bind (each (print_value schema (fst r)) [0..<length schema])
       (\<lambda>_. say (''] at '' @ RecordId_to_string (snd r) @ nl)) (fst s, (snd s)\<lparr>row_number := row_number (snd s) + 1\<rparr>)) s"

definition print_rows :: "'x exec_next \<Rightarrow> ColumnSchema \<Rightarrow> ((Catalog \<times> 'x) \<times> Console, unit) run" where
  "print_rows exec schema s = run_bind (while_batches (with_local (exec k_batch_size)) (each (print_row schema)))
     (\<lambda>_ s. say (''--- Scan complete ('' @ int_to_string (int (row_number (snd s))) @ '' rows) ---'' @ nl) s)
     (fst s, (snd s)\<lparr>row_number := 0\<rparr>)"

text \<open>The body of the loops over a count: the first row of a batch that is not empty.\<close>

definition print_count :: "string \<Rightarrow> ColumnSchema \<Rightarrow> row list \<Rightarrow> ('z \<times> Console, unit) run" where
  "print_count done schema batch = (case batch of
     [] \<Rightarrow> attempt (ok ())
   | r # _ \<Rightarrow> run_bind (attempt (value_text schema (fst r) 0)) (\<lambda>text. say (done @ '' '' @ text @ '' rows'' @ nl)))"

subsection \<open>Executors before init\<close>

text \<open>The members that a constructor leaves uninitialised are set by init before they are read.\<close>

definition new_SeqScanExecutor :: SeqScanExecutor where
  "new_SeqScanExecutor = \<lparr>ss_table = 0, ss_iter = \<lparr>current_id = default_RecordId, current_tuple = empty_Tuple\<rparr>\<rparr>"

definition new_FilterExecutor :: "'x \<Rightarrow> 'x FilterExecutor" where
  "new_FilterExecutor child = \<lparr>f_child = child, f_child_rows = [], f_child_offset = 0\<rparr>"

definition new_ProjectionExecutor :: "'x \<Rightarrow> 'x ProjectionExecutor" where
  "new_ProjectionExecutor child = \<lparr>pr_child = child, pr_child_rows = [], pr_child_offset = 0\<rparr>"

definition new_SortExecutor :: "'x \<Rightarrow> 'x SortExecutor" where
  "new_SortExecutor child = \<lparr>so_child = child, sorted_entries = [], so_cursor = 0\<rparr>"

definition new_LimitExecutor :: "'x \<Rightarrow> 'x LimitExecutor" where
  "new_LimitExecutor child = \<lparr>l_child = child, emitted_count = 0\<rparr>"

definition new_InsertExecutor :: "'x \<Rightarrow> 'x InsertExecutor" where
  "new_InsertExecutor child = \<lparr>in_child = child, total_rows_inserted = 0, in_has_emitted_count = False\<rparr>"

definition new_DeleteExecutor :: "'x \<Rightarrow> 'x DeleteExecutor" where
  "new_DeleteExecutor child = \<lparr>de_child = child, total_rows_deleted = 0, de_has_emitted_count = False\<rparr>"

definition new_UpdateExecutor :: "'x \<Rightarrow> 'x UpdateExecutor" where
  "new_UpdateExecutor child = \<lparr>up_child = child, up_executed = False\<rparr>"

subsection \<open>Pipelines\<close>

definition run_insert :: "ColumnSchema \<Rightarrow> Expression list list \<Rightarrow> TableOid \<Rightarrow> (Catalog \<times> Console, unit) run" where
  "run_insert schema values oid =
     (let values_plan = \<lparr>vp_schema = schema, vp_values = values\<rparr>;
          insert_plan = \<lparr>mp_schema = count_schema, mp_table_oid = oid\<rparr>
      in with_executor (new_InsertExecutor 0)
        (run_bind (say (''--- Inserting rows via executor pipeline ---'' @ nl)) (\<lambda>_.
         run_bind (with_local (insert_init insert_plan values_init)) (\<lambda>_.
         while_batches (with_local (insert_next insert_plan (values_next values_plan) k_batch_size)) (print_count ''Inserted'' count_schema)))))"

definition run_query_demo :: "ColumnSchema \<Rightarrow> Column list \<Rightarrow> TableOid \<Rightarrow> (Catalog \<times> Console, unit) run" where
  "run_query_demo schema cols oid =
     run_bind (attempt (build_predicate cols)) (\<lambda>predicate.
     run_bind (attempt (query_projections cols)) (\<lambda>exprs.
     let out_cols = make_projection_columns;
         plan = \<lparr>pp_schema = out_cols, pp_expressions = exprs\<rparr>
     in with_executor (new_ProjectionExecutor (new_FilterExecutor new_SeqScanExecutor))
       (run_bind (say (''--- Filtered SeqScan over table='' @ [CHR 0x27] @ ''people'' @ [CHR 0x27] @ '' (oid='' @ int_to_string (uint oid) @ '') ---'' @ nl)) (\<lambda>_.
        run_bind (say (schema_header out_cols)) (\<lambda>_.
        run_bind (with_local (projection_init (filter_init (seq_scan_init oid)))) (\<lambda>_.
        print_rows (projection_next plan schema (filter_next (Some predicate) schema seq_scan_next)) out_cols))))))"

definition demo_order_bys :: "OrderBy list" where
  "demo_order_bys = (let out_cols = make_projection_columns in
     [(DESC, NULLS_LAST, new_ColumnValueExpression 0 7 (out_cols ! 7)),
      (ASC, NULLS_FIRST, new_ColumnValueExpression 0 1 (out_cols ! 1))])"

definition run_sort :: "std_sort \<Rightarrow> ColumnSchema \<Rightarrow> Column list \<Rightarrow> TableOid \<Rightarrow> (Catalog \<times> Console, unit) run" where
  "run_sort std_sort schema cols oid =
     run_bind (attempt (build_predicate cols)) (\<lambda>predicate.
     run_bind (attempt (sort_projections cols)) (\<lambda>exprs.
     let out_cols = make_projection_columns;
         plan = \<lparr>pp_schema = out_cols, pp_expressions = exprs\<rparr>;
         projection = projection_next plan schema (filter_next (Some predicate) schema seq_scan_next);
         start = projection_init (filter_init (seq_scan_init oid))
     in with_executor (new_LimitExecutor (new_SortExecutor (new_ProjectionExecutor (new_FilterExecutor new_SeqScanExecutor))))
       (run_bind (say (''--- Sorted Query Output over table='' @ [CHR 0x27] @ ''people'' @ [CHR 0x27] @ '' ---'' @ nl)) (\<lambda>_.
        run_bind (say (schema_header out_cols)) (\<lambda>_.
        run_bind (with_local (limit_init (sort_init std_sort demo_order_bys out_cols start projection))) (\<lambda>_.
        print_rows (limit_next 20 sort_next) out_cols))))))"

definition run_delete :: "ColumnSchema \<Rightarrow> Column list \<Rightarrow> TableOid \<Rightarrow> (Catalog \<times> Console, unit) run" where
  "run_delete schema cols oid =
     run_bind (attempt (odd_age cols)) (\<lambda>predicate.
     let plan = \<lparr>mp_schema = count_schema, mp_table_oid = oid\<rparr>
     in with_executor (new_DeleteExecutor (new_FilterExecutor new_SeqScanExecutor))
       (run_bind (say (''--- Deleting rows with odd age from table='' @ [CHR 0x27] @ ''people'' @ [CHR 0x27] @ '' ---'' @ nl)) (\<lambda>_.
        run_bind (with_local (delete_init plan (filter_init (seq_scan_init oid)))) (\<lambda>_.
        while_batches (with_local (delete_next plan (filter_next (Some predicate) schema seq_scan_next) k_batch_size))
          (print_count ''Deleted'' count_schema)))))"

definition run_update :: "Column list \<Rightarrow> TableOid \<Rightarrow> (Catalog \<times> Console, unit) run" where
  "run_update cols oid =
     run_bind (attempt (update_targets cols)) (\<lambda>targets.
     let plan = \<lparr>mp_schema = count_schema, mp_table_oid = oid, target_expressions = targets\<rparr>
     in with_executor (new_UpdateExecutor new_SeqScanExecutor)
       (run_bind (say (''--- Updating rows'' @ [CHR 0x27] @ ''s name to updated_{i} from table='' @ [CHR 0x27] @ ''people'' @ [CHR 0x27] @ '' ---'' @ nl)) (\<lambda>_.
        run_bind (with_local (update_init plan (seq_scan_init oid))) (\<lambda>_.
        while_batches (with_local (update_next plan seq_scan_next k_batch_size)) (print_count ''Updated'' count_schema)))))"

definition aggregation_plan :: "Column list \<Rightarrow> AggregationPlanNode" where
  "aggregation_plan cols = \<lparr>
     ap_schema = [new_column ''is_lived'' TINYINT, new_column ''is_active'' BOOLEAN, new_column ''count_star'' BIGINT,
       new_column ''sum_amount'' DECIMAL, new_column ''avg_amount'' DECIMAL],
     group_bys = [new_ColumnValueExpression 0 6 (cols ! 6), new_ColumnValueExpression 0 7 (cols ! 7)],
     aggregates = [new_ColumnValueExpression 0 0 (cols ! 0), new_ColumnValueExpression 0 5 (cols ! 5), new_ColumnValueExpression 0 5 (cols ! 5)],
     ap_agg_funcs = map (\<lambda>n. the (registry_get n)) [''count_star'', ''sum'', ''avg'']\<rparr>"

definition run_aggregation :: "(string \<Rightarrow> u64) \<Rightarrow> iteration_order \<Rightarrow> ColumnSchema \<Rightarrow> Column list \<Rightarrow> TableOid \<Rightarrow> (Catalog \<times> Console, unit) run" where
  "run_aggregation std_hash order schema cols oid =
     (let plan = aggregation_plan cols
      in with_executor (new_AggregationExecutor plan new_SeqScanExecutor)
        (run_bind (say (''--- Aggregation (COUNT(*), SUM(amount), AVG(age)) over table='' @ [CHR 0x27] @ ''people'' @ [CHR 0x27] @ '' ---'' @ nl)) (\<lambda>_.
         run_bind (say (schema_header (ap_schema plan))) (\<lambda>_.
         run_bind (with_local (aggregation_init std_hash order plan schema (seq_scan_init oid) seq_scan_next)) (\<lambda>_.
         print_rows (aggregation_next plan) (ap_schema plan))))))"

subsection \<open>main\<close>

definition demo_session :: "(int \<Rightarrow> int \<times> int) \<Rightarrow> std_sort \<Rightarrow> (string \<Rightarrow> u64) \<Rightarrow> iteration_order \<Rightarrow> TableOid \<Rightarrow> (Catalog \<times> Console, unit) run" where
  "demo_session dist std_sort std_hash order oid =
     (let cols = make_people_columns
      in run_bind (attempt (build_value_rows dist k_row_count)) (\<lambda>values.
         run_bind (run_insert cols values oid) (\<lambda>_.
         run_bind (say ''-----AFTER INSERT-----'') (\<lambda>_.
         run_bind (run_query_demo cols cols oid) (\<lambda>_.
         run_bind (say (''-----SORTED AND LIMIT DATA-----'' @ nl)) (\<lambda>_.
         run_bind (run_sort std_sort cols cols oid) (\<lambda>_.
         run_bind (run_delete cols cols oid) (\<lambda>_.
         run_bind (say ''-----AFTER DELETE-----'') (\<lambda>_.
         run_bind (run_query_demo cols cols oid) (\<lambda>_.
         run_bind (run_update cols oid) (\<lambda>_.
         run_bind (say ''-----AFTER UPDATE-----'') (\<lambda>_.
         run_bind (run_query_demo cols cols oid) (\<lambda>_.
         run_bind (say (nl @ ''----- AGGREGATION AFTER DELETE -----'' @ nl)) (\<lambda>_.
         run_aggregation std_hash order cols cols oid))))))))))))))"

text \<open>The pool flushes its pages; no exception leaves a destructor.\<close>

definition destroy_BufferPoolManager :: "BufferPoolManager \<Rightarrow> BufferPoolManager \<times> unit res" where
  "destroy_BufferPoolManager b = (case flush_all_pages b of
     (b1, Inl e) \<Rightarrow> (b1, throw (if is_std_exception e then Terminated ''exception in a destructor'' else e))
   | (b1, Inr _) \<Rightarrow> (b1, ok ()))"

text \<open>Leaving main destroys the catalog, which is written out, and then the pool.\<close>

definition leave_main :: "(Catalog \<times> Console, unit) run" where
  "leave_main s = (case destroy_Catalog (fst s) of
     (c, Inl e) \<Rightarrow> Some ((c, snd s), Inl e)
   | (c, Inr _) \<Rightarrow> (case destroy_BufferPoolManager (bpm c) of (b, r) \<Rightarrow> Some ((c\<lparr>bpm := b\<rparr>, snd s), r)))"

definition demo_main :: "string_alloc \<Rightarrow> clock \<Rightarrow> (int \<Rightarrow> int \<times> int) \<Rightarrow> std_sort \<Rightarrow> (string \<Rightarrow> u64) \<Rightarrow> iteration_order \<Rightarrow> DiskManager \<Rightarrow>
    ((Catalog \<times> Console) \<times> unit res) option" where
  "demo_main alloc clock dist std_sort std_hash order disk =
     (case new_Catalog alloc clock (new_BufferPoolManager 128 disk) ''test_db/turtle.catalog'' ''test_db'' of
        (c0, Inl e) \<Rightarrow> Some ((c0, \<lparr>out = [], row_number = 0\<rparr>), Inl e)
      | (c0, Inr _) \<Rightarrow> (case create_table ''people'' make_people_columns c0 of
          None \<Rightarrow> None
        | Some (c1, Inl e) \<Rightarrow> Some ((c1, \<lparr>out = [], row_number = 0\<rparr>), Inl e)
        | Some (c1, Inr oid) \<Rightarrow> run_bind (demo_session dist std_sort std_hash order oid) (\<lambda>_. leave_main) (c1, \<lparr>out = [], row_number = 0\<rparr>)))"

end
