(* ===== verification/Stored_Text.thy ===== *)
theory Stored_Text
  imports TupleLayout
begin

section \<open>What a stored value still says\<close>

text \<open>
  A value that comes back from storage can be stored again, reads as the same number and prints the same text; so does
  one that has gone through several tuples.
\<close>

lemma same_value_trans: "same_value u v \<Longrightarrow> same_value v w \<Longrightarrow> same_value u w"
  by (auto simp: same_value_def split: if_splits)

lemma same_value_refl: "storable_value v \<Longrightarrow> same_value v v"
  by (auto simp: same_value_def storable_value_def int_ok_def check_integer_def split: DataType.splits)

text \<open>The payload of a value that is not a string determines the low bytes of its union.\<close>

lemma same_raw:
  assumes "same_value v w" and "\<not> is_null v" and "data_type v \<noteq> VARCHAR" and "fixed_size (data_type v) = n" and "0 < n"
  shows "signed_take_bit (8 * n - 1) (uint (raw w)) = signed_take_bit (8 * n - 1) (uint (raw v))" and "n \<le> init w"
    and "get_as_int n w = ok (signed_take_bit (8 * n - 1) (uint (raw v)))" and "n = 8 \<Longrightarrow> raw w = raw v"
proof -
  have e: "le_bytes n (unat (raw v)) = le_bytes n (unat (raw w))" and i: "n \<le> init w"
    using assms(1-4) by (simp_all add: same_value_def payload_def split: if_splits)
  then have m: "unat (raw v) mod 256 ^ n = unat (raw w) mod 256 ^ n" by (metis le_nat_le_bytes)
  then show b: "signed_take_bit (8 * n - 1) (uint (raw w)) = signed_take_bit (8 * n - 1) (uint (raw v))"
    using signed_load [OF assms(5), of "unat (raw v)"] signed_load [OF assms(5), of "unat (raw w)"] by simp
  show "n \<le> init w" by (rule i)
  then show "get_as_int n w = ok (signed_take_bit (8 * n - 1) (uint (raw v)))" using b by (simp add: get_as_int_def)
  assume "n = 8"
  then have "unat (raw w) mod 256 ^ 8 = unat (raw v) mod 256 ^ 8" using m by simp
  then show "raw w = raw v" using word_of_nat_mod64 by metis
qed

lemma same_get_int:
  assumes "same_value v w" and "\<not> is_null v" and "data_type v \<noteq> VARCHAR" and "fixed_size (data_type v) = n" and "0 < n" and "n \<le> init v"
  shows "get_as_int n w = get_as_int n v"
  using same_raw(3) [OF assms(1-5)] assms(6) by (simp add: get_as_int_def)

lemma storable_same:
  assumes "storable_value v" and "same_value v w"
  shows "storable_value w"
proof -
  have n: "\<not> is_null v" "\<not> is_null w" "data_type w = data_type v" using assms by (auto simp: storable_value_def same_value_def)
  note raw = same_raw [OF assms(2) n(1)]
  show ?thesis
  proof (cases "data_type v")
    case BOOLEAN
    then show ?thesis using raw(1,2) [where n = 1] assms(1) n by (simp add: storable_value_def)
  next
    case VARCHAR
    then show ?thesis using assms n by (simp add: storable_value_def same_value_def)
  next
    case DECIMAL
    then show ?thesis using raw(2,4) [where n = 8] assms(1) n by (simp add: storable_value_def)
  next
    case TIMESTAMP
    then show ?thesis using raw(2,4) [where n = 8] assms(1) n by (simp add: storable_value_def)
  qed (use assms n int_ok_same in \<open>auto simp: storable_value_def\<close>)
qed

lemma text_same:
  assumes s: "storable_value v" and same: "same_value v w"
  shows "Value_to_string w = Value_to_string v"
proof -
  have n: "\<not> is_null v" "\<not> is_null w" "data_type w = data_type v" using assms by (auto simp: storable_value_def same_value_def)
  have i: "get_as_int n w = get_as_int n v" if "data_type v \<noteq> VARCHAR" "fixed_size (data_type v) = n" "0 < n" for n
    using that s by (intro same_get_int [OF same n(1)]) (auto simp: storable_value_def int_ok_def split: DataType.splits)
  have raw: "raw w = raw v" "8 \<le> init w" "8 \<le> init v" if "fixed_size (data_type v) = 8" "\<not> check_integer v"
    using same_raw(2,4) [OF same n(1) _ that(1)] that s by (auto simp: storable_value_def check_integer_def split: DataType.splits)
  show ?thesis
  proof (cases "data_type v")
    case VARCHAR
    then have "len w = len v" "take (unat (len w)) (varlen w) = take (unat (len v)) (varlen v)" "unat (len v) \<le> length (varlen v)"
      "unat (len w) \<le> length (varlen w)"
      using s same n by (auto simp: storable_value_def same_value_def payload_def)
    then show ?thesis using VARCHAR n
      by (simp add: Value_to_string_def Value_to_string_as_def varchar_to_string_def varchar_string_def varchar_chars_def
          varchar_get_storage_size_def)
  next
    case BOOLEAN
    then show ?thesis using n i [where n = 1] by (simp add: Value_to_string_def Value_to_string_as_def boolean_to_string_def)
  next
    case TINYINT
    then show ?thesis using n i [where n = 1]
      by (simp add: Value_to_string_def Value_to_string_as_def tinyint_to_string_def check_integer_def)
  next
    case SMALLINT
    then show ?thesis using n i [where n = 2]
      by (simp add: Value_to_string_def Value_to_string_as_def smallint_to_string_def check_integer_def)
  next
    case INTEGER
    then show ?thesis using n i [where n = 4]
      by (simp add: Value_to_string_def Value_to_string_as_def integer_to_string_def check_integer_def)
  next
    case BIGINT
    then show ?thesis using n i [where n = 8]
      by (simp add: Value_to_string_def Value_to_string_as_def bigint_to_string_def check_integer_def)
  next
    case DECIMAL
    then show ?thesis using n raw
      by (simp add: Value_to_string_def Value_to_string_as_def decimal_to_string_def check_integer_def get_as_double_def)
  next
    case TIMESTAMP
    then have "get_as_uint64 w = get_as_uint64 v" using raw by (simp add: check_integer_def get_as_uint64_def)
    then have "timestamp_to_string w = timestamp_to_string v" unfolding timestamp_to_string_def by (simp only: n(1,2) if_False)
    then show ?thesis using TIMESTAMP n by (simp add: Value_to_string_def Value_to_string_as_def)
  next
    case INVALID
    then show ?thesis using n by (simp add: Value_to_string_def Value_to_string_as_def)
  qed
qed

lemma same_size:
  assumes s: "storable_value v" and same: "same_value v w"
  shows "size_in_tuple w = size_in_tuple v"
proof -
  have n: "\<not> is_null v" "\<not> is_null w" "data_type w = data_type v" using assms by (auto simp: storable_value_def same_value_def)
  note t = storable_same [OF assms]
  show ?thesis
  proof (cases "data_type v = VARCHAR")
    case True
    then have "len w = len v" using same n by (simp add: same_value_def)
    then show ?thesis using image_varchar(2) [OF s True] image_varchar(2) [OF t] True n by (simp add: size_in_tuple_def)
  next
    case False
    then show ?thesis using image_fixed [OF s False] image_fixed [OF t] n by (simp add: size_in_tuple_def)
  qed
qed

end
