(* ===== verification/Demo_Rows.thy ===== *)
theory Demo_Rows
  imports Demo Stored_Text ExpressionSemantics Insert_Properties
begin

section \<open>The rows of the demonstration\<close>

text \<open>
  The row that build_value_rows makes for one number: it can be stored, its columns print the expected texts, and the
  expressions of the queries have the expected results on it.
\<close>

subsection \<open>Values that can be stored and printed\<close>

lemma digits_short: "n < 10 ^ k \<Longrightarrow> 0 < k \<Longrightarrow> length (digits n) \<le> k"
proof (induction k arbitrary: n)
  case (Suc k)
  show ?case
  proof (cases "n < 10")
    case False
    then have "k \<noteq> 0" using Suc.prems(1) by (cases k) simp_all
    moreover have "n < 10 * m \<Longrightarrow> n div 10 < m" for m :: int by presburger
    then have "n div 10 < 10 ^ k" using Suc.prems(1) by simp
    ultimately show ?thesis using Suc.IH [of "n div 10"] False by (simp add: digits.simps [of n])
  qed (simp add: digits.simps [of n])
qed simp

lemma digits_nonempty: "digits n \<noteq> []"
  by (subst digits.simps) simp

text \<open>An integer of a type's range that is not its NULL.\<close>

lemma integer_ctor:
  assumes "int_type t" and "in_range (int_size t) x" and "x \<noteq> int_null (int_size t)"
  defines "v \<equiv> Value_int (int_size t) t x"
  shows "storable_value v" and "Value_to_string v = ok (int_to_string x)" and "int_ok v" and "int_value v = x"
    and "size_in_tuple v \<le> 8" and "\<not> is_null v"
proof -
  have c: "check_integer v" using assms(1) by (auto simp: v_def int_type_def check_integer_def)
  then show i: "int_ok v" "int_value v = x" using int_value_ctor assms(2) by (simp_all add: v_def)
  show n: "\<not> is_null v" using assms(3) by (simp add: v_def)
  show s: "storable_value v" using i n assms(1) by (auto simp: storable_value_def v_def int_type_def)
  have d: "data_type v = t" "t \<noteq> VARCHAR" using assms(1) by (auto simp: v_def int_type_def)
  have g: "get_as_int (int_size t) v = ok x" using int_ok_get(1) [OF i(1)] d i(2) by simp
  show "Value_to_string v = ok (int_to_string x)"
    using assms(1) g n c d(1)
    by (auto simp: int_type_def Value_to_string_def Value_to_string_as_def tinyint_to_string_def smallint_to_string_def
        integer_to_string_def bigint_to_string_def)
  show "size_in_tuple v \<le> 8" using image_fixed [OF s] d n assms(1) by (auto simp: size_in_tuple_def int_type_def)
qed

lemma varchar_ctor:
  assumes "s \<noteq> []" and "length s \<le> 100"
  defines "v \<equiv> get_varchar_value (bytes_of s)"
  shows "storable_value v" and "Value_to_string v = ok s" and "size_in_tuple v \<le> 104" and "data_type v = VARCHAR"
proof -
  have len: "unat (len v) = length s" "len v = word_of_nat (length s)"
    using assms(2) by (simp_all add: v_def get_varchar_value_def Value_string_def length_bytes_of unat_of_nat)
  show d: "data_type v = VARCHAR" by (simp add: v_def get_varchar_value_def)
  have n: "\<not> is_null v" using length_not_null [of "length s"] assms(2) by (simp add: is_null_def len(2))
  have var: "varlen v = bytes_of s @ [0]" by (simp add: v_def get_varchar_value_def Value_string_def)
  have "0 < len v" using len(1) assms(1) by (metis length_greater_0_conv unat_eq_0 unat_gt_0 word_gt_0)
  then show s: "storable_value v" using n d len(1) assms(2) by (simp add: storable_value_def var length_bytes_of)
  show "Value_to_string v = ok s"
    using n d len(1) by (simp add: Value_to_string_def Value_to_string_as_def varchar_to_string_def varchar_string_def
        varchar_chars_def varchar_get_storage_size_def var length_bytes_of string_of_bytes_of)
  show "size_in_tuple v \<le> 104" using image_varchar(2) [OF s d] n len(1) assms(2) by (simp add: size_in_tuple_def)
qed

subsection \<open>Decimals\<close>

lemma fp_decode_positive:
  assumes "\<not> bit x 63"
  shows "fp_decode x = NaN \<or> fp_decode x = Infinite False \<or> (\<exists>m e. fp_decode x = Finite False m e \<and> 0 \<le> m)"
  unfolding fp_decode_def Let_def using assms by (simp split: if_split)

lemma positive_not_null:
  assumes "\<not> bit x 63"
  shows "\<not> fp_eq x TURTLE_DECIMAL_NULL"
proof -
  have null: "fp_decode TURTLE_DECIMAL_NULL = Finite True (2 ^ 53 - 1) 971" by code_simp
  consider "fp_decode x = NaN" | "fp_decode x = Infinite False" | m e where "fp_decode x = Finite False m e" "0 \<le> m"
    using fp_decode_positive [OF assms] by blast
  then show ?thesis
  proof cases
    case (3 m e)
    have "0 < m * 2 ^ nat (e - min e 971) + (2 ^ 53 - 1) * 2 ^ nat (971 - min e 971)"
      using 3(2) by (intro add_nonneg_pos) simp_all
    then show ?thesis using 3(1) by (simp add: fp_eq_def fp_compare_def null Let_def sgn_if)
  qed (simp_all add: fp_eq_def fp_compare_def null)
qed

lemma bit_length_bounds:
  assumes "0 < n"
  shows "0 < bit_length n" and "2 ^ (nat (bit_length n) - 1) \<le> n" and "n < 2 ^ nat (bit_length n)"
proof -
  have "0 < bit_length n \<and> 2 ^ (nat (bit_length n) - 1) \<le> n \<and> n < 2 ^ nat (bit_length n)" using assms
  proof (induction n rule: bit_length.induct)
    case (1 n)
    show ?case
    proof (cases "n = 1")
      case True
      then show ?thesis by (simp add: bit_length.simps [of 1] bit_length.simps [of 0])
    next
      case False
      then have h: "0 < bit_length (n div 2)" "2 ^ (nat (bit_length (n div 2)) - 1) \<le> n div 2" "n div 2 < 2 ^ nat (bit_length (n div 2))"
        using 1 by simp_all
      have b: "bit_length n = 1 + bit_length (n div 2)" using 1(2) by (simp add: bit_length.simps [of n])
      then have "nat (bit_length n) = Suc (nat (bit_length (n div 2)))" using h(1) by simp
      moreover have "(2 :: int) ^ nat (bit_length (n div 2)) = 2 * 2 ^ (nat (bit_length (n div 2)) - 1)"
        using h(1) by (metis power_Suc Suc_diff_1 zero_less_nat_eq)
      moreover have "2 * P \<le> n \<and> n < 4 * P" if "P \<le> n div 2" "n div 2 < 2 * P" for P :: int using that by presburger
      ultimately show ?thesis using h b by auto
    qed
  qed
  then show "0 < bit_length n" "2 ^ (nat (bit_length n) - 1) \<le> n" "n < 2 ^ nat (bit_length n)" by simp_all
qed

lemma fp_of_int_not_null:
  assumes "0 < n" and "n < 2 ^ 53"
  shows "\<not> fp_eq (fp_of_int n) TURTLE_DECIMAL_NULL"
proof (rule positive_not_null)
  let ?b = "bit_length n"
  note b = bit_length_bounds [OF assms(1)]
  have "(2 :: int) ^ (nat ?b - 1) < 2 ^ 53" using b(2) assms(2) by linarith
  then have "nat ?b - 1 < 53" by (rule power_less_imp_less_exp [rotated]) simp
  then have b53: "?b \<le> 53" "0 < ?b" using b(1) by simp_all
  let ?m = "n * 2 ^ nat (53 - ?b)"
  have "?m < 2 ^ nat ?b * 2 ^ nat (53 - ?b)" using b(3) by simp
  also have "\<dots> = 2 ^ (nat ?b + nat (53 - ?b))" by (simp add: power_add)
  also have "nat ?b + nat (53 - ?b) = 53" using b53 by simp
  finally have m: "0 \<le> ?m" "?m < 2 ^ 53" using assms(1) by simp_all
  have eq: "fp_of_int n = (if ?m < 2 ^ 52 then fp_pack False 0 ?m else fp_pack False (?b - 53 + 1075) (?m - 2 ^ 52))"
    using assms(1) m b53 by (simp add: fp_of_int_def fp_round_def Let_def max_def)
  have small: "\<not> bit (word_of_int k :: u64) 63" if "0 \<le> k" "k < 2 ^ 63" for k
    unfolding bit_word_of_int_iff using that by (simp add: bit_iff_odd)
  have "\<not> bit (fp_pack False x f) 63" if "0 \<le> x" "x < 2047" "0 \<le> f" "f < 2 ^ 52" for x f
  proof -
    have "0 \<le> x * 2 ^ 52 + f" using that by simp
    moreover have "x * 2 ^ 52 \<le> 2046 * 2 ^ 52" using that by (intro mult_right_mono) simp_all
    then have "x * 2 ^ 52 + f < 2 ^ 63" using that by simp
    ultimately have "\<not> bit (word_of_int (x * 2 ^ 52 + f) :: u64) 63" by (rule small)
    then show ?thesis by (simp only: fp_pack_def if_False add_0_left not_False_eq_True)
  qed
  then show "\<not> bit (fp_of_int n) 63" using m b53 eq by simp
qed

subsection \<open>The row of a number\<close>

definition birth :: string where "birth = ''2026-09-07 12:30:00.000000+07''"

lemma birth_facts: "valid_timestamp birth" "timestamp_number birth \<noteq> 2 ^ 63" "timestamp_number birth \<noteq> 2 ^ 64 - 1" "canonical birth = birth"
proof -
  have digits: "digits_ok birth" unfolding birth_def by code_simp
  show "valid_timestamp birth" "timestamp_number birth \<noteq> 2 ^ 63" "timestamp_number birth \<noteq> 2 ^ 64 - 1" "canonical birth = birth"
    using digits by (simp_all add: birth_def timestamp_evaluation)
qed

definition birth_value :: Value where
  "birth_value = (case cast_as_timestamp (get_varchar_value (bytes_of birth)) of Inr v \<Rightarrow> v | Inl _ \<Rightarrow> Value_null TIMESTAMP)"

lemma birth_value:
  "cast_as_timestamp (get_varchar_value (bytes_of birth)) = ok birth_value" "storable_value birth_value"
  "Value_to_string birth_value = ok birth" "data_type birth_value = TIMESTAMP" "size_in_tuple birth_value \<le> 8"
proof -
  obtain w :: u64 where w: "cast_as_timestamp (get_varchar_value (bytes_of birth)) = ok (get_timestamp_value (sint w))"
    "uint w = timestamp_number birth" using cast_timestamp_text [OF birth_facts(1)] .
  then show cast: "cast_as_timestamp (get_varchar_value (bytes_of birth)) = ok birth_value" by (simp add: birth_value_def)
  then have v: "birth_value = get_timestamp_value (sint w)" using w(1) by simp
  note f = get_timestamp_facts [of w]
  show d: "data_type birth_value = TIMESTAMP" by (simp add: v f)
  have n: "\<not> is_null birth_value" using f(4) w(2) birth_facts(2) by (simp add: v)
  have "uint w \<noteq> 2 ^ 64 - 1" using w(2) birth_facts(3) by simp
  then have "w \<noteq> - 1" by (auto simp: unsigned_minus_1_eq_mask mask_eq_exp_minus_1)
  moreover have "raw birth_value = w" using f(2,3) by (simp add: v get_as_uint64_def split: if_splits)
  ultimately show s: "storable_value birth_value" using n d f(2) by (simp add: storable_value_def TURTLE_TIMESTAMP_NULL_def v)
  show "Value_to_string birth_value = ok birth"
    using timestamp_text [OF birth_facts(1) w(2)] birth_facts(2,4) w(2) by (simp add: v)
  show "size_in_tuple birth_value \<le> 8" using image_fixed [OF s] d n by (simp add: size_in_tuple_def)
qed

text \<open>The number i, and the two draws a and b, 0 or 1.\<close>

definition person :: "int \<Rightarrow> int \<Rightarrow> int \<Rightarrow> Value list" where
  "person i a b = [get_big_int_value i, get_varchar_value (bytes_of (''user_'' @ int_to_string i)), get_small_int_value (i + 1),
     get_integer_value (i * 7), get_integer_value (i * 10), get_decimal_value (fp_of_int (i * 1000)), get_tiny_int_value a,
     get_boolean_value_cmp (cmp_of_int b), birth_value]"

definition person_texts :: "int \<Rightarrow> int \<Rightarrow> int \<Rightarrow> string list" where
  "person_texts i a b = [int_to_string i, ''user_'' @ int_to_string i, int_to_string (i + 1), int_to_string (i * 7), int_to_string (i * 10),
     fp_to_string (fp_of_int (i * 1000)), int_to_string a, if b = 1 then ''true'' else ''false'', birth]"

definition draw :: "int \<Rightarrow> bool" where "draw a \<longleftrightarrow> a = 0 \<or> a = 1"

lemma decimal_ctor:
  assumes "0 < n" and "n < 2 ^ 53"
  defines "v \<equiv> get_decimal_value (fp_of_int n)"
  shows "storable_value v" and "Value_to_string v = ok (fp_to_string (fp_of_int n))" and "size_in_tuple v \<le> 8" and "data_type v = DECIMAL"
proof -
  note nn = fp_of_int_not_null [OF assms(1,2)]
  show d: "data_type v = DECIMAL" by (simp add: v_def get_decimal_value_def)
  have n: "\<not> is_null v" using nn by (simp add: v_def get_decimal_value_def)
  have "raw v = fp_of_int n" "init v = 8" by (simp_all add: v_def get_decimal_value_def Value_double_def)
  then show s: "storable_value v" using n d nn by (simp add: storable_value_def)
  show "Value_to_string v = ok (fp_to_string (fp_of_int n))"
    using n by (simp add: Value_to_string_def Value_to_string_as_def d decimal_to_string_def) (simp add: v_def get_decimal_value_def)
  show "size_in_tuple v \<le> 8" using image_fixed [OF s] d n by (simp add: size_in_tuple_def)
qed

lemma boolean_ctor:
  assumes "draw b"
  defines "v \<equiv> get_boolean_value_cmp (cmp_of_int b)"
  shows "storable_value v" and "Value_to_string v = ok (if b = 1 then ''true'' else ''false'')" and "size_in_tuple v \<le> 1"
    and "data_type v = BOOLEAN" and "get_as_int 1 v = ok b" and "\<not> is_null v"
proof -
  have b: "b = 0 \<or> b = 1" using assms(1) by (simp add: draw_def)
  have v: "v = Value_int 1 BOOLEAN b"
    using b by (auto simp: v_def get_boolean_value_cmp_def cmp_of_int_def Value_int8_def)
  show d: "data_type v = BOOLEAN" by (simp add: v)
  show n: "\<not> is_null v" using b by (auto simp: v int_null_def)
  show g: "get_as_int 1 v = ok b" unfolding v using b by (intro get_as_int_ctor) (auto simp: int_null_def int_max_def)
  have "signed_take_bit 7 (uint (raw v)) = b" using g by (simp add: get_as_int_def split: if_splits)
  then show s: "storable_value v" using n d b by (auto simp: storable_value_def v int_null_def)
  show "Value_to_string v = ok (if b = 1 then ''true'' else ''false'')"
    using b g d by (auto simp: Value_to_string_def Value_to_string_as_def boolean_to_string_def)
  show "size_in_tuple v \<le> 1" using image_fixed [OF s] d n by (simp add: size_in_tuple_def)
qed

text \<open>What is asked of the number and the draws: the age i + 1 must fit a SMALLINT.\<close>

definition people_range :: "int \<Rightarrow> int \<Rightarrow> int \<Rightarrow> bool" where
  "people_range i a b \<longleftrightarrow> 0 < i \<and> i < 10000 \<and> draw a \<and> draw b"

lemma people_values_person:
  assumes "people_range i a b"
  shows "people_values i a b = ok (person i a b)"
proof -
  have "cast_int 2 (i + 1) = i + 1" "cast_int 1 a = a"
    using assms by (auto simp: people_range_def draw_def cast_int_eq_iff in_range_def int_null_def int_max_def)
  then show ?thesis using birth_value(1) by (simp add: people_values_def person_def birth_def)
qed

lemma person_column:
  assumes "people_range i a b"
  shows "list_all2 (\<lambda>v s. storable_value v \<and> Value_to_string v = ok s \<and> size_in_tuple v \<le> 104) (person i a b) (person_texts i a b)"
    and "map data_type (person i a b) = map col_type make_people_columns"
proof -
  have r: "0 < i" "i < 10000" "draw a" "draw b" using assms by (simp_all add: people_range_def)
  have name: "''user_'' @ int_to_string i \<noteq> []" "length (''user_'' @ int_to_string i) \<le> 100"
    using digits_short [of i 4] r by (simp_all add: int_to_string_def)
  have big: "storable_value (get_big_int_value i) \<and> Value_to_string (get_big_int_value i) = ok (int_to_string i) \<and> size_in_tuple (get_big_int_value i) \<le> 8"
    using integer_ctor(1,2,5) [of BIGINT i] r by (simp add: int_type_def in_range_def int_null_def int_max_def get_big_int_value_def Value_int64_def)
  have small: "storable_value (get_small_int_value (i + 1)) \<and> Value_to_string (get_small_int_value (i + 1)) = ok (int_to_string (i + 1)) \<and>
      size_in_tuple (get_small_int_value (i + 1)) \<le> 8"
    using integer_ctor(1,2,5) [of SMALLINT "i + 1"] r by (simp add: int_type_def in_range_def int_null_def int_max_def get_small_int_value_def Value_int16_def)
  have int: "storable_value (get_integer_value x) \<and> Value_to_string (get_integer_value x) = ok (int_to_string x) \<and> size_in_tuple (get_integer_value x) \<le> 8"
    if "0 < x" "x < 1000000" for x
    using integer_ctor(1,2,5) [of INTEGER x] that by (simp add: int_type_def in_range_def int_null_def int_max_def get_integer_value_def Value_int32_def)
  have tiny: "storable_value (get_tiny_int_value a) \<and> Value_to_string (get_tiny_int_value a) = ok (int_to_string a) \<and> size_in_tuple (get_tiny_int_value a) \<le> 8"
    using integer_ctor(1,2,5) [of TINYINT a] r by (auto simp: draw_def int_type_def in_range_def int_null_def int_max_def get_tiny_int_value_def Value_int8_def)
  have dec: "storable_value (get_decimal_value (fp_of_int (i * 1000))) \<and> Value_to_string (get_decimal_value (fp_of_int (i * 1000))) = ok (fp_to_string (fp_of_int (i * 1000))) \<and>
      size_in_tuple (get_decimal_value (fp_of_int (i * 1000))) \<le> 8"
    using decimal_ctor(1,2,3) [of "i * 1000"] r by simp
  note c = big small int [of "i * 7"] int [of "i * 10"] tiny dec varchar_ctor(1-3) [OF name] boolean_ctor(1-3) [OF r(4)] birth_value(2,3,5)
  then show "list_all2 (\<lambda>v s. storable_value v \<and> Value_to_string v = ok s \<and> size_in_tuple v \<le> 104) (person i a b) (person_texts i a b)"
    using r by (simp add: person_def person_texts_def)
  show "map data_type (person i a b) = map col_type make_people_columns"
    using birth_value(4) decimal_ctor(4) boolean_ctor(4) [OF r(4)]
    by (simp add: person_def make_people_columns_def new_column_def get_big_int_value_def get_varchar_value_def get_small_int_value_def
        get_integer_value_def get_decimal_value_def get_tiny_int_value_def Value_int64_def Value_int32_def Value_int16_def Value_int8_def)
qed

text \<open>Rows of columns that can be stored and printed.\<close>

lemma texts_row_ok:
  assumes "list_all2 (\<lambda>v s. storable_value v \<and> Value_to_string v = ok s \<and> size_in_tuple v \<le> 104) vs ss"
    and "map data_type vs = map col_type schema" and "length vs \<le> 30"
  shows "row_ok schema vs" and "sum_list (map size_in_tuple vs) \<le> 104 * length vs"
proof -
  have v: "storable_value v \<and> size_in_tuple v \<le> 104" if "v \<in> set vs" for v
    using assms(1) that by (auto simp: list_all2_conv_all_nth in_set_conv_nth)
  then have "sum_list (map size_in_tuple vs) \<le> sum_list (map (\<lambda>_. 104) vs)" by (intro sum_list_mono) simp
  then show "sum_list (map size_in_tuple vs) \<le> 104 * length vs" by (simp add: sum_list_triv mult.commute)
  then have "null_bitmap_size (length vs) + sum_list (map size_in_tuple vs) < 2 ^ 32"
    using assms(3) by (simp add: null_bitmap_size_def)
  moreover have "data_type x \<noteq> INVALID" if "storable_value x" for x using that by (auto simp: storable_value_def)
  ultimately show "row_ok schema vs" using v assms(2) by (auto simp: row_ok_def)
qed

text \<open>A tuple of such a row gives the values and the texts back.\<close>

lemma texts_tuple:
  assumes "list_all2 (\<lambda>v s. storable_value v \<and> Value_to_string v = ok s \<and> size_in_tuple v \<le> 104) vs ss"
    and "map data_type vs = map col_type schema" and "length vs \<le> 30" and "vs \<noteq> []"
  obtains bs where "new_Tuple schema vs = ok (tuple_of bs)" and "fits_page bs"
    and "\<And>k. k < length vs \<Longrightarrow> \<exists>w. tuple_value schema k (tuple_of bs) = ok w \<and> same_value (vs ! k) w \<and> Value_to_string w = ok (ss ! k)"
proof -
  note ok = texts_row_ok [OF assms(1-3)]
  obtain t where t: "new_Tuple schema vs = ok t"
    and get: "\<And>k. k < length vs \<Longrightarrow> \<forall>j < k. \<not> is_null (vs ! j) \<Longrightarrow> \<exists>w. tuple_value schema k t = ok w \<and> same_value (vs ! k) w"
    using new_Tuple_stores [OF ok(1)] by metis
  obtain mem where mem: "new_Tuple schema vs = ok \<lparr>allocated = True, bytes = mem, record_id = default_RecordId\<rparr>"
    "length mem = null_bitmap_size (length vs) + sum_list (map size_in_tuple vs)" using new_Tuple_layout [OF ok(1)] by blast
  then have tm: "t = tuple_of mem" using t by (simp add: tuple_of_def)
  have "fits_page mem" using mem(2) ok(2) assms(3,4) by (cases vs) (auto simp: fits_page_def null_bitmap_size_def)
  moreover have "\<exists>w. tuple_value schema k t = ok w \<and> same_value (vs ! k) w \<and> Value_to_string w = ok (ss ! k)" if k: "k < length vs" for k
  proof -
    have v: "storable_value (vs ! j)" if "j < length vs" for j using assms(1) that by (auto simp: list_all2_conv_all_nth)
    then have "\<forall>j < k. \<not> is_null (vs ! j)" using k by (auto simp: storable_value_def)
    then obtain w where "tuple_value schema k t = ok w" "same_value (vs ! k) w" using get k by blast
    then show ?thesis using text_same [OF v [OF k]] assms(1) k by (auto simp: list_all2_conv_all_nth)
  qed
  ultimately show thesis using that t by (simp add: tm)
qed

subsection \<open>The expressions of the queries\<close>

definition person_image :: "int \<Rightarrow> int \<Rightarrow> int \<Rightarrow> u8 list" where
  "person_image i a b = (case new_Tuple make_people_columns (person i a b) of Inr t \<Rightarrow> bytes t | Inl _ \<Rightarrow> [])"

lemma person_tuple:
  assumes "people_range i a b"
  shows "new_Tuple make_people_columns (person i a b) = ok (tuple_of (person_image i a b))" and "fits_page (person_image i a b)"
    and "k < 9 \<Longrightarrow> \<exists>w. tuple_value make_people_columns k (tuple_of (person_image i a b)) = ok w \<and> same_value (person i a b ! k) w \<and>
      Value_to_string w = ok (person_texts i a b ! k)"
proof -
  have l: "length (person i a b) = 9" by (simp add: person_def)
  then have "length (person i a b) \<le> 30" "person i a b \<noteq> []" by auto
  from texts_tuple [OF person_column [OF assms] this] obtain bs where bs: "new_Tuple make_people_columns (person i a b) = ok (tuple_of bs)"
    "fits_page bs" "\<And>k. k < length (person i a b) \<Longrightarrow> \<exists>w. tuple_value make_people_columns k (tuple_of bs) = ok w \<and>
      same_value (person i a b ! k) w \<and> Value_to_string w = ok (person_texts i a b ! k)" by blast
  then have "person_image i a b = bs" by (simp add: person_image_def tuple_of_def)
  then show "new_Tuple make_people_columns (person i a b) = ok (tuple_of (person_image i a b))" "fits_page (person_image i a b)"
    "k < 9 \<Longrightarrow> \<exists>w. tuple_value make_people_columns k (tuple_of (person_image i a b)) = ok w \<and> same_value (person i a b ! k) w \<and>
      Value_to_string w = ok (person_texts i a b ! k)"
    using bs l by simp_all
qed

definition demo_predicate :: Expression where
  "demo_predicate = Expression (LogicExpression And)
     [Expression (ComparisonExpression Equal) [new_ColumnValueExpression 0 7 (new_column ''is_active'' BOOLEAN),
        Expression (ConstantValueExpression (get_boolean_value 1)) [] (val_column BOOLEAN)] (val_column BOOLEAN),
      Expression (ComparisonExpression Equal) [new_ColumnValueExpression 0 6 (new_column ''is_lived'' TINYINT),
        Expression (ConstantValueExpression (get_tiny_int_value 1)) [] (val_column TINYINT)] (val_column BOOLEAN)] (val_column BOOLEAN)"

lemma build_predicate_people: "build_predicate make_people_columns = ok demo_predicate"
  by code_simp

lemma person_flags:
  assumes "people_range i a b"
  obtains v w where "tuple_value make_people_columns 7 (tuple_of (person_image i a b)) = ok v" and "\<not> is_null v" and "data_type v = BOOLEAN"
    and "get_as_int 1 v = ok b"
    and "tuple_value make_people_columns 6 (tuple_of (person_image i a b)) = ok w" and "int_ok w" and "int_value w = a" and "\<not> is_null w"
proof -
  have d: "draw a" "draw b" using assms by (simp_all add: people_range_def)
  obtain v where v: "tuple_value make_people_columns 7 (tuple_of (person_image i a b)) = ok v" "same_value (get_boolean_value_cmp (cmp_of_int b)) v"
    using person_tuple(3) [OF assms, of 7] by (auto simp: person_def)
  obtain w where w: "tuple_value make_people_columns 6 (tuple_of (person_image i a b)) = ok w" "same_value (get_tiny_int_value a) w"
    using person_tuple(3) [OF assms, of 6] by (auto simp: person_def)
  note b = boolean_ctor [OF d(2)]
  have "get_as_int 1 v = ok b" using same_get_int [OF v(2), of 1] b
    by (simp add: get_boolean_value_cmp_def Value_int8_def)
  moreover have "\<not> is_null v" "data_type v = BOOLEAN" using v(2) b by (simp_all add: same_value_def)
  moreover have t: "int_ok (get_tiny_int_value a)" "int_value (get_tiny_int_value a) = a" "\<not> is_null (get_tiny_int_value a)"
    using integer_ctor(3,4,6) [of TINYINT a] d(1) by (auto simp: draw_def int_type_def in_range_def int_null_def int_max_def get_tiny_int_value_def Value_int8_def)
  moreover have "int_ok w" "int_value w = a" "\<not> is_null w"
    using int_ok_same [OF t(1,3) w(2)] same_value_int [OF w(2) t(3) int_ok_get(5) [OF t(1)]] t w(2) by (simp_all add: same_value_def)
  ultimately show thesis using that v(1) w(1) by blast
qed

lemma person_passes:
  assumes "people_range i a b"
  shows "passes (Some demo_predicate) make_people_columns (tuple_of (person_image i a b)) = ok (a = 1 \<and> b = 1)"
proof (rule person_flags [OF assms])
  fix v w
  assume v: "tuple_value make_people_columns 7 (tuple_of (person_image i a b)) = ok v" "\<not> is_null v" "data_type v = BOOLEAN" "get_as_int 1 v = ok b"
    and w: "tuple_value make_people_columns 6 (tuple_of (person_image i a b)) = ok w" "int_ok w" "int_value w = a" "\<not> is_null w"
  have true: "\<not> is_null (get_boolean_value 1)" "data_type (get_boolean_value 1) = BOOLEAN" 
    "res_bind (Value_cast_as (get_boolean_value 1) BOOLEAN) (get_as_int 1) = ok 1" by code_simp+
  have one: "int_ok (get_tiny_int_value 1)" "int_value (get_tiny_int_value 1) = 1" "\<not> is_null (get_tiny_int_value 1)" by code_simp+
  have "Value_compare EQ v (get_boolean_value 1) = ok (get_cmp_bool (b = 1))"
    using v true by (simp add: Value_compare_def boolean_compare_def check_comparable_def del: One_nat_def)
  moreover have "Value_compare EQ w (get_tiny_int_value 1) = ok (get_cmp_bool (a = 1))"
    using Value_compare_int [OF w(2) one(1)] w one by simp
  moreover have "perform_logic And (get_boolean_value_cmp (get_cmp_bool p)) (get_boolean_value_cmp (get_cmp_bool q)) = ok (get_cmp_bool (p \<and> q))" for p q
    by (cases p; cases q; simp add: logic_node boolean_value get_cmp_bool_def of_truth_def truth_def min_def)
  moreover have flags: "get_as_bool (get_boolean_value_cmp CmpTrue) = ok True" "\<not> is_null (get_boolean_value_cmp CmpTrue)"
    "get_as_bool (get_boolean_value_cmp CmpFalse) = ok False" "\<not> is_null (get_boolean_value_cmp CmpFalse)" by code_simp+
  have "get_as_bool (get_boolean_value_cmp (get_cmp_bool p)) = ok p" "\<not> is_null (get_boolean_value_cmp (get_cmp_bool p))" for p
    using flags by (simp_all add: get_cmp_bool_def)
  ultimately show ?thesis using v(1) w(1)
    by (simp add: passes_def demo_predicate_def new_ColumnValueExpression_def column_of_def combine_def perform_comparison_def conj_commute)
qed

text \<open>The projected row: id, name, weight, height, is_lived, is_active, date_of_birth and weight + height.\<close>

definition shown_texts :: "int \<Rightarrow> int \<Rightarrow> int \<Rightarrow> string list" where
  "shown_texts i a b = [int_to_string i, ''user_'' @ int_to_string i, int_to_string (i * 7), int_to_string (i * 10), int_to_string a,
     if b = 1 then ''true'' else ''false'', birth, int_to_string (i * 17)]"

definition demo_projections :: "Expression list" where
  "demo_projections = map (\<lambda>(k, c). new_ColumnValueExpression 0 k c) (zip [0, 1, 3, 4, 6, 7, 8]
       [new_column ''id'' BIGINT, new_column ''name'' VARCHAR, new_column ''weight'' INTEGER, new_column ''height'' INTEGER,
        new_column ''height'' INTEGER, new_column ''is_lived'' TINYINT, new_column ''is_active'' BOOLEAN]) @
     [Expression (ArithmeticExpression Addition) [new_ColumnValueExpression 0 3 (new_column ''weight'' INTEGER),
        new_ColumnValueExpression 0 4 (new_column ''height'' INTEGER)] (val_column INTEGER)]"

lemma query_projections_people: "query_projections make_people_columns = ok demo_projections"
  by code_simp

text \<open>The sum of two INTEGER columns.\<close>

lemma integer_sum:
  assumes v: "int_ok v" "data_type v = INTEGER" "\<not> is_null v" and w: "int_ok w" "data_type w = INTEGER" "\<not> is_null w"
    and r: "in_range 4 (int_value v + int_value w)" "int_value v + int_value w \<noteq> int_null 4"
  shows "Value_arith Plus v w = ok (Value_int 4 INTEGER (int_value v + int_value w))"
  using Value_arith_int [OF v(1) w(1) v(3) w(3), of Plus] v(2) w(2) r by (simp add: exact_arith_def wider_def Let_def)

lemma person_numbers:
  assumes "people_range i a b"
  obtains x y where "tuple_value make_people_columns 3 (tuple_of (person_image i a b)) = ok x" and "int_ok x" and "int_value x = i * 7"
    and "data_type x = INTEGER" and "\<not> is_null x"
    and "tuple_value make_people_columns 4 (tuple_of (person_image i a b)) = ok y" and "int_ok y" and "int_value y = i * 10"
    and "data_type y = INTEGER" and "\<not> is_null y"
proof -
  have n: "int_ok v \<and> int_value v = x \<and> data_type v = INTEGER \<and> \<not> is_null v" if "same_value (get_integer_value x) v" "0 < x" "x < 1000000" for x v
  proof -
    have t: "int_ok (get_integer_value x)" "int_value (get_integer_value x) = x" "\<not> is_null (get_integer_value x)"
      using integer_ctor(3,4,6) [of INTEGER x] that(2,3) by (simp_all add: int_type_def in_range_def int_null_def int_max_def get_integer_value_def Value_int32_def)
    show ?thesis using int_ok_same [OF t(1,3) that(1)] same_value_int [OF that(1) t(3) int_ok_get(5) [OF t(1)]] t that(1)
      by (auto simp: same_value_def get_integer_value_def Value_int32_def)
  qed
  obtain x where x: "tuple_value make_people_columns 3 (tuple_of (person_image i a b)) = ok x" "same_value (get_integer_value (i * 7)) x"
    using person_tuple(3) [OF assms, of 3] by (auto simp: person_def)
  obtain y where y: "tuple_value make_people_columns 4 (tuple_of (person_image i a b)) = ok y" "same_value (get_integer_value (i * 10)) y"
    using person_tuple(3) [OF assms, of 4] by (auto simp: person_def)
  show thesis using that n [OF x(2)] n [OF y(2)] x(1) y(1) assms by (simp add: people_range_def)
qed

lemma person_projected:
  assumes "people_range i a b"
  defines "plan \<equiv> \<lparr>pp_schema = make_projection_columns, pp_expressions = demo_projections\<rparr>"
  obtains bs where "project_row plan make_people_columns (tuple_of (person_image i a b)) = ok (tuple_of bs)"
    and "\<And>k. k < 8 \<Longrightarrow> value_text make_projection_columns (tuple_of bs) k = ok (shown_texts i a b ! k)"
proof -
  let ?t = "tuple_of (person_image i a b)" and ?P = "\<lambda>v s. storable_value v \<and> Value_to_string v = ok s \<and> size_in_tuple v \<le> 104"
  have i: "0 < i" "i < 10000" using assms(1) by (simp_all add: people_range_def)
  have col: "\<exists>w. tuple_value make_people_columns k ?t = ok w \<and> data_type w = data_type (person i a b ! k) \<and> ?P w (person_texts i a b ! k)" if k: "k < 9" for k
  proof -
    have p: "?P (person i a b ! k) (person_texts i a b ! k)"
      using person_column(1) [OF assms(1)] k by (simp add: list_all2_conv_all_nth person_def)
    obtain w where w: "tuple_value make_people_columns k ?t = ok w" "same_value (person i a b ! k) w" "Value_to_string w = ok (person_texts i a b ! k)"
      using person_tuple(3) [OF assms(1) k] by blast
    have s: "storable_value w" using storable_same [of "person i a b ! k"] p w(2) by blast
    have d: "data_type w = data_type (person i a b ! k)" using w(2) by (simp add: same_value_def)
    have "size_in_tuple w = size_in_tuple (person i a b ! k)"
      using same_size [OF _ w(2)] p by blast
    then show ?thesis using p w s d by auto
  qed
  have types: "map data_type (person i a b) = [BIGINT, VARCHAR, SMALLINT, INTEGER, INTEGER, DECIMAL, TINYINT, BOOLEAN, TIMESTAMP]"
    using person_column(2) [OF assms(1)] by (simp add: make_people_columns_def new_column_def)
  have l: "length (person i a b) = 9" by (simp add: person_def)
  have ty: "data_type (person i a b ! k) = [BIGINT, VARCHAR, SMALLINT, INTEGER, INTEGER, DECIMAL, TINYINT, BOOLEAN, TIMESTAMP] ! k" if "k < 9" for k
    using nth_map [of k "person i a b" data_type] that unfolding types l by simp
  define w where "w k = (SOME w. tuple_value make_people_columns k ?t = ok w)" for k
  have w: "tuple_value make_people_columns k ?t = ok (w k) \<and> ?P (w k) (person_texts i a b ! k)"
    "data_type (w k) = [BIGINT, VARCHAR, SMALLINT, INTEGER, INTEGER, DECIMAL, TINYINT, BOOLEAN, TIMESTAMP] ! k" if "k < 9" for k
    using col [OF that] ty [OF that] by (auto simp: w_def)
  obtain x y where n: "tuple_value make_people_columns 3 ?t = ok x" "int_ok x" "int_value x = i * 7" "data_type x = INTEGER" "\<not> is_null x"
    "tuple_value make_people_columns 4 ?t = ok y" "int_ok y" "int_value y = i * 10" "data_type y = INTEGER" "\<not> is_null y"
    by (rule person_numbers [OF assms(1)])
  let ?sum = "Value_int 4 INTEGER (i * 17)"
  have sum: "Value_arith Plus x y = ok ?sum"
    using integer_sum [OF n(2,4,5,7,9,10)] n(3,8) i by (simp add: in_range_def int_null_def int_max_def mult.commute [of i])
  have ps: "?P ?sum (int_to_string (i * 17))"
    using integer_ctor(1,2,5) [of INTEGER "i * 17"] i by (simp add: int_type_def in_range_def int_null_def int_max_def)
  let ?vs = "[w 0, w 1, w 3, w 4, w 6, w 7, w 8, ?sum]"
  have "evaluate_all demo_projections (Some ?t) make_people_columns = ok ?vs"
    using w(1) [of 0] w(1) [of 1] w(1) [of 3] w(1) [of 4] w(1) [of 6] w(1) [of 7] w(1) [of 8] n(1,6) sum
    by (simp add: evaluate_all_def demo_projections_def new_ColumnValueExpression_def column_of_def combine_def perform_arithmetic_def)
  moreover have "list_all2 ?P ?vs (shown_texts i a b)"
    using w(1) [of 0] w(1) [of 1] w(1) [of 3] w(1) [of 4] w(1) [of 6] w(1) [of 7] w(1) [of 8] ps
    by (simp add: shown_texts_def person_texts_def)
  moreover have "map data_type ?vs = map col_type make_projection_columns"
    using w(2) [of 0] w(2) [of 1] w(2) [of 3] w(2) [of 4] w(2) [of 6] w(2) [of 7] w(2) [of 8]
    by (simp add: make_projection_columns_def new_column_def)
  ultimately have r: "evaluate_all demo_projections (Some ?t) make_people_columns = ok ?vs" "list_all2 ?P ?vs (shown_texts i a b)"
    "map data_type ?vs = map col_type make_projection_columns" by blast+
  have v: "length ?vs \<le> 30" "?vs \<noteq> []" "length ?vs = 8" by simp_all
  obtain bs where bs: "new_Tuple make_projection_columns ?vs = ok (tuple_of bs)"
    "\<And>k. k < length ?vs \<Longrightarrow> \<exists>u. tuple_value make_projection_columns k (tuple_of bs) = ok u \<and> same_value (?vs ! k) u \<and>
      Value_to_string u = ok (shown_texts i a b ! k)"
    using texts_tuple [OF r(2,3) v(1,2)] by metis
  show thesis
  proof (rule that)
    show "project_row plan make_people_columns ?t = ok (tuple_of bs)"
      using r(1) bs(1) by (simp add: project_row_def plan_def Tuple_copy_def tuple_of_def)
    fix k :: nat assume "k < 8"
    then show "value_text make_projection_columns (tuple_of bs) k = ok (shown_texts i a b ! k)"
      using bs(2) [of k] v(3) by (auto simp: value_text_def)
  qed
qed

text \<open>The age i + 1 is odd exactly when i is even.\<close>

definition demo_odd_age :: Expression where
  "demo_odd_age = Expression (ComparisonExpression NotEqual)
     [Expression (ArithmeticExpression ModuloOp) [new_ColumnValueExpression 0 2 (new_column ''age'' SMALLINT),
        Expression (ConstantValueExpression (get_small_int_value 2)) [] (val_column SMALLINT)] (val_column SMALLINT),
      Expression (ConstantValueExpression (get_small_int_value 0)) [] (val_column SMALLINT)] (val_column BOOLEAN)"

lemma odd_age_people: "odd_age make_people_columns = ok demo_odd_age"
  by code_simp

lemma person_odd:
  assumes "people_range i a b"
  shows "passes (Some demo_odd_age) make_people_columns (tuple_of (person_image i a b)) = ok (even i)"
proof -
  have i: "0 < i" "i < 10000" using assms by (simp_all add: people_range_def)
  have t: "int_ok (get_small_int_value (i + 1))" "int_value (get_small_int_value (i + 1)) = i + 1" "\<not> is_null (get_small_int_value (i + 1))"
    "data_type (get_small_int_value (i + 1)) = SMALLINT"
    using integer_ctor(3,4,6) [of SMALLINT "i + 1"] i by (simp_all add: int_type_def in_range_def int_null_def int_max_def get_small_int_value_def Value_int16_def)
  obtain v where v: "tuple_value make_people_columns 2 (tuple_of (person_image i a b)) = ok v" "same_value (get_small_int_value (i + 1)) v"
    using person_tuple(3) [OF assms, of 2] by (auto simp: person_def)
  have vi: "int_ok v" "int_value v = i + 1" "\<not> is_null v" "data_type v = SMALLINT"
    using int_ok_same [OF t(1,3) v(2)] same_value_int [OF v(2) t(3) int_ok_get(5) [OF t(1)]] t v(2) by (auto simp: same_value_def)
  have two: "int_ok (get_small_int_value 2)" "int_value (get_small_int_value 2) = 2" "\<not> is_null (get_small_int_value 2)" "data_type (get_small_int_value 2) = SMALLINT"
    by code_simp+
  have zero: "int_ok (get_small_int_value 0)" "int_value (get_small_int_value 0) = 0" "\<not> is_null (get_small_int_value 0)" by code_simp+
  let ?r = "(i + 1) mod 2"
  have ex: "exact Modulo (i + 1) 2 = ?r" using i by (simp add: tmod_def)
  have r01: "?r = 0 \<or> ?r = 1" by presburger
  obtain e where "Value_arith Modulo v (get_small_int_value 2) = (if int_value (get_small_int_value 2) = 0 then throw e
      else exact_arith Modulo v (get_small_int_value 2))"
    using Value_division_exact [OF vi(1) two(1) vi(3) two(3)] by blast
  then have "Value_arith Modulo v (get_small_int_value 2) = ok (Value_int 2 SMALLINT ?r)"
    using two vi ex r01 by (auto simp: exact_arith_def wider_def Let_def in_range_def int_null_def int_max_def)
  moreover have "Value_compare NE (Value_int 2 SMALLINT ?r) (get_small_int_value 0) = ok (get_cmp_bool (?r \<noteq> 0))"
    using Value_compare_int [OF _ zero(1), of "Value_int 2 SMALLINT ?r" NE] integer_ctor(3,4,6) [of SMALLINT ?r] zero r01
    by (auto simp: int_type_def in_range_def int_null_def int_max_def)
  moreover have flags: "get_as_bool (get_boolean_value_cmp CmpTrue) = ok True" "\<not> is_null (get_boolean_value_cmp CmpTrue)"
    "get_as_bool (get_boolean_value_cmp CmpFalse) = ok False" "\<not> is_null (get_boolean_value_cmp CmpFalse)" by code_simp+
  have "get_as_bool (get_boolean_value_cmp (get_cmp_bool p)) = ok p" "\<not> is_null (get_boolean_value_cmp (get_cmp_bool p))" for p
    using flags by (simp_all add: get_cmp_bool_def)
  moreover have "?r \<noteq> 0 \<longleftrightarrow> even i" by presburger
  ultimately show ?thesis using v(1)
    by (simp add: passes_def demo_odd_age_def new_ColumnValueExpression_def column_of_def combine_def perform_comparison_def perform_arithmetic_def)
qed

end
