(* ===== verification/Demo_Properties.thy ===== *)
theory Demo_Properties
  imports Demo_Rows
begin

section \<open>What the demonstration prints\<close>

text \<open>
  INSERT, SELECT, DELETE and SELECT again, as main runs them on a new database: from the numbers and the draws to the text on
  the screen. The layers in between are those of the other theories; what is added here is the output.
\<close>

declare split_paired_All [simp del] split_paired_Ex [simp del]

subsection \<open>The rows to insert\<close>

lemma constant_ok:
  assumes "storable_value v"
  shows "\<exists>c. new_ConstantValueExpression v = ok (Expression (ConstantValueExpression v) [] c)"
proof -
  have "data_type v \<noteq> INVALID" using assms by (auto simp: storable_value_def)
  then show ?thesis
    using image_storable(2) [OF assms] by (auto simp: new_ConstantValueExpression_def Value_column_def split: DataType.split)
qed

lemma constants_ok:
  "\<forall>v \<in> set vs. storable_value v \<Longrightarrow> \<exists>es. res_map new_ConstantValueExpression vs = ok es \<and> evaluate_all es None [] = ok vs"
proof (induction vs)
  case (Cons v vs)
  then obtain es where "res_map new_ConstantValueExpression vs = ok es" "evaluate_all es None [] = ok vs" by auto
  moreover obtain c where "new_ConstantValueExpression v = ok (Expression (ConstantValueExpression v) [] c)"
    using constant_ok [of v] Cons.prems by auto
  ultimately show ?case by (simp add: evaluate_all_def)
qed (simp add: evaluate_all_def)

text \<open>The stored row of the number i, for the given draws.\<close>

definition people :: "(int \<Rightarrow> int \<times> int) \<Rightarrow> int \<Rightarrow> u8 list" where
  "people dist i = person_image i (fst (dist i)) (snd (dist i))"

definition drawn :: "(int \<Rightarrow> int \<times> int) \<Rightarrow> int \<Rightarrow> bool" where
  "drawn dist i \<longleftrightarrow> people_range i (fst (dist i)) (snd (dist i))"

lemma value_rows_of:
  "\<forall>i \<in> set is. drawn dist i \<Longrightarrow> \<exists>es. res_map (\<lambda>i. res_bind (people_values i (fst (dist i)) (snd (dist i)))
      (res_map new_ConstantValueExpression)) is = ok es \<and>
    values_rows \<lparr>vp_schema = make_people_columns, vp_values = vv\<rparr> es = ok (map (\<lambda>i. (tuple_of (people dist i), default_RecordId)) is)"
proof (induction "is")
  case (Cons i js)
  then obtain es where es: "res_map (\<lambda>i. res_bind (people_values i (fst (dist i)) (snd (dist i)))
      (res_map new_ConstantValueExpression)) js = ok es"
    "values_rows \<lparr>vp_schema = make_people_columns, vp_values = vv\<rparr> es = ok (map (\<lambda>i. (tuple_of (people dist i), default_RecordId)) js)"
    by auto
  have r: "people_range i (fst (dist i)) (snd (dist i))" using Cons.prems by (simp add: drawn_def)
  have "\<forall>v \<in> set (person i (fst (dist i)) (snd (dist i))). storable_value v"
    using person_column(1) [OF r] by (auto simp: list_all2_conv_all_nth in_set_conv_nth)
  then obtain e where "res_map new_ConstantValueExpression (person i (fst (dist i)) (snd (dist i))) = ok e"
    "evaluate_all e None [] = ok (person i (fst (dist i)) (snd (dist i)))" using constants_ok by blast
  then show ?case using es people_values_person [OF r] person_tuple(1) [OF r] by (simp add: values_rows_def values_row_def people_def)
qed (simp add: values_rows_def)

subsection \<open>Printing\<close>

fun comma_separated :: "string list \<Rightarrow> string" where
  "comma_separated [] = []"
| "comma_separated [s] = s"
| "comma_separated (s # ss) = s @ '', '' @ comma_separated ss"

text \<open>The line of the k-th row, and the report of a scan that gives the listed numbers under their record ids.\<close>

definition person_line :: "(int \<Rightarrow> int \<times> int) \<Rightarrow> nat \<Rightarrow> int \<times> RecordId \<Rightarrow> string" where
  "person_line dist k p = ''row '' @ int_to_string (int k) @ '': ['' @
     comma_separated (shown_texts (fst p) (fst (dist (fst p))) (snd (dist (fst p)))) @ ''] at '' @ RecordId_to_string (snd p) @ nl"

fun person_lines :: "(int \<Rightarrow> int \<times> int) \<Rightarrow> nat \<Rightarrow> (int \<times> RecordId) list \<Rightarrow> string" where
  "person_lines dist k [] = []"
| "person_lines dist k (p # ps) = person_line dist k p @ person_lines dist (k + 1) ps"

definition scan_report :: "(int \<Rightarrow> int \<times> int) \<Rightarrow> (int \<times> RecordId) list \<Rightarrow> string" where
  "scan_report dist ps = person_lines dist 0 ps @ ''--- Scan complete ('' @ int_to_string (int (length ps)) @ '' rows) ---'' @ nl"

lemma print_values:
  assumes "\<forall>k \<in> set ks. value_text schema t k = ok (txt k)"
  shows "each (print_value schema t) ks (z, l) =
    Some ((z, l\<lparr>out := out l @ concat (map (\<lambda>k. txt k @ (if k < length schema - 1 then '', '' else [])) ks)\<rparr>), ok ())"
  using assms by (induction ks arbitrary: l) (simp_all add: print_value_def run_bind_def attempt_def say_def)

lemma print_person:
  assumes "\<And>k. k < 8 \<Longrightarrow> value_text make_projection_columns t k = ok (shown_texts i (fst (dist i)) (snd (dist i)) ! k)"
  shows "print_row make_projection_columns (t, rid) (z, l) =
    Some ((z, l\<lparr>out := out l @ person_line dist (row_number l) (i, rid), row_number := row_number l + 1\<rparr>), ok ())"
proof -
  let ?s = "shown_texts i (fst (dist i)) (snd (dist i))"
  have len: "length make_projection_columns = 8" by (simp add: make_projection_columns_def)
  have "concat (map (\<lambda>k. ?s ! k @ (if k < length make_projection_columns - 1 then '', '' else [])) [0..<8]) = comma_separated ?s"
    unfolding len by (simp add: shown_texts_def upt_rec)
  moreover have "each (print_value make_projection_columns t) [0..<8] (z, l') =
      Some ((z, l'\<lparr>out := out l' @ concat (map (\<lambda>k. ?s ! k @ (if k < length make_projection_columns - 1 then '', '' else [])) [0..<8])\<rparr>), ok ())" for l'
    using assms by (intro print_values) simp
  ultimately show ?thesis
    by (simp add: print_row_def run_bind_def say_def len person_line_def)
qed

lemma fold_lines:
  "fold (\<lambda>p l. l\<lparr>out := out l @ person_line dist (row_number l) p, row_number := row_number l + 1\<rparr>) ps l =
    l\<lparr>out := out l @ person_lines dist (row_number l) ps, row_number := row_number l + length ps\<rparr>"
  by (induction ps arbitrary: l) simp_all

lemma say_run: "say t (z, l) = Some ((z, l\<lparr>out := out l @ t\<rparr>), ok ())"
  by (simp add: say_def)

lemma with_local_run: "m z = Some (z1, r) \<Longrightarrow> with_local m (z, l) = Some ((z1, l), r)"
  by (simp add: with_local_def)

text \<open>The loop around a statement that returns its count and is then exhausted.\<close>

lemma print_count_loop:
  assumes "next_rows z = Some (z1, ok ([r], True))" and "next_rows z1 = Some (z1, ok ([], False))" and "value_text schema (fst r) 0 = ok txt"
  shows "while_batches (with_local next_rows) (print_count done schema) (z, l) =
    Some ((z1, l\<lparr>out := out l @ done @ '' '' @ txt @ '' rows'' @ nl\<rparr>), ok ())"
proof -
  have w: "with_local next_rows (z, l) = Some ((z1, l), ok ([r], True))" "with_local next_rows (z1, l') = Some ((z1, l'), ok ([], False))" for l'
    using assms(1,2) by (simp_all add: with_local_def)
  have p: "print_count done schema [r] (z1, l) = Some ((z1, l\<lparr>out := out l @ done @ '' '' @ txt @ '' rows'' @ nl\<rparr>), ok ())"
    using assms(3) by (simp add: print_count_def run_bind_def attempt_def say_def)
  show ?thesis by (subst while_batches.simps, simp add: w p, subst while_batches.simps, simp add: w)
qed

text \<open>The text of a count that the caller reads from the row of an INSERT or a DELETE.\<close>

lemma count_text:
  assumes "tuple_value schema 0 t = ok w" and "same_value (Value_int32 INTEGER (sint (of_nat n :: u32))) w" and "n < 10000"
  shows "value_text schema t 0 = ok (int_to_string (int n))"
proof -
  have "sint (of_nat n :: u32) = int n" using assms(3) by (simp add: sint_uint uint_nat unat_of_nat signed_take_bit_int_eq_self)
  then have w: "same_value (Value_int 4 INTEGER (int n)) w" using assms(2) by (simp add: Value_int32_def)
  have "storable_value (Value_int 4 INTEGER (int n))" "Value_to_string (Value_int 4 INTEGER (int n)) = ok (int_to_string (int n))"
    using integer_ctor(1,2) [of INTEGER "int n"] assms(3) by (simp_all add: int_type_def in_range_def int_null_def int_max_def)
  then show ?thesis using text_same [OF _ w] assms(1) by (simp add: value_text_def)
qed

subsection \<open>The table of people\<close>

text \<open>The table whose rows are those of the numbers that \<open>at\<close> gives for their record ids.\<close>

definition holds_people :: "(int \<Rightarrow> int \<times> int) \<Rightarrow> (RecordId \<Rightarrow> int option) \<Rightarrow> TableOid \<Rightarrow> handles \<Rightarrow> PageId list \<Rightarrow> Catalog \<Rightarrow> TableInfo \<Rightarrow> bool" where
  "holds_people dist at oid hs ps c info \<longleftrightarrow> table_ready oid hs ps c info \<and> rows_of c info ps = (\<lambda>rid. map_option (people dist) (at rid)) \<and>
     finite (dom at) \<and> inj_on at (dom at) \<and> (\<forall>i \<in> ran at. drawn dist i)"

definition insert_report :: "nat \<Rightarrow> string" where
  "insert_report n = ''--- Inserting rows via executor pipeline ---'' @ nl @ ''Inserted '' @ int_to_string (int n) @ '' rows'' @ nl"

lemma inj_map_of_zip:
  assumes "length xs = length ys" and "distinct ys"
  shows "inj_on (map_of (zip xs ys)) (dom (map_of (zip xs ys)))"
proof (rule inj_onI)
  fix a b assume a: "a \<in> dom (map_of (zip xs ys))" and e: "map_of (zip xs ys) a = map_of (zip xs ys) b"
  then obtain y where "map_of (zip xs ys) a = Some y" "map_of (zip xs ys) b = Some y" by fastforce
  then have "(a, y) \<in> set (zip xs ys)" "(b, y) \<in> set (zip xs ys)" by (auto dest: map_of_SomeD)
  then obtain j k where "j < length ys" "xs ! j = a" "ys ! j = y" "k < length ys" "xs ! k = b" "ys ! k = y"
    by (auto simp: in_set_zip)
  then show "a = b" using assms(2) by (metis nth_eq_iff_index_eq)
qed

lemma run_insert_people:
  assumes t: "insertable oid hs ps c info" and empty: "rows_of c info ps = Map.empty" and n: "n < 10000"
    and pages: "unat (next_page_id (bpm c)) + n < 2 ^ 32" and dr: "\<forall>i \<in> {1..int n}. drawn dist i"
    and vals: "build_value_rows dist n = ok values"
  shows "\<exists>c' at info' ps'. run_insert make_people_columns values oid (c, l) = Some ((c', l\<lparr>out := out l @ insert_report n\<rparr>), ok ()) \<and>
    holds_people dist at oid hs ps' c' info' \<and> ran at = {1..int n}"
proof -
  let ?plan = "\<lparr>mp_schema = count_schema, mp_table_oid = oid\<rparr>" and ?vplan = "\<lparr>vp_schema = make_people_columns, vp_values = values\<rparr>"
  let ?is = "[1..int n]" and ?x = "new_InsertExecutor (0 :: nat)"
  let ?rows = "map (\<lambda>i. (tuple_of (people dist i), default_RecordId)) ?is"
  have "\<forall>i \<in> set ?is. drawn dist i" using dr by simp
  then have rows: "values_rows ?vplan (vp_values ?vplan) = ok ?rows"
    using value_rows_of [of ?is dist "values"] vals by (auto simp: build_value_rows_def)
  have fits: "\<forall>r \<in> set ?rows. fits_page (bytes (fst r))"
    using dr person_tuple(2) by (auto simp: tuple_of_def people_def drawn_def)
  have plan: "mp_table_oid ?plan = oid" "map col_type (mp_schema ?plan) = [INTEGER]" by (simp_all add: count_schema_def new_column_def)
  have len: "length ?rows = n" by simp
  have k: "0 < k_batch_size" by (simp add: k_batch_size_def)
  obtain s0 c' y t w info' ps' where r: "insert_init ?plan values_init (c, ?x) = Some (s0, ok ())"
    "insert_next ?plan (values_next ?vplan) k_batch_size s0 = Some ((c', y), ok ([(t, default_RecordId)], True))"
    "tuple_value (mp_schema ?plan) 0 t = ok w" "same_value (Value_int32 INTEGER (sint (of_nat n :: u32))) w"
    "added oid hs c info ps (map (\<lambda>r. bytes (fst r)) ?rows) c' info' ps'" "in_has_emitted_count y"
    using insert_values [OF t plan k rows fits, of ?x] pages len by metis
  have "insert_next ?plan (values_next ?vplan) k_batch_size (c', y) = Some ((c', y), ok ([], False))"
    using r(6) by (simp add: insert_next_def)
  moreover have "value_text count_schema t 0 = ok (int_to_string (int n))" using count_text [OF r(3,4) n] by simp
  ultimately have loop: "while_batches (with_local (insert_next ?plan (values_next ?vplan) k_batch_size)) (print_count ''Inserted'' count_schema) (s0, l') =
      Some (((c', y), l'\<lparr>out := out l' @ ''Inserted'' @ '' '' @ int_to_string (int n) @ '' rows'' @ nl\<rparr>), ok ())" for l'
    using print_count_loop [of "insert_next ?plan (values_next ?vplan) k_batch_size" s0 "(c', y)" "(t, default_RecordId)" count_schema] r(2) by simp
  have run: "run_insert make_people_columns values oid (c, l) = Some ((c', l\<lparr>out := out l @ insert_report n\<rparr>), ok ())"
    using r(1) by (simp only: run_insert_def Let_def with_executor_def run_bind_def say_run with_local_run fst_conv snd_conv option.case prod.case sum.case loop) (simp add: insert_report_def)
  have images: "map (\<lambda>r. bytes (fst r)) ?rows = map (people dist) ?is" by (simp add: tuple_of_def)
  from r(5) obtain rids where rids: "insertable oid hs ps' c' info'" "length rids = length ?is" "distinct rids"
    "rows_of c' info' ps' = map_of (zip rids (map (people dist) ?is))" unfolding images by (auto simp: added_def empty)
  let ?at = "map_of (zip rids ?is)"
  have "rows_of c' info' ps' = (\<lambda>rid. map_option (people dist) (?at rid))"
    by (simp only: rids(4) zip_map2 map_of_map comp_def)
  moreover have "ran ?at = {1..int n}" using rids(2,3) by (simp add: ran_map_of_zip)
  moreover have "inj_on ?at (dom ?at)" using rids(2,3) by (intro inj_map_of_zip) simp_all
  ultimately have "holds_people dist ?at oid hs ps' c' info'"
    using rids(1) dr finite_dom_map_of by (simp add: holds_people_def insertable_def)
  then show ?thesis using run \<open>ran ?at = {1..int n}\<close> by blast
qed

subsection \<open>The query\<close>

definition query_report :: "(int \<Rightarrow> int \<times> int) \<Rightarrow> TableOid \<Rightarrow> (int \<times> RecordId) list \<Rightarrow> string" where
  "query_report dist oid ps = ''--- Filtered SeqScan over table='' @ [CHR 0x27] @ ''people'' @ [CHR 0x27] @ '' (oid='' @ int_to_string (uint oid) @ '') ---'' @ nl @
     ''id BIGINT  name VARCHAR  weight INTEGER  height INTEGER  is_lived TINYINT  is_active BOOLEAN  date_of_birth TIMESTAMP  weight_height INTEGER  '' @ nl @
     scan_report dist ps"

text \<open>Each number of the set once, under record ids that differ.\<close>

definition lists_people :: "(int \<times> RecordId) list \<Rightarrow> int set \<Rightarrow> bool" where
  "lists_people ps I \<longleftrightarrow> set (map fst ps) = I \<and> distinct (map fst ps) \<and> distinct (map snd ps)"

lemma projection_header: "schema_header make_projection_columns =
    ''id BIGINT  name VARCHAR  weight INTEGER  height INTEGER  is_lived TINYINT  is_active BOOLEAN  date_of_birth TIMESTAMP  weight_height INTEGER  '' @ nl"
  by (simp add: make_projection_columns_def new_column_def)

definition demo_image :: "u8 list \<Rightarrow> Tuple" where
  "demo_image bs = (case project_row \<lparr>pp_schema = make_projection_columns, pp_expressions = demo_projections\<rparr> make_people_columns (tuple_of bs) of
     Inr t \<Rightarrow> t | Inl _ \<Rightarrow> empty_Tuple)"

definition demo_keep :: "u8 list \<Rightarrow> bool" where
  "demo_keep bs \<longleftrightarrow> passes (Some demo_predicate) make_people_columns (tuple_of bs) = ok True"

lemma demo_row:
  assumes "drawn dist i"
  shows "passes (Some demo_predicate) make_people_columns (tuple_of (people dist i)) = ok (demo_keep (people dist i))"
    and "demo_keep (people dist i) \<longleftrightarrow> dist i = (1, 1)"
    and "project_row \<lparr>pp_schema = make_projection_columns, pp_expressions = demo_projections\<rparr> make_people_columns (tuple_of (people dist i)) =
      ok (demo_image (people dist i))"
    and "k < 8 \<Longrightarrow> value_text make_projection_columns (demo_image (people dist i)) k = ok (shown_texts i (fst (dist i)) (snd (dist i)) ! k)"
proof -
  have r: "people_range i (fst (dist i)) (snd (dist i))" using assms by (simp add: drawn_def)
  note p = person_passes [OF r]
  show k: "demo_keep (people dist i) \<longleftrightarrow> dist i = (1, 1)" using p by (auto simp: demo_keep_def people_def prod_eq_iff)
  show "passes (Some demo_predicate) make_people_columns (tuple_of (people dist i)) = ok (demo_keep (people dist i))"
    using p k by (auto simp: people_def prod_eq_iff)
  obtain bs where bs: "project_row \<lparr>pp_schema = make_projection_columns, pp_expressions = demo_projections\<rparr> make_people_columns
      (tuple_of (person_image i (fst (dist i)) (snd (dist i)))) = ok (tuple_of bs)"
    "\<And>k. k < 8 \<Longrightarrow> value_text make_projection_columns (tuple_of bs) k = ok (shown_texts i (fst (dist i)) (snd (dist i)) ! k)"
    using person_projected [OF r] by blast
  then have "demo_image (people dist i) = tuple_of bs" by (simp add: demo_image_def people_def)
  then show "project_row \<lparr>pp_schema = make_projection_columns, pp_expressions = demo_projections\<rparr> make_people_columns (tuple_of (people dist i)) =
      ok (demo_image (people dist i))"
    "k < 8 \<Longrightarrow> value_text make_projection_columns (demo_image (people dist i)) k = ok (shown_texts i (fst (dist i)) (snd (dist i)) ! k)"
    using bs by (simp_all add: people_def)
qed

lemma lists_kept:
  assumes live: "map_of live = (\<lambda>rid. map_option (people dist) (at rid))" "distinct (map fst live)"
    and inj: "inj_on at (dom at)" and dr: "\<And>i. i \<in> ran at \<Longrightarrow> drawn dist i"
  shows "lists_people (map (\<lambda>r. (the (at (fst r)), fst r)) (filter (\<lambda>r. demo_keep (snd r)) live)) {i \<in> ran at. dist i = (1, 1)}"
proof -
  let ?kept = "filter (\<lambda>r. demo_keep (snd r)) live"
  have row: "\<exists>i. at (fst r) = Some i \<and> snd r = people dist i \<and> drawn dist i" if "r \<in> set live" for r
  proof -
    have "map_of live (fst r) = Some (snd r)" using live(2) that by (metis map_of_is_SomeI prod.collapse)
    then obtain i where i: "at (fst r) = Some i" "snd r = people dist i" by (auto simp: live(1))
    then have "drawn dist i" by (intro dr ranI)
    then show ?thesis using i by blast
  qed
  have "(the (at (fst r)) \<in> ran at \<and> dist (the (at (fst r))) = (1, 1))" if "r \<in> set ?kept" for r
    using row [of r] that demo_row(2) by (auto simp: ran_def)
  moreover have "\<exists>r \<in> set ?kept. i = the (at (fst r))" if i: "i \<in> ran at" "dist i = (1, 1)" for i
  proof -
    from i(1) obtain rid where rid: "at rid = Some i" by (auto simp: ran_def)
    then have "(rid, people dist i) \<in> set live" by (intro map_of_SomeD) (simp add: live(1))
    then show ?thesis using demo_row(2) [OF dr [OF i(1)]] i(2) rid by (intro bexI [of _ "(rid, people dist i)"]) simp_all
  qed
  ultimately have "(\<lambda>r. the (at (fst r))) ` set ?kept = {i \<in> ran at. dist i = (1, 1)}" by blast
  moreover have d: "distinct (map fst ?kept)" using live(2) by (rule distinct_map_filter)
  have "inj_on (\<lambda>rid. the (at rid)) (set (map fst ?kept))"
  proof (rule inj_onI)
    fix a b assume "a \<in> set (map fst ?kept)" "b \<in> set (map fst ?kept)" and e: "the (at a) = the (at b)"
    then have "a \<in> dom at" "b \<in> dom at" using row by fastforce+
    moreover from this have "at a = at b" using e by auto
    ultimately show "a = b" by (intro inj_onD [OF inj])
  qed
  then have "distinct (map (\<lambda>rid. the (at rid)) (map fst ?kept))" using d by (simp only: distinct_map)
  ultimately show ?thesis using d by (simp add: lists_people_def comp_def image_image)
qed

lemma run_query_people:
  assumes t: "holds_people dist at oid hs ps c info"
  shows "\<exists>c' shown l'. run_query_demo make_people_columns make_people_columns oid (c, l) = Some ((c', l'), ok ()) \<and>
    out l' = out l @ query_report dist oid shown \<and> lists_people shown {i \<in> ran at. dist i = (1, 1)} \<and> holds_people dist at oid hs ps c' info"
proof -
  let ?plan = "\<lparr>pp_schema = make_projection_columns, pp_expressions = demo_projections\<rparr>"
  let ?x = "new_ProjectionExecutor (new_FilterExecutor new_SeqScanExecutor)"
  let ?next = "projection_next ?plan make_people_columns (filter_next (Some demo_predicate) make_people_columns seq_scan_next)"
  have ready: "table_ready oid hs ps c info" and rows: "rows_of c info ps = (\<lambda>rid. map_option (people dist) (at rid))"
    and inj: "inj_on at (dom at)" and dr: "\<And>i. i \<in> ran at \<Longrightarrow> drawn dist i"
    using t by (auto simp: holds_people_def)
  have at_row: "\<exists>i. at rid = Some i \<and> bs = people dist i \<and> drawn dist i" if "rows_of c info ps rid = Some bs" for rid bs
    using that dr by (auto simp: rows ran_def)
  have total: "passes (Some demo_predicate) make_people_columns (tuple_of bs) = ok (demo_keep bs) \<and>
      (demo_keep bs \<longrightarrow> project_row ?plan make_people_columns (tuple_of bs) = ok (demo_image bs))"
    if "rows_of c info ps rid = Some bs" for rid bs
    using at_row [OF that] demo_row(1,3) by blast
  have fresh: "pr_child_offset ?x = 0" "f_child_offset (pr_child ?x) = 0" by (simp_all add: new_ProjectionExecutor_def new_FilterExecutor_def)
  obtain live s where s: "map_of live = rows_of c info ps" "distinct (map fst live)"
    "projection_init (filter_init (seq_scan_init oid)) (c, ?x) = Some (s, ok ())"
    "project_yields (filter_yields (scan_yields oid info hs ps (heap_page (bpm c) (ti_table info))) (passes (Some demo_predicate) make_people_columns))
      (project_row ?plan make_people_columns) s (map (\<lambda>r. (demo_image (snd r), fst r)) (filter (\<lambda>r. demo_keep (snd r)) live))"
    using select_start [OF ready fresh, of "Some demo_predicate" make_people_columns demo_keep ?plan demo_image] total by blast
  let ?kept = "filter (\<lambda>r. demo_keep (snd r)) live"
  let ?rows = "map (\<lambda>r. (demo_image (snd r), fst r)) ?kept"
  let ?shown = "map (\<lambda>r. (the (at (fst r)), fst r)) ?kept"
  have person: "at (fst r) = Some (the (at (fst r))) \<and> snd r = people dist (the (at (fst r))) \<and> drawn dist (the (at (fst r)))" if "r \<in> set live" for r
  proof -
    have "rows_of c info ps (fst r) = Some (snd r)" using s(1,2) that by (metis map_of_is_SomeI prod.collapse)
    then show ?thesis using at_row by fastforce
  qed
  let ?f = "\<lambda>q l. l\<lparr>out := out l @ person_line dist (row_number l) (the (at (snd q)), snd q), row_number := row_number l + 1\<rparr>"
  have step: "print_row make_projection_columns q (z, l) = Some ((z, ?f q l), ok ())" if "q \<in> set ?rows" for q l and z :: "Catalog \<times> SeqScanExecutor FilterExecutor ProjectionExecutor"
  proof -
    from that obtain r where r: "q = (demo_image (snd r), fst r)" "r \<in> set live" by auto
    have "value_text make_projection_columns (demo_image (snd r)) k =
        ok (shown_texts (the (at (fst r))) (fst (dist (the (at (fst r))))) (snd (dist (the (at (fst r))))) ! k)" if "k < 8" for k
      using demo_row(4) [OF _ that] person [OF r(2)] by metis
    then show ?thesis unfolding r(1) snd_conv by (rule print_person)
  qed
  let ?l0 = "l\<lparr>out := (out l @ ''--- Filtered SeqScan over table='' @ [CHR 0x27] @ ''people'' @ [CHR 0x27] @ '' (oid='' @ int_to_string (uint oid) @ '') ---'' @ nl) @
      schema_header make_projection_columns, row_number := 0\<rparr>"
  have k: "0 < k_batch_size" by (simp add: k_batch_size_def)
  obtain s' where d: "while_batches (with_local (?next k_batch_size)) (each (print_row make_projection_columns)) (s, ?l0) = Some ((s', fold ?f ?rows ?l0), ok ())"
    "project_yields (filter_yields (scan_yields oid info hs ps (heap_page (bpm c) (ti_table info))) (passes (Some demo_predicate) make_people_columns))
      (project_row ?plan make_people_columns) s' []"
    using select_query.drain_fold [OF s(4) k, of "print_row make_projection_columns" ?f ?l0] step by blast
  have "fold ?f ?rows l' = fold (\<lambda>p l. l\<lparr>out := out l @ person_line dist (row_number l) p, row_number := row_number l + 1\<rparr>) ?shown l'" for l'
    by (simp add: fold_map comp_def)
  then have folded: "fold ?f ?rows l' = l'\<lparr>out := out l' @ person_lines dist (row_number l') ?shown, row_number := row_number l' + length ?shown\<rparr>" for l'
    by (simp only: fold_lines)
  have loop: "while_batches (with_local (?next k_batch_size)) (each (print_row make_projection_columns)) (s, ?l0) =
      Some ((s', ?l0\<lparr>out := out ?l0 @ person_lines dist (row_number ?l0) ?shown, row_number := row_number ?l0 + length ?shown\<rparr>), ok ())"
    using d(1) unfolding folded .
  let ?l1 = "l\<lparr>out := out l @ query_report dist oid ?shown, row_number := length ?shown\<rparr>"
  let ?head = "''--- Filtered SeqScan over table='' @ [CHR 0x27] @ ''people'' @ [CHR 0x27] @ '' (oid='' @ int_to_string (uint oid) @ '') ---'' @ nl"
  have start: "l\<lparr>out := out l @ ?head\<rparr>\<lparr>out := out (l\<lparr>out := out l @ ?head\<rparr>) @ schema_header make_projection_columns\<rparr>\<lparr>row_number := 0\<rparr> = ?l0"
    by simp
  have run: "run_query_demo make_people_columns make_people_columns oid (c, l) = Some ((fst s', ?l1), ok ())"
    by (simp only: run_query_demo_def build_predicate_people query_projections_people run_bind_def attempt_def Let_def with_executor_def
        say_run with_local_run [of "projection_init (filter_init (seq_scan_init oid))", OF s(3)] print_rows_def fst_conv snd_conv
        option.case prod.case sum.case start loop prod.case_eq_if)
      (simp add: query_report_def projection_header scan_report_def)
  have "lists_people ?shown {i \<in> ran at. dist i = (1, 1)}"
    by (rule lists_kept [OF _ s(2) inj dr]) (simp_all only: s(1) rows)
  moreover have "holds_people dist at oid hs ps (fst s') info"
    using select_ready [OF ready d(2)] t by (simp add: holds_people_def)
  ultimately show ?thesis using run by (intro exI [of _ "fst s'"] exI [of _ ?shown] exI [of _ ?l1]) simp
qed

subsection \<open>The deletion\<close>

definition delete_report :: "nat \<Rightarrow> string" where
  "delete_report n = ''--- Deleting rows with odd age from table='' @ [CHR 0x27] @ ''people'' @ [CHR 0x27] @ '' ---'' @ nl @
     ''Deleted '' @ int_to_string (int n) @ '' rows'' @ nl"

definition demo_delete :: "u8 list \<Rightarrow> bool" where
  "demo_delete bs \<longleftrightarrow> passes (Some demo_odd_age) make_people_columns (tuple_of bs) = ok True"

lemma demo_delete_people:
  assumes "drawn dist i"
  shows "passes (Some demo_odd_age) make_people_columns (tuple_of (people dist i)) = ok (demo_delete (people dist i))"
    and "demo_delete (people dist i) \<longleftrightarrow> even i"
  using person_odd [of i] assms by (auto simp: drawn_def demo_delete_def people_def)

lemma run_delete_people:
  assumes t: "holds_people dist at oid hs ps c info" and small: "card (ran at) < 10000"
  shows "\<exists>c' at' info'. run_delete make_people_columns make_people_columns oid (c, l) =
      Some ((c', l\<lparr>out := out l @ delete_report (card {i \<in> ran at. even i})\<rparr>), ok ()) \<and>
    holds_people dist at' oid hs ps c' info' \<and> ran at' = {i \<in> ran at. odd i}"
proof -
  let ?plan = "\<lparr>mp_schema = count_schema, mp_table_oid = oid\<rparr>"
  let ?x = "new_DeleteExecutor (new_FilterExecutor new_SeqScanExecutor)" and ?n = "card {i \<in> ran at. even i}"
  let ?next = "delete_next ?plan (filter_next (Some demo_odd_age) make_people_columns seq_scan_next) k_batch_size"
  have ready: "table_ready oid hs ps c info" and rows: "rows_of c info ps = (\<lambda>rid. map_option (people dist) (at rid))"
    and inj: "inj_on at (dom at)" and fin: "finite (dom at)" and dr: "\<And>i. i \<in> ran at \<Longrightarrow> drawn dist i"
    using t by (auto simp: holds_people_def)
  have at_del: "demo_delete (people dist i) \<longleftrightarrow> even i" if "at rid = Some i" for rid i
    using demo_delete_people(2) [OF dr [OF ranI [of "at", OF that]]] .
  have del: "rows_of c info ps rid = Some bs \<Longrightarrow> \<exists>i. at rid = Some i \<and> bs = people dist i \<and> drawn dist i" for rid bs
    using dr by (auto simp: rows ran_def)
  have total: "\<forall>rid bs. rows_of c info ps rid = Some bs \<longrightarrow> passes (Some demo_odd_age) make_people_columns (tuple_of bs) = ok (demo_delete bs)"
    using del demo_delete_people(1) by blast
  have gone: "{rid. \<exists>bs. rows_of c info ps rid = Some bs \<and> demo_delete bs} = {rid. \<exists>i. at rid = Some i \<and> even i}"
    using at_del by (auto simp: rows)
  have "card {rid. \<exists>i. at rid = Some i \<and> even i} = card ((\<lambda>rid. the (at rid)) ` {rid. \<exists>i. at rid = Some i \<and> even i})"
    using inj by (intro card_image [symmetric] inj_onI) (auto simp: inj_on_def dom_def)
  also have "(\<lambda>rid. the (at rid)) ` {rid. \<exists>i. at rid = Some i \<and> even i} = {i \<in> ran at. even i}"
    by (force simp: ran_def image_iff)
  finally have card: "card {rid. \<exists>bs. rows_of c info ps rid = Some bs \<and> demo_delete bs} = ?n" unfolding gone .
  have "finite (ran at)" using fin by (rule finite_ran)
  then have "?n < 10000" using card_mono [of "ran at" "{i \<in> ran at. even i}"] small by auto
  have plan: "mp_table_oid ?plan = oid" "map col_type (mp_schema ?plan) = [INTEGER]" by (simp_all add: count_schema_def new_column_def)
  have k: "0 < k_batch_size" by (simp add: k_batch_size_def)
  have fresh: "f_child_offset (de_child ?x) = 0" by (simp add: new_DeleteExecutor_def new_FilterExecutor_def)
  from delete_where [OF ready plan k fresh total] obtain s0 c' y tp w info' where
    r: "delete_init ?plan (filter_init (seq_scan_init oid)) (c, ?x) = Some (s0, ok ())"
    "?next s0 = Some ((c', y), ok ([(tp, default_RecordId)], True))" "tuple_value (mp_schema ?plan) 0 tp = ok w"
    "same_value (Value_int32 INTEGER (sint (of_nat ?n :: u32))) w" "table_ready oid hs ps c' info'"
    "rows_of c' info' ps = (\<lambda>rid. case rows_of c info ps rid of Some bs \<Rightarrow> if demo_delete bs then None else Some bs | None \<Rightarrow> None)"
    "de_has_emitted_count y" unfolding card by blast
  have "?next (c', y) = Some ((c', y), ok ([], False))" using r(7) by (simp add: delete_next_def)
  moreover have "value_text count_schema tp 0 = ok (int_to_string (int ?n))" using count_text [OF r(3,4)] \<open>?n < 10000\<close> by simp
  ultimately have loop: "while_batches (with_local ?next) (print_count ''Deleted'' count_schema) (s0, l') =
      Some (((c', y), l'\<lparr>out := out l' @ ''Deleted'' @ '' '' @ int_to_string (int ?n) @ '' rows'' @ nl\<rparr>), ok ())" for l'
    using print_count_loop [of ?next s0 "(c', y)" "(tp, default_RecordId)" count_schema] r(2) by simp
  have run: "run_delete make_people_columns make_people_columns oid (c, l) = Some ((c', l\<lparr>out := out l @ delete_report ?n\<rparr>), ok ())"
    by (simp only: run_delete_def odd_age_people attempt_def Let_def with_executor_def run_bind_def say_run
        with_local_run [of "delete_init ?plan (filter_init (seq_scan_init oid))", OF r(1)] fst_conv snd_conv option.case prod.case sum.case loop)
      (simp add: delete_report_def)
  let ?at = "\<lambda>rid. case at rid of Some i \<Rightarrow> if even i then None else Some i | None \<Rightarrow> None"
  have "rows_of c' info' ps = (\<lambda>rid. map_option (people dist) (?at rid))"
    using at_del by (auto simp: r(6) rows fun_eq_iff split: option.split)
  moreover have "ran ?at = {i \<in> ran at. odd i}" by (auto simp: ran_def split: option.splits if_splits)
  moreover have "dom ?at \<subseteq> dom at" "inj_on ?at (dom ?at)" using inj by (auto simp: inj_on_def dom_def split: option.splits if_splits)
  ultimately have "holds_people dist ?at oid hs ps c' info'"
    using r(5) dr fin by (auto simp: holds_people_def intro: finite_subset)
  then show ?thesis using run \<open>ran ?at = {i \<in> ran at. odd i}\<close> by blast
qed

subsection \<open>The composition\<close>

lemma card_even: "card {i \<in> {1..int n}. even i} = n div 2"
proof -
  have "{i \<in> {1..int n}. even i} = (\<lambda>k. 2 * k) ` {1..int n div 2}"
    by (auto simp: image_iff elim!: evenE)
  moreover have "inj_on (\<lambda>k :: int. 2 * k) {1..int n div 2}" by (simp add: inj_on_def)
  ultimately show ?thesis by (simp add: card_image nat_div_distrib)
qed

lemma build_rows_ok:
  assumes "\<forall>i \<in> {1..int n}. drawn dist i"
  obtains es where "build_value_rows dist n = ok es"
proof -
  have "\<forall>i \<in> set [1..int n]. drawn dist i" using assms by simp
  from value_rows_of [OF this] show thesis using that by (auto simp: build_value_rows_def)
qed


lemma lists_one:
  assumes "lists_people ps {i}"
  shows "\<exists>rid. ps = [(i, rid)]"
proof -
  have "set (map fst ps) = {i}" "distinct (map fst ps)" using assms by (simp_all add: lists_people_def)
  then have "length (map fst ps) = 1" using distinct_card [of "map fst ps"] by simp
  then obtain p where "ps = [p]" by (cases ps) auto
  then show ?thesis using \<open>set (map fst ps) = {i}\<close> by (cases p) simp
qed


end
