(* ===== verification/Aggregation_Semantics.thy ===== *)
theory Aggregation_Semantics
  imports Aggregation IntegerSemantics
begin

section \<open>What the aggregate functions compute\<close>

text \<open>
  The result of an aggregate function over the values of one group, in the order in which the rows arrive. SUM, MIN
  and MAX fold one operation of Value over the values that are not NULL; over the integer types the folds are the sum,
  the minimum and the maximum of the numbers.
\<close>

subsection \<open>One function over the values of a group\<close>

fun agg_updates :: "AggregateFunction \<Rightarrow> AggregateState \<Rightarrow> Value list \<Rightarrow> AggregateState res" where
  "agg_updates f st [] = ok st"
| "agg_updates f st (v # vs) = res_bind (agg_update f st [v]) (\<lambda>st. agg_updates f st vs)"

definition aggregate :: "AggregateFunction \<Rightarrow> Value list \<Rightarrow> Value res" where
  "aggregate f vs = res_bind (agg_updates f (create_state f) vs) (agg_finalize f)"

lemma agg_updates_append: "agg_updates f st (xs @ ys) = res_bind (agg_updates f st xs) (\<lambda>st. agg_updates f st ys)"
  by (induction f st xs rule: agg_updates.induct) (auto simp: res_bind_def split: sum.splits)

fun op_fold :: "(Value \<Rightarrow> Value \<Rightarrow> Value res) \<Rightarrow> Value \<Rightarrow> Value list \<Rightarrow> Value res" where
  "op_fold op x [] = ok x"
| "op_fold op x (y # ys) = res_bind (op x y) (\<lambda>z. op_fold op z ys)"

fun value_op :: "AggregateFunction \<Rightarrow> (Value \<Rightarrow> Value \<Rightarrow> Value res) option" where
  "value_op SumFunction = Some (Value_arith Plus)"
| "value_op MinFunction = Some Value_min"
| "value_op MaxFunction = Some Value_max"
| "value_op _ = None"

definition present :: "Value list \<Rightarrow> Value list" where "present = filter (\<lambda>v. \<not> is_null v)"

lemma present_simps [simp]:
  "present [] = []" "present (v # vs) = (if is_null v then present vs else v # present vs)"
  by (simp_all add: present_def)

lemma check_cmp_is_null_iff [simp]: "check_cmp_is_null v \<longleftrightarrow> is_null v"
  by (simp add: check_cmp_is_null_def get_cmp_bool_def)

abbreviation no_null_of_type :: error where
  "no_null_of_type \<equiv> Exception UNKNOWN_TYPE ''Attempting to create invalid null type''"

lemma value_op_update:
  assumes "value_op f = Some op"
  shows "agg_update f (Basic st) args = res_bind (value_update op st args) (\<lambda>st. ok (Basic st))"
  using assms by (cases f) (auto simp: sum_update_def min_update_def max_update_def)

lemma value_updates:
  assumes "value_op f = Some op" and "basic_is_null st = CmpFalse"
  shows "agg_updates f (Basic st) vs = res_bind (op_fold op (basic_value st) (present vs)) (\<lambda>v. ok (Basic (st\<lparr>basic_value := v\<rparr>)))"
  using assms(2)
proof (induction vs arbitrary: st)
  case (Cons v vs)
  show ?case
  proof (cases "is_null v \<or> (\<exists>e. op (basic_value st) v = Inl e)")
    case True
    then show ?thesis using Cons by (auto simp: value_op_update [OF assms(1)] value_update_def)
  next
    case False
    then obtain z where "\<not> is_null v" "op (basic_value st) v = ok z" by (cases "op (basic_value st) v") auto
    then show ?thesis using Cons.IH [of "st\<lparr>basic_value := z\<rparr>"] Cons.prems
      by (simp add: value_op_update [OF assms(1)] value_update_def)
  qed
qed simp

lemma value_updates_new:
  assumes "value_op f = Some op"
  shows "agg_updates f (Basic new_BasicAccumulatorState) vs = (case present vs of
      [] \<Rightarrow> ok (Basic new_BasicAccumulatorState)
    | x # xs \<Rightarrow> res_bind (op_fold op x xs) (\<lambda>v. ok (Basic (new_BasicAccumulatorState\<lparr>basic_is_null := CmpFalse, basic_value := v\<rparr>))))"
proof (induction vs)
  case (Cons v vs)
  let ?st = "new_BasicAccumulatorState\<lparr>basic_value := v, basic_is_null := CmpFalse\<rparr>"
  show ?case
  proof (cases "is_null v")
    case False
    then have "agg_update f (Basic new_BasicAccumulatorState) [v] = ok (Basic ?st)"
      by (simp add: value_op_update [OF assms] value_update_def new_BasicAccumulatorState_def)
    then show ?thesis using False value_updates [OF assms, of ?st vs] by simp
  qed (use Cons in \<open>simp add: value_op_update [OF assms] value_update_def\<close>)
qed simp

lemma value_aggregate:
  assumes "value_op f = Some op"
  shows "aggregate f vs = (case present vs of [] \<Rightarrow> throw no_null_of_type | x # xs \<Rightarrow> op_fold op x xs)"
proof -
  have "create_state f = Basic new_BasicAccumulatorState" using assms by (cases f) auto
  moreover have "agg_finalize f (Basic st) = value_finalize st" for st using assms by (cases f) (auto simp: sum_finalize_def min_finalize_def max_finalize_def)
  ultimately have "aggregate f vs = res_bind (agg_updates f (Basic new_BasicAccumulatorState) vs) (agg_finalize f)"
    and fin: "\<And>st. agg_finalize f (Basic st) = value_finalize st" by (simp_all add: aggregate_def)
  moreover have "value_finalize new_BasicAccumulatorState = throw no_null_of_type"
    by (simp add: value_finalize_def new_BasicAccumulatorState_def get_null_value_by_type_def)
  moreover have "value_finalize (st\<lparr>basic_is_null := CmpFalse, basic_value := v\<rparr>) = ok v" for st v
    by (simp add: value_finalize_def)
  ultimately show ?thesis
    by (cases "present vs"; cases "op_fold op (hd (present vs)) (tl (present vs))") (simp_all add: value_updates_new [OF assms])
qed

lemma count_updates:
  "agg_updates CountStarFunction (Basic st) vs = ok (Basic (st\<lparr>basic_count := basic_count st + of_nat (length vs),
     basic_is_null := if vs = [] then basic_is_null st else CmpFalse\<rparr>))"
  "agg_updates CountFunction (Basic st) vs = ok (Basic (st\<lparr>basic_count := basic_count st + of_nat (length (present vs)),
     basic_is_null := if present vs = [] then basic_is_null st else CmpFalse\<rparr>))"
  by (induction vs arbitrary: st) (simp_all add: count_star_update_def count_update_def add.assoc)

lemma sint_of_nat:
  assumes "n < 2 ^ (LENGTH('a) - 1)"
  shows "sint (of_nat n :: 'a::len word) = int n"
proof -
  have "int n < 2 ^ (LENGTH('a) - 1)" using assms by (metis of_nat_less_iff of_nat_numeral of_nat_power)
  moreover have "- (2 ^ (LENGTH('a) - 1)) \<le> int n" by (rule order_trans [of _ 0]) simp_all
  ultimately show ?thesis by (simp add: signed_of_nat signed_take_bit_int_eq_self)
qed

lemma count_aggregates:
  assumes "length vs < 2 ^ 31"
  shows "aggregate CountStarFunction vs = ok (get_big_int_value (int (length vs)))"
    and "aggregate CountFunction vs = ok (get_integer_value (int (length (present vs))))"
proof -
  have "length (present vs) < 2 ^ 31" using assms le_less_trans [OF length_filter_le assms] by (simp add: present_def)
  then have "sint (ucast (of_nat (length (present vs)) :: u64) :: u32) = int (length (present vs))"
    using sint_of_nat [where 'a = 32, of "length (present vs)"] by (simp add: unsigned_of_nat take_bit_nat_eq_self)
  then show "aggregate CountFunction vs = ok (get_integer_value (int (length (present vs))))"
    by (simp add: aggregate_def count_updates new_BasicAccumulatorState_def count_finalize_def)
  have "sint (of_nat (length vs) :: u64) = int (length vs)" using sint_of_nat [where 'a = 64, of "length vs"] assms by simp
  then show "aggregate CountStarFunction vs = ok (get_big_int_value (int (length vs)))"
    by (simp add: aggregate_def count_updates new_BasicAccumulatorState_def count_star_finalize_def)
qed

subsection \<open>Integer columns\<close>

definition int_number :: "DataType \<Rightarrow> int \<Rightarrow> Value \<Rightarrow> bool" where
  "int_number t x v \<longleftrightarrow> int_ok v \<and> \<not> is_null v \<and> data_type v = t \<and> int_value v = x"

lemma Value_min_max_int:
  assumes "int_number t x l" and "int_number t y r"
  shows "\<exists>v. Value_min l r = ok v \<and> int_number t (min x y) v" and "\<exists>v. Value_max l r = ok v \<and> int_number t (max x y) v"
proof -
  note lr = assms [unfolded int_number_def]
  have min: "Value_min l r = if_less (Value_compare LT l r) l r" and max: "Value_max l r = if_less (Value_compare GT l r) l r"
    using lr int_ok_get(5) [of l] tinyint.guard_ok [of l r]
    by (auto simp: Value_min_def Value_max_def Value_compare_def tinyint.min_law smallint.min_law integer.min_law bigint.min_law
        tinyint.max_law smallint.max_law integer.max_law bigint.max_law elim!: check_integer_cases)
  have copy: "\<exists>v. Value_copy w = ok v \<and> int_number t z v" if "int_number t z w" for w z
    using that int_copy_facts [of w] by (simp add: int_number_def Value_copy_int)
  show "\<exists>v. Value_min l r = ok v \<and> int_number t (min x y) v" "\<exists>v. Value_max l r = ok v \<and> int_number t (max x y) v"
    using lr copy [OF assms(1)] copy [OF assms(2)]
    by (auto simp: min max if_less_def Value_compare_int get_cmp_bool_def min_def max_def)
qed

text \<open>An operation that computes g on the numbers folds to the fold of g.\<close>

lemma op_fold_numbers:
  assumes op: "\<And>l r x y. int_number t x l \<Longrightarrow> int_number t y r \<Longrightarrow> \<exists>v. op l r = ok v \<and> int_number t (g x y) v"
    and "list_all2 (int_number t) ns vs" and "int_number t n v"
  shows "\<exists>w. op_fold op v vs = ok w \<and> int_number t (fold (\<lambda>y x. g x y) ns n) w"
  using assms(2,3)
proof (induction ns vs arbitrary: n v rule: list_all2_induct)
  case (Cons y ys w ws)
  from op [OF Cons.prems Cons.hyps(1)] obtain z where "op v w = ok z" "int_number t (g n y) z" by blast
  then show ?case using Cons.IH by simp
qed simp

subsection \<open>Sums\<close>

definition proper :: "DataType \<Rightarrow> int \<Rightarrow> bool" where
  "proper t z \<longleftrightarrow> int_min (int_size t) \<le> z \<and> z \<le> int_max (int_size t)"

lemma proper_iff: "proper t z \<longleftrightarrow> in_range (int_size t) z \<and> z \<noteq> int_null (int_size t)"
  using int_limits [of "int_size t"] by (auto simp: proper_def in_range_def)

definition sum_error :: "DataType \<Rightarrow> int \<Rightarrow> error" where
  "sum_error t z = (if in_range (max 4 (int_size t)) z then out_of_range else Undefined ''signed integer overflow'')"

lemma Value_add_numbers:
  assumes "int_number t x l" and "int_number t y r"
  shows "proper t (x + y) \<Longrightarrow> \<exists>v. Value_arith Plus l r = ok v \<and> int_number t (x + y) v"
    and "x + y = int_null (int_size t) \<Longrightarrow> \<exists>v. Value_arith Plus l r = ok v \<and> is_null v \<and> check_integer v"
    and "\<not> in_range (int_size t) (x + y) \<Longrightarrow> Value_arith Plus l r = throw (sum_error t (x + y))"
proof -
  have lr: "int_ok l" "int_ok r" "\<not> is_null l" "\<not> is_null r" "data_type l = t" "data_type r = t" "int_value l = x" "int_value r = y"
    using assms by (auto simp: int_number_def)
  have add: "Value_arith Plus l r = exact_arith Plus l r" by (rule Value_arith_int [OF lr(1-4)]) simp
  have w: "wider l r = t" using lr by (simp add: wider_def)
  have fits: "\<exists>v. exact_arith Plus l r = ok v \<and> int_ok v \<and> data_type v = t \<and> int_value v = x + y
      \<and> (is_null v \<longleftrightarrow> x + y = int_null (int_size t))" if "in_range (int_size t) (x + y)"
  proof -
    have v: "exact_arith Plus l r = ok (Value_int (int_size t) t (x + y))" using that lr w by (simp add: exact_arith_def)
    from exact_arith_ok [OF lr(1,2) v] v show ?thesis using lr w by simp
  qed
  then show "proper t (x + y) \<Longrightarrow> \<exists>v. Value_arith Plus l r = ok v \<and> int_number t (x + y) v"
    by (auto simp: add proper_iff int_number_def)
  have "in_range (int_size t) (int_null (int_size t))"
    using int_limits [of "int_size t"] by (auto simp: in_range_def)
  then show "x + y = int_null (int_size t) \<Longrightarrow> \<exists>v. Value_arith Plus l r = ok v \<and> is_null v \<and> check_integer v"
    using fits int_ok_get(5) by (metis add)
  show "\<not> in_range (int_size t) (x + y) \<Longrightarrow> Value_arith Plus l r = throw (sum_error t (x + y))"
    using lr w by (simp add: add exact_arith_def sum_error_def)
qed

lemma null_sum:
  assumes "is_null v" and "check_integer v" and "\<forall>w \<in> set ws. check_integer w"
  shows "\<exists>w. op_fold (Value_arith Plus) v ws = ok w \<and> is_null w \<and> check_integer w"
  using assms
proof (induction ws arbitrary: v)
  case (Cons w ws)
  then obtain z where "Value_arith Plus v w = ok z" "is_null z" "check_integer z"
    using Value_arith_null [of v w Plus] by auto
  then show ?case using Cons.IH [of z] Cons.prems(3) by simp
qed simp

text \<open>The sum from n on: exact while every partial sum is proper, decided by the first one that is not.\<close>

lemma sum_proper:
  assumes "list_all2 (int_number t) ns vs" and "int_number t n v" and "\<forall>k \<le> length ns. proper t (n + sum_list (take k ns))"
  shows "\<exists>w. op_fold (Value_arith Plus) v vs = ok w \<and> int_number t (n + sum_list ns) w"
  using assms
proof (induction ns vs arbitrary: n v rule: list_all2_induct)
  case (Cons y ys w ws)
  have p: "\<forall>k \<le> length ys. proper t (n + y + sum_list (take k ys))"
    using Cons.prems(2) by (auto dest: spec [of _ "Suc _"] simp: add.assoc)
  then have "proper t (n + y)" by (auto dest: spec [of _ 0])
  with Value_add_numbers(1) [OF Cons.prems(1) Cons.hyps(1)] obtain z where "Value_arith Plus v w = ok z" "int_number t (n + y) z"
    by blast
  then show ?case using Cons.IH [OF _ p, of z] by (simp add: add.assoc)
qed simp

lemma sum_improper:
  assumes "list_all2 (int_number t) ns vs" and "int_number t n v" and "k \<le> length ns"
    and "\<forall>j < k. proper t (n + sum_list (take j ns))" and "\<not> proper t (n + sum_list (take k ns))" and "0 < k"
  shows "if n + sum_list (take k ns) = int_null (int_size t)
    then \<exists>w. op_fold (Value_arith Plus) v vs = ok w \<and> is_null w \<and> check_integer w
    else op_fold (Value_arith Plus) v vs = throw (sum_error t (n + sum_list (take k ns)))"
  using assms
proof (induction ns vs arbitrary: n v k rule: list_all2_induct)
  case (Cons y ys w ws)
  from Cons.prems(5) obtain m where k: "k = Suc m" by (cases k) auto
  note add = Value_add_numbers [OF Cons.prems(1) Cons.hyps(1)]
  have ints: "\<forall>w \<in> set ws. check_integer w"
    using Cons.hyps(2) by (auto simp: list_all2_conv_all_nth in_set_conv_nth int_number_def int_ok_get(5))
  show ?case
  proof (cases "m = 0")
    case True
    show ?thesis
    proof (cases "n + y = int_null (int_size t)")
      case True
      from add(2) [OF this] null_sum ints show ?thesis using k True \<open>m = 0\<close> by auto
    next
      case False
      then have "\<not> in_range (int_size t) (n + y)" using Cons.prems(4) k \<open>m = 0\<close> by (simp add: proper_iff)
      from add(3) [OF this] show ?thesis using k False \<open>m = 0\<close> by simp
    qed
  next
    case False
    have p: "\<forall>j < m. proper t (n + y + sum_list (take j ys))"
      using Cons.prems(3) k by (auto dest: spec [of _ "Suc _"] simp: add.assoc)
    then have "proper t (n + y)" using False by (auto dest: spec [of _ 0])
    from add(1) [OF this] obtain z where z: "Value_arith Plus v w = ok z" "int_number t (n + y) z" by blast
    have "m \<le> length ys" "\<not> proper t (n + y + sum_list (take m ys))" "0 < m"
      using Cons.prems(2,4) k False by (simp_all add: add.assoc)
    from Cons.IH [OF z(2) this(1) p this(2,3)] show ?thesis using k z(1) by (simp add: add.assoc)
  qed
qed simp

subsection \<open>Averages\<close>

lemma avg_updates:
  assumes "moment_is_null st = CmpFalse"
  shows "agg_updates AvgFunction (Moment st) vs = res_bind (op_fold (Value_arith Plus) (moment_sum st) (present vs))
    (\<lambda>v. ok (Moment (st\<lparr>moment_sum := v, moment_count := moment_count st + of_nat (length (present vs))\<rparr>)))"
  using assms
proof (induction vs arbitrary: st)
  case (Cons v vs)
  show ?case
  proof (cases "is_null v \<or> (\<exists>e. Value_arith Plus (moment_sum st) v = Inl e)")
    case True
    then show ?thesis using Cons by (auto simp: avg_update_def)
  next
    case False
    then obtain z where "\<not> is_null v" "Value_arith Plus (moment_sum st) v = ok z" by (cases "Value_arith Plus (moment_sum st) v") auto
    then show ?thesis using Cons.IH [of "st\<lparr>moment_sum := z, moment_count := moment_count st + 1\<rparr>"] Cons.prems
      by (simp add: avg_update_def add.assoc)
  qed
qed simp

lemma avg_updates_new:
  "agg_updates AvgFunction (Moment new_MomentAccumulatorState) vs = (case present vs of
      [] \<Rightarrow> ok (Moment new_MomentAccumulatorState)
    | x # xs \<Rightarrow> res_bind (op_fold (Value_arith Plus) x xs) (\<lambda>v. ok (Moment
        \<lparr>moment_sum = v, moment_count = of_nat (length (present vs)), moment_is_null = CmpFalse\<rparr>)))"
proof (induction vs)
  case (Cons v vs)
  let ?st = "\<lparr>moment_sum = v, moment_count = 1, moment_is_null = CmpFalse\<rparr>"
  show ?case
  proof (cases "is_null v")
    case False
    then have "agg_update AvgFunction (Moment new_MomentAccumulatorState) [v] = ok (Moment ?st)"
      by (simp add: avg_update_def new_MomentAccumulatorState_def)
    then show ?thesis using False avg_updates [of ?st vs] by (simp add: add.commute)
  qed (use Cons in \<open>simp add: avg_update_def cong: list.case_cong\<close>)
qed simp

text \<open>The average is the sum divided by the DECIMAL of the number of values.\<close>

lemma avg_aggregate:
  assumes "length vs < 2 ^ 31"
  shows "aggregate AvgFunction vs = (case present vs of [] \<Rightarrow> throw no_null_of_type
    | x # xs \<Rightarrow> res_bind (op_fold (Value_arith Plus) x xs) (\<lambda>v.
        Value_arith Divided v (get_decimal_value (fp_of_int (int (length (present vs)))))))"
proof -
  let ?n = "of_nat (length (present vs)) :: u64"
  have "length (present vs) < 2 ^ 31" unfolding present_def by (rule le_less_trans [OF length_filter_le assms])
  then have len: "length (present vs) < 2 ^ 64" by simp
  then have n: "uint ?n = int (length (present vs))" by (simp add: unsigned_of_nat take_bit_nat_eq_self)
  then have pos: "?n \<noteq> 0" if "present vs \<noteq> []" using that by (auto simp: n dest: arg_cong [where f = uint])
  have "avg_finalize new_MomentAccumulatorState = throw no_null_of_type"
    by (simp add: avg_finalize_def new_MomentAccumulatorState_def get_null_value_by_type_def)
  moreover have "avg_finalize \<lparr>moment_sum = v, moment_count = ?n, moment_is_null = CmpFalse\<rparr> =
      Value_arith Divided v (get_decimal_value (fp_of_int (int (length (present vs)))))" if "present vs \<noteq> []" for v
    using n pos [OF that] by (simp add: avg_finalize_def)
  ultimately show ?thesis
    by (cases "present vs"; cases "op_fold (Value_arith Plus) (hd (present vs)) (tl (present vs))")
      (simp_all add: aggregate_def avg_updates_new)
qed

lemma divide_by_decimal:
  assumes "check_integer v"
  shows "Value_arith Divided v (get_decimal_value d) = throw Assert_failed"
  by (rule check_integer_cases [OF assms])
    (use assms in \<open>simp_all add: Value_arith_def tinyint_arith_def smallint_arith_def integer_arith_def bigint_arith_def
      integer_guard_def check_comparable_def check_integer_def get_decimal_value_def\<close>)

subsection \<open>The functions over an integer column\<close>

lemma present_numbers:
  assumes "\<forall>v \<in> set vs. int_ok v \<and> data_type v = t"
  shows "list_all2 (int_number t) (map int_value (present vs)) (present vs)"
  using assms by (induction vs) (auto simp: int_number_def)

lemma min_max_aggregates:
  assumes "\<forall>v \<in> set vs. int_ok v \<and> data_type v = t" and "present vs \<noteq> []"
  shows "\<exists>v. aggregate MinFunction vs = ok v \<and> int_number t (Min (int_value ` set (present vs))) v"
    and "\<exists>v. aggregate MaxFunction vs = ok v \<and> int_number t (Max (int_value ` set (present vs))) v"
proof -
  obtain x xs where x: "present vs = x # xs" using assms(2) by (cases "present vs") auto
  then have n: "int_number t (int_value x) x" "list_all2 (int_number t) (map int_value xs) xs"
    using present_numbers [OF assms(1)] by auto
  have "fold (\<lambda>y x. min x y) ns m = Min (set (m # ns))" "fold (\<lambda>y x. max x y) ns m = Max (set (m # ns))" for ns and m :: int
  proof -
    have "(\<lambda>y x. min x y) = (min :: int \<Rightarrow> int \<Rightarrow> int)" "(\<lambda>y x. max x y) = (max :: int \<Rightarrow> int \<Rightarrow> int)"
      by (simp_all add: fun_eq_iff min.commute max.commute)
    then show "fold (\<lambda>y x. min x y) ns m = Min (set (m # ns))" "fold (\<lambda>y x. max x y) ns m = Max (set (m # ns))"
      by (simp_all only: Min.set_eq_fold Max.set_eq_fold)
  qed
  moreover have "\<exists>w. op_fold Value_min x xs = ok w \<and> int_number t (fold (\<lambda>y x. min x y) (map int_value xs) (int_value x)) w"
    by (rule op_fold_numbers [where g = min, OF _ n(2,1)]) (rule Value_min_max_int(1))
  moreover have "\<exists>w. op_fold Value_max x xs = ok w \<and> int_number t (fold (\<lambda>y x. max x y) (map int_value xs) (int_value x)) w"
    by (rule op_fold_numbers [where g = max, OF _ n(2,1)]) (rule Value_min_max_int(2))
  ultimately show "\<exists>v. aggregate MinFunction vs = ok v \<and> int_number t (Min (int_value ` set (present vs))) v"
    "\<exists>v. aggregate MaxFunction vs = ok v \<and> int_number t (Max (int_value ` set (present vs))) v"
    by (simp_all add: value_aggregate x)
qed

text \<open>The reference: the outcome as a function of the number of rows and the numbers that are not NULL.\<close>

datatype outcome = Number DataType int | Null | Fails error

fun outcome_of :: "Value res \<Rightarrow> outcome" where
  "outcome_of (Inl e) = Fails e"
| "outcome_of (Inr v) = (if is_null v then Null else Number (data_type v) (int_value v))"

definition sum_reference :: "DataType \<Rightarrow> int list \<Rightarrow> outcome" where
  "sum_reference t ns = (case List.find (\<lambda>k. \<not> proper t (sum_list (take k ns))) [1..<Suc (length ns)] of
     None \<Rightarrow> Number t (sum_list ns)
   | Some k \<Rightarrow> (let z = sum_list (take k ns) in if z = int_null (int_size t) then Null else Fails (sum_error t z)))"

fun reference :: "AggregateFunction \<Rightarrow> DataType \<Rightarrow> nat \<Rightarrow> int list \<Rightarrow> outcome" where
  "reference CountStarFunction t rows ns = Number BIGINT (int rows)"
| "reference CountFunction t rows ns = Number INTEGER (int (length ns))"
| "reference f t rows [] = Fails no_null_of_type"
| "reference MinFunction t rows ns = Number t (Min (set ns))"
| "reference MaxFunction t rows ns = Number t (Max (set ns))"
| "reference SumFunction t rows ns = sum_reference t ns"
| "reference AvgFunction t rows ns = (case sum_reference t ns of Fails e \<Rightarrow> Fails e | _ \<Rightarrow> Fails Assert_failed)"

lemma outcome_number: "int_number t x v \<Longrightarrow> outcome_of (ok v) = Number t x"
  by (simp add: int_number_def)

lemma sum_op_fold:
  assumes "list_all2 (int_number t) ns vs" and "int_number t n v"
  shows "outcome_of (op_fold (Value_arith Plus) v vs) = sum_reference t (n # ns)"
    and "op_fold (Value_arith Plus) v vs = ok w \<Longrightarrow> check_integer w"
proof -
  let ?S = "\<lambda>k. sum_list (take k (n # ns))"
  have total: "?S (Suc k) = n + sum_list (take k ns)" for k by simp
  have one: "proper t (?S 1)"
    using assms(2) int_ok_get(2,3) [of v] by (auto simp: int_number_def proper_iff)
  have "outcome_of (op_fold (Value_arith Plus) v vs) = sum_reference t (n # ns) \<and>
      (\<forall>w. op_fold (Value_arith Plus) v vs = ok w \<longrightarrow> check_integer w)"
  proof (cases "List.find (\<lambda>k. \<not> proper t (?S k)) [1..<Suc (length (n # ns))]")
    case None
    then have "\<forall>k \<in> set [1..<Suc (length (n # ns))]. proper t (?S k)" by (simp add: find_None_iff del: upt_Suc)
    moreover have "Suc k \<in> set [1..<Suc (length (n # ns))]" if "k \<le> length ns" for k using that by (simp del: upt_Suc)
    ultimately have "proper t (?S (Suc k))" if "k \<le> length ns" for k using that by blast
    then have "\<forall>k \<le> length ns. proper t (n + sum_list (take k ns))" unfolding total by blast
    from sum_proper [OF assms this] obtain w where w: "op_fold (Value_arith Plus) v vs = ok w" "int_number t (n + sum_list ns) w"
      by blast
    moreover have "check_integer w" using w(2) int_ok_get(5) by (simp add: int_number_def)
    moreover have "sum_reference t (n # ns) = Number t (n + sum_list ns)" using None by (simp add: sum_reference_def del: upt_Suc)
    ultimately show ?thesis using outcome_number [OF w(2)] by simp
  next
    case (Some k)
    then obtain i where i: "i < length (n # ns)" "k = [1..<Suc (length (n # ns))] ! i" "\<not> proper t (?S k)"
      "\<forall>j < i. proper t (?S ([1..<Suc (length (n # ns))] ! j))"
      by (auto simp: find_Some_iff simp del: upt_Suc)
    have k: "k = Suc i" "i \<le> length ns" using i(1,2) by (simp_all del: upt_Suc)
    have "\<not> proper t (n + sum_list (take i ns))" using i(3) k(1) by simp
    moreover have "\<forall>j < i. proper t (n + sum_list (take j ns))"
    proof (intro allI impI)
      fix j assume "j < i"
      then show "proper t (n + sum_list (take j ns))" using i(1,4) by (auto simp del: upt_Suc dest!: spec [of _ j])
    qed
    moreover have "0 < i" using i(3) k(1) one by (cases i) auto
    ultimately show ?thesis using sum_improper [OF assms k(2)] Some k(1)
      by (auto simp: sum_reference_def Let_def simp del: upt_Suc split: if_splits)
  qed
  then show "outcome_of (op_fold (Value_arith Plus) v vs) = sum_reference t (n # ns)"
    "op_fold (Value_arith Plus) v vs = ok w \<Longrightarrow> check_integer w" by simp_all
qed



end
