(* ===== verification/Aggregation_Properties.thy ===== *)
theory Aggregation_Properties
  imports Aggregation_Semantics Query_Properties
begin

section \<open>The aggregation executor\<close>

text \<open>
  GROUP BY against its reference: the rows of the child in groups of equal keys, one output row for each group. The
  lemmas go along the layers of the code: the hash and the equality of keys, one insertion into the hash table, the
  loop of \<open>init\<close> over the batches of the child, the loop of \<open>next\<close> over the table.
\<close>

declare split_paired_All [simp del] split_paired_Ex [simp del]

subsection \<open>Groups\<close>

text \<open>A row of the child is the pair of its key and its arguments. Keys with a NULL are equal to no key.\<close>

type_synonym keyed = "AggregateKey \<times> Value list"

definition same_key :: "AggregateKey \<Rightarrow> AggregateKey \<Rightarrow> bool" where
  "same_key k k' \<longleftrightarrow> list_all2 (\<lambda>v w. \<not> is_null v \<and> \<not> is_null w \<and> int_value v = int_value w) k k'"

function groups :: "keyed list \<Rightarrow> keyed list list" where
  "groups [] = []"
| "groups (p # ps) = (p # filter (\<lambda>q. same_key (fst q) (fst p)) ps) # groups (filter (\<lambda>q. \<not> same_key (fst q) (fst p)) ps)"
  by pat_completeness auto
termination
  by (relation "measure length") (auto simp: le_imp_less_Suc)

lemma groups_partition: "mset (concat (groups ps)) = mset ps"
  by (induction ps rule: groups.induct) auto

lemma groups_not_empty: "g \<in> set (groups ps) \<Longrightarrow> g \<noteq> []"
  by (induction ps rule: groups.induct) auto

lemma groups_subset: "g \<in> set (groups ps) \<Longrightarrow> set g \<subseteq> set ps"
  using groups_partition [of ps] by (metis UN_upper mset_eq_setD set_concat)

text \<open>The group that a row joins, at the place of the first key that is equal.\<close>

fun join_group :: "keyed \<Rightarrow> keyed list list \<Rightarrow> keyed list list" where
  "join_group q [] = [[q]]"
| "join_group q (g # gs) = (if same_key (fst q) (fst (hd g)) then (g @ [q]) # gs else g # join_group q gs)"

lemma groups_snoc: "groups (ps @ [q]) = join_group q (groups ps)"
proof (induction "length ps" arbitrary: ps rule: less_induct)
  case less
  show ?case
  proof (cases ps)
    case (Cons p qs)
    then have "length (filter (\<lambda>q. \<not> same_key (fst q) (fst p)) qs) < length ps" by (simp add: le_imp_less_Suc)
    from less.hyps [OF this] show ?thesis by (simp add: Cons)
  qed simp
qed

lemma joined: "g \<in> set gs \<Longrightarrow> g \<in> set (join_group q gs) \<or> g @ [q] \<in> set (join_group q gs)"
  by (induction gs) auto

subsection \<open>Integer keys\<close>

definition key_ok :: "DataType list \<Rightarrow> AggregateKey \<Rightarrow> bool" where
  "key_ok ts k \<longleftrightarrow> list_all2 (\<lambda>t v. int_ok v \<and> data_type v = t) ts k"

lemma key_eq_int:
  assumes "key_ok ts k" and "key_ok ts k'"
  shows "key_eq k k' = ok (same_key k k')"
  using assms
proof (induction k k' arbitrary: ts rule: key_eq.induct)
  case (3 v vs w ws)
  from "3.prems" obtain us where t: "int_ok v" "int_ok w" "key_ok us vs" "key_ok us ws" by (cases ts) (auto simp: key_ok_def)
  have "Value_compare EQ v w = ok (if is_null v \<or> is_null w then CmpNull else get_cmp_bool (int_value v = int_value w))"
    using Value_compare_int [OF t(1,2), of EQ] by simp
  then show ?case using "3.IH" [OF _ t(3,4)] by (auto simp: same_key_def get_cmp_bool_def)
qed (auto simp: same_key_def key_ok_def list_all2_Cons2)

lemma Value_to_string_int:
  assumes "int_ok v" and "\<not> is_null v"
  shows "Value_to_string v = ok (int_to_string (int_value v))"
  using int_ok_get(1,5) [OF assms(1)] assms(2)
  by (auto simp: Value_to_string_def Value_to_string_as_def tinyint_to_string_def smallint_to_string_def integer_to_string_def
      bigint_to_string_def check_integer_def)

lemma key_hash_int: "key_ok ts k \<Longrightarrow> \<exists>h'. key_hash std_hash h k = ok h'"
proof (induction std_hash h k arbitrary: ts rule: key_hash.induct)
  case (2 std_hash h v vs)
  then obtain us where "int_ok v" "key_ok us vs" by (cases ts) (auto simp: key_ok_def)
  with "2.IH" show ?case by (simp add: Value_to_string_int)
qed simp

lemma key_hash_same:
  assumes "same_key k k'" and "key_ok ts k" and "key_ok ts k'"
  shows "key_hash std_hash h k = key_hash std_hash h k'"
  using assms(1)[unfolded same_key_def] assms(2,3)
proof (induction arbitrary: ts h rule: list_all2_induct)
  case (Cons v vs w ws)
  then obtain us where "int_ok v" "int_ok w" "key_ok us vs" "key_ok us ws" by (cases ts) (auto simp: key_ok_def)
  with Cons show ?case by (simp add: Value_to_string_int)
qed simp

text \<open>The place in the table of a key: the first entry that is equal.\<close>

fun place :: "AggregateKey \<Rightarrow> nat \<Rightarrow> AggregateKey list \<Rightarrow> nat option" where
  "place key i [] = None"
| "place key i (k # ks) = (if same_key key k then Some i else place key (Suc i) ks)"

lemma ht_find_int:
  assumes "key_ok ts key" and "key_hash std_hash 0 key = ok h" and "\<forall>e \<in> set es. key_ok ts (fst e)"
  shows "ht_find std_hash h key i es = ok (place key i (map fst es))"
  using assms
proof (induction std_hash h key i es rule: ht_find.induct)
  case (2 std_hash h key i k st es)
  have k: "key_ok ts k" using "2.prems"(3) by simp
  then obtain h' where h': "key_hash std_hash 0 k = ok h'" using key_hash_int by blast
  have "h' = h" if "same_key key k" using key_hash_same [OF that "2.prems"(1) k] "2.prems"(2) h' by simp
  then show ?case using "2.IH" "2.prems" h' key_eq_int [OF "2.prems"(1) k] by (cases "h' = h"; cases "same_key key k") auto
qed simp

subsection \<open>One insertion\<close>

text \<open>The values of one function's argument over a group, and the states of all functions.\<close>

definition args_of :: "nat \<Rightarrow> keyed list \<Rightarrow> Value list" where
  "args_of i g = map (\<lambda>p. snd p ! i) g"

definition group_states :: "AggregateFunction list \<Rightarrow> keyed list \<Rightarrow> AggregateState list \<Rightarrow> bool" where
  "group_states funcs g sts \<longleftrightarrow> length sts = length funcs \<and>
     (\<forall>i < length funcs. agg_updates (funcs ! i) (create_state (funcs ! i)) (args_of i g) = ok (sts ! i))"

lemma update_states_ok:
  assumes "length sts = length funcs" and "length as = length funcs" and "length sts' = length funcs"
    and "\<forall>i < length funcs. agg_update (funcs ! i) (sts ! i) [as ! i] = ok (sts' ! i)"
  shows "update_states funcs sts as = (sts', ok ())"
  using assms
proof (induction funcs sts as arbitrary: sts' rule: update_states.induct)
  case (1 f fs st sts a as)
  then obtain s ss where "sts' = s # ss" by (cases sts') auto
  moreover from this "1.prems" have "\<forall>i < length fs. agg_update (fs ! i) (sts ! i) [as ! i] = ok (ss ! i)" "agg_update f st [a] = ok s"
    by (auto dest: spec [of _ "Suc _"] spec [of _ 0])
  ultimately show ?case using 1 by simp
qed (auto simp: length_Suc_conv)

lemma group_states_snoc:
  assumes "\<exists>sts'. group_states funcs (g @ [q]) sts'" and "group_states funcs g sts" and "length (snd q) = length funcs"
  shows "\<exists>sts'. update_states funcs sts (snd q) = (sts', ok ()) \<and> group_states funcs (g @ [q]) sts'"
proof -
  from assms(1) obtain sts' where sts': "group_states funcs (g @ [q]) sts'" by blast
  have "agg_update (funcs ! i) (sts ! i) [snd q ! i] = ok (sts' ! i)" if "i < length funcs" for i
    using sts' assms(2) that by (auto simp: group_states_def args_of_def agg_updates_append res_bind_eq_Inr)
  then have "update_states funcs sts (snd q) = (sts', ok ())"
    using assms(2,3) sts' by (intro update_states_ok) (auto simp: group_states_def)
  then show ?thesis using sts' by blast
qed

text \<open>What holds for the groups of all rows holds for the groups of the first rows.\<close>

lemma group_states_prefix: "group_states funcs (g @ h) sts \<Longrightarrow> \<exists>sts'. group_states funcs g sts'"
proof -
  assume s: "group_states funcs (g @ h) sts"
  let ?st = "\<lambda>i. projr (agg_updates (funcs ! i) (create_state (funcs ! i)) (args_of i g))"
  have "agg_updates (funcs ! i) (create_state (funcs ! i)) (args_of i g) = ok (?st i)" if "i < length funcs" for i
    using s that by (auto simp: group_states_def args_of_def agg_updates_append res_bind_eq_Inr)
  then show ?thesis by (intro exI [of _ "map ?st [0..<length funcs]"]) (simp add: group_states_def)
qed

lemma states_before:
  assumes "\<forall>g \<in> set (groups (ps @ qs)). \<exists>sts. group_states funcs g sts"
  shows "\<forall>g \<in> set (groups ps). \<exists>sts. group_states funcs g sts"
  using assms
proof (induction qs rule: rev_induct)
  case (snoc q qs)
  have "\<exists>sts. group_states funcs g sts" if "g \<in> set (groups (ps @ qs))" for g
    using joined [OF that, of q] snoc.prems group_states_prefix unfolding append_assoc [symmetric] groups_snoc by blast
  then show ?case by (intro snoc.IH) blast
qed simp

lemma group_states_new: "group_states funcs [] (map create_state funcs)"
  by (simp add: group_states_def args_of_def)

text \<open>The hash table after the rows ps.\<close>

definition entry_ok :: "AggregateFunction list \<Rightarrow> AggregateKey \<times> AggregateState list \<Rightarrow> keyed list \<Rightarrow> bool" where
  "entry_ok funcs e g \<longleftrightarrow> fst e = fst (hd g) \<and> group_states funcs g (snd e)"

definition table_for :: "AggregateFunction list \<Rightarrow> keyed list \<Rightarrow> AggregationHashTable \<Rightarrow> bool" where
  "table_for funcs ps t \<longleftrightarrow> agg_funcs t = funcs \<and> list_all2 (entry_ok funcs) (ht t) (groups ps)"

text \<open>Joining a group is an update of the list at the place of the key, or a new entry at its end.\<close>

lemma join_group_place:
  assumes "list_all2 (entry_ok funcs) es gs"
  shows "case place (fst q) i (map fst es) of
      None \<Rightarrow> join_group q gs = gs @ [[q]]
    | Some j \<Rightarrow> i \<le> j \<and> j - i < length gs \<and> join_group q gs = gs[j - i := gs ! (j - i) @ [q]]"
  using assms
proof (induction es gs arbitrary: i rule: list_all2_induct)
  case (Cons e es g gs)
  show ?case
  proof (cases "same_key (fst q) (fst e)")
    case True
    then show ?thesis using Cons.hyps(1) by (simp add: entry_ok_def)
  next
    case False
    then have p: "place (fst q) i (map fst (e # es)) = place (fst q) (Suc i) (map fst es)"
      "join_group q (g # gs) = g # join_group q gs" using Cons.hyps(1) by (simp_all add: entry_ok_def)
    show ?thesis
    proof (cases "place (fst q) (Suc i) (map fst es)")
      case None
      then show ?thesis using Cons.IH [of "Suc i"] p by simp
    next
      case (Some j)
      then have j: "Suc i \<le> j" "j - Suc i < length gs" "join_group q gs = gs[j - Suc i := gs ! (j - Suc i) @ [q]]"
        using Cons.IH [of "Suc i"] by simp_all
      moreover have "j - i = Suc (j - Suc i)" using j(1) by simp
      ultimately show ?thesis using p Some by simp
    qed
  qed
qed simp

lemma insert_combine_ok:
  assumes t: "table_for funcs ps t" and q: "key_ok ts (fst q)" "length (snd q) = length funcs"
    and keys: "\<forall>p \<in> set ps. key_ok ts (fst p)" and total: "\<forall>g \<in> set (groups (ps @ [q])). \<exists>sts. group_states funcs g sts"
  shows "\<exists>t'. insert_combine std_hash (fst q) (snd q) t = (t', ok ()) \<and> table_for funcs (ps @ [q]) t'"
proof -
  let ?gs = "groups ps"
  have es: "list_all2 (entry_ok funcs) (ht t) ?gs" and fs: "agg_funcs t = funcs" using t by (simp_all add: table_for_def)
  have "\<forall>e \<in> set (ht t). key_ok ts (fst e)"
  proof
    fix e assume "e \<in> set (ht t)"
    then obtain i where i: "i < length (ht t)" "e = ht t ! i" by (auto simp: in_set_conv_nth)
    then have g: "?gs ! i \<in> set ?gs" "fst e = fst (hd (?gs ! i))"
      using list_all2_nthD [OF es i(1)] list_all2_lengthD [OF es] by (simp_all add: entry_ok_def)
    then have "hd (?gs ! i) \<in> set ps" using groups_not_empty [OF g(1)] groups_subset [OF g(1)] by auto
    then show "key_ok ts (fst e)" using g(2) keys by simp
  qed
  moreover obtain h where h: "key_hash std_hash 0 (fst q) = ok h" using key_hash_int [OF q(1)] by blast
  ultimately have find: "res_bind (key_hash std_hash 0 (fst q)) (\<lambda>h. ht_find std_hash h (fst q) 0 (ht t)) =
      ok (place (fst q) 0 (map fst (ht t)))" using ht_find_int [OF q(1) h] by simp
  show ?thesis
  proof (cases "place (fst q) 0 (map fst (ht t))")
    case None
    then have j: "groups (ps @ [q]) = ?gs @ [[q]]" using join_group_place [OF es, of q 0] by (simp add: groups_snoc)
    then have "\<exists>sts. group_states funcs ([] @ [q]) sts" using total by simp
    from group_states_snoc [OF this group_states_new q(2)] obtain sts where
      s: "update_states funcs (map create_state funcs) (snd q) = (sts, ok ())" "group_states funcs [q] sts" by auto
    then have "insert_combine std_hash (fst q) (snd q) t = (t\<lparr>ht := ht t @ [(fst q, sts)]\<rparr>, ok ())"
      using None find fs by (simp add: insert_combine_def)
    moreover have "list_all2 (entry_ok funcs) (ht t @ [(fst q, sts)]) (groups (ps @ [q]))"
      unfolding j using es s(2) by (intro list_all2_appendI) (auto simp: entry_ok_def)
    ultimately show ?thesis using fs by (simp add: table_for_def)
  next
    case (Some i)
    then have j: "i < length ?gs" "groups (ps @ [q]) = ?gs[i := ?gs ! i @ [q]]"
      using join_group_place [OF es, of q 0] by (simp_all add: groups_snoc)
    let ?e = "ht t ! i"
    have e: "entry_ok funcs ?e (?gs ! i)" using es j(1) by (auto simp: list_all2_conv_all_nth)
    have "?gs ! i @ [q] \<in> set (groups (ps @ [q]))" using j by (simp add: set_update_memI)
    then have "\<exists>sts. group_states funcs (?gs ! i @ [q]) sts" using total by blast
    from group_states_snoc [OF this _ q(2), of "snd ?e"] e obtain sts where
      s: "update_states funcs (snd ?e) (snd q) = (sts, ok ())" "group_states funcs (?gs ! i @ [q]) sts"
      by (auto simp: entry_ok_def)
    then have "insert_combine std_hash (fst q) (snd q) t = (t\<lparr>ht := (ht t)[i := (fst ?e, sts)]\<rparr>, ok ())"
      using Some find fs by (simp add: insert_combine_def Let_def)
    moreover have "?gs ! i \<noteq> []" using groups_not_empty j(1) by (metis nth_mem)
    then have "list_all2 (entry_ok funcs) ((ht t)[i := (fst ?e, sts)]) (groups (ps @ [q]))"
      unfolding j(2) using es s(2) e by (intro list_all2_update_cong) (auto simp: entry_ok_def)
    ultimately show ?thesis using fs by (simp add: table_for_def)
  qed
qed

subsection \<open>The loop over the rows of the child\<close>

definition row_keyed :: "AggregationPlanNode \<Rightarrow> ColumnSchema \<Rightarrow> row \<Rightarrow> keyed \<Rightarrow> bool" where
  "row_keyed plan schema r p \<longleftrightarrow> make_aggregate_key plan schema (fst r) = ok (fst p) \<and>
     make_aggregate_values plan schema (fst r) = ok (snd p)"

lemma combine_rows:
  assumes "list_all2 (row_keyed plan schema) rows qs" and "table_for funcs ps (aht x)"
    and "\<forall>p \<in> set (ps @ qs). key_ok ts (fst p) \<and> length (snd p) = length funcs"
    and "\<forall>g \<in> set (groups (ps @ qs)). \<exists>sts. group_states funcs g sts"
  shows "\<exists>t. each (combine_row std_hash plan schema) rows (c, x) = Some ((c, x\<lparr>aht := t\<rparr>), ok ()) \<and> table_for funcs (ps @ qs) t"
  using assms
proof (induction rows qs arbitrary: ps x rule: list_all2_induct)
  case Nil
  then show ?case by (intro exI [of _ "aht x"]) simp
next
  case (Cons r rows q qs)
  have "\<forall>g \<in> set (groups (ps @ [q])). \<exists>sts. group_states funcs g sts"
    using states_before [of "ps @ [q]" qs funcs] Cons.prems(3) by simp
  from insert_combine_ok [OF Cons.prems(1) _ _ _ this, of ts std_hash] Cons.prems(2) obtain t where
    t: "insert_combine std_hash (fst q) (snd q) (aht x) = (t, ok ())" "table_for funcs (ps @ [q]) t" by auto
  have "combine_row std_hash plan schema r (c, x) = Some ((c, x\<lparr>aht := t\<rparr>), ok ())"
    using Cons.hyps(1) t(1) by (cases q) (simp add: combine_row_def row_keyed_def on_aht_def)
  then show ?case using Cons.IH [of "ps @ [q]" "x\<lparr>aht := t\<rparr>"] Cons.prems(2,3) t(2) by auto
qed

text \<open>The loop of init: ps are the rows that are in the table, R relates it to the rows that are left.\<close>

lemma aggregation_init_ok:
  assumes E: "executor child yields" and start: "start (c, ag_child x) = Some (s0, ok ())" and y: "yields s0 rows"
    and keyed: "list_all2 (row_keyed plan schema) rows ps"
    and keys: "\<forall>p \<in> set ps. key_ok ts (fst p) \<and> length (snd p) = length funcs"
    and total: "\<forall>g \<in> set (groups ps). \<exists>sts. group_states funcs g sts"
    and x: "agg_funcs (aht x) = funcs" and ne: "rows \<noteq> [] \<or> group_bys plan \<noteq> []"
  shows "\<exists>c' y t. aggregation_init std_hash order plan schema start child (c, x) =
    Some ((c', x\<lparr>ag_child := y, aht := t\<lparr>ht := order (ht t)\<rparr>, aht_iterator := 0\<rparr>), ok ()) \<and> table_for funcs ps t"
proof -
  note next_law = executor.next_law [OF E]
  let ?put = "\<lambda>y x. x\<lparr>ag_child := y\<rparr>" and ?t0 = "(aht x)\<lparr>ht := []\<rparr>"
  let ?R = "\<lambda>z left. yields (fst z, ag_child (snd z)) left \<and> (\<exists>y t before rest.
      snd z = x\<lparr>ag_child := y, aht := t\<rparr> \<and> ps = before @ rest \<and> table_for funcs before t \<and> list_all2 (row_keyed plan schema) left rest)"
  let ?Q = "\<lambda>z. \<exists>y t. snd z = x\<lparr>ag_child := y, aht := t\<rparr> \<and> table_for funcs ps t"
  let ?pull = "on_child ag_child ?put (child 256)" and ?body = "each (combine_row std_hash plan schema)"
  obtain c0 y0 where s0: "s0 = (c0, y0)" by (cases s0)
  have start': "on_child ag_child ?put start (c, x\<lparr>aht := ?t0\<rparr>) = Some ((c0, x\<lparr>ag_child := y0, aht := ?t0\<rparr>), ok ())"
    using start s0 by (simp add: on_child_def)
  have "\<exists>z. while_batches ?pull ?body (c0, x\<lparr>ag_child := y0, aht := ?t0\<rparr>) = Some (z, ok ()) \<and> ?Q z"
  proof (rule while_batches_rule [where R = ?R and rows = rows])
    have "table_for funcs [] ?t0" using x by (simp add: table_for_def)
    then show "?R (c0, x\<lparr>ag_child := y0, aht := ?t0\<rparr>) rows"
      using y s0 keyed by (auto intro!: exI [of _ y0] exI [of _ ?t0])
    fix z left assume R: "?R z left"
    obtain c1 x1 where z: "z = (c1, x1)" by (cases z)
    from R z obtain y1 t before rest where x1: "x1 = x\<lparr>ag_child := y1, aht := t\<rparr>" "ps = before @ rest"
      "table_for funcs before t" "list_all2 (row_keyed plan schema) left rest" "yields (c1, y1) left" by auto
    have "(0 :: nat) < 256" by simp
    from next_law [OF x1(5) this] obtain s2 batch left' where nx0: "child 256 (c1, y1) = Some (s2, ok (batch, batch \<noteq> []))"
      "left = batch @ left'" "yields s2 left'" "left \<noteq> [] \<longrightarrow> batch \<noteq> []" by blast
    obtain c2 y2 where s2: "s2 = (c2, y2)" by (cases s2)
    note nx = nx0 [unfolded s2]
    from x1(4) nx(2) obtain qs rest' where qs: "rest = qs @ rest'" "list_all2 (row_keyed plan schema) batch qs"
      "list_all2 (row_keyed plan schema) left' rest'" by (auto simp: list_all2_append1)
    let ?x2 = "x\<lparr>ag_child := y2, aht := t\<rparr>"
    have pull: "?pull z = Some ((c2, ?x2), ok (batch, batch \<noteq> []))" using nx(1) by (simp add: z x1(1) on_child_def)
    have ps: "ps = (before @ qs) @ rest'" using x1(2) qs(1) by simp
    have "\<forall>p \<in> set (before @ qs). key_ok ts (fst p) \<and> length (snd p) = length funcs" using keys ps by auto
    moreover have "\<forall>g \<in> set (groups (before @ qs)). \<exists>sts. group_states funcs g sts"
      using states_before [of "before @ qs" rest' funcs] total ps by simp
    ultimately obtain t' where t': "?body batch (c2, ?x2) = Some ((c2, ?x2\<lparr>aht := t'\<rparr>), ok ())" "table_for funcs (before @ qs) t'"
      using combine_rows [OF qs(2), of funcs before ?x2 ts std_hash c2] x1(3) by auto
    have R2: "?R (c2, ?x2\<lparr>aht := t'\<rparr>) left'"
      using nx(3) ps t'(2) qs(3)
      by (intro conjI exI [of _ y2] exI [of _ t'] exI [of _ "before @ qs"] exI [of _ rest']) simp_all
    show "\<exists>z1 batch rest. ?pull z = Some (z1, ok (batch, batch \<noteq> [])) \<and> left = batch @ rest \<and> (left \<noteq> [] \<longrightarrow> batch \<noteq> []) \<and>
        (batch = [] \<longrightarrow> ?Q z1) \<and> (batch \<noteq> [] \<longrightarrow> (\<exists>z2. ?body batch z1 = Some (z2, ok ()) \<and> ?R z2 rest))"
    proof (rule exI [of _ "(c2, ?x2)"], rule exI [of _ batch], rule exI [of _ left'], intro conjI impI)
      show "?Q (c2, ?x2)" if "batch = []"
      proof -
        have "left = []" using that nx(4) by blast
        then show ?thesis using x1(2,3,4) by auto
      qed
      show "\<exists>z2. ?body batch (c2, ?x2) = Some (z2, ok ()) \<and> ?R z2 left'" using t'(1) R2 by blast
      show "batch \<noteq> []" if "left \<noteq> []" using that nx(4) by blast
    qed (rule pull nx(2))+
  qed
  then obtain c' y t where w: "while_batches ?pull ?body (c0, x\<lparr>ag_child := y0, aht := ?t0\<rparr>) =
      Some ((c', x\<lparr>ag_child := y, aht := t\<rparr>), ok ())" "table_for funcs ps t" by auto
  have "\<not> (ht t = [] \<and> group_bys plan = [])"
  proof
    assume e: "ht t = [] \<and> group_bys plan = []"
    then have "groups ps = []" using w(2) by (simp add: table_for_def)
    then have "ps = []" using groups_partition [of ps] by simp
    then show False using keyed ne e by simp
  qed
  then show ?thesis using start' w unfolding aggregation_init_def by (intro exI [of _ c'] exI [of _ y] exI [of _ t]) (simp del: de_Morgan_conj)
qed

subsection \<open>The loop over the groups\<close>

definition group_yields :: "AggregationPlanNode \<Rightarrow> Catalog \<times> 's AggregationExecutor \<Rightarrow> row list \<Rightarrow> bool" where
  "group_yields plan s rows \<longleftrightarrow> res_map (group_row plan) (drop (aht_iterator (snd s)) (ht (aht (snd s)))) = ok rows"

lemma aggregation_loop_ok:
  assumes "res_map (group_row plan) (drop i es) = ok rows"
  shows "\<exists>j. aggregation_loop plan es n i = (j, ok (take n rows)) \<and> res_map (group_row plan) (drop j es) = ok (drop n rows)"
  using assms
proof (induction n arbitrary: i rows)
  case (Suc n)
  show ?case
  proof (cases "i < length es")
    case True
    then have "drop i es = es ! i # drop (Suc i) es" by (simp add: Cons_nth_drop_Suc)
    with Suc.prems obtain r rs where r: "group_row plan (es ! i) = ok r" "rows = r # rs"
      "res_map (group_row plan) (drop (i + 1) es) = ok rs" by (auto simp: res_bind_eq_Inr)
    from Suc.IH [OF r(3)] show ?thesis using True r(1,2) by auto
  qed (use Suc.prems in simp)
qed simp

lemma group_row_allocated: "group_row plan e = ok r \<Longrightarrow> allocated (fst r)"
  by (auto simp: group_row_def res_bind_eq_Inr Tuple_copy_def dest: new_Tuple_allocated)

interpretation group_output: full_executor "aggregation_next plan" "group_yields plan"
proof unfold_locales
  fix s :: "Catalog \<times> 'a AggregationExecutor" and rows and n :: nat assume y: "group_yields plan s rows"
  from aggregation_loop_ok [OF y [unfolded group_yields_def]] obtain j where
    j: "aggregation_loop plan (ht (aht (snd s))) n (aht_iterator (snd s)) = (j, ok (take n rows))"
    "res_map (group_row plan) (drop j (ht (aht (snd s)))) = ok (drop n rows)" by blast
  let ?s = "(fst s, (snd s)\<lparr>aht_iterator := j\<rparr>)"
  have nxt: "aggregation_next plan n s = Some (?s, ok (take n rows, take n rows \<noteq> []))"
    using j(1) by (simp add: aggregation_next_def)
  have "group_yields plan ?s (drop n rows)" using j(2) by (simp add: group_yields_def)
  then show "\<exists>s' batch rest. aggregation_next plan n s = Some (s', ok (batch, batch \<noteq> [])) \<and> rows = batch @ rest \<and>
      group_yields plan s' rest \<and> (rows \<noteq> [] \<longrightarrow> batch \<noteq> [])" if "0 < n"
    using nxt that by (intro exI [of _ ?s] exI [of _ "take n rows"] exI [of _ "drop n rows"]) simp
  show "length batch = min n (length rows)" if "aggregation_next plan n s = Some (s', ok (batch, status))" for s' batch status
    using that nxt by auto
  show "allocated (fst r)" if "r \<in> set rows" for r
    using res_map_elem [OF y [unfolded group_yields_def] that] group_row_allocated by blast
qed

subsection \<open>GROUP BY\<close>

text \<open>The output row of a group, and the query that runs the executor to its end.\<close>

definition group_tuple :: "AggregationPlanNode \<Rightarrow> keyed list \<Rightarrow> Tuple res" where
  "group_tuple plan g = (let funcs = ap_agg_funcs plan in
     res_bind (res_map (\<lambda>i. aggregate (funcs ! i) (args_of i g)) [0..<length funcs]) (\<lambda>vs.
       new_Tuple (ap_schema plan) (fst (hd g) @ vs)))"

definition run_aggregation :: "(string \<Rightarrow> u64) \<Rightarrow> iteration_order \<Rightarrow> AggregationPlanNode \<Rightarrow> ColumnSchema \<Rightarrow>
    (Catalog \<times> 's, unit) run \<Rightarrow> 's exec_next \<Rightarrow> nat \<Rightarrow> Catalog \<times> 's \<Rightarrow>
    (((Catalog \<times> 's AggregationExecutor) \<times> row list) \<times> unit res) option" where
  "run_aggregation std_hash order plan schema start child n s = run_query (aggregation_init std_hash order plan schema start child)
     (aggregation_next plan) n (fst s, new_AggregationExecutor plan (snd s))"

lemma finalize_all_res_map:
  assumes "length sts = length funcs"
  shows "finalize_all funcs sts = res_map (\<lambda>i. agg_finalize (funcs ! i) (sts ! i)) [0..<length funcs]"
  using assms
proof (induction funcs sts rule: finalize_all.induct)
  case (3 f fs st sts)
  have "res_map h (map Suc is) = res_map (h \<circ> Suc) is" for h :: "nat \<Rightarrow> Value res" and "is"
    by (induction "is") simp_all
  moreover have "[0..<length (f # fs)] = 0 # map Suc [0..<length fs]" by (simp add: upt_conv_Cons map_Suc_upt del: upt_Suc)
  ultimately show ?case using 3 by (simp add: comp_def del: upt_Suc)
qed (simp_all del: upt_Suc)

lemma res_map_cong: "(\<And>x. x \<in> set xs \<Longrightarrow> f x = g x) \<Longrightarrow> res_map f xs = res_map g xs"
  by (induction xs) simp_all

lemma group_row_tuple:
  assumes "entry_ok (ap_agg_funcs plan) e g" and "group_tuple plan g = ok t"
  shows "group_row plan e = ok (t, default_RecordId)"
proof -
  let ?funcs = "ap_agg_funcs plan"
  have "agg_finalize (?funcs ! i) (snd e ! i) = aggregate (?funcs ! i) (args_of i g)" if "i < length ?funcs" for i
    using assms(1) that by (simp add: entry_ok_def group_states_def aggregate_def)
  then have "finalize_all ?funcs (snd e) = res_map (\<lambda>i. aggregate (?funcs ! i) (args_of i g)) [0..<length ?funcs]"
    using assms(1) by (subst finalize_all_res_map) (auto simp: entry_ok_def group_states_def intro!: res_map_cong)
  then show ?thesis using assms
    by (auto simp: group_row_def group_tuple_def entry_ok_def Let_def res_bind_eq_Inr Tuple_copy_def dest: new_Tuple_allocated)
qed

lemma group_tuple_states:
  assumes "group_tuple plan g = ok t"
  shows "\<exists>sts. group_states (ap_agg_funcs plan) g sts"
proof -
  let ?funcs = "ap_agg_funcs plan"
  let ?st = "\<lambda>i. projr (agg_updates (?funcs ! i) (create_state (?funcs ! i)) (args_of i g))"
  from assms obtain vs where vs: "res_map (\<lambda>i. aggregate (?funcs ! i) (args_of i g)) [0..<length ?funcs] = ok vs"
    by (auto simp: group_tuple_def Let_def res_bind_eq_Inr)
  have each: "res_map f xs = ok ys \<Longrightarrow> x \<in> set xs \<Longrightarrow> \<exists>y. f x = ok y" for f :: "nat \<Rightarrow> Value res" and xs ys x
    by (induction xs arbitrary: ys) (auto simp: res_bind_eq_Inr)
  have "agg_updates (?funcs ! i) (create_state (?funcs ! i)) (args_of i g) = ok (?st i)" if "i < length ?funcs" for i
    using each [OF vs, of i] that by (auto simp: aggregate_def res_bind_eq_Inr)
  then show ?thesis by (intro exI [of _ "map ?st [0..<length ?funcs]"]) (simp add: group_states_def)
qed

lemma res_map_perm:
  assumes "\<And>x. x \<in> set xs \<Longrightarrow> f x = ok (h x)" and "mset ys = mset xs"
  shows "res_map f ys = ok (map h ys)"
proof -
  have "\<forall>y \<in> set ys. f y = ok (h y)" using assms mset_eq_setD by blast
  then show ?thesis by (induction ys) simp_all
qed

text \<open>
  C12. GROUP BY over integer keys, with any aggregate functions. The rows of the child fall into groups of equal keys, where a key with a
  NULL is equal to no key, so each of its rows is a group of its own; the output has exactly one row for each
  group, the key followed by each function over the values of its argument in the group, in the order of the rows. This holds for every hash
  function on strings, every order in which the hash table is iterated and every batch size, when no group's
  aggregates throw.
\<close>

theorem group_by_aggregates_groups:
  assumes E: "executor child yields" and start: "start (c, x) = Some (s0, ok ())" and y: "yields s0 rows" and n: "0 < n"
    and order: "\<And>es. mset (order es) = mset es"
    and keyed: "list_all2 (row_keyed plan schema) rows ps"
    and keys: "\<forall>p \<in> set ps. key_ok ts (fst p) \<and> length (snd p) = length (ap_agg_funcs plan)"
    and tuples: "\<And>g. g \<in> set (groups ps) \<Longrightarrow> group_tuple plan g = ok (tup g)"
    and ne: "rows \<noteq> [] \<or> group_bys plan \<noteq> []"
  shows "\<exists>s out. run_aggregation std_hash order plan schema start child n (c, x) = Some ((s, out), ok ()) \<and>
    mset out = mset (map (\<lambda>g. (tup g, default_RecordId)) (groups ps))"
proof -
  let ?funcs = "ap_agg_funcs plan" and ?x = "new_AggregationExecutor plan x"
  have "\<forall>g \<in> set (groups ps). \<exists>sts. group_states ?funcs g sts" using tuples group_tuple_states by blast
  moreover have "start (c, ag_child ?x) = Some (s0, ok ())" "agg_funcs (aht ?x) = ?funcs"
    using start by (simp_all add: new_AggregationExecutor_def)
  ultimately obtain c' y' t where i: "aggregation_init std_hash order plan schema start child (c, ?x) =
      Some ((c', ?x\<lparr>ag_child := y', aht := t\<lparr>ht := order (ht t)\<rparr>, aht_iterator := 0\<rparr>), ok ())" "table_for ?funcs ps t"
    using aggregation_init_ok [where start = start and c = c and x = ?x and std_hash = std_hash and order = order, OF E _ y keyed keys _ _ ne]
    by blast
  let ?out = "\<lambda>e. projr (group_row plan e)" and ?s = "(c', ?x\<lparr>ag_child := y', aht := t\<lparr>ht := order (ht t)\<rparr>, aht_iterator := 0\<rparr>)"
  have es: "list_all2 (entry_ok ?funcs) (ht t) (groups ps)" using i(2) by (simp add: table_for_def)
  then have rows: "list_all2 (\<lambda>e g. group_row plan e = ok (tup g, default_RecordId)) (ht t) (groups ps)"
    by (rule list.rel_mono_strong) (blast intro: group_row_tuple tuples)
  then have "map ?out (ht t) = map (\<lambda>g. (tup g, default_RecordId)) (groups ps)"
    by (induction rule: list_all2_induct) simp_all
  moreover have "mset (map ?out (order (ht t))) = mset (map ?out (ht t))" by (metis mset_map order)
  moreover have "group_row plan e = ok (?out e)" if "e \<in> set (ht t)" for e
    using rows that by (induction rule: list_all2_induct) auto
  then have "res_map (group_row plan) (order (ht t)) = ok (map ?out (order (ht t)))"
    using order by (intro res_map_perm) auto
  then have "group_yields plan ?s (map ?out (order (ht t)))" by (simp add: group_yields_def)
  from group_output.drain_all [OF this n] obtain s where "drain (aggregation_next plan) n ?s = Some ((s, map ?out (order (ht t))), ok ())"
    by blast
  ultimately show ?thesis using i(1) by (intro exI [of _ s] exI [of _ "map ?out (order (ht t))"]) (simp add: run_aggregation_def run_query_def)
qed

text \<open>VALUES (2), (1), (2) with COUNT( * ) GROUP BY a.\<close>

definition two_one_two :: ValuesPlanNode where
  "two_one_two = \<lparr>vp_schema = tiny_schema, vp_values = map (\<lambda>k. [Expression (ConstantValueExpression (Value_int8 TINYINT k)) [] (val_column TINYINT)]) [2, 1, 2]\<rparr>"

definition two_one_two_rows :: "row list" where
  "two_one_two_rows = map (\<lambda>b. (tuple_of [0, b], default_RecordId)) [2, 1, 2]"

definition count_by_a :: AggregationPlanNode where
  "count_by_a = \<lparr>ap_schema = [val_column TINYINT, val_column BIGINT], group_bys = [column_a], aggregates = [column_a],
     ap_agg_funcs = [CountStarFunction]\<rparr>"

definition two_one_two_keyed :: "keyed list" where
  "two_one_two_keyed = map (\<lambda>k. let v = (Value_int8 TINYINT k)\<lparr>init := 2\<rparr> in ([v], [v])) [2, 1, 2]"

lemma two_one_two_facts:
  "values_rows two_one_two (vp_values two_one_two) = ok two_one_two_rows"
  "list_all2 (row_keyed count_by_a tiny_schema) two_one_two_rows two_one_two_keyed"
  "list_all (\<lambda>p. key_ok [TINYINT] (fst p) \<and> length (snd p) = length (ap_agg_funcs count_by_a)) two_one_two_keyed"
  "map (group_tuple count_by_a) (groups two_one_two_keyed) = map ok [tuple_of [0, 2, 2, 0, 0, 0, 0, 0, 0, 0], tuple_of [0, 1, 1, 0, 0, 0, 0, 0, 0, 0]]"
  by code_simp+

definition new_group_rows :: "row list" where
  "new_group_rows = map (\<lambda>bs. (tuple_of bs, default_RecordId)) [[0, 2, 2, 0, 0, 0, 0, 0, 0, 0], [0, 1, 1, 0, 0, 0, 0, 0, 0, 0]]"

lemma group_by_aggregates_groups_witness:
  "\<exists>s out. run_aggregation (\<lambda>_. 0) rev count_by_a tiny_schema values_init (values_next two_one_two) 1 (example_catalog [], 0) =
     Some ((s, out), ok ()) \<and> mset out = mset new_group_rows"
proof -
  have E: "executor (values_next two_one_two) (values_yields two_one_two)" by (rule table_values.executor_axioms)
  have start: "values_init (example_catalog [], 0) = Some ((example_catalog [], 0), ok ())" by (simp add: values_init_def)
  have y: "values_yields two_one_two (example_catalog [], 0) two_one_two_rows" by (simp add: values_yields_def two_one_two_facts)
  have keys: "\<forall>p \<in> set two_one_two_keyed. key_ok [TINYINT] (fst p) \<and> length (snd p) = length (ap_agg_funcs count_by_a)"
    using two_one_two_facts(3) by (simp add: list_all_iff)
  let ?tup = "\<lambda>g. projr (group_tuple count_by_a g)"
  have tuples: "group_tuple count_by_a g = ok (?tup g)" if "g \<in> set (groups two_one_two_keyed)" for g
  proof -
    have "group_tuple count_by_a g \<in> set (map (group_tuple count_by_a) (groups two_one_two_keyed))" using that by simp
    then show ?thesis unfolding two_one_two_facts(4) by auto
  qed
  have "map (\<lambda>g. (?tup g, default_RecordId)) (groups two_one_two_keyed) = map (\<lambda>t. (projr t, default_RecordId)) (map (group_tuple count_by_a) (groups two_one_two_keyed))"
    by simp
  also have "\<dots> = new_group_rows" unfolding two_one_two_facts(4) by (simp add: new_group_rows_def)
  finally have "map (\<lambda>g. (?tup g, default_RecordId)) (groups two_one_two_keyed) = new_group_rows" .
  then show ?thesis
    using group_by_aggregates_groups [where start = values_init and c = "example_catalog []" and x = 0 and n = 1 and order = rev
        and std_hash = "\<lambda>_. 0" and tup = ?tup, OF E start y _ _ two_one_two_facts(2) keys tuples]
    by (simp add: count_by_a_def)
qed

subsection \<open>No rows, no GROUP BY\<close>

definition nothing_counted :: "AggregateFunction \<Rightarrow> AggregateState" where
  "nothing_counted f = (if f = CountStarFunction
     then Basic (new_BasicAccumulatorState\<lparr>basic_count := 1, basic_is_null := CmpFalse\<rparr>) else create_state f)"

lemma update_with_null: "agg_update f (create_state f) [Value_null INVALID] = ok (nothing_counted f)"
proof -
  have "is_null (Value_null INVALID)" by code_simp
  then show ?thesis
    by (cases f) (simp_all add: nothing_counted_def count_star_update_def count_update_def sum_update_def min_update_def
        max_update_def value_update_def avg_update_def new_BasicAccumulatorState_def)
qed

lemma update_states_nothing:
  "update_states funcs (map create_state funcs) (replicate (length funcs) (Value_null INVALID)) = (map nothing_counted funcs, ok ())"
  by (rule update_states_ok) (simp_all add: update_with_null)

lemma finalize_nothing:
  "finalize_all funcs (map nothing_counted funcs) = (if set funcs \<subseteq> {CountFunction, CountStarFunction}
     then ok (map (\<lambda>f. if f = CountFunction then get_integer_value 0 else get_big_int_value 1) funcs) else throw no_null_of_type)"
proof (induction funcs)
  case (Cons f fs)
  then show ?case
    by (cases f) (simp_all add: nothing_counted_def count_finalize_def count_star_finalize_def value_finalize_def sum_finalize_def min_finalize_def max_finalize_def
        avg_finalize_def new_BasicAccumulatorState_def new_MomentAccumulatorState_def get_null_value_by_type_def)
qed simp

text \<open>
  C16. Without GROUP BY and without a row the executor still makes one group, from one row of NULL arguments: the output is
  one row in which COUNT is 0 but COUNT( * ) is 1. With SUM, MIN, MAX or AVG among the functions no
  row comes out: the call for rows throws that the type of the result is unknown.
\<close>

theorem aggregate_of_nothing:
  assumes E: "executor child yields" and start: "start (c, x) = Some (s0, ok ())" and y: "yields s0 []" and n: "0 < n"
    and order: "\<And>es. mset (order es) = mset es" and plan: "group_bys plan = []"
    and t: "set (ap_agg_funcs plan) \<subseteq> {CountFunction, CountStarFunction} \<Longrightarrow>
      new_Tuple (ap_schema plan) (map (\<lambda>f. if f = CountFunction then get_integer_value 0 else get_big_int_value 1) (ap_agg_funcs plan)) = ok t"
  shows "\<exists>s. run_aggregation std_hash order plan schema start child n (c, x) =
    (if set (ap_agg_funcs plan) \<subseteq> {CountFunction, CountStarFunction} then Some ((s, [(t, default_RecordId)]), ok ())
     else Some ((s, []), throw no_null_of_type))"
proof -
  let ?funcs = "ap_agg_funcs plan" and ?put = "\<lambda>y x. x\<lparr>ag_child := y\<rparr>" and ?x = "new_AggregationExecutor plan x"
  let ?e = "([], map nothing_counted ?funcs)"
  obtain c0 y0 where s0: "s0 = (c0, y0)" by (cases s0)
  from executor.next_law [OF E y, of 256] s0 obtain c1 y1 where c1: "child 256 (c0, y0) = Some ((c1, y1), ok ([], False))" by auto
  have start': "on_child ag_child ?put start (c, ?x) = Some ((c0, ?x\<lparr>ag_child := y0\<rparr>), ok ())"
    using start s0 by (simp add: on_child_def new_AggregationExecutor_def)
  have loop: "while_batches (on_child ag_child ?put (child 256)) body (c0, ?x\<lparr>ag_child := y0\<rparr>) = Some ((c1, ?x\<lparr>ag_child := y1\<rparr>), ok ())" for body
    using c1 by (simp add: while_batches.simps [of _ body] on_child_def)
  have insert: "insert_combine std_hash [] (replicate (length ?funcs) (Value_null INVALID)) \<lparr>ht = [], agg_funcs = ?funcs\<rparr> =
      (\<lparr>ht = [?e], agg_funcs = ?funcs\<rparr>, ok ())"
    by (simp add: insert_combine_def update_states_nothing Let_def)
  have "order [?e] = [?e]" using order [of "[?e]"] by (cases "order [?e]") auto
  let ?s = "(c1, ?x\<lparr>ag_child := y1, aht := \<lparr>ht = [?e], agg_funcs = ?funcs\<rparr>, aht_iterator := 0\<rparr>)"
  have init: "aggregation_init std_hash order plan schema start child (c, ?x) = Some (?s, ok ())"
    using start' loop insert plan \<open>order [?e] = [?e]\<close>
    by (simp add: aggregation_init_def new_AggregationExecutor_def on_aht_def)
  show ?thesis
  proof (cases "set ?funcs \<subseteq> {CountFunction, CountStarFunction}")
    case True
    from t [OF True] have "group_row plan ?e = ok (t, default_RecordId)"
      using True new_Tuple_allocated [OF t [OF True]] by (simp add: group_row_def finalize_nothing Tuple_copy_def)
    then have "group_yields plan ?s [(t, default_RecordId)]" by (simp add: group_yields_def)
    from group_output.drain_all [OF this n] init True show ?thesis by (auto simp: run_aggregation_def run_query_def)
  next
    case False
    then have "group_row plan ?e = throw no_null_of_type" by (simp add: group_row_def finalize_nothing)
    moreover obtain k where "n = Suc k" using n by (cases n) auto
    ultimately have "aggregation_next plan n ?s = Some (?s, throw no_null_of_type)" by (simp add: aggregation_next_def)
    then have "drain (aggregation_next plan) n ?s = Some ((?s, []), throw no_null_of_type)"
      by (simp add: drain_def with_local_def while_batches.simps [of "with_local _"])
    then show ?thesis using init False by (auto simp: run_aggregation_def run_query_def)
  qed
qed

text \<open>COUNT, COUNT( * ) over a VALUES without rows.\<close>

definition no_values :: ValuesPlanNode where
  "no_values = \<lparr>vp_schema = tiny_schema, vp_values = []\<rparr>"

definition count_both :: AggregationPlanNode where
  "count_both = \<lparr>ap_schema = [val_column INTEGER, val_column BIGINT], group_bys = [], aggregates = [column_a, column_a],
     ap_agg_funcs = [CountFunction, CountStarFunction]\<rparr>"

lemma count_both_facts:
  "new_Tuple (ap_schema count_both) (map (\<lambda>f. if f = CountFunction then get_integer_value 0 else get_big_int_value 1) (ap_agg_funcs count_both)) =
     ok (tuple_of [0, 0, 0, 0, 0, 1, 0, 0, 0, 0, 0, 0, 0])"
  "set (ap_agg_funcs count_both) \<subseteq> {CountFunction, CountStarFunction}" "values_rows no_values (vp_values no_values) = ok []"
  by code_simp+

lemma aggregate_of_nothing_witness:
  "\<exists>s. run_aggregation (\<lambda>_. 0) rev count_both tiny_schema values_init (values_next no_values) 256 (example_catalog [], 0) =
     Some ((s, [(tuple_of [0, 0, 0, 0, 0, 1, 0, 0, 0, 0, 0, 0, 0], default_RecordId)]), ok ())"
proof -
  have E: "executor (values_next no_values) (values_yields no_values)" by (rule table_values.executor_axioms)
  have start: "values_init (example_catalog [], 0) = Some ((example_catalog [], 0), ok ())" by (simp add: values_init_def)
  have y: "values_yields no_values (example_catalog [], 0) []" by (simp add: values_yields_def count_both_facts)
  have "group_bys count_both = []" by (simp add: count_both_def)
  from aggregate_of_nothing [where start = values_init and c = "example_catalog []" and x = 0 and n = 256 and order = rev
      and std_hash = "\<lambda>_. 0" and schema = tiny_schema, OF E start y _ _ this count_both_facts(1)]
  show ?thesis using count_both_facts(2) by simp
qed

end
