(* ===== verification/Expression_Types.thy ===== *)
theory Expression_Types
  imports ExpressionSemantics
begin

section \<open>The types of expressions\<close>

text \<open>
  Expressions of any column type, as the constructors of include/turtle/execution/expressions build them, and the
  type of the value they evaluate to, over one tuple and over the two tuples of a join.
\<close>

subsection \<open>Types of arithmetic results\<close>

lemma Value_int_type: "Value_int n t i = Value_int m s j \<Longrightarrow> s = t"
  by (simp add: Value_int_def)

lemma arith_value_type:
  "arith_value op n1 n2 l r = ok v \<Longrightarrow> data_type v = (if n1 \<ge> n2 then data_type l else data_type r)"
  by (cases op) (auto simp: add_value_def subtract_value_def multiply_value_def divide_value_def modulo_value_def
      res_bind_eq_Inr Let_def dest: Value_int_type split: if_splits)

lemma integer_operate_null_type:
  assumes "check_integer r"
  shows "tinyint_operate_null l r = ok v \<Longrightarrow> is_null v \<and> check_integer v"
    and "smallint_operate_null l r = ok v \<Longrightarrow> is_null v \<and> check_integer v"
    and "integer_operate_null l r = ok v \<Longrightarrow> is_null v \<and> check_integer v"
    and "bigint_operate_null l r = ok v \<Longrightarrow> is_null v \<and> check_integer v"
  using assms
  by (auto simp: tinyint_operate_null_def smallint_operate_null_def integer_operate_null_def bigint_operate_null_def
      check_integer_def Value_int8_def Value_int16_def Value_int32_def Value_int64_def)

text \<open>Integer arithmetic has the wider type, if no operand is NULL; else the result is a NULL of some integer type.\<close>

lemma integer_arith_type:
  assumes "check_integer l" and "check_integer r" and "Value_arith op l r = ok v"
  shows "if is_null l \<or> is_null r then is_null v \<and> check_integer v
    else get_common_type (data_type l) (data_type r) = ok (data_type v)"
proof (cases "is_null l \<or> is_null r")
  case True
  then show ?thesis using assms integer_operate_null_type [OF assms(2), of l v]
    by (auto simp: check_integer_def [of l] Value_arith_def tinyint_arith_def smallint_arith_def integer_arith_def bigint_arith_def
        res_bind_eq_Inr)
next
  case False
  then have "modify_func 1 TINYINT type_error op l r = ok v \<and> data_type l = TINYINT \<or>
      modify_func 2 SMALLINT type_error op l r = ok v \<and> data_type l = SMALLINT \<or>
      modify_func 4 INTEGER type_error_rt op l r = ok v \<and> data_type l = INTEGER \<or>
      modify_func 8 BIGINT type_error op l r = ok v \<and> data_type l = BIGINT"
    using assms(1,3)
    by (auto simp: check_integer_def [of l] Value_arith_def tinyint_arith_def smallint_arith_def integer_arith_def bigint_arith_def
        res_bind_eq_Inr)
  then have "get_common_type (data_type l) (data_type r) = ok (data_type v)"
    using assms(2) by (auto simp: check_integer_def [of r] modify_func_def get_common_type_def dest!: arith_value_type)
  then show ?thesis using False by simp
qed

lemma decimal_arith_type:
  "data_type l = DECIMAL \<Longrightarrow> Value_arith op l r = ok v \<Longrightarrow> data_type r = DECIMAL \<and> data_type v = DECIMAL"
  by (auto simp: Value_arith_def decimal_arith_def decimal_operate_null_def check_comparable_def check_integer_def assert_that_def
      res_bind_eq_Inr split: if_splits)

lemma integer_with_decimal:
  "check_integer l \<Longrightarrow> data_type r = DECIMAL \<Longrightarrow> Value_arith op l r \<noteq> ok v"
  by (auto simp: check_integer_def [of l] Value_arith_def tinyint_arith_def smallint_arith_def integer_arith_def bigint_arith_def
      integer_guard_def check_comparable_def assert_that_def res_bind_eq_Inr check_integer_def [of r] split: if_splits)

subsection \<open>Values read from a tuple\<close>

lemma Value_deserialize_type: "Value_deserialize storage t = ok v \<Longrightarrow> data_type v = t"
  by (cases t) (auto simp: Value_deserialize_def boolean_deserialize_def integer_deserialize_def tinyint_deserialize_def
      smallint_deserialize_def bigint_deserialize_def decimal_deserialize_def varchar_deserialize_def timestamp_deserialize_def
      Value_int8_def Value_int16_def Value_int32_def Value_int64_def Value_chars_def res_bind_eq_Inr
      split: if_splits option.splits)

lemma tuple_value_type: "tuple_value schema i t = ok v \<Longrightarrow> data_type v = col_type (schema ! i)"
  by (auto simp: tuple_value_def res_bind_eq_Inr dest: Value_deserialize_type split: if_splits)

subsection \<open>Type preservation\<close>

text \<open>The expressions that the constructors build over the columns of two schemas; the first has tuple index 0.\<close>

inductive built :: "ColumnSchema \<Rightarrow> ColumnSchema \<Rightarrow> Expression \<Rightarrow> bool" for ls rs where
  built_left: "i < length ls \<Longrightarrow> built ls rs (new_ColumnValueExpression 0 i (ls ! i))"
| built_right: "i < length rs \<Longrightarrow> 0 < k \<Longrightarrow> built ls rs (new_ColumnValueExpression k i (rs ! i))"
| built_constant: "new_ConstantValueExpression v = ok e \<Longrightarrow> built ls rs e"
| built_arithmetic: "built ls rs l \<Longrightarrow> built ls rs r \<Longrightarrow> new_ArithmeticExpression l r op = ok e \<Longrightarrow> built ls rs e"
| built_comparison: "built ls rs l \<Longrightarrow> built ls rs r \<Longrightarrow> built ls rs (new_ComparisonExpression l r cmp)"
| built_logic: "built ls rs l \<Longrightarrow> built ls rs r \<Longrightarrow> new_LogicExpression l r lt = ok e \<Longrightarrow> built ls rs e"

text \<open>A value of a type; a NULL may have another integer type.\<close>

definition of_type :: "DataType \<Rightarrow> Value \<Rightarrow> bool" where
  "of_type t v \<longleftrightarrow> data_type v = t \<or> is_null v \<and> check_integer v \<and> int_type t"

lemma int_type_common:
  assumes "is_numeric t1" and "is_numeric t2" and "get_common_type t1 t2 = ok t"
  shows "int_type t1 \<and> int_type t2 \<and> int_type t \<or> (t1 = DECIMAL \<or> t2 = DECIMAL) \<and> t = DECIMAL"
  using assms by (auto simp: is_numeric_def int_type_def get_common_type_def)

lemma of_type_int: "of_type t v \<Longrightarrow> int_type t \<Longrightarrow> check_integer v"
  by (auto simp: of_type_def int_type_def check_integer_def)

lemma arith_of_type:
  assumes l: "of_type t1 l" and r: "of_type t2 r" and num: "is_numeric t1" "is_numeric t2"
    and t: "get_common_type t1 t2 = ok t" and v: "Value_arith op l r = ok v"
  shows "of_type t v"
proof -
  consider "int_type t1" "int_type t2" "int_type t" | "t1 = DECIMAL" "t = DECIMAL" | "int_type t1" "t2 = DECIMAL"
    using int_type_common [OF num t] num by (auto simp: is_numeric_def int_type_def)
  then show ?thesis
  proof cases
    case 1
    then show ?thesis using integer_arith_type [OF _ _ v] of_type_int [OF l] of_type_int [OF r] l r t
      by (auto simp: of_type_def split: if_splits)
  next
    case 2
    then show ?thesis using decimal_arith_type [OF _ v] l by (auto simp: of_type_def int_type_def)
  next
    case 3
    then show ?thesis using integer_with_decimal [of l r op v] of_type_int [OF l] r v by (auto simp: of_type_def int_type_def)
  qed
qed

lemma combine_of_type:
  assumes "built ls rs e" and "expr_node e = n" and "get_children e = [a, b]"
    and "of_type (col_type (get_return_type a)) x" and "of_type (col_type (get_return_type b)) y" and "combine n x y = ok v"
  shows "of_type (col_type (get_return_type e)) v"
  using assms(1)
proof cases
  case (built_arithmetic l r op)
  then obtain t where t: "infer_return_type l r = ok t" "e = Expression (ArithmeticExpression op) [l, r] (val_column t)"
    by (auto simp: new_ArithmeticExpression_def res_bind_eq_Inr)
  have n: "is_numeric (col_type (get_return_type l))" "is_numeric (col_type (get_return_type r))"
    "get_common_type (col_type (get_return_type l)) (col_type (get_return_type r)) = ok t"
    using t(1) by (auto simp: infer_return_type_def Let_def split: if_splits)
  obtain aop where "Value_arith aop x y = ok v"
    using assms(2,6) t(2) by (cases op) (auto simp: combine_def perform_arithmetic_def)
  then show ?thesis using arith_of_type [OF _ _ n] assms(3-5) t(2) by (auto simp: val_column_def)
qed (use assms in \<open>auto simp: new_ColumnValueExpression_def new_ConstantValueExpression_def new_ComparisonExpression_def new_LogicExpression_def
    combine_def of_type_def val_column_def get_boolean_value_cmp_def res_bind_eq_Inr Value_int8_def split: if_splits\<close>)


text \<open>The sum of an INTEGER and a SMALLINT column is an INTEGER.\<close>

definition sample_sum :: Expression where
  "sample_sum = Expression (ArithmeticExpression Addition)
     [new_ColumnValueExpression 0 0 \<lparr>col_name = ''a'', col_type = INTEGER, col_length = 4\<rparr>,
      new_ColumnValueExpression 1 0 \<lparr>col_name = ''b'', col_type = SMALLINT, col_length = 2\<rparr>] (val_column INTEGER)"


end
