(* ===== verification/Plans.thy ===== *)
theory Plans
  imports Executor Aggregation
begin

section \<open>Plan nodes\<close>

text \<open>
  include/turtle/execution/plans. A plan is a node with its own data, its children and its output schema, which is what
  AbstractPlanNode holds; the classes are the constructors of \<open>PlanNode\<close>. The executors read the fields through
  records of their own (Executor, Aggregation); here are the tree, the checked access to the child, the copy with other
  children, and the text of a plan. An expression is a shared pointer, None is null.

  children_to_string is declared in abstract_plan.hpp and defined nowhere: it is an argument.
\<close>

datatype PlanType =
    PlanType_SeqScan | PlanType_IndexScan | PlanType_Insert | PlanType_Update | PlanType_Delete | PlanType_Aggregation
  | PlanType_Limit | PlanType_NestedLoopJoin | PlanType_NestedIndexJoin | PlanType_HashJoin | PlanType_Filter
  | PlanType_Values | PlanType_Projection | PlanType_Sort | PlanType_TopN | PlanType_TopNPerGroup | PlanType_MockScan
  | PlanType_InitCheck | PlanType_Window

type_synonym ExpressionRef = "Expression option"

datatype PlanNode =
    SeqScanPlan TableOid string ExpressionRef
  | ValuesPlan "ExpressionRef list list"
  | InsertPlan TableOid
  | DeletePlan TableOid
  | UpdatePlan TableOid "ExpressionRef list"
  | FilterPlan ExpressionRef
  | ProjectionPlan "ExpressionRef list"
  | SortPlan "(OrderByType \<times> OrderByNullType \<times> ExpressionRef) list"
  | LimitPlan nat
  | AggregationPlan "ExpressionRef list" "ExpressionRef list" "AggregateFunction list"

datatype Plan = Plan (plan_node: PlanNode) (plan_children: "Plan list") (plan_output_schema: ColumnSchema)

subsection \<open>Constructors\<close>

definition new_SeqScanPlanNode :: "ColumnSchema \<Rightarrow> TableOid \<Rightarrow> string \<Rightarrow> ExpressionRef \<Rightarrow> Plan" where
  "new_SeqScanPlanNode schema oid name predicate = Plan (SeqScanPlan oid name predicate) [] schema"

definition new_ValuesPlanNode :: "ColumnSchema \<Rightarrow> ExpressionRef list list \<Rightarrow> Plan" where
  "new_ValuesPlanNode schema rows = Plan (ValuesPlan rows) [] schema"

definition new_InsertPlanNode :: "ColumnSchema \<Rightarrow> Plan \<Rightarrow> TableOid \<Rightarrow> Plan" where
  "new_InsertPlanNode schema child oid = Plan (InsertPlan oid) [child] schema"

definition new_DeletePlanNode :: "ColumnSchema \<Rightarrow> Plan \<Rightarrow> TableOid \<Rightarrow> Plan" where
  "new_DeletePlanNode schema child oid = Plan (DeletePlan oid) [child] schema"

definition new_UpdatePlanNode :: "ColumnSchema \<Rightarrow> Plan \<Rightarrow> TableOid \<Rightarrow> ExpressionRef list \<Rightarrow> Plan" where
  "new_UpdatePlanNode schema child oid targets = Plan (UpdatePlan oid targets) [child] schema"

definition new_FilterPlanNode :: "ColumnSchema \<Rightarrow> Plan \<Rightarrow> ExpressionRef \<Rightarrow> Plan" where
  "new_FilterPlanNode schema child predicate = Plan (FilterPlan predicate) [child] schema"

definition new_ProjectionPlanNode :: "ColumnSchema \<Rightarrow> Plan \<Rightarrow> ExpressionRef list \<Rightarrow> Plan" where
  "new_ProjectionPlanNode schema child es = Plan (ProjectionPlan es) [child] schema"

definition new_SortPlanNode :: "ColumnSchema \<Rightarrow> Plan \<Rightarrow> (OrderByType \<times> OrderByNullType \<times> ExpressionRef) list \<Rightarrow> Plan" where
  "new_SortPlanNode schema child order_bys = Plan (SortPlan order_bys) [child] schema"

definition new_LimitPlanNode :: "ColumnSchema \<Rightarrow> Plan \<Rightarrow> nat \<Rightarrow> Plan" where
  "new_LimitPlanNode schema child limit = Plan (LimitPlan limit) [child] schema"

definition new_AggregationPlanNode :: "ColumnSchema \<Rightarrow> Plan \<Rightarrow> ExpressionRef list \<Rightarrow> ExpressionRef list \<Rightarrow> AggregateFunction list \<Rightarrow> Plan" where
  "new_AggregationPlanNode schema child gs es fs = Plan (AggregationPlan gs es fs) [child] schema"

subsection \<open>The tree\<close>

fun plan_type :: "PlanNode \<Rightarrow> PlanType" where
  "plan_type (SeqScanPlan _ _ _) = PlanType_SeqScan"
| "plan_type (ValuesPlan _) = PlanType_Values"
| "plan_type (InsertPlan _) = PlanType_Insert"
| "plan_type (DeletePlan _) = PlanType_Delete"
| "plan_type (UpdatePlan _ _) = PlanType_Update"
| "plan_type (FilterPlan _) = PlanType_Filter"
| "plan_type (ProjectionPlan _) = PlanType_Projection"
| "plan_type (SortPlan _) = PlanType_Sort"
| "plan_type (LimitPlan _) = PlanType_Limit"
| "plan_type (AggregationPlan _ _ _) = PlanType_Aggregation"

text \<open>\<open>children_[child_idx]\<close>.\<close>

definition plan_child_at :: "nat \<Rightarrow> Plan \<Rightarrow> Plan res" where
  "plan_child_at i p = (if i < length (plan_children p) then ok (plan_children p ! i)
     else throw (Undefined ''vector index out of range''))"

text \<open>get_child_plan, the same in every class that has it: all but the scan and the values.\<close>

definition get_child_plan :: "Plan \<Rightarrow> Plan res" where
  "get_child_plan p = (if length (plan_children p) = 1 then plan_child_at 0 p else throw Assert_failed)"

text \<open>TURTLE_PLAN_NODE_CLONE_WITH_CHILDREN: a copy of the node with other children, whatever their number.\<close>

definition plan_clone_with_children :: "Plan \<Rightarrow> Plan list \<Rightarrow> Plan" where
  "plan_clone_with_children p children = Plan (plan_node p) children (plan_output_schema p)"

subsection \<open>Text\<close>

text \<open>An expression under a formatter, which prints nothing for a null pointer, and dereferenced.\<close>

definition format_ref :: "ExpressionRef \<Rightarrow> string res" where
  "format_ref r = (case r of None \<Rightarrow> ok '''' | Some e \<Rightarrow> expression_to_string e)"

definition deref_to_string :: "ExpressionRef \<Rightarrow> string res" where
  "deref_to_string r = (case r of None \<Rightarrow> throw (Undefined ''null expression'') | Some e \<Rightarrow> expression_to_string e)"

text \<open>The loops that put a comma before every element but the first.\<close>

fun comma_list :: "('a \<Rightarrow> string res) \<Rightarrow> 'a list \<Rightarrow> string res" where
  "comma_list f [] = ok ''''"
| "comma_list f (x # xs) = res_bind (f x) (\<lambda>s. if xs = [] then ok s
     else res_bind (comma_list f xs) (\<lambda>rest. ok (s @ '', '' @ rest)))"

fun order_text :: "OrderByType \<Rightarrow> string" where
  "order_text ASC = ''ASC''"
| "order_text DEFAULT_ORDER = ''ASC''"
| "order_text DESC = ''DESC''"
| "order_text INVALID_ORDER = ''INVALID''"

definition sort_key_text :: "OrderByType \<times> OrderByNullType \<times> ExpressionRef \<Rightarrow> string res" where
  "sort_key_text k = (case k of (order_type, _, e) \<Rightarrow>
     res_bind (case e of None \<Rightarrow> ok ''null'' | Some e \<Rightarrow> expression_to_string e) (\<lambda>s.
       ok (''('' @ s @ '', '' @ order_text order_type @ '')'')))"

definition oid_text :: "TableOid \<Rightarrow> string" where
  "oid_text oid = int_to_string (int (unat oid))"

definition seq_scan_text :: "string \<Rightarrow> ExpressionRef \<Rightarrow> string res" where
  "seq_scan_text name predicate = (case predicate of
     None \<Rightarrow> ok (''SeqScan { table='' @ name @ '' }'')
   | Some e \<Rightarrow> res_bind (expression_to_string e) (\<lambda>s. ok (''SeqScan { table='' @ name @ '', filter='' @ s @ '' }'')))"

definition values_text :: "ExpressionRef list list \<Rightarrow> string" where
  "values_text rows = ''Values { rows='' @ int_to_string (int (length rows)) @ '' }''"

definition insert_text :: "TableOid \<Rightarrow> string" where
  "insert_text oid = ''Insert { table_oid='' @ oid_text oid @ '' }''"

definition delete_text :: "TableOid \<Rightarrow> string" where
  "delete_text oid = ''Delete { table_oid='' @ oid_text oid @ '' }''"

definition update_text :: "TableOid \<Rightarrow> string" where
  "update_text oid = ''Update { table_oid='' @ oid_text oid @ '' }''"

definition filter_text :: "ExpressionRef \<Rightarrow> string res" where
  "filter_text predicate = res_bind (format_ref predicate) (\<lambda>s. ok (''Filter { predicate='' @ s @ '' }''))"

definition projection_text :: "ExpressionRef list \<Rightarrow> string res" where
  "projection_text es = res_bind (comma_list format_ref es) (\<lambda>s. ok (''Projection { exprs=['' @ s @ ''] }''))"

definition sort_text :: "(OrderByType \<times> OrderByNullType \<times> ExpressionRef) list \<Rightarrow> string res" where
  "sort_text ks = res_bind (comma_list sort_key_text ks) (\<lambda>s. ok (''Sort { order_bys=['' @ s @ ''] }''))"

definition limit_text :: "nat \<Rightarrow> string" where
  "limit_text n = ''Filter { limit='' @ int_to_string (int n) @ '' }''"

definition aggregation_text :: "ExpressionRef list \<Rightarrow> ExpressionRef list \<Rightarrow> string res" where
  "aggregation_text gs es = res_bind (comma_list deref_to_string gs) (\<lambda>g. res_bind (comma_list deref_to_string es) (\<lambda>a.
     ok (''Aggregation { group_bys=['' @ g @ ''], aggregates=['' @ a @ ''] }'')))"

fun plan_node_to_string :: "PlanNode \<Rightarrow> string res" where
  "plan_node_to_string (SeqScanPlan _ name predicate) = seq_scan_text name predicate"
| "plan_node_to_string (ValuesPlan rows) = ok (values_text rows)"
| "plan_node_to_string (InsertPlan oid) = ok (insert_text oid)"
| "plan_node_to_string (DeletePlan oid) = ok (delete_text oid)"
| "plan_node_to_string (UpdatePlan oid _) = ok (update_text oid)"
| "plan_node_to_string (FilterPlan predicate) = filter_text predicate"
| "plan_node_to_string (ProjectionPlan es) = projection_text es"
| "plan_node_to_string (SortPlan ks) = sort_text ks"
| "plan_node_to_string (LimitPlan n) = ok (limit_text n)"
| "plan_node_to_string (AggregationPlan gs es _) = aggregation_text gs es"

definition plan_to_string :: "(Plan \<Rightarrow> nat \<Rightarrow> bool \<Rightarrow> string res) \<Rightarrow> bool \<Rightarrow> Plan \<Rightarrow> string res" where
  "plan_to_string children_to_string with_schema p =
     res_bind (plan_node_to_string (plan_node p)) (\<lambda>s. res_bind (children_to_string p 2 with_schema) (\<lambda>cs.
       ok (if with_schema then s @ '' | '' @ schema_to_string (plan_output_schema p) @ cs else s @ cs)))"

subsection \<open>Properties\<close>

text \<open>A copy has the class, the data and the schema of the node and the given children; copying with its own children changes nothing.\<close>

lemma plan_clone_simps [simp]:
  "plan_node (plan_clone_with_children p cs) = plan_node p"
  "plan_children (plan_clone_with_children p cs) = cs"
  "plan_output_schema (plan_clone_with_children p cs) = plan_output_schema p"
  by (simp_all add: plan_clone_with_children_def)

lemma plan_clone_same: "plan_clone_with_children p (plan_children p) = p"
  by (cases p) (simp add: plan_clone_with_children_def)

text \<open>get_child_plan gives the child of a node with one child, and fails its assertion on every other number.\<close>

lemma get_child_plan_iff: "get_child_plan p = ok c \<longleftrightarrow> plan_children p = [c]"
  by (cases "plan_children p") (auto simp: get_child_plan_def plan_child_at_def)

lemma get_child_plan_fails: "length (plan_children p) \<noteq> 1 \<Longrightarrow> get_child_plan p = throw Assert_failed"
  by (simp add: get_child_plan_def)

text \<open>The comma-separated text of elements that all print.\<close>

lemma comma_list_total:
  "(\<And>y. y \<in> set (x # xs) \<Longrightarrow> f y = ok (g y)) \<Longrightarrow>
    comma_list f (x # xs) = ok (g x @ concat (map (\<lambda>y. '', '' @ g y) xs))"
proof (induction xs arbitrary: x)
  case (Cons y xs)
  have "comma_list f (y # xs) = ok (g y @ concat (map (\<lambda>y. '', '' @ g y) xs))" using Cons.prems by (intro Cons.IH) simp
  then show ?case using Cons.prems [of x] by simp
qed simp

text \<open>A node throws no other error than its expressions do: with non-null expressions that print, it prints.\<close>

fun plan_expressions :: "PlanNode \<Rightarrow> ExpressionRef list" where
  "plan_expressions (SeqScanPlan _ _ predicate) = [predicate]"
| "plan_expressions (FilterPlan predicate) = [predicate]"
| "plan_expressions (ProjectionPlan es) = es"
| "plan_expressions (SortPlan ks) = map (snd \<circ> snd) ks"
| "plan_expressions (AggregationPlan gs es _) = gs @ es"
| "plan_expressions _ = []"

lemma comma_list_prints: "(\<And>x. x \<in> set xs \<Longrightarrow> \<exists>s. f x = ok s) \<Longrightarrow> \<exists>s. comma_list f xs = ok s"
proof (induction xs)
  case (Cons x xs)
  then obtain s rest where "f x = ok s" "comma_list f xs = ok rest" by (meson list.set_intros)
  then show ?case by simp
qed simp

theorem plan_node_prints:
  assumes "\<And>r. r \<in> set (plan_expressions n) \<Longrightarrow> (r = None \<longrightarrow> plan_type n \<noteq> PlanType_Aggregation) \<and>
      (\<forall>e. r = Some e \<longrightarrow> (\<exists>s. expression_to_string e = ok s))"
  shows "\<exists>s. plan_node_to_string n = ok s"
proof -
  have total: "\<exists>s. format_ref r = ok s" "plan_type n = PlanType_Aggregation \<Longrightarrow> \<exists>s. deref_to_string r = ok s"
    if "r \<in> set (plan_expressions n)" for r
    using assms [OF that] by (cases r; simp add: format_ref_def deref_to_string_def)+
  show ?thesis
  proof (cases n)
    case (SeqScanPlan oid name r)
    then show ?thesis using assms [of r] by (cases r) (auto simp: seq_scan_text_def)
  next
    case (FilterPlan r)
    then show ?thesis using total(1) [of r] by (auto simp: filter_text_def)
  next
    case (ProjectionPlan es)
    then show ?thesis using comma_list_prints [of es format_ref] total(1) by (auto simp: projection_text_def)
  next
    case (SortPlan ks)
    have "\<exists>s. sort_key_text k = ok s" if "k \<in> set ks" for k
    proof -
      obtain a b r where k: "k = (a, b, r)" by (cases k) auto
      have "r \<in> set (plan_expressions n)" using that k SortPlan by force
      from assms [OF this] obtain s where "(case r of None \<Rightarrow> ok ''null'' | Some e \<Rightarrow> expression_to_string e) = ok s" by (cases r) auto
      then show ?thesis by (simp add: sort_key_text_def k)
    qed
    then show ?thesis using SortPlan comma_list_prints [of ks sort_key_text] by (auto simp: sort_text_def)
  next
    case (AggregationPlan gs es fs)
    then have "\<exists>s. comma_list deref_to_string gs = ok s" "\<exists>s. comma_list deref_to_string es = ok s"
      using total(2) by (auto intro!: comma_list_prints)
    then show ?thesis using AggregationPlan by (auto simp: aggregation_text_def)
  qed auto
qed

end
