(* ===== verification/Logger.thy ===== *)
theory Logger
  imports Binary64
begin

section \<open>Log lines\<close>

text \<open>
  include/turtle/common/logger.hpp. A LOG macro writes a header and a message to stdout when its level is enabled; here the
  text that it writes is the value. What printf makes of the message's arguments, the file, the line and the
  function are arguments, and so is the text of the current time.
\<close>

subsection \<open>Levels\<close>

definition LOG_LEVEL_OFF :: nat where "LOG_LEVEL_OFF = 1000"
definition LOG_LEVEL_ERROR :: nat where "LOG_LEVEL_ERROR = 500"
definition LOG_LEVEL_WARN :: nat where "LOG_LEVEL_WARN = 400"
definition LOG_LEVEL_INFO :: nat where "LOG_LEVEL_INFO = 300"
definition LOG_LEVEL_DEBUG :: nat where "LOG_LEVEL_DEBUG = 200"
definition LOG_LEVEL_TRACE :: nat where "LOG_LEVEL_TRACE = 100"
definition LOG_LEVEL_ALL :: nat where "LOG_LEVEL_ALL = 0"

lemmas log_levels = LOG_LEVEL_OFF_def LOG_LEVEL_ERROR_def LOG_LEVEL_WARN_def LOG_LEVEL_INFO_def LOG_LEVEL_DEBUG_def
  LOG_LEVEL_TRACE_def LOG_LEVEL_ALL_def

text \<open>LOG_LEVEL: what the compiler was given, else a default that depends on NDEBUG.\<close>

definition log_level :: "nat option \<Rightarrow> bool \<Rightarrow> nat" where
  "log_level given ndebug = (case given of Some l \<Rightarrow> l
     | None \<Rightarrow> if \<not> ndebug then LOG_LEVEL_DEBUG else LOG_LEVEL_INFO)"

subsection \<open>The header of a line\<close>

fun pas_last_slash_from :: "string \<Rightarrow> string \<Rightarrow> string" where
  "pas_last_slash_from [] b = b"
| "pas_last_slash_from (c # a) b = (if c = CHR ''/'' then pas_last_slash_from a a else pas_last_slash_from a b)"

definition pas_last_slash :: "string \<Rightarrow> string" where
  "pas_last_slash a = pas_last_slash_from a a"

definition level_text :: "nat \<Rightarrow> string" where
  "level_text level =
     (if level = LOG_LEVEL_ERROR then ''ERROR''
      else if level = LOG_LEVEL_WARN then ''WARN ''
      else if level = LOG_LEVEL_INFO then ''INFO ''
      else if level = LOG_LEVEL_DEBUG then ''DEBUG''
      else if level = LOG_LEVEL_TRACE then ''TRACE''
      else ''UNKWN'')"

definition output_log_header :: "string \<Rightarrow> string \<Rightarrow> int \<Rightarrow> string \<Rightarrow> nat \<Rightarrow> string" where
  "output_log_header time_str file_name line func level =
     time_str @ '' ['' @ file_name @ '':'' @ int_to_string line @ '':'' @ func @ ''] '' @ level_text level @ '' - ''"

subsection \<open>The macros\<close>

text \<open>LOG_ERROR, LOG_WARN, LOG_INFO, LOG_DEBUG and LOG_TRACE differ in the level only.\<close>

definition log_line :: "nat \<Rightarrow> nat \<Rightarrow> string \<Rightarrow> string \<Rightarrow> int \<Rightarrow> string \<Rightarrow> string \<Rightarrow> string" where
  "log_line configured level time_str path line func message =
     (if configured \<le> level
      then output_log_header time_str (pas_last_slash path) line func level @ message @ [CHR 0x0A]
      else '''')"

definition LOG_ERROR :: "nat \<Rightarrow> string \<Rightarrow> string \<Rightarrow> int \<Rightarrow> string \<Rightarrow> string \<Rightarrow> string" where
  "LOG_ERROR configured = log_line configured LOG_LEVEL_ERROR"
definition LOG_WARN :: "nat \<Rightarrow> string \<Rightarrow> string \<Rightarrow> int \<Rightarrow> string \<Rightarrow> string \<Rightarrow> string" where
  "LOG_WARN configured = log_line configured LOG_LEVEL_WARN"
definition LOG_INFO :: "nat \<Rightarrow> string \<Rightarrow> string \<Rightarrow> int \<Rightarrow> string \<Rightarrow> string \<Rightarrow> string" where
  "LOG_INFO configured = log_line configured LOG_LEVEL_INFO"
definition LOG_DEBUG :: "nat \<Rightarrow> string \<Rightarrow> string \<Rightarrow> int \<Rightarrow> string \<Rightarrow> string \<Rightarrow> string" where
  "LOG_DEBUG configured = log_line configured LOG_LEVEL_DEBUG"
definition LOG_TRACE :: "nat \<Rightarrow> string \<Rightarrow> string \<Rightarrow> int \<Rightarrow> string \<Rightarrow> string \<Rightarrow> string" where
  "LOG_TRACE configured = log_line configured LOG_LEVEL_TRACE"

lemmas log_macros = LOG_ERROR_def LOG_WARN_def LOG_INFO_def LOG_DEBUG_def LOG_TRACE_def

subsection \<open>Properties\<close>

text \<open>The name of a file is what follows the last slash of its path.\<close>

lemma pas_last_slash_from_dir:
  "pas_last_slash_from (dir @ CHR ''/'' # name) b = pas_last_slash_from name name"
  by (induction dir arbitrary: b) auto

lemma pas_last_slash_from_name: "CHR ''/'' \<notin> set name \<Longrightarrow> pas_last_slash_from name b = b"
  by (induction name) auto

theorem pas_last_slash_is_base_name: "pas_last_slash a = rev (takeWhile (\<lambda>c. c \<noteq> CHR ''/'') (rev a))"
proof (cases "CHR ''/'' \<in> set a")
  case True
  then obtain dir name where a: "a = dir @ CHR ''/'' # name" "CHR ''/'' \<notin> set name" by (meson split_list_last)
  have "takeWhile (\<lambda>c. c \<noteq> CHR ''/'') (rev name @ CHR ''/'' # rev dir) = rev name"
    using a(2) by (subst takeWhile_append2) auto
  then show ?thesis using a(2) by (simp add: pas_last_slash_def a(1) pas_last_slash_from_dir pas_last_slash_from_name)
next
  case False
  then have "\<forall>c \<in> set (rev a). c \<noteq> CHR ''/''" by auto
  then have "takeWhile (\<lambda>c. c \<noteq> CHR ''/'') (rev a) = rev a" by (simp only: takeWhile_eq_all_conv)
  then show ?thesis by (simp only: pas_last_slash_def pas_last_slash_from_name [OF False] rev_rev_ident)
qed

text \<open>A build that does not set LOG_LEVEL writes every line but those of LOG_TRACE, and with NDEBUG not those of LOG_DEBUG.\<close>

theorem default_log_levels:
  "LOG_TRACE (log_level None ndebug) t path line func message = []"
  "LOG_DEBUG (log_level None ndebug) t path line func message = [] \<longleftrightarrow> ndebug"
  "LOG_INFO (log_level None ndebug) t path line func message \<noteq> []"
  "LOG_WARN (log_level None ndebug) t path line func message \<noteq> []"
  "LOG_ERROR (log_level None ndebug) t path line func message \<noteq> []"
  by (simp_all add: log_macros log_line_def log_level_def log_levels)

end
