(* ===== verification/Transactions.thy ===== *)
theory Transactions
  imports Tuple
begin

section \<open>Undo links and undo logs\<close>

text \<open>
  include/turtle/concurrency/transaction.hpp: the data of multi-version concurrency control, with the operations it
  has; the transaction manager itself is declared and nothing in the program uses it.
\<close>

type_synonym TxnId = u64
type_synonym TimestampT = "64 word"

definition INVALID_TXN_ID :: TxnId where "INVALID_TXN_ID = - 1"

definition INVALID_TS :: TimestampT where "INVALID_TS = - 1"

datatype TransactionState = RUNNING | TAINTED | COMMITED | ABORTED

datatype IsolationLevel = READ_UNCOMMITTED | SNAPSHOT_ISOLATION | SERIALIZE

text \<open>The numbers of the enumerators: ABORTED continues from COMMITED.\<close>

fun TransactionState_number :: "TransactionState \<Rightarrow> int" where
  "TransactionState_number RUNNING = 0"
| "TransactionState_number TAINTED = 1"
| "TransactionState_number COMMITED = 100"
| "TransactionState_number ABORTED = 101"

record UndoLink =
  prev_txn :: TxnId
  prev_log_idx :: "32 word"

definition default_UndoLink :: UndoLink where
  "default_UndoLink = \<lparr>prev_txn = INVALID_TXN_ID, prev_log_idx = 0\<rparr>"

definition UndoLink_eq :: "UndoLink \<Rightarrow> UndoLink \<Rightarrow> bool" where
  "UndoLink_eq a b \<longleftrightarrow> prev_txn a = prev_txn b \<and> prev_log_idx a = prev_log_idx b"

definition UndoLink_ne :: "UndoLink \<Rightarrow> UndoLink \<Rightarrow> bool" where
  "UndoLink_ne a b \<longleftrightarrow> \<not> UndoLink_eq a b"

definition UndoLink_is_valid :: "UndoLink \<Rightarrow> bool" where
  "UndoLink_is_valid l \<longleftrightarrow> prev_txn l \<noteq> INVALID_TXN_ID"

text \<open>A log with the members that have no initializer given, the others at their defaults.\<close>

record UndoLog =
  is_deleted :: bool
  modified_fields :: "bool list"
  undo_tuple :: Tuple
  undo_ts :: TimestampT
  prev_version :: UndoLink

definition new_UndoLog :: "bool \<Rightarrow> bool list \<Rightarrow> Tuple \<Rightarrow> UndoLog" where
  "new_UndoLog deleted mods t = \<lparr>is_deleted = deleted, modified_fields = mods, undo_tuple = t, undo_ts = INVALID_TS,
     prev_version = default_UndoLink\<rparr>"

text \<open>The comparison decides identity, and a new log is the end of its chain.\<close>

lemma UndoLink_eq_iff: "UndoLink_eq a b \<longleftrightarrow> a = b"
  by (auto simp: UndoLink_eq_def)

lemma new_UndoLog_ends: "\<not> UndoLink_is_valid (prev_version (new_UndoLog deleted mods t))"
  by (simp add: new_UndoLog_def default_UndoLink_def UndoLink_is_valid_def)

lemma TransactionState_number_inj: "TransactionState_number s = TransactionState_number s' \<Longrightarrow> s = s'"
  by (cases s; cases s') simp_all

end
