(* ===== verification/Spec2Isabelle.thy ===== *)
theory Spec2Isabelle
  imports LruReplacer BufferPool_Steps SlottedPage_Store Sort_Properties Update_Properties Demo_Properties Aggregation_Properties Expression_Types
    Plans Logger Transactions
begin

section \<open>turtle-db\<close>

text \<open>
  A verification library of turtle-db, a disk-oriented relational database in C++. Paths are relative to the
  repository's src directory.

  \<^bold>\<open>The program.\<close> From the bottom up: a disk manager writes 4096-byte pages into files; a buffer pool caches pages in
  frames, pins them for the threads that use them and asks a replacement policy for victims; guards latch a page for
  as long as they live; a slotted page stores payloads of any length under slot numbers; a table heap links slotted pages
  into a list and an iterator walks it; a value is a tagged union, with one class per type for its arithmetic,
  comparison, casts, printing and storage; a tuple is the byte image of a row; an expression tree computes a value from
  tuples; executors pull rows in batches through a tree of scans, filters, projections, sorts, limits, modifications and
  aggregations; the catalog knows databases and tables and keeps itself in files; main runs one demonstration of all of
  this. Components reach the lower ones through pointers; the pool, the disk and the catalog are shared. In the model the
  disk manager is a field of the pool, the pool a field of the catalog, and every operation takes the state it works
  on and returns it changed, on exceptional paths too.

  \<^bold>\<open>How the code is rendered.\<close> Integers are words of their width and wrap as in C++. A function that can fail returns
  an \<open>error\<close> or a result (\<open>res\<close>, \<open>op\<close> in Prelude): the error is a C++ exception, a failed assertion, the end of the
  process, undefined behaviour (reads and writes outside of an object, signed overflow, a null pointer, a missing
  child), or a latch that has to be waited for. Assertions are active, because no build sets NDEBUG. Memory that is read
  through casts is a list of bytes (Bytes). Objects are records and enumerations are datatypes, with the names of
  the source. Virtual methods are dispatched on the type or on the constructor. Loops over containers are structural
  recursions, and loops with a bound recurse on it. The loops that follow page links, pull from a child until it is
  empty, or walk a table (init_pages, find_last, insert_loop, advance_to_valid, filter_loop, while_batches) are
  \<open>partial_function (option)\<close>, where None is a run that does not end: no fuel is chosen, and the theorems state
  that the result is Some.

  \<^bold>\<open>Theories.\<close> Each theory that models code opens with the files it translates.
  \<^item> Prelude, Bytes: outcomes, sequencing, byte images of integers (common/config.hpp, exceptions.hpp, macros.hpp).
  \<^item> SlottedPage (storage/page/slotted_page.cpp); SlottedPage_Contract: the layout invariant, the page as a partial function
    from slots to payloads, one lemma per operation; SlottedPage_Store: the locale \<open>slot_store\<close> that table code relies on,
    interpreted on the page, and the properties of pages.
  \<^item> LruReplacer (buffer/lru_replacer.cpp) with the locale \<open>replacer\<close>; ArcReplacer (buffer/arc_replacer.cpp);
    ArcReplacer_Contract: the invariant of the four ARC lists and the locale \<open>eviction_policy\<close>.
  \<^item> DiskManager (storage/disk/disk_manager.cpp) with the interface of pages on disk.
  \<^item> BufferPool (buffer/buffer_pool_manager.cpp and the two page guards); BufferPool_Contract: the invariant
    \<open>pool_inv\<close> relating pins, latches, the page table, the free list and the policy to the handles that threads hold, and the
    view of page contents; BufferPool_Steps: the step relation \<open>pool_step\<close>, reachability, and the properties of all
    interleavings; Page_Access: what a client sees that reads and writes pages under guards.
  \<^item> TableHeap (storage/table/table_heap.cpp, table_iterator.cpp); Heap_Contract: linked pages, \<open>heap_rows\<close>, the table as
    a partial function from record ids to tuple images; Heap_Scan: lookup, deletion, iterators; Heap_Properties.
  \<^item> Values (datatype/value.cpp), Binary64 (IEEE doubles for DECIMAL), NumericTypes (the four integer classes, decimal),
    TypeInstances and TypeDispatch (the other classes, datatype/type.cpp and the dispatch); IntegerSemantics: the
    locale \<open>integer_class\<close> with its four interpretations, agreement with the mathematical integers; ValueStorage: the
    locale \<open>codec\<close>, round trips of all types; ValueCasts (datatype/value_factory.hpp): parsing of text.
  \<^item> Tuple (catalog/column_schema.hpp, storage/table/tuple.cpp); TupleLayout: columns found again, over the storage interface
    only.
  \<^item> Expressions (execution/expressions); ExpressionSemantics: a reference semantics over integers and Kleene's logic;
    Expression_Types: the type of the value of any expression that the constructors build.
  \<^item> Catalog, Catalog_File (catalog/catalog.cpp, common/util/binary_serializer.cpp); Catalog_Properties: invariant,
    reloading, registration of tables.
  \<^item> Executor (execution/executors); Executor_Contract: the locale \<open>executor\<close>, what a parent relies on when it pulls
    batches, interpreted on values, scan, filter, projection and sort; Scan_Rows, Query_Properties, Sort_Properties,
    Dml_Properties, Insert_Properties, Update_Properties: statements as relations between tables, their rows and the answer.
  \<^item> Aggregation (execution/aggregation, aggregation_executor.cpp); Aggregation_Semantics: aggregate functions against folds
    and sums; Aggregation_Properties: GROUP BY against grouping the rows.
  \<^item> Plans (execution/plans): the tree of plan nodes, copies of nodes and their text; Logger (common/logger.hpp): the lines of
    the LOG macros; Transactions (concurrency/transaction.hpp): the data of undo links and logs. Nothing runs these three.
  \<^item> Demo (main.cpp): the demonstration as a function from the random draws to the text that it prints; Stored_Text: what
    a value still says after it was stored; Demo_Rows: the rows of main and its expressions on them; Demo_Properties: the text
    that main prints on a new database, from the numbers to the screen, through all the layers.

  \<^bold>\<open>What is shown.\<close> For every layer an invariant and its preservation, an abstraction, and the behaviour of each operation
  on the abstraction, errors included. The layers are stacked: the statements about executors rest on the table heap, which
  rests on the pool and on the page, and the example of each statement runs on a table that the model itself
  builds. Where the code does not do what it means to (the order of SORT, LIMIT over few rows, columns after a NULL,
  aggregates of nothing, what a restart loses), the theorem states what the code does.

  \<^bold>\<open>Parameters.\<close> Code that is not in the repository, or that the language leaves open, is an argument: whether the
  system lets a path be opened (\<open>os_permits\<close>), the clock, the string lengths that cannot be allocated, std::stod, std::sort
  (known by its contract, for comparisons that are strict weak orders), std::hash of strings, the order of iteration of
  an unordered_map, and the random draws of main. The theorems hold for all of them, or name the contract they need.

  \<^bold>\<open>Not modelled.\<close> The functions that are declared and defined nowhere (children_to_string of plans, the inference of
  plan schemas, the transaction manager, Tuple::to_string, drop_database); the vector and
  float members of Value, which always throw or are never built; the context object that hands the catalog to the executors;
  the number macros of common/common.hpp, which nothing uses; the parser, index, record and api files, which are empty. Operations of the pool are single steps, because each holds the pool's
  latch from start to end; the scheduler is the choice of the next step. NaN payloads are not kept. The search in the
  free-space map of the table heap stores a page number that nothing reads; it is left out.
\<close>

end
